(* ===== verification/Ros_Prelude.thy ===== *)
theory Ros_Prelude
  imports Main "HOL-Library.Word"
begin

text \<open>
  Shared vocabulary of the development: the fixed-width C types of ReactOS
  (\<^verbatim>\<open>UCHAR\<close>, \<^verbatim>\<open>USHORT\<close>, \<^verbatim>\<open>ULONG\<close>, \<^verbatim>\<open>NTSTATUS\<close>, \<^verbatim>\<open>ACCESS_MASK\<close>), the status codes the
  modelled code returns, the bit-scan intrinsics, and the lemmas on words and lists that
  the component theories share.

  Every C integer is a word of its width.  A C array indexed by \<^verbatim>\<open>ULONG\<close> is a list, and a
  machine address is a natural number.
\<close>

unbundle bit_operations_syntax

section \<open>C types\<close>

type_synonym UCHAR = "8 word"
type_synonym USHORT = "16 word"
type_synonym ULONG = "32 word"
type_synonym ULONGLONG = "64 word"
type_synonym NTSTATUS = "32 word"
type_synonym ACCESS_MASK = "32 word"

section \<open>Status codes\<close>

abbreviation (input) STATUS_SUCCESS :: NTSTATUS where "STATUS_SUCCESS \<equiv> 0"
abbreviation (input) STATUS_NO_MORE_ENTRIES :: NTSTATUS where "STATUS_NO_MORE_ENTRIES \<equiv> 0x8000001A"
abbreviation (input) STATUS_RANGE_NOT_FOUND :: NTSTATUS where "STATUS_RANGE_NOT_FOUND \<equiv> 0xC000028C"
abbreviation (input) STATUS_NOT_IMPLEMENTED :: NTSTATUS where "STATUS_NOT_IMPLEMENTED \<equiv> 0xC0000002"
abbreviation (input) STATUS_INVALID_INFO_CLASS :: NTSTATUS where "STATUS_INVALID_INFO_CLASS \<equiv> 0xC0000003"
abbreviation (input) STATUS_INVALID_PARAMETER :: NTSTATUS where "STATUS_INVALID_PARAMETER \<equiv> 0xC000000D"
abbreviation (input) STATUS_NO_MEMORY :: NTSTATUS where "STATUS_NO_MEMORY \<equiv> 0xC0000017"
abbreviation (input) STATUS_ACCESS_DENIED :: NTSTATUS where "STATUS_ACCESS_DENIED \<equiv> 0xC0000022"
abbreviation (input) STATUS_BUFFER_TOO_SMALL :: NTSTATUS where "STATUS_BUFFER_TOO_SMALL \<equiv> 0xC0000023"
abbreviation (input) STATUS_UNKNOWN_REVISION :: NTSTATUS where "STATUS_UNKNOWN_REVISION \<equiv> 0xC0000058"
abbreviation (input) STATUS_REVISION_MISMATCH :: NTSTATUS where "STATUS_REVISION_MISMATCH \<equiv> 0xC0000059"
abbreviation (input) STATUS_NO_IMPERSONATION_TOKEN :: NTSTATUS
  where "STATUS_NO_IMPERSONATION_TOKEN \<equiv> 0xC000005C"
abbreviation (input) STATUS_PRIVILEGE_NOT_HELD :: NTSTATUS where "STATUS_PRIVILEGE_NOT_HELD \<equiv> 0xC0000061"
abbreviation (input) STATUS_INVALID_ACL :: NTSTATUS where "STATUS_INVALID_ACL \<equiv> 0xC0000077"
abbreviation (input) STATUS_INVALID_SID :: NTSTATUS where "STATUS_INVALID_SID \<equiv> 0xC0000078"
abbreviation (input) STATUS_INVALID_SECURITY_DESCR :: NTSTATUS
  where "STATUS_INVALID_SECURITY_DESCR \<equiv> 0xC0000079"
abbreviation (input) STATUS_ALLOTTED_SPACE_EXCEEDED :: NTSTATUS
  where "STATUS_ALLOTTED_SPACE_EXCEEDED \<equiv> 0xC0000099"
abbreviation (input) STATUS_INSUFFICIENT_RESOURCES :: NTSTATUS
  where "STATUS_INSUFFICIENT_RESOURCES \<equiv> 0xC000009A"
abbreviation (input) STATUS_BAD_IMPERSONATION_LEVEL :: NTSTATUS
  where "STATUS_BAD_IMPERSONATION_LEVEL \<equiv> 0xC00000A5"
abbreviation (input) STATUS_GENERIC_NOT_MAPPED :: NTSTATUS where "STATUS_GENERIC_NOT_MAPPED \<equiv> 0xC00000E6"

text \<open>\<^verbatim>\<open>NT_SUCCESS\<close>: the status, read as a signed \<^verbatim>\<open>LONG\<close>, is not negative.\<close>

definition NT_SUCCESS :: "NTSTATUS \<Rightarrow> bool" where
  "NT_SUCCESS s \<longleftrightarrow> 0 \<le> sint s"

lemma NT_SUCCESS_numeral [simp]:
  "NT_SUCCESS 0" "NT_SUCCESS 1 = (0 \<le> sint (1 :: 32 word))"
  "NT_SUCCESS (numeral n) = (0 \<le> sint (numeral n :: 32 word))"
  by (simp_all add: NT_SUCCESS_def)

section \<open>Rounding macros\<close>

text \<open>The macros of \<^verbatim>\<open>rtlp.h\<close> compute in 32 bits: the mask is built from a \<^verbatim>\<open>ULONG\<close>.\<close>

definition ROUND_DOWN :: "ULONG \<Rightarrow> ULONG \<Rightarrow> ULONG" where
  "ROUND_DOWN n align = n AND NOT (align - 1)"

definition ROUND_UP :: "ULONG \<Rightarrow> ULONG \<Rightarrow> ULONG" where
  "ROUND_UP n align = ROUND_DOWN (n + align - 1) align"

section \<open>Bit-scan intrinsics\<close>

text \<open>
  The compiler intrinsics \<^verbatim>\<open>BitScanForward\<close> and \<^verbatim>\<open>BitScanReverse\<close>: the position of the
  lowest (highest) set bit, or \<^const>\<open>None\<close> for a zero mask (the intrinsic returns 0).
\<close>

definition BitScanForward :: "'a::len word \<Rightarrow> nat option" where
  "BitScanForward v = find (bit v) [0..<LENGTH('a)]"

definition BitScanReverse :: "'a::len word \<Rightarrow> nat option" where
  "BitScanReverse v = find (bit v) (rev [0..<LENGTH('a)])"

lemma find_upt_Some:
  "find P [a..<b] = Some i \<longleftrightarrow> a \<le> i \<and> i < b \<and> P i \<and> (\<forall>j. a \<le> j \<longrightarrow> j < i \<longrightarrow> \<not> P j)"
  (is "?l \<longleftrightarrow> ?r")
proof
  assume ?l
  then obtain k where k: "k < b - a" "P (a + k)" "i = a + k" "\<forall>j<k. \<not> P (a + j)"
    by (auto simp: find_Some_iff)
  moreover have "\<not> P j" if "a \<le> j" "j < i" for j
    using k(3) that k(4) [rule_format, of "j - a"] by simp
  ultimately show ?r by auto
next
  assume ?r
  then show ?l
    by (auto simp: find_Some_iff intro!: exI [of _ "i - a"])
qed

lemma find_rev_upt_Some:
  "find P (rev [0..<b]) = Some i \<longleftrightarrow> i < b \<and> P i \<and> (\<forall>j. i < j \<longrightarrow> j < b \<longrightarrow> \<not> P j)"
  by (induction b) (auto simp: less_Suc_eq)

lemma BitScanForward_None [simp]: "BitScanForward v = None \<longleftrightarrow> v = 0"
  by (auto simp: BitScanForward_def find_None_iff bit_eq_iff dest: bit_imp_le_length)

lemma BitScanReverse_None [simp]: "BitScanReverse v = None \<longleftrightarrow> v = 0"
  by (auto simp: BitScanReverse_def find_None_iff bit_eq_iff dest: bit_imp_le_length)

lemma BitScan_0 [simp]: "BitScanForward 0 = None" "BitScanReverse 0 = None"
  by simp_all

lemma BitScanForward_Some:
  "BitScanForward (v :: 'a::len word) = Some i \<longleftrightarrow> bit v i \<and> (\<forall>j<i. \<not> bit v j)"
  by (auto simp: BitScanForward_def find_upt_Some dest: bit_imp_le_length)

lemma BitScanReverse_Some:
  "BitScanReverse (v :: 'a::len word) = Some i \<longleftrightarrow> bit v i \<and> (\<forall>j>i. \<not> bit v j)"
  by (auto simp: BitScanReverse_def find_rev_upt_Some dest: bit_imp_le_length)

section \<open>32-bit indices as natural numbers\<close>

lemma unat_of_nat_32: "n < 2 ^ 32 \<Longrightarrow> unat (of_nat n :: ULONG) = n"
  by (simp add: unsigned_of_nat take_bit_nat_eq_self)

lemma unat_diff_of_nat_32:
  "b \<le> a \<Longrightarrow> a < 2 ^ 32 \<Longrightarrow> unat (of_nat a - of_nat b :: ULONG) = a - b"
  by (simp add: unat_sub word_le_nat_alt unat_of_nat_32)

lemma unat_32_less: "unat (x :: ULONG) < 4294967296"
  by (rule less_le_trans [OF unsigned_less]) simp

lemma unat_of_nat_16: "n < 65536 \<Longrightarrow> unat (of_nat n :: USHORT) = n"
  by (simp add: unsigned_of_nat take_bit_nat_eq_self)

lemma unat_less_8_16: "unat (x :: UCHAR) < 256" "unat (y :: USHORT) < 65536"
  by (rule less_le_trans [OF unsigned_less], simp)+

lemma unat_ucast_up [simp]:
  "unat (ucast (x :: UCHAR) :: ULONG) = unat x" "unat (ucast (y :: USHORT) :: ULONG) = unat y"
  "unat (ucast (x :: UCHAR) :: USHORT) = unat x"
  using unat_less_8_16(1) [of x] unat_less_8_16(2) [of y]
  by (simp_all add: unsigned_ucast_eq take_bit_nat_eq_self)

lemma unat_ucast_down:
  "unat (x :: ULONG) < 256 \<Longrightarrow> unat (ucast x :: UCHAR) = unat x"
  "unat (x :: ULONG) < 65536 \<Longrightarrow> unat (ucast x :: USHORT) = unat x"
  by (simp_all add: unsigned_ucast_eq take_bit_nat_eq_self)

lemma unat_div_32: "unat ((x :: ULONG) div 32) = unat x div 32"
  by (simp add: unat_div)

lemma unat_and_31 [simp]: "unat ((x :: ULONG) AND 31) = unat x mod 32"
proof -
  have "x AND 31 = take_bit 5 x" by (simp add: take_bit_eq_mask mask_eq_exp_minus_1)
  then show ?thesis by (simp only: unsigned_take_bit_eq) (simp add: take_bit_eq_mod)
qed

lemma round_up_32:
  "x \<le> 32 * ((x + 31) div 32)" "32 * ((x + 31) div 32) < x + (32 :: nat)"
  by presburger+

lemma add_clip:
  fixes a b c :: ULONG
  assumes "a \<le> c" "b \<le> c - a"
  shows "unat (a + b) = unat a + unat b" "a + b \<le> c" "a \<le> a + b"
proof -
  have "unat b \<le> unat c - unat a" using assms by (simp add: word_le_nat_alt unat_sub)
  then have *: "unat a + unat b \<le> unat c" using assms(1) by (simp add: word_le_nat_alt)
  moreover have "unat c < 2 ^ 32" using unsigned_less [of c] by simp
  ultimately show **: "unat (a + b) = unat a + unat b"
    by (simp add: unat_word_ariths)
  show "a + b \<le> c" "a \<le> a + b" using * ** by (simp_all add: word_le_nat_alt)
qed

lemma unat_ROUND_DOWN:
  assumes "k < 32"
  shows "unat (ROUND_DOWN n (2 ^ k)) = unat n - unat n mod 2 ^ k"
proof -
  have "ROUND_DOWN n (2 ^ k) = n AND NOT (mask k)" by (simp add: ROUND_DOWN_def mask_eq_exp_minus_1)
  also have "\<dots> = push_bit k (drop_bit k n)" by (rule bit_word_eqI) (auto simp: bit_simps)
  also have "\<dots> = n - take_bit k n" using bits_ident [of k n] by (simp add: eq_diff_eq)
  finally have "ROUND_DOWN n (2 ^ k) = n - take_bit k n" .
  moreover have "unat (take_bit k n) = unat n mod 2 ^ k" by (simp only: unsigned_take_bit_eq) (simp add: take_bit_eq_mod)
  moreover have "take_bit k n \<le> n" by (simp only: word_le_nat_alt unsigned_take_bit_eq take_bit_nat_less_eq_self)
  ultimately show ?thesis by (simp add: unat_sub)
qed

end
