(* ===== verification/Rtl_Bitmap.thy ===== *)
theory Rtl_Bitmap
  imports Ros_Prelude
begin

text \<open>
  The bitmap package of the run-time library, \<^verbatim>\<open>sdk/lib/rtl/bitmap.c\<close>, in its 32-bit
  instance (\<^verbatim>\<open>_BITCOUNT\<close> is 32, \<^verbatim>\<open>BITMAP_INDEX\<close> and \<^verbatim>\<open>BITMAP_BUFFER\<close> are \<^verbatim>\<open>ULONG\<close>).

  A bitmap header is a record of the size in bits and the array of \<^verbatim>\<open>ULONG\<close>s behind
  \<^verbatim>\<open>Buffer\<close>.  A pointer into the array is the index of the element it points to.  All index
  arithmetic is 32-bit and wraps around as in C.  The first section holds the operations in
  the order of the source; the second relates them to the set of bit positions, and states
  the contract of the two run scanners as a locale that both scanners satisfy.
\<close>

section \<open>The operations of bitmap.c\<close>

record RTL_BITMAP =
  SizeOfBitMap :: ULONG
  Buffer :: "ULONG list"

abbreviation (input) MAXINDEX :: ULONG where "MAXINDEX \<equiv> 0xFFFFFFFF"

subsection \<open>Run scanners\<close>

text \<open>The loop that skips clear (set) \<^verbatim>\<open>ULONG\<close>s up to \<^verbatim>\<open>MaxBuffer\<close>.\<close>

function skip_clear_ulongs :: "ULONG list \<Rightarrow> nat \<Rightarrow> nat \<Rightarrow> ULONG \<Rightarrow> ULONG \<times> nat" where
  "skip_clear_ulongs buf maxb p v =
     (if v = 0 \<and> p < maxb then skip_clear_ulongs buf maxb (Suc p) (buf ! p) else (v, p))"
  by pat_completeness auto
termination
  by (relation "measure (\<lambda>(buf, maxb, p, v). maxb - p)") auto

function skip_set_ulongs :: "ULONG list \<Rightarrow> nat \<Rightarrow> nat \<Rightarrow> ULONG \<Rightarrow> ULONG \<times> nat" where
  "skip_set_ulongs buf maxb p v =
     (if v = 0 \<and> p < maxb then skip_set_ulongs buf maxb (Suc p) (NOT (buf ! p)) else (v, p))"
  by pat_completeness auto
termination
  by (relation "measure (\<lambda>(buf, maxb, p, v). maxb - p)") auto

declare skip_clear_ulongs.simps [simp del] skip_set_ulongs.simps [simp del]

definition RtlpGetLengthOfRunClear :: "RTL_BITMAP \<Rightarrow> ULONG \<Rightarrow> ULONG \<Rightarrow> ULONG" where
  "RtlpGetLengthOfRunClear bm StartingIndex MaxLength =
     (if SizeOfBitMap bm \<le> StartingIndex then 0
      else
        let b0 = unat (StartingIndex div 32);
            BitPos = StartingIndex AND 31;
            MaxLength = min MaxLength (SizeOfBitMap bm - StartingIndex);
            MaxBuffer = b0 + unat ((BitPos + MaxLength + 32 - 1) div 32);
            Value = push_bit (unat BitPos) (drop_bit (unat BitPos) (Buffer bm ! b0));
            (Value, p) = skip_clear_ulongs (Buffer bm) MaxBuffer (Suc b0) Value
        in if Value = 0 then MaxLength
           else
             let BitPos = of_nat (the (BitScanForward Value));
                 Length = of_nat p * 32 - StartingIndex;
                 Length = Length + (BitPos - 32)
             in if Length > SizeOfBitMap bm - StartingIndex
                then SizeOfBitMap bm - StartingIndex else Length)"

definition RtlpGetLengthOfRunSet :: "RTL_BITMAP \<Rightarrow> ULONG \<Rightarrow> ULONG \<Rightarrow> ULONG" where
  "RtlpGetLengthOfRunSet bm StartingIndex MaxLength =
     (if SizeOfBitMap bm \<le> StartingIndex then 0
      else
        let b0 = unat (StartingIndex div 32);
            BitPos = StartingIndex AND 31;
            MaxLength = min MaxLength (SizeOfBitMap bm - StartingIndex);
            MaxBuffer = b0 + unat ((BitPos + MaxLength + 32 - 1) div 32);
            InvValue = push_bit (unat BitPos) (drop_bit (unat BitPos) (NOT (Buffer bm ! b0)));
            (InvValue, p) = skip_set_ulongs (Buffer bm) MaxBuffer (Suc b0) InvValue
        in if InvValue = 0 then MaxLength
           else
             let BitPos = of_nat (the (BitScanForward InvValue));
                 Length = of_nat p * 32 - StartingIndex;
                 Length = Length + (BitPos - 32)
             in if Length > SizeOfBitMap bm - StartingIndex
                then SizeOfBitMap bm - StartingIndex else Length)"

subsection \<open>Significant bits\<close>

text \<open>\<^verbatim>\<open>CCHAR\<close> results are integers; the value for a zero argument is -1.\<close>

definition RtlFindMostSignificantBit :: "64 word \<Rightarrow> int" where
  "RtlFindMostSignificantBit Value =
     (case BitScanReverse (ucast (drop_bit 32 Value) :: ULONG) of
        Some Position \<Rightarrow> int (Position + 32)
      | None \<Rightarrow>
          (case BitScanReverse (ucast Value :: ULONG) of
             Some Position \<Rightarrow> int Position
           | None \<Rightarrow> - 1))"

definition RtlFindMostSignificantBit_amd64 :: "64 word \<Rightarrow> int" where
  "RtlFindMostSignificantBit_amd64 Value =
     (case BitScanReverse Value of Some Position \<Rightarrow> int Position | None \<Rightarrow> - 1)"

definition RtlFindLeastSignificantBit :: "64 word \<Rightarrow> int" where
  "RtlFindLeastSignificantBit Value =
     (case BitScanForward (ucast Value :: ULONG) of
        Some Position \<Rightarrow> int Position
      | None \<Rightarrow>
          (case BitScanForward (ucast (drop_bit 32 Value) :: ULONG) of
             Some Position \<Rightarrow> int (Position + 32)
           | None \<Rightarrow> - 1))"

definition RtlFindLeastSignificantBit_amd64 :: "64 word \<Rightarrow> int" where
  "RtlFindLeastSignificantBit_amd64 Value =
     (case BitScanForward Value of Some Position \<Rightarrow> int Position | None \<Rightarrow> - 1)"

subsection \<open>Writing bits\<close>

text \<open>
  \<^verbatim>\<open>RtlFillMemoryUlong\<close> (\<^verbatim>\<open>sdk/lib/rtl/mem.c\<close>): fills \<^verbatim>\<open>Length / sizeof(ULONG)\<close> elements from
  index \<open>dest\<close> on; \<open>Length\<close> counts bytes.
\<close>

fun fill_ulongs :: "ULONG list \<Rightarrow> nat \<Rightarrow> nat \<Rightarrow> ULONG \<Rightarrow> ULONG list" where
  "fill_ulongs buf dest 0 Fill = buf"
| "fill_ulongs buf dest (Suc Count) Fill = fill_ulongs (buf[dest := Fill]) (Suc dest) Count Fill"

definition RtlFillMemoryUlong :: "ULONG list \<Rightarrow> nat \<Rightarrow> nat \<Rightarrow> ULONG \<Rightarrow> ULONG list" where
  "RtlFillMemoryUlong buf dest Length Fill = fill_ulongs buf dest (Length div 4) Fill"

definition RtlInitializeBitMap :: "ULONG list \<Rightarrow> ULONG \<Rightarrow> RTL_BITMAP" where
  "RtlInitializeBitMap BitMapBuffer Size = \<lparr>SizeOfBitMap = Size, Buffer = BitMapBuffer\<rparr>"

definition RtlClearAllBits :: "RTL_BITMAP \<Rightarrow> RTL_BITMAP" where
  "RtlClearAllBits bm =
     (let LengthInUlongs = (SizeOfBitMap bm + 32 - 1) div 32
      in bm\<lparr>Buffer := RtlFillMemoryUlong (Buffer bm) 0 (unat LengthInUlongs * 4) 0\<rparr>)"

definition RtlSetAllBits :: "RTL_BITMAP \<Rightarrow> RTL_BITMAP" where
  "RtlSetAllBits bm =
     (let LengthInUlongs = (SizeOfBitMap bm + 32 - 1) div 32
      in bm\<lparr>Buffer := RtlFillMemoryUlong (Buffer bm) 0 (unat LengthInUlongs * 4) (NOT 0)\<rparr>)"

definition RtlClearBit :: "RTL_BITMAP \<Rightarrow> ULONG \<Rightarrow> RTL_BITMAP" where
  "RtlClearBit bm BitNumber =
     (let i = unat (BitNumber div 32)
      in bm\<lparr>Buffer := (Buffer bm)[i := Buffer bm ! i AND NOT (push_bit (unat (BitNumber AND 31)) 1)]\<rparr>)"

definition RtlSetBit :: "RTL_BITMAP \<Rightarrow> ULONG \<Rightarrow> RTL_BITMAP" where
  "RtlSetBit bm BitNumber =
     (let i = unat (BitNumber div 32)
      in bm\<lparr>Buffer := (Buffer bm)[i := Buffer bm ! i OR push_bit (unat (BitNumber AND 31)) 1]\<rparr>)"

text \<open>
  \<^verbatim>\<open>RtlClearBits\<close>: the bits left in the first \<^verbatim>\<open>ULONG\<close>, then the full \<^verbatim>\<open>ULONG\<close>s, then the low
  bits of the last one.  The tail of the C function, shared by the aligned and the
  unaligned case, is \<open>clear_bits_tail\<close> (\<open>set_bits_tail\<close>).
\<close>

definition clear_bits_tail :: "ULONG list \<Rightarrow> nat \<Rightarrow> ULONG \<Rightarrow> ULONG list" where
  "clear_bits_tail buf p NumberToClear =
     (let buf = RtlFillMemoryUlong buf p (unat (drop_bit 3 NumberToClear)) 0;
          p = p + unat (NumberToClear div 32);
          NumberToClear = NumberToClear AND 31
      in if NumberToClear \<noteq> 0
         then let Mask = push_bit (unat NumberToClear) MAXINDEX in buf[p := buf ! p AND Mask]
         else buf)"

definition RtlClearBits :: "RTL_BITMAP \<Rightarrow> ULONG \<Rightarrow> ULONG \<Rightarrow> RTL_BITMAP" where
  "RtlClearBits bm StartingIndex NumberToClear =
     (let p = unat (StartingIndex div 32);
          Bits = StartingIndex AND 31;
          buf = Buffer bm
      in if Bits \<noteq> 0 then
           let Mask = push_bit (unat Bits) MAXINDEX;
               Bits = 32 - Bits
           in if NumberToClear < Bits then
                let Bits = Bits - NumberToClear;
                    Mask = drop_bit (unat Bits) (push_bit (unat Bits) Mask)
                in bm\<lparr>Buffer := buf[p := buf ! p AND NOT Mask]\<rparr>
              else
                bm\<lparr>Buffer := clear_bits_tail (buf[p := buf ! p AND NOT Mask]) (Suc p)
                               (NumberToClear - Bits)\<rparr>
         else bm\<lparr>Buffer := clear_bits_tail buf p NumberToClear\<rparr>)"

definition set_bits_tail :: "ULONG list \<Rightarrow> nat \<Rightarrow> ULONG \<Rightarrow> ULONG list" where
  "set_bits_tail buf p NumberToSet =
     (let buf = RtlFillMemoryUlong buf p (unat (drop_bit 3 NumberToSet)) MAXINDEX;
          p = p + unat (NumberToSet div 32);
          NumberToSet = NumberToSet AND 31
      in if NumberToSet \<noteq> 0
         then let Mask = push_bit (unat NumberToSet) MAXINDEX in buf[p := buf ! p OR NOT Mask]
         else buf)"

definition RtlSetBits :: "RTL_BITMAP \<Rightarrow> ULONG \<Rightarrow> ULONG \<Rightarrow> RTL_BITMAP" where
  "RtlSetBits bm StartingIndex NumberToSet =
     (let p = unat (StartingIndex div 32);
          Bits = StartingIndex AND 31;
          buf = Buffer bm
      in if Bits \<noteq> 0 then
           let Mask = push_bit (unat Bits) MAXINDEX;
               Bits = 32 - Bits
           in if NumberToSet < Bits then
                let Bits = Bits - NumberToSet;
                    Mask = drop_bit (unat Bits) (push_bit (unat Bits) Mask)
                in bm\<lparr>Buffer := buf[p := buf ! p OR Mask]\<rparr>
              else
                bm\<lparr>Buffer := set_bits_tail (buf[p := buf ! p OR Mask]) (Suc p)
                               (NumberToSet - Bits)\<rparr>
         else bm\<lparr>Buffer := set_bits_tail buf p NumberToSet\<rparr>)"

subsection \<open>Testing and counting bits\<close>

definition RtlTestBit :: "RTL_BITMAP \<Rightarrow> ULONG \<Rightarrow> bool" where
  "RtlTestBit bm BitNumber =
     (drop_bit (unat (BitNumber AND 31)) (Buffer bm ! unat (BitNumber div 32)) AND 1 \<noteq> 0)"

definition RtlAreBitsClear :: "RTL_BITMAP \<Rightarrow> ULONG \<Rightarrow> ULONG \<Rightarrow> bool" where
  "RtlAreBitsClear bm StartingIndex Length =
     (if StartingIndex + Length > SizeOfBitMap bm \<or> StartingIndex + Length \<le> StartingIndex
      then False
      else RtlpGetLengthOfRunClear bm StartingIndex Length \<ge> Length)"

definition RtlAreBitsSet :: "RTL_BITMAP \<Rightarrow> ULONG \<Rightarrow> ULONG \<Rightarrow> bool" where
  "RtlAreBitsSet bm StartingIndex Length =
     (if StartingIndex + Length > SizeOfBitMap bm \<or> StartingIndex + Length \<le> StartingIndex
      then False
      else RtlpGetLengthOfRunSet bm StartingIndex Length \<ge> Length)"

definition BitCountTable :: "nat list" where
  "BitCountTable =
    [0, 1, 1, 2, 1, 2, 2, 3, 1, 2, 2, 3, 2, 3, 3, 4,
     1, 2, 2, 3, 2, 3, 3, 4, 2, 3, 3, 4, 3, 4, 4, 5,
     1, 2, 2, 3, 2, 3, 3, 4, 2, 3, 3, 4, 3, 4, 4, 5,
     2, 3, 3, 4, 3, 4, 4, 5, 3, 4, 4, 5, 4, 5, 5, 6,
     1, 2, 2, 3, 2, 3, 3, 4, 2, 3, 3, 4, 3, 4, 4, 5,
     2, 3, 3, 4, 3, 4, 4, 5, 3, 4, 4, 5, 4, 5, 5, 6,
     2, 3, 3, 4, 3, 4, 4, 5, 3, 4, 4, 5, 4, 5, 5, 6,
     3, 4, 4, 5, 4, 5, 5, 6, 4, 5, 5, 6, 5, 6, 6, 7,
     1, 2, 2, 3, 2, 3, 3, 4, 2, 3, 3, 4, 3, 4, 4, 5,
     2, 3, 3, 4, 3, 4, 4, 5, 3, 4, 4, 5, 4, 5, 5, 6,
     2, 3, 3, 4, 3, 4, 4, 5, 3, 4, 4, 5, 4, 5, 5, 6,
     3, 4, 4, 5, 4, 5, 5, 6, 4, 5, 5, 6, 5, 6, 6, 7,
     2, 3, 3, 4, 3, 4, 4, 5, 3, 4, 4, 5, 4, 5, 5, 6,
     3, 4, 4, 5, 4, 5, 5, 6, 4, 5, 5, 6, 5, 6, 6, 7,
     3, 4, 4, 5, 4, 5, 5, 6, 4, 5, 5, 6, 5, 6, 6, 7,
     4, 5, 5, 6, 5, 6, 6, 7, 5, 6, 6, 7, 6, 7, 7, 8]"

text \<open>The byte at offset \<open>k\<close> of an array of \<^verbatim>\<open>ULONG\<close>s in little-endian memory.\<close>

definition ulong_byte :: "ULONG list \<Rightarrow> nat \<Rightarrow> UCHAR" where
  "ulong_byte buf k = ucast (drop_bit (8 * (k mod 4)) (buf ! (k div 4)))"

fun count_bytes :: "ULONG list \<Rightarrow> nat \<Rightarrow> nat \<Rightarrow> ULONG \<Rightarrow> ULONG" where
  "count_bytes buf Byte 0 BitCount = BitCount"
| "count_bytes buf Byte (Suc n) BitCount =
     count_bytes buf (Suc Byte) n (BitCount + of_nat (BitCountTable ! unat (ulong_byte buf Byte)))"

definition RtlNumberOfSetBits :: "RTL_BITMAP \<Rightarrow> ULONG" where
  "RtlNumberOfSetBits bm =
     (let MaxByte = unat (SizeOfBitMap bm div 8);
          BitCount = count_bytes (Buffer bm) 0 MaxByte 0
      in if SizeOfBitMap bm AND 7 \<noteq> 0
         then let Shift = 8 - (SizeOfBitMap bm AND 7);
                  Byte = ucast (ulong_byte (Buffer bm) MaxByte) :: ULONG
              in BitCount + of_nat (BitCountTable ! unat (push_bit (unat Shift) Byte AND 0xFF))
         else BitCount)"

definition RtlNumberOfClearBits :: "RTL_BITMAP \<Rightarrow> ULONG" where
  "RtlNumberOfClearBits bm = SizeOfBitMap bm - RtlNumberOfSetBits bm"

subsection \<open>Searching for runs of a given length\<close>

text \<open>
  The search loop of \<^verbatim>\<open>RtlFindClearBits\<close> (\<^verbatim>\<open>RtlFindSetBits\<close>).  The result \<^const>\<open>None\<close> is a loop
  that never ends, which 32-bit wrap-around of \<^verbatim>\<open>CurrentBit + NumberToFind\<close> makes possible;
  \<open>Some None\<close> is the loop left without a result.
\<close>

partial_function (option) find_clear_loop ::
  "RTL_BITMAP \<Rightarrow> ULONG \<Rightarrow> ULONG \<Rightarrow> ULONG \<Rightarrow> ULONG option option" where
  "find_clear_loop bm NumberToFind Margin CurrentBit =
     (if CurrentBit + NumberToFind < Margin then
        let CurrentBit = CurrentBit + RtlpGetLengthOfRunSet bm CurrentBit MAXINDEX;
            CurrentLength = RtlpGetLengthOfRunClear bm CurrentBit NumberToFind
        in if CurrentLength \<ge> NumberToFind then Some (Some CurrentBit)
           else find_clear_loop bm NumberToFind Margin (CurrentBit + CurrentLength)
      else Some None)"

partial_function (option) find_set_loop ::
  "RTL_BITMAP \<Rightarrow> ULONG \<Rightarrow> ULONG \<Rightarrow> ULONG \<Rightarrow> ULONG option option" where
  "find_set_loop bm NumberToFind Margin CurrentBit =
     (if CurrentBit + NumberToFind \<le> Margin then
        let CurrentBit = CurrentBit + RtlpGetLengthOfRunClear bm CurrentBit MAXINDEX;
            CurrentLength = RtlpGetLengthOfRunSet bm CurrentBit NumberToFind
        in if CurrentLength \<ge> NumberToFind then Some (Some CurrentBit)
           else find_set_loop bm NumberToFind Margin (CurrentBit + CurrentLength)
      else Some None)"

text \<open>
  The two passes of the search: from the hint to the end and, when the hint is not 0, from
  the start to the hint (label \<^verbatim>\<open>retry\<close>).  A \<^verbatim>\<open>NULL\<close> header is \<^const>\<open>None\<close>.
\<close>

definition find_bits_retry ::
  "(RTL_BITMAP \<Rightarrow> ULONG \<Rightarrow> ULONG \<Rightarrow> ULONG \<Rightarrow> ULONG option option) \<Rightarrow>
   RTL_BITMAP \<Rightarrow> ULONG \<Rightarrow> ULONG \<Rightarrow> ULONG option" where
  "find_bits_retry loop bm NumberToFind HintIndex =
     (case loop bm NumberToFind (SizeOfBitMap bm) HintIndex of
        None \<Rightarrow> None
      | Some (Some CurrentBit) \<Rightarrow> Some CurrentBit
      | Some None \<Rightarrow>
          if HintIndex \<noteq> 0 then
            (case loop bm NumberToFind (min (HintIndex + NumberToFind) (SizeOfBitMap bm)) 0 of
               None \<Rightarrow> None
             | Some (Some CurrentBit) \<Rightarrow> Some CurrentBit
             | Some None \<Rightarrow> Some MAXINDEX)
          else Some MAXINDEX)"

definition RtlFindClearBits :: "RTL_BITMAP option \<Rightarrow> ULONG \<Rightarrow> ULONG \<Rightarrow> ULONG option" where
  "RtlFindClearBits BitMapHeader NumberToFind HintIndex =
     (case BitMapHeader of
        None \<Rightarrow> Some MAXINDEX
      | Some bm \<Rightarrow>
          if NumberToFind > SizeOfBitMap bm then Some MAXINDEX
          else
            let HintIndex = (if HintIndex \<ge> SizeOfBitMap bm then 0 else HintIndex)
            in if NumberToFind = 0 then Some (HintIndex AND NOT 7)
               else find_bits_retry find_clear_loop bm NumberToFind HintIndex)"

definition RtlFindSetBits :: "RTL_BITMAP option \<Rightarrow> ULONG \<Rightarrow> ULONG \<Rightarrow> ULONG option" where
  "RtlFindSetBits BitMapHeader NumberToFind HintIndex =
     (case BitMapHeader of
        None \<Rightarrow> Some MAXINDEX
      | Some bm \<Rightarrow>
          if NumberToFind > SizeOfBitMap bm then Some MAXINDEX
          else
            let HintIndex = (if HintIndex \<ge> SizeOfBitMap bm then 0 else HintIndex)
            in if NumberToFind = 0 then Some (HintIndex AND NOT 7)
               else find_bits_retry find_set_loop bm NumberToFind HintIndex)"

definition RtlFindClearBitsAndSet ::
  "RTL_BITMAP option \<Rightarrow> ULONG \<Rightarrow> ULONG \<Rightarrow> (ULONG \<times> RTL_BITMAP option) option" where
  "RtlFindClearBitsAndSet BitMapHeader NumberToFind HintIndex =
     (case RtlFindClearBits BitMapHeader NumberToFind HintIndex of
        None \<Rightarrow> None
      | Some Position \<Rightarrow>
          Some (Position,
            if Position \<noteq> MAXINDEX
            then map_option (\<lambda>bm. RtlSetBits bm Position NumberToFind) BitMapHeader
            else BitMapHeader))"

definition RtlFindSetBitsAndClear ::
  "RTL_BITMAP option \<Rightarrow> ULONG \<Rightarrow> ULONG \<Rightarrow> (ULONG \<times> RTL_BITMAP option) option" where
  "RtlFindSetBitsAndClear BitMapHeader NumberToFind HintIndex =
     (case RtlFindSetBits BitMapHeader NumberToFind HintIndex of
        None \<Rightarrow> None
      | Some Position \<Rightarrow>
          Some (Position,
            if Position \<noteq> MAXINDEX
            then map_option (\<lambda>bm. RtlClearBits bm Position NumberToFind) BitMapHeader
            else BitMapHeader))"

subsection \<open>Enumerating runs\<close>

text \<open>The results are the returned length and the value stored through the out-pointer.\<close>

definition RtlFindNextForwardRunClear :: "RTL_BITMAP \<Rightarrow> ULONG \<Rightarrow> ULONG \<times> ULONG" where
  "RtlFindNextForwardRunClear bm FromIndex =
     (if FromIndex \<ge> SizeOfBitMap bm then (0, FromIndex)
      else
        let Length = RtlpGetLengthOfRunSet bm FromIndex MAXINDEX
        in (RtlpGetLengthOfRunClear bm (FromIndex + Length) MAXINDEX, FromIndex + Length))"

definition RtlFindNextForwardRunSet :: "RTL_BITMAP \<Rightarrow> ULONG \<Rightarrow> ULONG \<times> ULONG" where
  "RtlFindNextForwardRunSet bm FromIndex =
     (if FromIndex \<ge> SizeOfBitMap bm then (0, FromIndex)
      else
        let Length = RtlpGetLengthOfRunClear bm FromIndex MAXINDEX
        in (RtlpGetLengthOfRunSet bm (FromIndex + Length) MAXINDEX, FromIndex + Length))"

definition RtlFindFirstRunClear :: "RTL_BITMAP \<Rightarrow> ULONG \<times> ULONG" where
  "RtlFindFirstRunClear bm = RtlFindNextForwardRunClear bm 0"

section \<open>The bitmap as a set of positions\<close>

definition buf_bit :: "ULONG list \<Rightarrow> nat \<Rightarrow> bool" where
  "buf_bit buf i = bit (buf ! (i div 32)) (i mod 32)"

abbreviation bm_bit :: "RTL_BITMAP \<Rightarrow> nat \<Rightarrow> bool" where
  "bm_bit bm i \<equiv> buf_bit (Buffer bm) i"

definition wf_bitmap :: "RTL_BITMAP \<Rightarrow> bool" where
  "wf_bitmap bm \<longleftrightarrow>
     unat (SizeOfBitMap bm) \<le> 32 * length (Buffer bm) \<and> unat (SizeOfBitMap bm) + 64 \<le> 2 ^ 32"

function scan_words :: "(nat \<Rightarrow> ULONG) \<Rightarrow> nat \<Rightarrow> nat \<Rightarrow> ULONG \<Rightarrow> ULONG \<times> nat" where
  "scan_words f maxb p v =
     (if v = 0 \<and> p < maxb then scan_words f maxb (Suc p) (f p) else (v, p))"
  by pat_completeness auto
termination
  by (relation "measure (\<lambda>(f, maxb, p, v). maxb - p)") auto

declare scan_words.simps [simp del]

lemma skip_clear_ulongs_eq: "skip_clear_ulongs buf maxb p v = scan_words ((!) buf) maxb p v"
  by (induction buf maxb p v rule: skip_clear_ulongs.induct)
     (simp add: skip_clear_ulongs.simps scan_words.simps)

lemma skip_set_ulongs_eq: "skip_set_ulongs buf maxb p v = scan_words (\<lambda>k. NOT (buf ! k)) maxb p v"
  by (induction buf maxb p v rule: skip_set_ulongs.induct)
     (simp add: skip_set_ulongs.simps scan_words.simps)

definition scanned :: "(nat \<Rightarrow> bool) \<Rightarrow> nat \<Rightarrow> ULONG \<Rightarrow> bool" where
  "scanned P p v \<longleftrightarrow> (\<forall>j<32. bit v j \<longleftrightarrow> P (32 * p + j)) \<and> (\<forall>i<32 * p. \<not> P i)"

lemma scanned_before:
  assumes s: "scanned P p v" and v: "\<forall>i<j. \<not> bit v i" and j: "j \<le> 32"
  shows "\<forall>i<32 * p + j. \<not> P i"
proof (intro allI impI)
  fix i assume i: "i < 32 * p + j"
  show "\<not> P i"
  proof (cases "i < 32 * p")
    case False
    then obtain k where "i = 32 * p + k" by (metis add_diff_inverse_nat)
    with i s v j show ?thesis by (auto simp: scanned_def)
  qed (use s in \<open>simp add: scanned_def\<close>)
qed

lemma scanned_0: "scanned P p 0 \<longleftrightarrow> (\<forall>i<32 * Suc p. \<not> P i)"
proof
  assume "scanned P p 0"
  from scanned_before [OF this, of 32] show "\<forall>i<32 * Suc p. \<not> P i" by (simp add: add.commute)
qed (simp add: scanned_def)

lemma scanned_next:
  "scanned P p 0 \<Longrightarrow> \<forall>j<32. bit w j \<longleftrightarrow> P (32 * Suc p + j) \<Longrightarrow> scanned P (Suc p) w"
  unfolding scanned_0 by (simp add: scanned_def)

lemma scan_words_scanned:
  assumes "scan_words f maxb (Suc p) v = (v', q)"
    and "scanned P p v"
    and "\<forall>k>p. \<forall>j<32. bit (f k) j \<longleftrightarrow> P (32 * k + j)"
  shows "\<exists>p'. q = Suc p' \<and> scanned P p' v' \<and> (v' = 0 \<longrightarrow> maxb \<le> q) \<and> q \<le> max maxb (Suc p)"
  using assms
proof (induction f maxb "Suc p" v arbitrary: p rule: scan_words.induct)
  case (1 f maxb v)
  show ?case
  proof (cases "v = 0 \<and> Suc p < maxb")
    case True
    have "scanned P (Suc p) (f (Suc p))"
      using scanned_next[of P p "f (Suc p)"] 1(3) 1(4) True by simp
    moreover have "scan_words f maxb (Suc (Suc p)) (f (Suc p)) = (v', q)"
      using 1(2) True by (subst (asm) scan_words.simps) simp
    ultimately show ?thesis
      using 1(1)[OF True] 1(4) True by simp
  next
    case False
    with 1(2,3) show ?thesis by (auto simp: scan_words.simps [of f maxb "Suc p" v])
  qed
qed

definition run_length :: "(nat \<Rightarrow> ULONG) \<Rightarrow> ULONG \<Rightarrow> ULONG \<Rightarrow> ULONG \<Rightarrow> ULONG" where
  "run_length f Size StartingIndex MaxLength =
     (let b0 = unat (StartingIndex div 32);
          m = min MaxLength (Size - StartingIndex);
          (Value, p) = scan_words f (b0 + unat (((StartingIndex AND 31) + m + 32 - 1) div 32)) (Suc b0)
            (push_bit (unat (StartingIndex AND 31)) (drop_bit (unat (StartingIndex AND 31)) (f b0)))
      in if Value = 0 then m
         else let Length = of_nat p * 32 - StartingIndex + (of_nat (the (BitScanForward Value)) - 32)
              in if Length > Size - StartingIndex then Size - StartingIndex else Length)"

lemma RtlpGetLengthOfRunClear_eq:
  "RtlpGetLengthOfRunClear bm s m =
     (if SizeOfBitMap bm \<le> s then 0 else run_length ((!) (Buffer bm)) (SizeOfBitMap bm) s m)"
  by (simp add: RtlpGetLengthOfRunClear_def run_length_def skip_clear_ulongs_eq Let_def
      cong: if_cong)

lemma RtlpGetLengthOfRunSet_eq:
  "RtlpGetLengthOfRunSet bm s m =
     (if SizeOfBitMap bm \<le> s then 0
      else run_length (\<lambda>k. NOT (Buffer bm ! k)) (SizeOfBitMap bm) s m)"
  by (simp add: RtlpGetLengthOfRunSet_def run_length_def skip_set_ulongs_eq Let_def
      cong: if_cong)

lemma scanned_start:
  fixes s :: nat
  assumes "\<And>k j. j < 32 \<Longrightarrow> bit (f k :: ULONG) j \<longleftrightarrow> Q (32 * k + j)"
  shows "scanned (\<lambda>i. s \<le> i \<and> Q i) (s div 32) (push_bit (s mod 32) (drop_bit (s mod 32) (f (s div 32))))"
proof -
  obtain b r where s: "s = 32 * b + r" "r < 32"
    by (metis mod_less_divisor mult_div_mod_eq zero_less_numeral)
  then have "s div 32 = b" "s mod 32 = r" by simp_all
  with s assms show ?thesis by (auto simp: scanned_def bit_push_bit_iff bit_drop_bit_eq)
qed

lemma scan_limit:
  fixes s m :: ULONG
  assumes "unat s + unat m + 64 \<le> 2 ^ 32"
  defines "maxb \<equiv> unat s div 32 + unat ((s AND 31) + m + 32 - 1) div 32"
  shows "unat s + unat m \<le> 32 * maxb" "32 * maxb < unat s + unat m + 32"
proof -
  define b r where br: "b = unat s div 32" "r = unat s mod 32"
  then have s: "unat s = 32 * b + r" "r < 32" by simp_all
  with assms(1) have "r + unat m + 31 < 2 ^ 32" by simp
  then have "unat ((s AND 31) + m + 31) = r + unat m + 31"
    by (simp add: unat_word_ariths br)
  then have "maxb = b + (r + unat m + 31) div 32"
    unfolding maxb_def br by (simp add: algebra_simps)
  then have "32 * maxb = 32 * b + 32 * ((r + unat m + 31) div 32)" by simp
  then show "unat s + unat m \<le> 32 * maxb" "32 * maxb < unat s + unat m + 32"
    using round_up_32 [of "r + unat m"] s(1) by simp_all
qed

lemma clip_min: "(if L > X then X else L) = min L (X :: ULONG)"
  by (auto simp: min_def)

lemma run_length_cases:
  assumes f: "\<And>k j. j < 32 \<Longrightarrow> bit (f k) j \<longleftrightarrow> Q (32 * k + j)"
    and size: "unat Size + 64 \<le> 2 ^ 32"
    and start: "s < Size"
  obtains (none) "run_length f Size s m = min m (Size - s)"
      and "\<forall>i. unat s \<le> i \<and> i < unat s + unat (min m (Size - s)) \<longrightarrow> \<not> Q i"
    | (stop) e where "unat s \<le> e" "Q e" "\<forall>i. unat s \<le> i \<and> i < e \<longrightarrow> \<not> Q i"
      "unat (run_length f Size s m) = min (e - unat s) (unat (Size - s))"
proof -
  define n where "n = min m (Size - s)"
  define maxb where "maxb = unat s div 32 + unat ((s AND 31) + n + 32 - 1) div 32"
  define v where "v = push_bit (unat s mod 32) (drop_bit (unat s mod 32) (f (unat s div 32)))"
  let ?P = "\<lambda>i. unat s \<le> i \<and> Q i"
  obtain v' q where vq: "scan_words f maxb (Suc (unat s div 32)) v = (v', q)" by fastforce
  obtain p where p: "q = Suc p" "scanned ?P p v'" "v' = 0 \<longrightarrow> maxb \<le> q"
      "q \<le> max maxb (Suc (unat s div 32))"
    using scan_words_scanned [OF vq, of ?P] scanned_start [of f Q "unat s"] f
    by (fastforce simp: v_def)
  have n_le: "unat n \<le> unat Size - unat s"
    using start by (simp add: n_def min_def word_le_nat_alt unat_sub less_imp_le word_less_nat_alt)
  then have lim: "unat s + unat n \<le> 32 * maxb" "32 * maxb < unat s + unat n + 32"
    using scan_limit [of s n] size start by (simp_all add: maxb_def word_less_nat_alt)
  have run: "run_length f Size s m =
     (if v' = 0 then n
      else min (of_nat q * 32 - s + (of_nat (the (BitScanForward v')) - 32)) (Size - s))"
    unfolding run_length_def Let_def clip_min n_def [symmetric] unat_and_31 unat_div_32
      v_def [symmetric] maxb_def [symmetric] vq by simp
  show thesis
  proof (cases "v' = 0")
    case True
    then have "\<forall>i<32 * q. \<not> ?P i" using p scanned_0 by auto
    moreover have "unat s + unat n \<le> 32 * q" using lim(1) p(3) True by linarith
    ultimately have "\<forall>i. unat s \<le> i \<and> i < unat s + unat (min m (Size - s)) \<longrightarrow> \<not> Q i"
      unfolding n_def using less_le_trans by blast
    with none show thesis using True run by (simp add: n_def)
  next
    case False
    then obtain j where j: "BitScanForward v' = Some j" by fastforce
    then have jv: "bit v' j" "\<forall>i<j. \<not> bit v' i" by (simp_all add: BitScanForward_Some)
    then have "j < 32" using bit_imp_le_length [of v' j] by simp
    define e where "e = 32 * p + j"
    have e: "unat s \<le> e" "Q e" using jv p \<open>j < 32\<close> by (simp_all add: scanned_def e_def)
    have before: "\<forall>i. unat s \<le> i \<and> i < e \<longrightarrow> \<not> Q i"
      using scanned_before [OF p(2) jv(2)] \<open>j < 32\<close> by (simp add: e_def)
    have "e < 2 ^ 32"
      using p(1,4) lim(2) n_le size start \<open>j < 32\<close> by (simp add: e_def word_less_nat_alt max_def split: if_splits)
    then have "unat (of_nat e - s) = e - unat s"
      using e by (simp add: unat_sub word_le_nat_alt unat_of_nat_32)
    moreover have "of_nat q * 32 - s + (of_nat j - 32) = of_nat e - s"
      by (simp add: p(1) e_def algebra_simps)
    then have "run_length f Size s m = min (of_nat e - s) (Size - s)"
      by (simp only: run False j option.sel if_False simp_thms)
    ultimately have "unat (run_length f Size s m) = min (e - unat s) (unat (Size - s))"
      by (simp add: min_def word_le_nat_alt)
    with e before show thesis by (rule stop)
  qed
qed

text \<open>The contract of a run scanner\<close>

locale run_scanner =
  fixes scan :: "RTL_BITMAP \<Rightarrow> ULONG \<Rightarrow> ULONG \<Rightarrow> ULONG" and val :: bool
  assumes scan_out: "SizeOfBitMap bm \<le> s \<Longrightarrow> scan bm s m = 0"
    and scan_clip: "s \<le> SizeOfBitMap bm \<Longrightarrow> scan bm s m \<le> SizeOfBitMap bm - s"
    and scan_run: "wf_bitmap bm \<Longrightarrow> s < SizeOfBitMap bm \<Longrightarrow>
      unat s \<le> i \<Longrightarrow> i < unat s + unat (scan bm s m) \<Longrightarrow> bm_bit bm i = val"
    and scan_stop: "wf_bitmap bm \<Longrightarrow> s < SizeOfBitMap bm \<Longrightarrow>
      scan bm s m < m \<Longrightarrow> unat s + unat (scan bm s m) < unat (SizeOfBitMap bm) \<Longrightarrow>
      bm_bit bm (unat s + unat (scan bm s m)) \<noteq> val"
begin

lemma scan_end:
  assumes "s \<le> SizeOfBitMap bm"
  shows "unat (s + scan bm s m) = unat s + unat (scan bm s m)"
    and "s + scan bm s m \<le> SizeOfBitMap bm" and "s \<le> s + scan bm s m"
  using add_clip [OF assms scan_clip [OF assms]] by blast+

lemma scan_end_run:
  assumes "wf_bitmap bm" "s \<le> SizeOfBitMap bm" "unat s \<le> i" "i < unat (s + scan bm s m)"
  shows "bm_bit bm i = val"
proof (cases "s < SizeOfBitMap bm")
  case True
  then show ?thesis using scan_run [OF assms(1) True assms(3)] assms(2,4) by (simp add: scan_end)
next
  case False
  then show ?thesis using assms(3,4) scan_out [of bm s m] by simp
qed

lemma scan_end_stop:
  assumes "wf_bitmap bm" "s + scan bm s m < SizeOfBitMap bm" "s \<le> SizeOfBitMap bm" "scan bm s m < m"
  shows "bm_bit bm (unat (s + scan bm s m)) \<noteq> val"
proof -
  have "s < SizeOfBitMap bm" using scan_end(3) [OF assms(3)] assms(2) by (rule le_less_trans)
  then show ?thesis
    using scan_stop [OF assms(1) _ assms(4)] scan_end(1) [OF assms(3)] assms(2)
    by (simp add: word_less_nat_alt)
qed

end

lemma run_length_spec:
  assumes f: "\<And>k j. j < 32 \<Longrightarrow> bit (f k) j \<longleftrightarrow> Q (32 * k + j)"
    and size: "unat Size + 64 \<le> 2 ^ 32"
    and start: "s < Size"
  shows "unat s + unat (run_length f Size s m) \<le> unat Size"
    and "unat s \<le> i \<Longrightarrow> i < unat s + unat (run_length f Size s m) \<Longrightarrow> \<not> Q i"
    and "run_length f Size s m < m \<Longrightarrow> unat s + unat (run_length f Size s m) < unat Size \<Longrightarrow>
      Q (unat s + unat (run_length f Size s m))"
proof -
  have sz: "unat (Size - s) = unat Size - unat s" "unat s < unat Size"
    using start by (simp_all add: unat_sub less_imp_le word_less_nat_alt)
  show "unat s + unat (run_length f Size s m) \<le> unat Size"
    by (rule run_length_cases [OF f size start, of m]) (use sz in \<open>auto simp: min_def word_le_nat_alt\<close>)
  show "unat s \<le> i \<Longrightarrow> i < unat s + unat (run_length f Size s m) \<Longrightarrow> \<not> Q i"
    by (rule run_length_cases [OF f size start, of m]) auto
  show "run_length f Size s m < m \<Longrightarrow> unat s + unat (run_length f Size s m) < unat Size \<Longrightarrow>
      Q (unat s + unat (run_length f Size s m))"
    by (rule run_length_cases [OF f size start, of m]) (use sz in \<open>auto simp: min_def split: if_splits\<close>)
qed

lemma buf_bit_split: "j < 32 \<Longrightarrow> buf_bit buf (32 * k + j) = bit (buf ! k) j"
  by (simp add: buf_bit_def)

lemma run_clear_spec:
  assumes "wf_bitmap bm" "s < SizeOfBitMap bm"
    and "r = RtlpGetLengthOfRunClear bm s m"
  shows "unat s + unat r \<le> unat (SizeOfBitMap bm)"
    and "unat s \<le> i \<Longrightarrow> i < unat s + unat r \<Longrightarrow> \<not> bm_bit bm i"
    and "r < m \<Longrightarrow> unat s + unat r < unat (SizeOfBitMap bm) \<Longrightarrow> bm_bit bm (unat s + unat r)"
proof -
  have "r = run_length ((!) (Buffer bm)) (SizeOfBitMap bm) s m"
    using assms(2,3) by (auto simp: RtlpGetLengthOfRunClear_eq)
  then show "unat s + unat r \<le> unat (SizeOfBitMap bm)"
    and "unat s \<le> i \<Longrightarrow> i < unat s + unat r \<Longrightarrow> \<not> bm_bit bm i"
    and "r < m \<Longrightarrow> unat s + unat r < unat (SizeOfBitMap bm) \<Longrightarrow> bm_bit bm (unat s + unat r)"
    using run_length_spec [where f = "(!) (Buffer bm)" and Q = "bm_bit bm", of "SizeOfBitMap bm" s]
      assms(1,2) by (simp_all add: wf_bitmap_def buf_bit_split)
qed

lemma run_set_spec:
  assumes "wf_bitmap bm" "s < SizeOfBitMap bm"
    and "r = RtlpGetLengthOfRunSet bm s m"
  shows "unat s + unat r \<le> unat (SizeOfBitMap bm)"
    and "unat s \<le> i \<Longrightarrow> i < unat s + unat r \<Longrightarrow> bm_bit bm i"
    and "r < m \<Longrightarrow> unat s + unat r < unat (SizeOfBitMap bm) \<Longrightarrow> \<not> bm_bit bm (unat s + unat r)"
proof -
  have "r = run_length (\<lambda>k. NOT (Buffer bm ! k)) (SizeOfBitMap bm) s m"
    using assms(2,3) by (auto simp: RtlpGetLengthOfRunSet_eq)
  then show "unat s + unat r \<le> unat (SizeOfBitMap bm)"
    and "unat s \<le> i \<Longrightarrow> i < unat s + unat r \<Longrightarrow> bm_bit bm i"
    and "r < m \<Longrightarrow> unat s + unat r < unat (SizeOfBitMap bm) \<Longrightarrow> \<not> bm_bit bm (unat s + unat r)"
    using run_length_spec [where f = "\<lambda>k. NOT (Buffer bm ! k)" and Q = "\<lambda>i. \<not> bm_bit bm i",
      of "SizeOfBitMap bm" s] assms(1,2) by (simp_all add: wf_bitmap_def buf_bit_split bit_not_iff)
qed

lemma RtlpGetLengthOfRunClear_out: "SizeOfBitMap bm \<le> s \<Longrightarrow> RtlpGetLengthOfRunClear bm s m = 0"
  by (simp add: RtlpGetLengthOfRunClear_def)

lemma RtlpGetLengthOfRunSet_out: "SizeOfBitMap bm \<le> s \<Longrightarrow> RtlpGetLengthOfRunSet bm s m = 0"
  by (simp add: RtlpGetLengthOfRunSet_def)

lemma run_length_clip: "s < Size \<Longrightarrow> run_length f Size s m \<le> Size - s"
  by (auto simp: run_length_def Let_def split: prod.splits)

lemma RtlpGetLengthOfRunClear_clip:
  "s \<le> SizeOfBitMap bm \<Longrightarrow> RtlpGetLengthOfRunClear bm s m \<le> SizeOfBitMap bm - s"
  by (auto simp: RtlpGetLengthOfRunClear_eq run_length_clip)

lemma RtlpGetLengthOfRunSet_clip:
  "s \<le> SizeOfBitMap bm \<Longrightarrow> RtlpGetLengthOfRunSet bm s m \<le> SizeOfBitMap bm - s"
  by (auto simp: RtlpGetLengthOfRunSet_eq run_length_clip)

interpretation rc: run_scanner RtlpGetLengthOfRunClear False
  by unfold_locales (auto simp: run_clear_spec [OF _ _ refl] RtlpGetLengthOfRunClear_out RtlpGetLengthOfRunClear_clip)

interpretation rs: run_scanner RtlpGetLengthOfRunSet True
  by unfold_locales (auto simp: run_set_spec [OF _ _ refl] RtlpGetLengthOfRunSet_out RtlpGetLengthOfRunSet_clip)

end
