(* ===== verification/Rtl_Bitmap_Write.thy ===== *)
theory Rtl_Bitmap_Write
  imports Rtl_Bitmap
begin

text \<open>
  What \<^verbatim>\<open>RtlClearBits\<close> and \<^verbatim>\<open>RtlSetBits\<close> of \<^verbatim>\<open>sdk/lib/rtl/bitmap.c\<close> write: exactly the bits of
  the given range, in every buffer that holds the range.  The locale \<open>bit_writer\<close> is the
  contract the searching operations rely on; both writers satisfy it.
\<close>

section \<open>Filling words and masking bits\<close>

lemma fill_ulongs_nth:
  "k < length buf \<Longrightarrow>
   fill_ulongs buf d c F ! k = (if d \<le> k \<and> k < d + c then F else buf ! k)"
  by (induction buf d c F rule: fill_ulongs.induct) (auto simp: nth_list_update)

lemma fill_ulongs_length [simp]: "length (fill_ulongs buf d c F) = length buf"
  by (induction buf d c F rule: fill_ulongs.induct) auto

lemma RtlFillMemoryUlong_length [simp]: "length (RtlFillMemoryUlong buf d n F) = length buf"
  by (simp add: RtlFillMemoryUlong_def)

lemma mask_bits [simp]:
  "j < 32 \<Longrightarrow> bit (push_bit b 0xFFFFFFFF :: ULONG) j \<longleftrightarrow> b \<le> j"
  "j < 32 \<Longrightarrow> bit (drop_bit c (push_bit c (push_bit b 0xFFFFFFFF)) :: ULONG) j \<longleftrightarrow> b \<le> j \<and> j + c < 32"
proof -
  have *: "(0xFFFFFFFF :: ULONG) = - 1" by simp
  show "j < 32 \<Longrightarrow> bit (push_bit b 0xFFFFFFFF :: ULONG) j \<longleftrightarrow> b \<le> j"
    unfolding * by (simp add: bit_not_iff bit_mask_iff not_less)
  show "j < 32 \<Longrightarrow> bit (drop_bit c (push_bit c (push_bit b 0xFFFFFFFF)) :: ULONG) j \<longleftrightarrow> b \<le> j \<and> j + c < 32"
    unfolding * by (auto simp: bit_push_bit_iff bit_drop_bit_eq bit_not_iff bit_mask_iff add.commute)
qed

lemma max_bit: "bit (0xFFFFFFFF :: ULONG) (i mod 32)"
  using mask_bits(1) [of "i mod 32" 0] by simp

lemma buf_bit_and:
  "p < length buf \<Longrightarrow>
   buf_bit (buf[p := buf ! p AND m]) i \<longleftrightarrow> buf_bit buf i \<and> (i div 32 = p \<longrightarrow> bit m (i mod 32))"
  by (auto simp: buf_bit_def nth_list_update bit_and_iff)

lemma buf_bit_or:
  "p < length buf \<Longrightarrow>
   buf_bit (buf[p := buf ! p OR m]) i \<longleftrightarrow> buf_bit buf i \<or> i div 32 = p \<and> bit m (i mod 32)"
  by (auto simp: buf_bit_def nth_list_update bit_or_iff)

lemma buf_bit_fill:
  assumes "i < 32 * length buf"
  shows "buf_bit (RtlFillMemoryUlong buf p (unat (drop_bit 3 (n :: ULONG))) F) i =
     (if p \<le> i div 32 \<and> i div 32 < p + unat n div 32 then bit F (i mod 32) else buf_bit buf i)"
proof -
  have "unat (drop_bit 3 n) div 4 = unat n div 32"
    by (simp add: drop_bit_eq_div unat_div div_mult2_eq [symmetric])
  moreover have "i div 32 < length buf" using assms by (simp add: div_less_iff_less_mult mult.commute)
  ultimately show ?thesis
    by (simp add: RtlFillMemoryUlong_def buf_bit_def fill_ulongs_nth)
qed

lemma word_range:
  fixes i p n :: nat
  shows "32 * p \<le> i \<and> i < 32 * p + n \<longleftrightarrow>
    p \<le> i div 32 \<and> i div 32 < p + n div 32 \<or> i div 32 = p + n div 32 \<and> i mod 32 < n mod 32"
proof -
  obtain a r where i: "i = 32 * a + r" "r < 32"
    by (metis mod_less_divisor mult_div_mod_eq zero_less_numeral)
  obtain c d where n: "n = 32 * c + d" "d < 32"
    by (metis mod_less_divisor mult_div_mod_eq zero_less_numeral)
  have "i div 32 = a" "i mod 32 = r" "n div 32 = c" "n mod 32 = d" using i n by simp_all
  then show ?thesis using i n by (cases a "p + c" rule: linorder_cases) auto
qed

lemma tail_in_range:
  fixes p n m :: nat
  assumes "32 * p + n \<le> 32 * m" "n mod 32 \<noteq> 0" shows "p + n div 32 < m"
  using assms by presburger

lemma unat_and_31_eq_0: "(n AND 31 = 0) \<longleftrightarrow> unat (n :: ULONG) mod 32 = 0"
  by (metis unat_and_31 unat_eq_zero)

lemma clear_bits_tail_bit:
  assumes "i < 32 * length buf" "32 * p + unat n \<le> 32 * length buf"
  shows "buf_bit (clear_bits_tail buf p n) i =
    (if 32 * p \<le> i \<and> i < 32 * p + unat n then False else buf_bit buf i)"
proof (cases "unat n mod 32 = 0")
  case True
  with assms(1) show ?thesis
    by (simp add: clear_bits_tail_def Let_def unat_and_31_eq_0 buf_bit_fill word_range)
next
  case False
  from tail_in_range [OF assms(2) False] show ?thesis
    unfolding clear_bits_tail_def Let_def unat_and_31_eq_0 unat_div_32 unat_and_31 word_range
    using False assms(1) by (simp add: buf_bit_and buf_bit_fill) auto
qed

lemma set_bits_tail_bit:
  assumes "i < 32 * length buf" "32 * p + unat n \<le> 32 * length buf"
  shows "buf_bit (set_bits_tail buf p n) i =
    (if 32 * p \<le> i \<and> i < 32 * p + unat n then True else buf_bit buf i)"
proof (cases "unat n mod 32 = 0")
  case True
  with assms(1) max_bit [of i] show ?thesis
    by (simp add: set_bits_tail_def Let_def unat_and_31_eq_0 buf_bit_fill word_range)
next
  case False
  from tail_in_range [OF assms(2) False] show ?thesis
    unfolding set_bits_tail_def Let_def unat_and_31_eq_0 unat_div_32 unat_and_31 word_range
    using False assms(1) max_bit [of i] by (simp add: buf_bit_or buf_bit_fill bit_not_iff) auto
qed

lemma clear_bits_tail_length [simp]: "length (clear_bits_tail buf p n) = length buf"
  by (simp add: clear_bits_tail_def Let_def)

lemma set_bits_tail_length [simp]: "length (set_bits_tail buf p n) = length buf"
  by (simp add: set_bits_tail_def Let_def)

lemma head_range:
  fixes i b r n :: nat
  assumes "r + n \<le> 32"
  shows "32 * b + r \<le> i \<and> i < 32 * b + r + n \<longleftrightarrow> i div 32 = b \<and> r \<le> i mod 32 \<and> i mod 32 < r + n"
proof -
  obtain a q where i: "i = 32 * a + q" "q < 32"
    by (metis mod_less_divisor mult_div_mod_eq zero_less_numeral)
  then have "i div 32 = a" "i mod 32 = q" by simp_all
  then show ?thesis using i assms by (cases a b rule: linorder_cases) auto
qed

text \<open>Clearing (setting) the bits \<open>r, ..., r + n - 1\<close> of one word through a mask.\<close>

lemma buf_bit_mask:
  assumes "b < length buf" "r + n \<le> 32"
    and "\<And>j. j < 32 \<Longrightarrow> bit m j \<longleftrightarrow> r \<le> j \<and> j < r + n"
  shows "buf_bit (buf[b := buf ! b AND NOT m]) i =
      (if 32 * b + r \<le> i \<and> i < 32 * b + r + n then False else buf_bit buf i)"
    and "buf_bit (buf[b := buf ! b OR m]) i =
      (if 32 * b + r \<le> i \<and> i < 32 * b + r + n then True else buf_bit buf i)"
  using assms(3) [of "i mod 32"]
  unfolding head_range [OF assms(2)] buf_bit_and [OF assms(1)] buf_bit_or [OF assms(1)]
  by (auto simp: bit_not_iff)

section \<open>The contract of a bit writer\<close>

locale bit_writer =
  fixes write_bits :: "RTL_BITMAP \<Rightarrow> ULONG \<Rightarrow> ULONG \<Rightarrow> RTL_BITMAP" and val :: bool
  assumes write_size [simp]: "SizeOfBitMap (write_bits bm s n) = SizeOfBitMap bm"
    and write_length [simp]: "length (Buffer (write_bits bm s n)) = length (Buffer bm)"
    and write_bit: "unat s + unat n \<le> 32 * length (Buffer bm) \<Longrightarrow> i < 32 * length (Buffer bm) \<Longrightarrow>
      bm_bit (write_bits bm s n) i = (if unat s \<le> i \<and> i < unat s + unat n then val else bm_bit bm i)"

lemma bits_left:
  fixes s n :: ULONG
  shows "unat (32 - (s AND 31)) = 32 - unat s mod 32"
    and "n < 32 - (s AND 31) \<longleftrightarrow> unat n + unat s mod 32 < 32"
    and "n < 32 - (s AND 31) \<Longrightarrow> unat (32 - (s AND 31) - n) = 32 - unat s mod 32 - unat n"
    and "\<not> n < 32 - (s AND 31) \<Longrightarrow> unat (n - (32 - (s AND 31))) = unat n - (32 - unat s mod 32)"
proof -
  have "(s AND 31) \<le> 32" by (simp add: word_le_nat_alt)
  then show *: "unat (32 - (s AND 31)) = 32 - unat s mod 32" by (simp add: unat_sub)
  show "n < 32 - (s AND 31) \<longleftrightarrow> unat n + unat s mod 32 < 32"
    unfolding word_less_nat_alt * using mod_less_divisor [of 32 "unat s"] by linarith
  show "n < 32 - (s AND 31) \<Longrightarrow> unat (32 - (s AND 31) - n) = 32 - unat s mod 32 - unat n"
    by (subst unat_sub) (simp_all add: less_imp_le *)
  show "\<not> n < 32 - (s AND 31) \<Longrightarrow> unat (n - (32 - (s AND 31))) = unat n - (32 - unat s mod 32)"
    by (subst unat_sub) (simp_all add: not_less *)
qed

lemma high_mask:
  "n + r < 32 \<Longrightarrow> j < 32 \<Longrightarrow>
    bit (drop_bit (32 - r - n) (push_bit (32 - r - n) (push_bit r 0xFFFFFFFF)) :: ULONG) j \<longleftrightarrow>
      r \<le> j \<and> j < r + n"
  "r < 32 \<Longrightarrow> j < 32 \<Longrightarrow>
    bit (push_bit r 0xFFFFFFFF :: ULONG) j \<longleftrightarrow> r \<le> j \<and> j < r + (32 - r)"
  by (subst mask_bits; auto)+

lemma range_join:
  fixes s r b n i :: nat
  assumes "s = 32 * b + r" "r < 32" "32 \<le> n + r"
  shows "s \<le> i \<and> i < s + n \<longleftrightarrow>
    32 * b + r \<le> i \<and> i < 32 * b + r + (32 - r) \<or> 32 * Suc b \<le> i \<and> i < 32 * Suc b + (n - (32 - r))"
  using assms by auto

lemma RtlClearBits_cases:
  fixes s n :: ULONG
  obtains (aligned) "unat s mod 32 = 0" "RtlClearBits bm s n = bm\<lparr>Buffer := clear_bits_tail (Buffer bm) (unat s div 32) n\<rparr>"
  | (short) m where "unat s mod 32 + unat n < 32" "unat s mod 32 \<noteq> 0"
     "\<And>j. j < 32 \<Longrightarrow> bit m j \<longleftrightarrow> unat s mod 32 \<le> j \<and> j < unat s mod 32 + unat n"
     "RtlClearBits bm s n = bm\<lparr>Buffer := (Buffer bm)[unat s div 32 := Buffer bm ! (unat s div 32) AND NOT m]\<rparr>"
  | (long) m n' where "32 \<le> unat s mod 32 + unat n" "unat s mod 32 \<noteq> 0"
     "\<And>j. j < 32 \<Longrightarrow> bit m j \<longleftrightarrow> unat s mod 32 \<le> j \<and> j < unat s mod 32 + (32 - unat s mod 32)"
     "unat n' = unat n - (32 - unat s mod 32)"
     "RtlClearBits bm s n = bm\<lparr>Buffer := clear_bits_tail
         ((Buffer bm)[unat s div 32 := Buffer bm ! (unat s div 32) AND NOT m]) (Suc (unat s div 32)) n'\<rparr>"
proof -
  note defs = RtlClearBits_def Let_def unat_and_31_eq_0 unat_and_31 unat_div_32
  consider "unat s mod 32 = 0" | "unat s mod 32 \<noteq> 0" "n < 32 - (s AND 31)"
    | "unat s mod 32 \<noteq> 0" "\<not> n < 32 - (s AND 31)" by blast
  then show thesis
  proof cases
    case 1
    then show ?thesis by (intro aligned) (simp_all add: defs)
  next
    case 2
    then have "unat n + unat s mod 32 < 32" by (simp add: bits_left(2))
    with 2 show ?thesis
      by (intro short) (rule high_mask(1) | simp add: defs bits_left(3) del: push_bit_push_bit)+
  next
    case 3
    then have "32 \<le> unat s mod 32 + unat n" by (simp add: bits_left(2))
    with 3 show ?thesis
      by (intro long) (rule high_mask(2) bits_left(4) | simp add: defs | assumption)+
  qed
qed

lemma RtlSetBits_cases:
  fixes s n :: ULONG
  obtains (aligned) "unat s mod 32 = 0" "RtlSetBits bm s n = bm\<lparr>Buffer := set_bits_tail (Buffer bm) (unat s div 32) n\<rparr>"
  | (short) m where "unat s mod 32 + unat n < 32" "unat s mod 32 \<noteq> 0"
     "\<And>j. j < 32 \<Longrightarrow> bit m j \<longleftrightarrow> unat s mod 32 \<le> j \<and> j < unat s mod 32 + unat n"
     "RtlSetBits bm s n = bm\<lparr>Buffer := (Buffer bm)[unat s div 32 := Buffer bm ! (unat s div 32) OR m]\<rparr>"
  | (long) m n' where "32 \<le> unat s mod 32 + unat n" "unat s mod 32 \<noteq> 0"
     "\<And>j. j < 32 \<Longrightarrow> bit m j \<longleftrightarrow> unat s mod 32 \<le> j \<and> j < unat s mod 32 + (32 - unat s mod 32)"
     "unat n' = unat n - (32 - unat s mod 32)"
     "RtlSetBits bm s n = bm\<lparr>Buffer := set_bits_tail
         ((Buffer bm)[unat s div 32 := Buffer bm ! (unat s div 32) OR m]) (Suc (unat s div 32)) n'\<rparr>"
proof -
  note defs = RtlSetBits_def Let_def unat_and_31_eq_0 unat_and_31 unat_div_32
  consider "unat s mod 32 = 0" | "unat s mod 32 \<noteq> 0" "n < 32 - (s AND 31)"
    | "unat s mod 32 \<noteq> 0" "\<not> n < 32 - (s AND 31)" by blast
  then show thesis
  proof cases
    case 1
    then show ?thesis by (intro aligned) (simp_all add: defs)
  next
    case 2
    then have "unat n + unat s mod 32 < 32" by (simp add: bits_left(2))
    with 2 show ?thesis
      by (intro short) (rule high_mask(1) | simp add: defs bits_left(3) del: push_bit_push_bit)+
  next
    case 3
    then have "32 \<le> unat s mod 32 + unat n" by (simp add: bits_left(2))
    with 3 show ?thesis
      by (intro long) (rule high_mask(2) bits_left(4) | simp add: defs | assumption)+
  qed
qed

lemma RtlClearBits_bit:
  assumes n: "unat s + unat n \<le> 32 * length (Buffer bm)" and i: "i < 32 * length (Buffer bm)"
  shows "bm_bit (RtlClearBits bm s n) i = (if unat s \<le> i \<and> i < unat s + unat n then False else bm_bit bm i)"
proof (cases rule: RtlClearBits_cases [of s bm n])
  case aligned
  then have "32 * (unat s div 32) = unat s" by auto
  with aligned clear_bits_tail_bit [OF i, of "unat s div 32" n] n show ?thesis by simp
next
  case (short m)
  then have "unat s div 32 < length (Buffer bm)" using n tail_in_range [of 0 "unat s"] by simp
  with short(1,4) show ?thesis by (simp add: buf_bit_mask(1) [OF _ _ short(3)])
next
  case (long m n')
  define b r where br: "b = unat s div 32" "r = unat s mod 32"
  have s: "unat s = 32 * b + r" "r < 32" by (simp_all add: br)
  note long = long [folded br]
  have "b < length (Buffer bm)" using n s long(1,2) by linarith
  then have head: "buf_bit ((Buffer bm)[b := Buffer bm ! b AND NOT m]) i =
      (if 32 * b + r \<le> i \<and> i < 32 * b + r + (32 - r) then False else bm_bit bm i)"
    using buf_bit_mask(1) [OF _ _ long(3)] s(2) by simp
  have "32 * Suc b + unat n' \<le> 32 * length (Buffer bm)"
    using n s long(1,4) by simp
  then show ?thesis
    unfolding long(5) range_join [OF s(1,2) long(1) [unfolded add.commute [of r]]]
    using clear_bits_tail_bit [of i "(Buffer bm)[b := Buffer bm ! b AND NOT m]" "Suc b" n'] i head long(4) by simp
qed

lemma RtlSetBits_bit:
  assumes n: "unat s + unat n \<le> 32 * length (Buffer bm)" and i: "i < 32 * length (Buffer bm)"
  shows "bm_bit (RtlSetBits bm s n) i = (if unat s \<le> i \<and> i < unat s + unat n then True else bm_bit bm i)"
proof (cases rule: RtlSetBits_cases [of s bm n])
  case aligned
  then have "32 * (unat s div 32) = unat s" by auto
  with aligned set_bits_tail_bit [OF i, of "unat s div 32" n] n show ?thesis by simp
next
  case (short m)
  then have "unat s div 32 < length (Buffer bm)" using n tail_in_range [of 0 "unat s"] by simp
  with short(1,4) show ?thesis by (simp add: buf_bit_mask(2) [OF _ _ short(3)])
next
  case (long m n')
  define b r where br: "b = unat s div 32" "r = unat s mod 32"
  have s: "unat s = 32 * b + r" "r < 32" by (simp_all add: br)
  note long = long [folded br]
  have "b < length (Buffer bm)" using n s long(1,2) by linarith
  then have head: "buf_bit ((Buffer bm)[b := Buffer bm ! b OR m]) i =
      (if 32 * b + r \<le> i \<and> i < 32 * b + r + (32 - r) then True else bm_bit bm i)"
    using buf_bit_mask(2) [OF _ _ long(3)] s(2) by simp
  have "32 * Suc b + unat n' \<le> 32 * length (Buffer bm)"
    using n s long(1,4) by simp
  then show ?thesis
    unfolding long(5) range_join [OF s(1,2) long(1) [unfolded add.commute [of r]]]
    using set_bits_tail_bit [of i "(Buffer bm)[b := Buffer bm ! b OR m]" "Suc b" n'] i head long(4) by simp
qed


lemma RtlClearBits_frame [simp]:
  "SizeOfBitMap (RtlClearBits bm s n) = SizeOfBitMap bm" "length (Buffer (RtlClearBits bm s n)) = length (Buffer bm)"
  by (simp_all add: RtlClearBits_def Let_def)

lemma RtlSetBits_frame [simp]:
  "SizeOfBitMap (RtlSetBits bm s n) = SizeOfBitMap bm" "length (Buffer (RtlSetBits bm s n)) = length (Buffer bm)"
  by (simp_all add: RtlSetBits_def Let_def)

interpretation cw: bit_writer RtlClearBits False
  by unfold_locales (simp_all add: RtlClearBits_bit)

interpretation sw: bit_writer RtlSetBits True
  by unfold_locales (simp_all add: RtlSetBits_bit)

end
