(* ===== verification/Rtl_Bitmap_Search.thy ===== *)
theory Rtl_Bitmap_Search
  imports Rtl_Bitmap_Write
begin

text \<open>
  Correctness of the searching operations of \<^verbatim>\<open>sdk/lib/rtl/bitmap.c\<close>.  A search alternates the
  two run scanners, so its argument is made once, in the locale \<open>run_search\<close>, from the
  scanners' contracts alone; \<^verbatim>\<open>RtlFindClearBits\<close> and \<^verbatim>\<open>RtlFindSetBits\<close> are its two instances, with
  the strict and the non-strict loop condition the source uses.
\<close>

section \<open>Runs and search results\<close>

definition has_run :: "RTL_BITMAP \<Rightarrow> bool \<Rightarrow> nat \<Rightarrow> nat \<Rightarrow> bool" where
  "has_run bm val p n \<longleftrightarrow>
     p + n \<le> unat (SizeOfBitMap bm) \<and> (\<forall>i. p \<le> i \<and> i < p + n \<longrightarrow> bm_bit bm i = val)"

lemma below_max: "wf_bitmap bm \<Longrightarrow> x \<le> SizeOfBitMap bm \<Longrightarrow> x < MAXINDEX"
  by (simp add: wf_bitmap_def word_le_nat_alt word_less_nat_alt)

locale run_pair = ts: run_scanner this_scan val + os: run_scanner other_scan "\<not> val"
  for this_scan other_scan :: "RTL_BITMAP \<Rightarrow> ULONG \<Rightarrow> ULONG \<Rightarrow> ULONG" and val :: bool
begin

lemma next_start:
  assumes "wf_bitmap bm" "f \<le> SizeOfBitMap bm"
  defines "s \<equiv> f + other_scan bm f MAXINDEX"
  shows "f \<le> s" "s \<le> SizeOfBitMap bm"
    and "unat f \<le> i \<Longrightarrow> i < unat s \<Longrightarrow> bm_bit bm i \<noteq> val"
    and "s < SizeOfBitMap bm \<Longrightarrow> bm_bit bm (unat s) = val"
proof -
  show fs: "f \<le> s" "s \<le> SizeOfBitMap bm" using os.scan_end assms(2) by (auto simp: s_def)
  show "unat f \<le> i \<Longrightarrow> i < unat s \<Longrightarrow> bm_bit bm i \<noteq> val"
    using os.scan_end_run assms(1,2) unfolding s_def by blast
  have "other_scan bm f MAXINDEX \<le> SizeOfBitMap bm"
    using os.scan_end(1,2) [OF assms(2), of MAXINDEX] by (simp add: word_le_nat_alt)
  then show "s < SizeOfBitMap bm \<Longrightarrow> bm_bit bm (unat s) = val"
    using os.scan_end_stop [OF assms(1) _ assms(2)] below_max [OF assms(1)] unfolding s_def by blast
qed

lemma search_step:
  assumes wf: "wf_bitmap bm" and f: "f < SizeOfBitMap bm" and N: "N \<noteq> 0"
  defines "s \<equiv> f + other_scan bm f MAXINDEX"
  defines "e \<equiv> s + this_scan bm s N"
  shows "N \<le> this_scan bm s N \<Longrightarrow> has_run bm val (unat s) (unat N)"
    and "\<not> N \<le> this_scan bm s N \<Longrightarrow> f < e \<and> e \<le> SizeOfBitMap bm"
    and "unat f \<le> p \<Longrightarrow> p < unat s \<Longrightarrow> \<not> has_run bm val p (unat N)"
    and "\<not> N \<le> this_scan bm s N \<Longrightarrow> unat f \<le> p \<Longrightarrow> p < unat e \<Longrightarrow> \<not> has_run bm val p (unat N)"
proof -
  have f': "f \<le> SizeOfBitMap bm" using f by simp
  note st = next_start [OF wf f', folded s_def]
  have e: "unat e = unat s + unat (this_scan bm s N)" "e \<le> SizeOfBitMap bm" "s \<le> e"
    using ts.scan_end [OF st(2)] by (simp_all add: e_def)
  have N': "0 < unat N" using N by (simp add: unat_gt_0)
  have stop: "e < SizeOfBitMap bm \<Longrightarrow> this_scan bm s N < N \<Longrightarrow> bm_bit bm (unat e) \<noteq> val"
    using ts.scan_end_stop [OF wf _ st(2)] by (simp add: e_def)
  show "N \<le> this_scan bm s N \<Longrightarrow> has_run bm val (unat s) (unat N)"
    using ts.scan_end_run [OF wf st(2), of _ N] e unfolding has_run_def
    by (auto simp: e_def [symmetric] word_le_nat_alt)
  show before: "unat f \<le> p \<Longrightarrow> p < unat s \<Longrightarrow> \<not> has_run bm val p (unat N)" for p
    using st(3) N' by (auto simp: has_run_def)
  show "\<not> N \<le> this_scan bm s N \<Longrightarrow> f < e \<and> e \<le> SizeOfBitMap bm"
  proof (rule ccontr)
    assume "\<not> N \<le> this_scan bm s N" "\<not> (f < e \<and> e \<le> SizeOfBitMap bm)"
    then have "e = s" "s = f" "this_scan bm s N < N" using st(1) e by auto
    with st(4) stop f show False by simp
  qed
  show "\<not> has_run bm val p (unat N)" if "\<not> N \<le> this_scan bm s N" "unat f \<le> p" "p < unat e"
  proof
    assume h: "has_run bm val p (unat N)"
    then have "unat s \<le> p" using before that(2) by force
    then have "unat e < p + unat N" using e(1) that(1) by (simp add: word_le_nat_alt)
    with h that(3) have "bm_bit bm (unat e) = val" "unat e < unat (SizeOfBitMap bm)"
      by (auto simp: has_run_def)
    then show False using stop that(1) by (simp add: word_less_nat_alt word_le_nat_alt)
  qed
qed

end

definition within :: "bool \<Rightarrow> 'a::linorder \<Rightarrow> 'a \<Rightarrow> bool" where
  "within strict a b = (if strict then a < b else a \<le> b)"

lemma within_le: "within strict a b \<Longrightarrow> a \<le> b"
  by (auto simp: within_def split: if_splits)

lemma within_unat: "within strict (a :: ULONG) b = within strict (unat a) (unat b)"
  by (simp add: within_def word_less_nat_alt word_le_nat_alt)

lemma within_mono: "a \<le> b \<Longrightarrow> within strict b c \<Longrightarrow> within strict a c"
  by (auto simp: within_def split: if_splits)

definition search_post ::
  "RTL_BITMAP \<Rightarrow> bool \<Rightarrow> bool \<Rightarrow> nat \<Rightarrow> nat \<Rightarrow> nat \<Rightarrow> ULONG option \<Rightarrow> bool" where
  "search_post bm val strict n m c r \<longleftrightarrow>
    (case r of
       Some p \<Rightarrow> c \<le> unat p \<and> has_run bm val (unat p) n \<and> (\<forall>q. c \<le> q \<and> q < unat p \<longrightarrow> \<not> has_run bm val q n)
     | None \<Rightarrow> \<forall>q. c \<le> q \<and> within strict (q + n) m \<longrightarrow> \<not> has_run bm val q n)"

lemma search_post_skip:
  assumes "search_post bm val strict n m e r" "c \<le> e"
    and "\<And>q. c \<le> q \<Longrightarrow> q < e \<Longrightarrow> \<not> has_run bm val q n"
  shows "search_post bm val strict n m c r"
  using assms by (auto simp: search_post_def not_le split: option.splits) (metis not_le)+

locale run_search = run_pair this_scan other_scan val
  for this_scan other_scan :: "RTL_BITMAP \<Rightarrow> ULONG \<Rightarrow> ULONG \<Rightarrow> ULONG" and val :: bool +
  fixes loop :: "RTL_BITMAP \<Rightarrow> ULONG \<Rightarrow> ULONG \<Rightarrow> ULONG \<Rightarrow> ULONG option option" and strict :: bool
  assumes loop_eq: "loop bm N M C =
     (if within strict (C + N) M then
        let C = C + other_scan bm C MAXINDEX; L = this_scan bm C N
        in if N \<le> L then Some (Some C) else loop bm N M (C + L)
      else Some None)"
begin

lemma add_no_wrap:
  assumes "C \<le> SizeOfBitMap bm" "unat (SizeOfBitMap bm) + unat N < 2 ^ 32"
  shows "unat (C + N) = unat C + unat N"
  using assms by (simp add: word_le_nat_alt unat_word_ariths)

lemma loop_spec:
  assumes "wf_bitmap bm" "N \<noteq> 0" "unat (SizeOfBitMap bm) + unat N < 2 ^ 32" "M \<le> SizeOfBitMap bm"
    and "C \<le> SizeOfBitMap bm"
  shows "\<exists>r. loop bm N M C = Some r \<and> search_post bm val strict (unat N) (unat M) (unat C) r"
  using assms(5)
proof (induction "unat (SizeOfBitMap bm) - unat C" arbitrary: C rule: less_induct)
  case less
  show ?case
  proof (cases "within strict (C + N) M")
    case False
    then have "\<not> within strict (unat C + unat N) (unat M)"
      using add_no_wrap [OF less(2) assms(3)] by (simp add: within_unat)
    then have "\<not> within strict (q + unat N) (unat M)" if "unat C \<le> q" for q
      using within_mono that add_le_mono1 by blast
    with False show ?thesis by (subst loop_eq) (auto simp: search_post_def)
  next
    case True
    have "C < SizeOfBitMap bm"
      using within_le [OF True] assms(2,4) add_no_wrap [OF less(2) assms(3)]
      by (simp add: word_le_nat_alt word_less_nat_alt unat_gt_0 [symmetric])
    define s where "s = C + other_scan bm C MAXINDEX"
    note step = search_step [OF assms(1) \<open>C < SizeOfBitMap bm\<close> assms(2), folded s_def]
    have eq: "loop bm N M C = (if N \<le> this_scan bm s N then Some (Some s) else loop bm N M (s + this_scan bm s N))"
      using True by (subst loop_eq) (simp add: s_def Let_def)
    show ?thesis
    proof (cases "N \<le> this_scan bm s N")
      case found: True
      then show ?thesis
        using eq step(1,3) next_start(1) [OF assms(1) less(2)]
        by (auto simp: s_def search_post_def word_le_nat_alt)
    next
      case more: False
      define e where "e = s + this_scan bm s N"
      have e: "C < e" "e \<le> SizeOfBitMap bm" using step(2) [OF more] by (simp_all add: e_def)
      then have "unat (SizeOfBitMap bm) - unat e < unat (SizeOfBitMap bm) - unat C"
        by (simp add: word_less_nat_alt word_le_nat_alt)
      from less(1) [OF this e(2)] obtain r
        where "loop bm N M e = Some r" "search_post bm val strict (unat N) (unat M) (unat e) r" by blast
      moreover have "unat C \<le> unat e" using e(1) by (simp add: word_less_nat_alt)
      ultimately show ?thesis
        using eq more search_post_skip step(4) [OF more, folded e_def] unfolding e_def by fastforce
    qed
  qed
qed

lemma retry_spec:
  assumes "wf_bitmap bm" "N \<noteq> 0" "unat (SizeOfBitMap bm) + unat N < 2 ^ 32" "H < SizeOfBitMap bm"
  shows "\<exists>p. find_bits_retry loop bm N H = Some p \<and>
    (if p = MAXINDEX then \<forall>q. within strict (q + unat N) (unat (SizeOfBitMap bm)) \<longrightarrow> \<not> has_run bm val q (unat N)
     else has_run bm val (unat p) (unat N) \<and>
       (\<forall>q. unat H \<le> q \<and> q < unat p \<longrightarrow> \<not> has_run bm val q (unat N)))"
proof -
  let ?n = "unat N" and ?z = "unat (SizeOfBitMap bm)"
  have H: "H \<le> SizeOfBitMap bm" using assms(4) by simp
  have nomax: "p \<noteq> MAXINDEX" if "has_run bm val (unat p) ?n" for p
    using that below_max [OF assms(1), of p] by (auto simp: has_run_def word_le_nat_alt)
  obtain r where r: "loop bm N (SizeOfBitMap bm) H = Some r" "search_post bm val strict ?n ?z (unat H) r"
    using loop_spec [OF assms(1-3) _ H] by blast
  define M where "M = min (H + N) (SizeOfBitMap bm)"
  have M: "M \<le> SizeOfBitMap bm" "unat M = min (unat H + ?n) ?z"
    using add_no_wrap [OF H assms(3)] by (auto simp: M_def min_def word_le_nat_alt)
  obtain r' where r': "loop bm N M 0 = Some r'" "search_post bm val strict ?n (unat M) 0 r'"
    using loop_spec [OF assms(1-3) M(1), of 0] by auto
  consider (one) p where "r = Some p" | (two) p where "r = None" "H \<noteq> 0" "r' = Some p"
    | (none) "r = None" "H = 0" | (none2) "r = None" "H \<noteq> 0" "r' = None" by fastforce
  then show ?thesis
  proof cases
    case one then show ?thesis using r nomax by (auto simp: find_bits_retry_def search_post_def)
  next
    case two
    then show ?thesis using r r' nomax by (auto simp: find_bits_retry_def search_post_def M_def [symmetric])
  next
    case none then show ?thesis using r by (auto simp: find_bits_retry_def search_post_def)
  next
    case none2
    have "\<not> has_run bm val q ?n" if "within strict (q + ?n) ?z" for q
      using that r(2) r'(2) none2 M(2)
      by (cases "unat H \<le> q") (auto simp: search_post_def within_def min_def split: if_splits)
    then show ?thesis using r(1) r'(1) none2 by (auto simp: find_bits_retry_def M_def [symmetric])
  qed
qed

end

section \<open>The two searches\<close>

interpretation fc: run_search RtlpGetLengthOfRunClear RtlpGetLengthOfRunSet False find_clear_loop True
  by unfold_locales
     (auto simp: run_set_spec [OF _ _ refl] RtlpGetLengthOfRunSet_out RtlpGetLengthOfRunSet_clip
       find_clear_loop.simps [of _ _ _ "_ :: ULONG"] within_def)

interpretation fs: run_search RtlpGetLengthOfRunSet RtlpGetLengthOfRunClear True find_set_loop False
  by unfold_locales
     (auto simp: run_clear_spec [OF _ _ refl] RtlpGetLengthOfRunClear_out RtlpGetLengthOfRunClear_clip
       find_set_loop.simps within_def)

lemma hint_in_range:
  "N \<noteq> 0 \<Longrightarrow> N \<le> SizeOfBitMap bm \<Longrightarrow> (if SizeOfBitMap bm \<le> H then 0 else H) < SizeOfBitMap bm"
  by (auto simp: word_less_nat_alt word_le_nat_alt unat_gt_0 [symmetric])

lemma RtlFindClearBits_retry:
  "N \<noteq> 0 \<Longrightarrow> N \<le> SizeOfBitMap bm \<Longrightarrow>
   RtlFindClearBits (Some bm) N H =
     find_bits_retry find_clear_loop bm N (if SizeOfBitMap bm \<le> H then 0 else H)"
  by (auto simp: RtlFindClearBits_def Let_def)

lemma RtlFindSetBits_retry:
  "N \<noteq> 0 \<Longrightarrow> N \<le> SizeOfBitMap bm \<Longrightarrow>
   RtlFindSetBits (Some bm) N H =
     find_bits_retry find_set_loop bm N (if SizeOfBitMap bm \<le> H then 0 else H)"
  by (auto simp: RtlFindSetBits_def Let_def)

text \<open>
  \<^verbatim>\<open>RtlFindClearBits\<close> returns, and its result is right: an index other than \<^verbatim>\<open>MAXINDEX\<close> starts
  a run of \<^verbatim>\<open>NumberToFind\<close> clear bits inside the bitmap and no earlier index from the hint on
  does; \<^verbatim>\<open>MAXINDEX\<close> means that no run of that length ends before the last bit of the bitmap.
\<close>

theorem RtlFindClearBits_correct:
  assumes "wf_bitmap bm" "N \<noteq> 0" "N \<le> SizeOfBitMap bm"
    and "unat (SizeOfBitMap bm) + unat N < 2 ^ 32"
  shows "\<exists>p. RtlFindClearBits (Some bm) N H = Some p \<and>
    (if p = MAXINDEX
     then \<forall>q. q + unat N < unat (SizeOfBitMap bm) \<longrightarrow> \<not> has_run bm False q (unat N)
     else has_run bm False (unat p) (unat N) \<and>
       (\<forall>q. unat (if SizeOfBitMap bm \<le> H then 0 else H) \<le> q \<and> q < unat p \<longrightarrow>
          \<not> has_run bm False q (unat N)))"
proof -
  have "(if SizeOfBitMap bm \<le> H then 0 else H) < SizeOfBitMap bm"
    using assms(2,3) by (rule hint_in_range)
  from fc.retry_spec [OF assms(1,2,4) this] show ?thesis
    unfolding RtlFindClearBits_retry [OF assms(2,3)] by (simp only: within_def if_True if_False)
qed

theorem RtlFindClearBits_correct_witness:
  "wf_bitmap \<lparr>SizeOfBitMap = 40, Buffer = [0x060F874D, 0x3F303F30]\<rparr> \<and>
   (\<exists>p. RtlFindClearBits (Some \<lparr>SizeOfBitMap = 40, Buffer = [0x060F874D, 0x3F303F30]\<rparr>) 4 12 = Some p \<and>
     (p = MAXINDEX \<or> has_run \<lparr>SizeOfBitMap = 40, Buffer = [0x060F874D, 0x3F303F30]\<rparr> False (unat p) 4))"
  using RtlFindClearBits_correct [of "\<lparr>SizeOfBitMap = 40, Buffer = [0x060F874D, 0x3F303F30]\<rparr>" 4 12]
  by (auto simp: wf_bitmap_def split: if_splits)

text \<open>
  \<^verbatim>\<open>RtlFindSetBits\<close> returns; an index other than \<^verbatim>\<open>MAXINDEX\<close> starts a run of \<^verbatim>\<open>NumberToFind\<close>
  set bits inside the bitmap, the first one from the hint on, and \<^verbatim>\<open>MAXINDEX\<close> means that the
  bitmap has no such run at all.
\<close>

theorem RtlFindSetBits_correct:
  assumes "wf_bitmap bm" "N \<noteq> 0" "N \<le> SizeOfBitMap bm"
    and "unat (SizeOfBitMap bm) + unat N < 2 ^ 32"
  shows "\<exists>p. RtlFindSetBits (Some bm) N H = Some p \<and>
    (if p = MAXINDEX
     then \<forall>q. q + unat N \<le> unat (SizeOfBitMap bm) \<longrightarrow> \<not> has_run bm True q (unat N)
     else has_run bm True (unat p) (unat N) \<and>
       (\<forall>q. unat (if SizeOfBitMap bm \<le> H then 0 else H) \<le> q \<and> q < unat p \<longrightarrow>
          \<not> has_run bm True q (unat N)))"
proof -
  have "(if SizeOfBitMap bm \<le> H then 0 else H) < SizeOfBitMap bm"
    using assms(2,3) by (rule hint_in_range)
  from fs.retry_spec [OF assms(1,2,4) this] show ?thesis
    unfolding RtlFindSetBits_retry [OF assms(2,3)] by (simp only: within_def if_True if_False)
qed

theorem RtlFindSetBits_correct_witness:
  "wf_bitmap \<lparr>SizeOfBitMap = 40, Buffer = [0x060F874D, 0x3F303F30]\<rparr> \<and>
   (\<exists>p. RtlFindSetBits (Some \<lparr>SizeOfBitMap = 40, Buffer = [0x060F874D, 0x3F303F30]\<rparr>) 4 12 = Some p \<and>
     (p = MAXINDEX \<or> has_run \<lparr>SizeOfBitMap = 40, Buffer = [0x060F874D, 0x3F303F30]\<rparr> True (unat p) 4))"
  using RtlFindSetBits_correct [of "\<lparr>SizeOfBitMap = 40, Buffer = [0x060F874D, 0x3F303F30]\<rparr>" 4 12]
  by (auto simp: wf_bitmap_def split: if_splits)


text \<open>
  The loop condition of \<^verbatim>\<open>RtlFindClearBits\<close> excludes a run that ends with the last bit: a
  request for as many bits as the bitmap has fails for every bitmap, also when all bits
  are clear.
\<close>

theorem RtlFindClearBits_whole_map_fails:
  assumes "SizeOfBitMap bm \<noteq> 0" "2 * unat (SizeOfBitMap bm) < 2 ^ 32"
  shows "RtlFindClearBits (Some bm) (SizeOfBitMap bm) H = Some MAXINDEX"
proof -
  define z where "z = SizeOfBitMap bm"
  have no: "\<not> c + z < z" if "c \<le> z" for c
    using that assms(2) by (simp add: z_def word_le_nat_alt word_less_nat_alt unat_word_ariths)
  have first: "find_clear_loop bm z z c = Some None" if "c \<le> z" for c
    using no [OF that] by (subst find_clear_loop.simps) simp
  have "min (c + z) z = z" if "c \<le> z" for c using no [OF that] by (simp add: min_def not_less)
  with first [of 0] first show ?thesis
    using assms(1) by (auto simp: RtlFindClearBits_retry find_bits_retry_def simp flip: z_def)
qed

theorem RtlFindClearBits_whole_map_fails_witness:
  "RtlFindClearBits (Some \<lparr>SizeOfBitMap = 32, Buffer = [0]\<rparr>) 32 0 = Some MAXINDEX \<and>
   has_run \<lparr>SizeOfBitMap = 32, Buffer = [0]\<rparr> False 0 32"
  using RtlFindClearBits_whole_map_fails [of "\<lparr>SizeOfBitMap = 32, Buffer = [0]\<rparr>" 0]
  by (simp add: has_run_def buf_bit_def)

lemma all_set_map:
  assumes "unat z \<le> 32 * k" "unat z + 64 \<le> 2 ^ 32"
  shows "wf_bitmap \<lparr>SizeOfBitMap = z, Buffer = replicate k 0xFFFFFFFF\<rparr>"
    and "has_run \<lparr>SizeOfBitMap = z, Buffer = replicate k 0xFFFFFFFF\<rparr> True 0
      (unat (SizeOfBitMap \<lparr>SizeOfBitMap = z, Buffer = replicate k 0xFFFFFFFF\<rparr>))"
proof -
  show "wf_bitmap \<lparr>SizeOfBitMap = z, Buffer = replicate k 0xFFFFFFFF\<rparr>"
    using assms by (simp add: wf_bitmap_def)
  have "buf_bit (replicate k 0xFFFFFFFF) i" if "i < unat z" for i
    using that assms(1) max_bit [of i] by (simp add: buf_bit_def div_less_iff_less_mult mult.commute)
  then show "has_run \<lparr>SizeOfBitMap = z, Buffer = replicate k 0xFFFFFFFF\<rparr> True 0
      (unat (SizeOfBitMap \<lparr>SizeOfBitMap = z, Buffer = replicate k 0xFFFFFFFF\<rparr>))"
    by (simp add: has_run_def)
qed

lemma find_clear_loop_stuck:
  assumes "find_clear_loop bm N M C = Some r"
  shows "\<not> (C = SizeOfBitMap bm \<and> C + N < M \<and> N \<noteq> 0)"
  by (rule find_clear_loop.raw_induct [OF _ assms])
     (auto simp: Let_def RtlpGetLengthOfRunSet_out RtlpGetLengthOfRunClear_out split: if_splits)

text \<open>
  On a bitmap of set bits so large that the size plus the wanted length leaves 32 bits,
  the search wraps around at the end of the bitmap and never returns.
\<close>

theorem RtlFindClearBits_diverges:
  assumes "wf_bitmap bm" "has_run bm True 0 (unat (SizeOfBitMap bm))"
    and "N \<noteq> 0" "N < SizeOfBitMap bm" "2 ^ 32 \<le> unat (SizeOfBitMap bm) + unat N"
  shows "RtlFindClearBits (Some bm) N 0 = None"
proof -
  define z where "z = SizeOfBitMap bm"
  have z: "0 \<le> z" "0 < z" using assms(4) by (auto simp: z_def word_less_nat_alt)
  have le: "RtlpGetLengthOfRunSet bm 0 MAXINDEX \<le> z"
    using rs.scan_clip [of 0 bm MAXINDEX] by (simp add: z_def)
  then have "RtlpGetLengthOfRunSet bm 0 MAXINDEX < MAXINDEX" using below_max assms(1) z_def by blast
  then have "\<not> RtlpGetLengthOfRunSet bm 0 MAXINDEX < z"
    using rs.scan_end_stop [OF assms(1), of 0 MAXINDEX] assms(2)
    by (auto simp: has_run_def z_def word_less_nat_alt)
  with le have all: "RtlpGetLengthOfRunSet bm 0 MAXINDEX = z" by simp
  have "unat (z + N) = unat z + unat N - 2 ^ 32"
    using assms(5) unat_32_less [of z] unat_32_less [of N]
    by (simp add: z_def unat_word_ariths le_mod_geq)
  then have wrap: "z + N < z" using assms(5) unat_32_less [of N] by (simp add: z_def word_less_nat_alt)
  have "find_clear_loop bm N z z = None"
    using find_clear_loop_stuck [of bm N z z] wrap assms(3) by (cases "find_clear_loop bm N z z") (auto simp: z_def)
  then have "find_clear_loop bm N z 0 = None"
    using assms(3,4) all by (subst find_clear_loop.simps) (simp add: z_def RtlpGetLengthOfRunClear_out)
  then show ?thesis
    using assms(3,4) by (simp add: RtlFindClearBits_retry find_bits_retry_def z_def)
qed

theorem RtlFindClearBits_diverges_witness:
  "RtlFindClearBits (Some \<lparr>SizeOfBitMap = 0x80000001, Buffer = replicate 0x4000001 0xFFFFFFFF\<rparr>)
     0x80000000 0 = None"
  by (rule RtlFindClearBits_diverges [OF all_set_map])
     (simp_all only: RTL_BITMAP.simps unat_numeral, simp_all)

section \<open>Allocating and releasing a run\<close>

text \<open>\<open>bm'\<close> is \<open>bm\<close> with exactly the bits of a range given a value.\<close>

definition range_written :: "RTL_BITMAP \<Rightarrow> RTL_BITMAP \<Rightarrow> nat \<Rightarrow> nat \<Rightarrow> bool \<Rightarrow> bool" where
  "range_written bm bm' p n val \<longleftrightarrow>
     SizeOfBitMap bm' = SizeOfBitMap bm \<and> length (Buffer bm') = length (Buffer bm) \<and>
     (\<forall>i < 32 * length (Buffer bm). bm_bit bm' i = (if p \<le> i \<and> i < p + n then val else bm_bit bm i))"

locale run_taker = run_search this_scan other_scan val loop strict + wr: bit_writer write_bits "\<not> val"
  for this_scan other_scan :: "RTL_BITMAP \<Rightarrow> ULONG \<Rightarrow> ULONG \<Rightarrow> ULONG" and val loop strict write_bits
begin

lemma taken_run:
  assumes "wf_bitmap bm" "has_run bm val (unat p) (unat N)"
  shows "range_written bm (write_bits bm p N) (unat p) (unat N) (\<not> val)"
    and "has_run (write_bits bm p N) (\<not> val) (unat p) (unat N)" and "wf_bitmap (write_bits bm p N)"
proof -
  have len: "unat p + unat N \<le> 32 * length (Buffer bm)"
    using assms by (simp add: has_run_def wf_bitmap_def)
  then show w: "range_written bm (write_bits bm p N) (unat p) (unat N) (\<not> val)"
    by (simp add: range_written_def wr.write_bit)
  then show "has_run (write_bits bm p N) (\<not> val) (unat p) (unat N)"
    using assms(2) len by (simp add: range_written_def has_run_def)
  show "wf_bitmap (write_bits bm p N)" using assms(1) by (simp add: wf_bitmap_def)
qed

lemma take_spec:
  assumes "wf_bitmap bm" "N \<noteq> 0" "unat (SizeOfBitMap bm) + unat N < 2 ^ 32" "H < SizeOfBitMap bm"
    and "find_bits_retry loop bm N H = Some p" "p \<noteq> MAXINDEX"
  shows "has_run bm val (unat p) (unat N)"
  using retry_spec [OF assms(1-4)] assms(5,6) by auto

end

interpretation tc: run_taker RtlpGetLengthOfRunClear RtlpGetLengthOfRunSet False find_clear_loop True RtlSetBits
  by unfold_locales (simp_all add: RtlSetBits_bit)

interpretation ts: run_taker RtlpGetLengthOfRunSet RtlpGetLengthOfRunClear True find_set_loop False RtlClearBits
  by unfold_locales (simp_all add: RtlClearBits_bit)



text \<open>
  \<^verbatim>\<open>RtlFindSetBitsAndClear\<close> is its mirror image: the index it returns starts a run of set bits,
  and exactly the bits of this run are clear afterwards.
\<close>

theorem RtlFindSetBitsAndClear_correct:
  assumes "wf_bitmap bm" "N \<noteq> 0" "N \<le> SizeOfBitMap bm"
    and "unat (SizeOfBitMap bm) + unat N < 2 ^ 32"
  shows "\<exists>p bm'. RtlFindSetBitsAndClear (Some bm) N H = Some (p, Some bm') \<and> wf_bitmap bm' \<and>
    (if p = MAXINDEX then bm' = bm
     else has_run bm True (unat p) (unat N) \<and> range_written bm bm' (unat p) (unat N) False)"
proof -
  note h = hint_in_range [OF assms(2,3), of H]
  obtain p where p: "RtlFindSetBits (Some bm) N H = Some p"
    using fs.retry_spec [OF assms(1,2,4) h] RtlFindSetBits_retry [OF assms(2,3), of H] by auto
  then have "p \<noteq> MAXINDEX \<Longrightarrow> has_run bm True (unat p) (unat N)"
    using ts.take_spec [OF assms(1,2,4) h] RtlFindSetBits_retry [OF assms(2,3), of H] by simp
  with p show ?thesis
    using assms(1) ts.taken_run [OF assms(1)] by (auto simp: RtlFindSetBitsAndClear_def)
qed

theorem RtlFindSetBitsAndClear_correct_witness:
  "\<exists>p bm'. RtlFindSetBitsAndClear (Some \<lparr>SizeOfBitMap = 40, Buffer = [0x060F874D, 0x3F303F30]\<rparr>) 3 0
     = Some (p, Some bm') \<and> wf_bitmap bm'"
  using RtlFindSetBitsAndClear_correct [of "\<lparr>SizeOfBitMap = 40, Buffer = [0x060F874D, 0x3F303F30]\<rparr>" 3 0]
  by (auto simp: wf_bitmap_def split: if_splits)

end
