(* ===== verification/Rtl_Bitmap_Runs.thy ===== *)
theory Rtl_Bitmap_Runs
  imports Rtl_Bitmap_Search
begin

text \<open>
  The operations of \<^verbatim>\<open>sdk/lib/rtl/bitmap.c\<close> that enumerate runs: the longest run of clear or set
  bits, the list of runs, and the last run before an index.  The walk over the runs is
  treated once, in the locale \<open>run_walk\<close>, for clear and for set bits.
\<close>

section \<open>The enumerating operations\<close>

lemma next_run_bound:
  assumes "RtlFindNextForwardRunClear bm f = (n, s)" "n \<noteq> 0"
  shows "f < SizeOfBitMap bm" "f \<le> s" "s \<le> SizeOfBitMap bm" "n \<le> SizeOfBitMap bm - s"
  using assms rs.scan_end [of f bm MAXINDEX] rc.scan_clip [of s bm MAXINDEX]
  by (auto simp: RtlFindNextForwardRunClear_def Let_def split: if_splits)

lemma next_run_bound_set:
  assumes "RtlFindNextForwardRunSet bm f = (n, s)" "n \<noteq> 0"
  shows "f < SizeOfBitMap bm" "f \<le> s" "s \<le> SizeOfBitMap bm" "n \<le> SizeOfBitMap bm - s"
  using assms rc.scan_end [of f bm MAXINDEX] rs.scan_clip [of s bm MAXINDEX]
  by (auto simp: RtlFindNextForwardRunSet_def Let_def split: if_splits)

lemma run_advance:
  fixes f s n z :: ULONG
  assumes "f < z" "f \<le> s" "s \<le> z" "n \<le> z - s" "n \<noteq> 0"
  shows "unat z - unat (f + n) < unat z - unat f" "unat z - unat (s + n) < unat z - unat f"
    "unat (f + n) = unat f + unat n" "unat (s + n) = unat s + unat n" "unat s + unat n \<le> unat z"
proof -
  have sn: "unat (s + n) = unat s + unat n" "unat (s + n) \<le> unat z"
    using add_clip [OF assms(3,4)] by (simp_all add: word_le_nat_alt)
  have lt: "unat f < unat z" "unat f \<le> unat s" using assms(1,2) by (simp_all add: word_less_nat_alt word_le_nat_alt)
  have n: "0 < unat n" using assms(5) by (simp add: unat_gt_0)
  show fn: "unat (f + n) = unat f + unat n"
    using sn lt unat_32_less [of z] by (simp add: unat_word_ariths)
  show "unat z - unat (f + n) < unat z - unat f" "unat z - unat (s + n) < unat z - unat f"
    using fn sn lt n by linarith+
  show "unat (s + n) = unat s + unat n" "unat s + unat n \<le> unat z" using sn by simp_all
qed

lemma next_clear_decreases:
  assumes "(n, s) = RtlFindNextForwardRunClear bm f" "n \<noteq> 0"
  shows "unat (SizeOfBitMap bm) - unat (f + n) < unat (SizeOfBitMap bm) - unat f"
  using run_advance(1) [OF next_run_bound [OF assms(1) [symmetric] assms(2)] assms(2)] .

lemma next_set_decreases:
  assumes "(n, s) = RtlFindNextForwardRunSet bm f" "n \<noteq> 0"
  shows "unat (SizeOfBitMap bm) - unat (f + n) < unat (SizeOfBitMap bm) - unat f"
  using run_advance(1) [OF next_run_bound_set [OF assms(1) [symmetric] assms(2)] assms(2)] .

text \<open>
  \<^verbatim>\<open>RtlFindLongestRunClear\<close> and \<^verbatim>\<open>RtlFindLongestRunSet\<close>: the loop with its three variables, the last
  one being what \<^verbatim>\<open>StartingIndex\<close> points to.
\<close>

function longest_clear_loop :: "RTL_BITMAP \<Rightarrow> ULONG \<Rightarrow> ULONG \<Rightarrow> ULONG \<Rightarrow> ULONG \<times> ULONG" where
  "longest_clear_loop bm FromIndex MaxNumberOfBits StartingIndex =
     (case RtlFindNextForwardRunClear bm FromIndex of (NumberOfBits, Index) \<Rightarrow>
        if NumberOfBits = 0 then (MaxNumberOfBits, StartingIndex)
        else if NumberOfBits > MaxNumberOfBits
             then longest_clear_loop bm (FromIndex + NumberOfBits) NumberOfBits Index
             else longest_clear_loop bm (FromIndex + NumberOfBits) MaxNumberOfBits StartingIndex)"
  by pat_completeness auto
termination
  by (relation "measure (\<lambda>(bm, f, _, _). unat (SizeOfBitMap bm) - unat f)")
     (auto intro: next_clear_decreases)

definition RtlFindLongestRunClear :: "RTL_BITMAP \<Rightarrow> ULONG \<Rightarrow> ULONG \<times> ULONG" where
  "RtlFindLongestRunClear bm StartingIndex = longest_clear_loop bm 0 0 StartingIndex"

function longest_set_loop :: "RTL_BITMAP \<Rightarrow> ULONG \<Rightarrow> ULONG \<Rightarrow> ULONG \<Rightarrow> ULONG \<times> ULONG" where
  "longest_set_loop bm FromIndex MaxNumberOfBits StartingIndex =
     (case RtlFindNextForwardRunSet bm FromIndex of (NumberOfBits, Index) \<Rightarrow>
        if NumberOfBits = 0 then (MaxNumberOfBits, StartingIndex)
        else if NumberOfBits > MaxNumberOfBits
             then longest_set_loop bm (FromIndex + NumberOfBits) NumberOfBits Index
             else longest_set_loop bm (FromIndex + NumberOfBits) MaxNumberOfBits StartingIndex)"
  by pat_completeness auto
termination
  by (relation "measure (\<lambda>(bm, f, _, _). unat (SizeOfBitMap bm) - unat f)")
     (auto intro: next_set_decreases)

definition RtlFindLongestRunSet :: "RTL_BITMAP \<Rightarrow> ULONG \<Rightarrow> ULONG \<times> ULONG" where
  "RtlFindLongestRunSet bm StartingIndex = longest_set_loop bm 0 0 StartingIndex"

declare longest_clear_loop.simps [simp del] longest_set_loop.simps [simp del]

text \<open>
  \<^verbatim>\<open>RtlFindLastBackwardRunClear\<close>.  The pointer \<^verbatim>\<open>Buffer\<close> walks down; \<open>k\<close> is \<^verbatim>\<open>Buffer + 1\<close> as an index,
  so that \<^verbatim>\<open>Buffer < BitMapHeader->Buffer\<close> is \<open>k = 0\<close>.  The second result is what
  \<^verbatim>\<open>StartingRunIndex\<close> points to, which is left alone when no clear bit is found.
\<close>

fun back_skip_set :: "ULONG list \<Rightarrow> nat \<Rightarrow> ULONG \<Rightarrow> (ULONG \<times> nat) option" where
  "back_skip_set buf 0 InvValue = (if InvValue = 0 then None else Some (InvValue, 0))"
| "back_skip_set buf (Suc k) InvValue =
     (if InvValue = 0 then back_skip_set buf k (NOT (buf ! k)) else Some (InvValue, Suc k))"

fun back_skip_clear :: "ULONG list \<Rightarrow> nat \<Rightarrow> ULONG \<Rightarrow> ULONG \<times> nat" where
  "back_skip_clear buf 0 Value = (Value, 0)"
| "back_skip_clear buf (Suc k) Value =
     (if Value = 0 then back_skip_clear buf k (buf ! k) else (Value, Suc k))"

definition RtlFindLastBackwardRunClear :: "RTL_BITMAP \<Rightarrow> ULONG \<Rightarrow> ULONG \<Rightarrow> ULONG \<times> ULONG" where
  "RtlFindLastBackwardRunClear bm FromIndex StartingRunIndex =
     (let FromIndex = min FromIndex (SizeOfBitMap bm - 1);
          k = unat (FromIndex div 32);
          BitPos = 31 - (FromIndex AND 31);
          InvValue = drop_bit (unat BitPos) (push_bit (unat BitPos) (NOT (Buffer bm ! k)))
      in case back_skip_set (Buffer bm) k InvValue of
           None \<Rightarrow> (0, StartingRunIndex)
         | Some (InvValue, k) \<Rightarrow>
             let BitPos = the (BitScanReverse InvValue);
                 FromIndex = of_nat (k * 32 + BitPos);
                 Value = drop_bit (31 - BitPos) (push_bit (31 - BitPos) (NOT InvValue));
                 (Value, k) = back_skip_clear (Buffer bm) k Value;
                 StartingRunIndex =
                   (if Value \<noteq> 0 then of_nat (k * 32 + the (BitScanReverse Value) + 1) else 0)
             in (FromIndex - StartingRunIndex, StartingRunIndex))"

text \<open>
  \<^verbatim>\<open>RtlFindClearRuns\<close>: the loop that fills the array, the loop over the array that looks for the
  smallest run, and the loop that goes on to replace it.
\<close>

record RTL_BITMAP_RUN =
  RunStartingIndex :: ULONG
  RunNumberOfBits :: ULONG

fun clear_runs_fill ::
  "RTL_BITMAP \<Rightarrow> nat \<Rightarrow> RTL_BITMAP_RUN list \<Rightarrow> nat \<Rightarrow> ULONG \<Rightarrow> nat \<Rightarrow>
   RTL_BITMAP_RUN list \<times> nat \<times> ULONG \<times> nat" where
  "clear_runs_fill bm 0 RunArray Run FromIndex SmallestRun = (RunArray, Run, FromIndex, SmallestRun)"
| "clear_runs_fill bm (Suc left) RunArray Run FromIndex SmallestRun =
     (case RtlFindNextForwardRunClear bm FromIndex of (NumberOfBits, StartingIndex) \<Rightarrow>
        if NumberOfBits = 0 then (RunArray, Run, FromIndex, SmallestRun)
        else
          let RunArray = RunArray[Run := \<lparr>RunStartingIndex = StartingIndex, RunNumberOfBits = NumberOfBits\<rparr>];
              SmallestRun = (if NumberOfBits < RunNumberOfBits (RunArray ! SmallestRun) then Run else SmallestRun)
          in clear_runs_fill bm left RunArray (Suc Run) (StartingIndex + NumberOfBits) SmallestRun)"

fun smallest_run_loop :: "RTL_BITMAP_RUN list \<Rightarrow> ULONG \<Rightarrow> nat \<Rightarrow> nat \<Rightarrow> nat \<Rightarrow> nat" where
  "smallest_run_loop RunArray NumberOfBits Run 0 SmallestRun = SmallestRun"
| "smallest_run_loop RunArray NumberOfBits Run (Suc left) SmallestRun =
     smallest_run_loop RunArray NumberOfBits (Suc Run) left
       (if NumberOfBits < RunNumberOfBits (RunArray ! SmallestRun) then Run else SmallestRun)"

function clear_runs_replace ::
  "RTL_BITMAP \<Rightarrow> nat \<Rightarrow> RTL_BITMAP_RUN list \<Rightarrow> ULONG \<Rightarrow> nat \<Rightarrow> RTL_BITMAP_RUN list" where
  "clear_runs_replace bm SizeOfRunArray RunArray FromIndex SmallestRun =
     (case RtlFindNextForwardRunClear bm FromIndex of (NumberOfBits, StartingIndex) \<Rightarrow>
        if NumberOfBits = 0 then RunArray
        else if NumberOfBits > RunNumberOfBits (RunArray ! SmallestRun) then
          let RunArray = RunArray[SmallestRun := \<lparr>RunStartingIndex = StartingIndex, RunNumberOfBits = NumberOfBits\<rparr>];
              SmallestRun = smallest_run_loop RunArray NumberOfBits 0 SizeOfRunArray SmallestRun
          in clear_runs_replace bm SizeOfRunArray RunArray (FromIndex + NumberOfBits) SmallestRun
        else clear_runs_replace bm SizeOfRunArray RunArray (FromIndex + NumberOfBits) SmallestRun)"
  by pat_completeness auto
termination
  by (relation "measure (\<lambda>(bm, _, _, f, _). unat (SizeOfBitMap bm) - unat f)")
     (auto intro: next_clear_decreases)

declare clear_runs_replace.simps [simp del]

definition RtlFindClearRuns ::
  "RTL_BITMAP \<Rightarrow> RTL_BITMAP_RUN list \<Rightarrow> nat \<Rightarrow> bool \<Rightarrow> nat \<times> RTL_BITMAP_RUN list" where
  "RtlFindClearRuns bm RunArray SizeOfRunArray LocateLongestRuns =
     (case clear_runs_fill bm SizeOfRunArray RunArray 0 0 0 of (RunArray, Run, FromIndex, SmallestRun) \<Rightarrow>
        if Run < SizeOfRunArray \<or> \<not> LocateLongestRuns then (Run, RunArray)
        else (Run, clear_runs_replace bm SizeOfRunArray RunArray FromIndex SmallestRun))"

section \<open>Walking over the runs\<close>

locale run_walk = run_pair this_scan other_scan val
  for this_scan other_scan :: "RTL_BITMAP \<Rightarrow> ULONG \<Rightarrow> ULONG \<Rightarrow> ULONG" and val :: bool +
  fixes next_run :: "RTL_BITMAP \<Rightarrow> ULONG \<Rightarrow> ULONG \<times> ULONG"
    and longest :: "RTL_BITMAP \<Rightarrow> ULONG \<Rightarrow> ULONG \<Rightarrow> ULONG \<Rightarrow> ULONG \<times> ULONG"
  assumes next_run_eq: "next_run bm f =
      (if SizeOfBitMap bm \<le> f then (0, f)
       else let L = other_scan bm f MAXINDEX in (this_scan bm (f + L) MAXINDEX, f + L))"
    and longest_eq: "longest bm f m s0 =
      (case next_run bm f of (n, s) \<Rightarrow>
         if n = 0 then (m, s0)
         else if n > m then longest bm (f + n) n s else longest bm (f + n) m s0)"
begin

lemma next_run_spec:
  assumes wf: "wf_bitmap bm" and nx: "next_run bm f = (n, s)" and f: "f < SizeOfBitMap bm"
  shows "f \<le> s" "s \<le> SizeOfBitMap bm" "n \<le> SizeOfBitMap bm - s"
    and "unat f \<le> i \<Longrightarrow> i < unat s \<Longrightarrow> bm_bit bm i \<noteq> val"
    and "has_run bm val (unat s) (unat n)"
    and "unat s + unat n < unat (SizeOfBitMap bm) \<Longrightarrow> bm_bit bm (unat s + unat n) \<noteq> val"
    and "n = 0 \<Longrightarrow> s = SizeOfBitMap bm"
proof -
  have f': "f \<le> SizeOfBitMap bm" using f by simp
  have s: "s = f + other_scan bm f MAXINDEX" and n: "n = this_scan bm s MAXINDEX"
    using nx f by (auto simp: next_run_eq Let_def split: if_splits)
  note st = next_start [OF wf f', folded s]
  show "f \<le> s" "s \<le> SizeOfBitMap bm" "unat f \<le> i \<Longrightarrow> i < unat s \<Longrightarrow> bm_bit bm i \<noteq> val"
    by (fact st)+
  show le: "n \<le> SizeOfBitMap bm - s" using ts.scan_clip [OF st(2)] n by simp
  note ad = add_clip [OF st(2) le]
  show "has_run bm val (unat s) (unat n)"
    using ts.scan_end_run [OF wf st(2), of _ MAXINDEX, folded n] ad(1,2)
    by (simp add: has_run_def word_le_nat_alt)
  have "n < MAXINDEX" using ad(1,2) below_max [OF wf, of n] by (simp add: word_le_nat_alt)
  then show stop: "unat s + unat n < unat (SizeOfBitMap bm) \<Longrightarrow> bm_bit bm (unat s + unat n) \<noteq> val"
    using ts.scan_end_stop [OF wf _ st(2), of MAXINDEX, folded n] ad(1) by (simp add: word_less_nat_alt)
  show "n = 0 \<Longrightarrow> s = SizeOfBitMap bm"
    using stop st(2,4) by (cases "s < SizeOfBitMap bm") (auto simp: word_less_nat_alt)
qed

lemma run_in_next:
  assumes "wf_bitmap bm" "next_run bm f = (n, s)" "unat f \<le> p" "has_run bm val p m"
    and "p < unat s + unat n \<or> n = 0"
  shows "m \<le> unat n"
proof (rule ccontr)
  assume m: "\<not> m \<le> unat n"
  show False
  proof (cases "f < SizeOfBitMap bm")
    case False
    then show False using assms(3,4) m by (auto simp: has_run_def word_less_nat_alt)
  next
    case True
    note sp = next_run_spec [OF assms(1,2) True]
    from assms(4) m have run: "p + m \<le> unat (SizeOfBitMap bm)" "\<And>i. p \<le> i \<Longrightarrow> i < p + m \<Longrightarrow> bm_bit bm i = val"
      by (auto simp: has_run_def)
    have "unat s \<le> p" using sp(4) [OF assms(3)] run(2) [of p] m by force
    moreover have "p < unat s + unat n" using assms(5) sp(7) run(1) m calculation by auto
    ultimately have "p \<le> unat s + unat n" "unat s + unat n < p + m" using m by simp_all
    then show False using sp(6) run by fastforce
  qed
qed

lemma next_run_advance:
  assumes "wf_bitmap bm" "next_run bm f = (n, s)" "n \<noteq> 0"
  shows "unat (SizeOfBitMap bm) - unat (f + n) < unat (SizeOfBitMap bm) - unat f"
    and "unat (f + n) \<le> unat s + unat n" and "unat f \<le> unat (f + n)"
proof -
  have f: "f < SizeOfBitMap bm" using assms(2,3) by (auto simp: next_run_eq split: if_splits)
  note sp = next_run_spec [OF assms(1,2) f]
  from run_advance [OF f sp(1-3) assms(3)] sp(1)
  show "unat (SizeOfBitMap bm) - unat (f + n) < unat (SizeOfBitMap bm) - unat f"
    "unat (f + n) \<le> unat s + unat n" "unat f \<le> unat (f + n)"
    by (simp_all add: word_le_nat_alt)
qed

lemma longest_spec:
  assumes "wf_bitmap bm" "longest bm f m s0 = (n, s)"
    and "\<forall>p k. p < unat f \<and> has_run bm val p k \<longrightarrow> k \<le> unat m"
    and "m \<noteq> 0 \<longrightarrow> has_run bm val (unat s0) (unat m)"
  shows "(if n = 0 then s = s0 else has_run bm val (unat s) (unat n)) \<and>
    (\<forall>p k. has_run bm val p k \<longrightarrow> k \<le> unat n)"
  using assms(2-4)
proof (induction "unat (SizeOfBitMap bm) - unat f" arbitrary: f m s0 rule: less_induct)
  case less
  obtain k t where nx: "next_run bm f = (k, t)" by fastforce
  show ?case
  proof (cases "k = 0")
    case True
    then have "n = m" "s = s0" using less(2) nx by (simp_all add: longest_eq [of bm f])
    moreover have "j \<le> unat m" if "has_run bm val p j" for p j
      using less(3) run_in_next [OF assms(1) nx _ that] that True by (cases "p < unat f") auto
    ultimately show ?thesis using less(4) by auto
  next
    case False
    have below: "j \<le> unat (max k m)" if "p < unat (f + k)" "has_run bm val p j" for p j
      using less(3) run_in_next [OF assms(1) nx _ that(2)] next_run_advance(2) [OF assms(1) nx False] that
      by (cases "p < unat f") (fastforce simp: max_def word_le_nat_alt)+
    have f: "f < SizeOfBitMap bm" using nx False by (auto simp: next_run_eq split: if_splits)
    note run = next_run_spec(5) [OF assms(1) nx f]
    note IH = less(1) [OF next_run_advance(1) [OF assms(1) nx False]]
    show ?thesis
    proof (cases "m < k")
      case True
      then have "longest bm (f + k) k t = (n, s)"
        using less(2) nx False by (simp add: longest_eq [of bm f])
      moreover have "max k m = k" using True by simp
      then have "\<forall>p j. p < unat (f + k) \<and> has_run bm val p j \<longrightarrow> j \<le> unat k" using below unfolding \<open>max k m = k\<close> by blast
      ultimately have *: "(if n = 0 then s = t else has_run bm val (unat s) (unat n)) \<and>
        (\<forall>p k. has_run bm val p k \<longrightarrow> k \<le> unat n)" using IH run by blast
      then have "unat k \<le> unat n" using run by blast
      then have "n \<noteq> 0" using False by (auto simp: unat_eq_zero)
      with * show ?thesis by simp
    next
      case m: False
      then have "longest bm (f + k) m s0 = (n, s)"
        using less(2) nx False by (simp add: longest_eq [of bm f])
      moreover have "max k m = m" using m by simp
      then have "\<forall>p j. p < unat (f + k) \<and> has_run bm val p j \<longrightarrow> j \<le> unat m" using below unfolding \<open>max k m = m\<close> by blast
      ultimately show ?thesis using IH less(4) by blast
    qed
  qed
qed

end

interpretation wc: run_walk RtlpGetLengthOfRunClear RtlpGetLengthOfRunSet False
  RtlFindNextForwardRunClear longest_clear_loop
  by unfold_locales (simp_all add: RtlFindNextForwardRunClear_def longest_clear_loop.simps)

interpretation ws: run_walk RtlpGetLengthOfRunSet RtlpGetLengthOfRunClear True
  RtlFindNextForwardRunSet longest_set_loop
  by unfold_locales (simp_all add: RtlFindNextForwardRunSet_def longest_set_loop.simps)

text \<open>
  \<^verbatim>\<open>RtlFindLongestRunClear\<close> (\<^verbatim>\<open>RtlFindLongestRunSet\<close>) returns the length of the longest run of clear
  (set) bits of the bitmap and, when there is one, stores where such a run starts.  The loop
  advances by the length of each run only, so it may meet the end of a run again; the result
  is right all the same.
\<close>

theorem RtlFindLongestRun_correct:
  assumes "wf_bitmap bm" "RtlFindLongestRunClear bm s0 = (n, s)" "RtlFindLongestRunSet bm s0 = (n', s')"
  shows "(if n = 0 then s = s0 else has_run bm False (unat s) (unat n)) \<and>
    (\<forall>p k. has_run bm False p k \<longrightarrow> k \<le> unat n) \<and>
    (if n' = 0 then s' = s0 else has_run bm True (unat s') (unat n')) \<and>
    (\<forall>p k. has_run bm True p k \<longrightarrow> k \<le> unat n')"
  using wc.longest_spec [of bm 0 0 s0 n s] ws.longest_spec [of bm 0 0 s0 n' s'] assms
  by (simp add: RtlFindLongestRunClear_def RtlFindLongestRunSet_def)

theorem RtlFindLongestRun_correct_witness:
  "\<exists>n s. RtlFindLongestRunClear \<lparr>SizeOfBitMap = 40, Buffer = [0x060F874D, 0x3F303F30]\<rparr> 0 = (n, s) \<and>
     (n = 0 \<or> has_run \<lparr>SizeOfBitMap = 40, Buffer = [0x060F874D, 0x3F303F30]\<rparr> False (unat s) (unat n))"
proof -
  let ?b = "\<lparr>SizeOfBitMap = 40, Buffer = [0x060F874D, 0x3F303F30]\<rparr>"
  obtain n s where r: "RtlFindLongestRunClear ?b 0 = (n, s)" by fastforce
  obtain n' s' where r': "RtlFindLongestRunSet ?b 0 = (n', s')" by fastforce
  have "wf_bitmap ?b" by (simp add: wf_bitmap_def)
  from RtlFindLongestRun_correct [OF this r r'] r show ?thesis by (auto split: if_splits)
qed

section \<open>The runs of a bitmap\<close>

definition maximal_run :: "RTL_BITMAP \<Rightarrow> bool \<Rightarrow> nat \<Rightarrow> nat \<Rightarrow> bool" where
  "maximal_run bm val p n \<longleftrightarrow> 0 < n \<and> has_run bm val p n \<and> (p = 0 \<or> bm_bit bm (p - 1) \<noteq> val) \<and>
     (p + n = unat (SizeOfBitMap bm) \<or> bm_bit bm (p + n) \<noteq> val)"

function clear_runs :: "RTL_BITMAP \<Rightarrow> ULONG \<Rightarrow> (nat \<times> nat) list" where
  "clear_runs bm f =
     (case RtlFindNextForwardRunClear bm f of (n, s) \<Rightarrow>
        if n = 0 then [] else (unat s, unat n) # clear_runs bm (s + n))"
  by pat_completeness auto

lemma next_clear_decreases':
  assumes "(n, s) = RtlFindNextForwardRunClear bm f" "n \<noteq> 0"
  shows "unat (SizeOfBitMap bm) - unat (s + n) < unat (SizeOfBitMap bm) - unat f"
  using run_advance(2) [OF next_run_bound [OF assms(1) [symmetric] assms(2)] assms(2)] .

termination clear_runs
  by (relation "measure (\<lambda>(bm, f). unat (SizeOfBitMap bm) - unat f)")
     (auto intro: next_clear_decreases')

declare clear_runs.simps [simp del]

definition at_boundary :: "RTL_BITMAP \<Rightarrow> nat \<Rightarrow> bool" where
  "at_boundary bm f \<longleftrightarrow> f = 0 \<or> unat (SizeOfBitMap bm) \<le> f \<or> bm_bit bm f"

lemma maximal_run_step:
  assumes wf: "wf_bitmap bm" and nx: "RtlFindNextForwardRunClear bm f = (n, s)" and n: "n \<noteq> 0"
    and b: "at_boundary bm (unat f)"
  shows "at_boundary bm (unat s + unat n)" "maximal_run bm False (unat s) (unat n)"
    and "maximal_run bm False p m \<and> unat f \<le> p \<longleftrightarrow>
      p = unat s \<and> m = unat n \<or> maximal_run bm False p m \<and> unat s + unat n \<le> p"
proof -
  have f: "f < SizeOfBitMap bm" using nx n by (auto simp: RtlFindNextForwardRunClear_def split: if_splits)
  note sp = wc.next_run_spec [OF wf nx f]
  have n0: "0 < unat n" using n by (simp add: unat_gt_0)
  have fs: "unat f \<le> unat s" using sp(1) by (simp add: word_le_nat_alt)
  have e: "unat s + unat n \<le> unat (SizeOfBitMap bm)" using sp(5) by (simp add: has_run_def)
  have s_clear: "\<not> bm_bit bm i" if "unat s \<le> i" "i < unat s + unat n" for i
    using sp(5) that by (simp add: has_run_def)
  show bd: "at_boundary bm (unat s + unat n)" using sp(6) by (auto simp: at_boundary_def)
  have left: "unat s = 0 \<or> bm_bit bm (unat s - 1)"
  proof (cases "unat s = unat f")
    case True
    then show ?thesis using b s_clear [of "unat s"] n0 e by (auto simp: at_boundary_def)
  qed (use sp(4) [of "unat s - 1"] fs in auto)
  have right: "unat s + unat n = unat (SizeOfBitMap bm) \<or> bm_bit bm (unat s + unat n)"
    using sp(6) e by (cases "unat s + unat n < unat (SizeOfBitMap bm)") auto
  show mx: "maximal_run bm False (unat s) (unat n)"
    using sp(5) n0 left right by (auto simp: maximal_run_def)
  show "maximal_run bm False p m \<and> unat f \<le> p \<longleftrightarrow>
      p = unat s \<and> m = unat n \<or> maximal_run bm False p m \<and> unat s + unat n \<le> p"
  proof
    assume A: "maximal_run bm False p m \<and> unat f \<le> p"
    then have p: "0 < m" "p + m \<le> unat (SizeOfBitMap bm)" "\<And>i. p \<le> i \<Longrightarrow> i < p + m \<Longrightarrow> \<not> bm_bit bm i"
      "p = 0 \<or> bm_bit bm (p - 1)" "p + m = unat (SizeOfBitMap bm) \<or> bm_bit bm (p + m)"
      by (auto simp: maximal_run_def has_run_def)
    have "unat s \<le> p" using A sp(4) [of p] p(1,3) by force
    moreover have "p = unat s" if "p < unat s + unat n"
    proof (rule ccontr)
      assume "p \<noteq> unat s"
      then have "unat s \<le> p - 1" "p - 1 < unat s + unat n" "p \<noteq> 0" using \<open>unat s \<le> p\<close> that by linarith+
      then show False using p(4) s_clear by blast
    qed
    moreover have "m = unat n" if "p = unat s"
      using that p(2,3,5) s_clear [of "p + m"] right e by (cases m "unat n" rule: linorder_cases) auto
    ultimately show "p = unat s \<and> m = unat n \<or> maximal_run bm False p m \<and> unat s + unat n \<le> p"
      using A by linarith
  qed (use mx fs in auto)
qed

lemma clear_runs_set:
  assumes wf: "wf_bitmap bm" and "at_boundary bm (unat f)"
  shows "set (clear_runs bm f) = {(p, m). maximal_run bm False p m \<and> unat f \<le> p} \<and>
    sorted_wrt (\<lambda>(p, m) (q, k). p + m \<le> q) (clear_runs bm f)"
  using assms
proof (induction bm f rule: clear_runs.induct)
  case (1 bm f)
  obtain n s where nx: "RtlFindNextForwardRunClear bm f = (n, s)" by fastforce
  show ?case
  proof (cases "n = 0")
    case True
    then have "\<not> maximal_run bm False p m" if "unat f \<le> p" for p m
      using wc.run_in_next [OF 1(2) nx that, of m] by (auto simp: maximal_run_def)
    with True nx show ?thesis by (auto simp: clear_runs.simps [of bm f])
  next
    case False
    have sn: "unat (s + n) = unat s + unat n"
      using run_advance(4) [OF next_run_bound [OF nx False] False] .
    note step = maximal_run_step [OF 1(2) nx False 1(3)]
    have IH: "set (clear_runs bm (s + n)) = {(p, m). maximal_run bm False p m \<and> unat s + unat n \<le> p}"
      "sorted_wrt (\<lambda>(p, m) (q, k). p + m \<le> q) (clear_runs bm (s + n))"
      using 1(1) [OF nx [symmetric] False 1(2)] step(1) sn by simp_all
    have "set (clear_runs bm f) = {(p, m). maximal_run bm False p m \<and> unat f \<le> p}"
      using nx False IH(1) step(3) by (auto simp: clear_runs.simps [of bm f])
    with nx False IH show ?thesis by (auto simp: clear_runs.simps [of bm f])
  qed
qed

lemma fill_runs:
  assumes "clear_runs_fill bm left arr r f sm = (arr', r', f', sm')" "r + left \<le> length arr"
  shows "r' = r + min left (length (clear_runs bm f)) \<and>
    length arr' = length arr \<and>
    map (\<lambda>x. (unat (RunStartingIndex x), unat (RunNumberOfBits x))) (take r' arr') =
    map (\<lambda>x. (unat (RunStartingIndex x), unat (RunNumberOfBits x))) (take r arr) @ take left (clear_runs bm f)"
  using assms
proof (induction bm left arr r f sm rule: clear_runs_fill.induct)
  case (1 bm arr r f sm)
  then show ?case by simp
next
  case (2 bm left arr r f sm)
  obtain n s where nx: "RtlFindNextForwardRunClear bm f = (n, s)" by fastforce
  show ?case
  proof (cases "n = 0")
    case True
    then have "clear_runs bm f = []" using nx by (simp add: clear_runs.simps [of bm f])
    with True 2(2) nx show ?thesis by simp
  next
    case False
    define a where "a = arr[r := \<lparr>RunStartingIndex = s, RunNumberOfBits = n\<rparr>]"
    have "clear_runs_fill bm left a (Suc r) (s + n)
        (if n < RunNumberOfBits (a ! sm) then r else sm) = (arr', r', f', sm')"
      using 2(2) nx False by (simp add: Let_def a_def)
    note IH = 2(1) [OF nx [symmetric] False a_def refl this]
    have "take (Suc r) a = take r arr @ [\<lparr>RunStartingIndex = s, RunNumberOfBits = n\<rparr>]"
      using 2(3) by (simp add: a_def take_Suc_conv_app_nth)
    moreover have "clear_runs bm f = (unat s, unat n) # clear_runs bm (s + n)"
      using nx False by (simp add: clear_runs.simps [of bm f])
    moreover have "Suc r + left \<le> length a" using 2(3) by (simp add: a_def)
    ultimately show ?thesis using IH by (simp only:) (auto simp: a_def)
  qed
qed

text \<open>
  Without \<^verbatim>\<open>LocateLongestRuns\<close>, \<^verbatim>\<open>RtlFindClearRuns\<close> fills the array with the first maximal runs of
  clear bits in ascending order: the entries it reports are the initial part of a strictly
  ordered list that holds every maximal run of the bitmap, cut only by the size of the array.
\<close>

theorem RtlFindClearRuns_first_runs:
  assumes "wf_bitmap bm" "RtlFindClearRuns bm arr (length arr) False = (r, arr')"
  shows "\<exists>runs. map (\<lambda>x. (unat (RunStartingIndex x), unat (RunNumberOfBits x))) (take r arr') =
      take (length arr) runs \<and> r = min (length arr) (length runs) \<and>
    set runs = {(p, m). maximal_run bm False p m} \<and> sorted_wrt (\<lambda>(p, m) (q, k). p + m \<le> q) runs"
proof -
  obtain f' sm' where "clear_runs_fill bm (length arr) arr 0 0 0 = (arr', r, f', sm')"
    using assms(2) by (auto simp: RtlFindClearRuns_def split: prod.splits)
  note filled = fill_runs [OF this, simplified]
  have "set (clear_runs bm 0) = {(p, m). maximal_run bm False p m}"
    "sorted_wrt (\<lambda>(p, m) (q, k). p + m \<le> q) (clear_runs bm 0)"
    using clear_runs_set [of bm 0] assms(1) by (simp_all add: at_boundary_def)
  with filled show ?thesis by blast
qed

theorem RtlFindClearRuns_first_runs_witness:
  "wf_bitmap \<lparr>SizeOfBitMap = 32, Buffer = [0xF0444495]\<rparr> \<and>
   (\<exists>r arr' runs. RtlFindClearRuns \<lparr>SizeOfBitMap = 32, Buffer = [0xF0444495]\<rparr>
       (replicate 3 \<lparr>RunStartingIndex = 0, RunNumberOfBits = 0\<rparr>) 3 False = (r, arr') \<and>
     r = min 3 (length runs) \<and>
     set runs = {(p, m). maximal_run \<lparr>SizeOfBitMap = 32, Buffer = [0xF0444495]\<rparr> False p m})"
proof -
  let ?b = "\<lparr>SizeOfBitMap = 32, Buffer = [0xF0444495]\<rparr>"
    and ?a = "replicate 3 \<lparr>RunStartingIndex = 0, RunNumberOfBits = 0\<rparr>"
  have wf: "wf_bitmap ?b" by (simp add: wf_bitmap_def)
  obtain r arr' where r: "RtlFindClearRuns ?b ?a (length ?a) False = (r, arr')" by fastforce
  from RtlFindClearRuns_first_runs [OF wf r] wf r show ?thesis by (metis length_replicate)
qed

text \<open>
  With \<^verbatim>\<open>LocateLongestRuns\<close> the index of the smallest entry is never updated after the array is
  full, so the result need not hold the longest runs: for two entries the runs of this bitmap
  give lengths 5 and 1 although runs of 5 and 3 bits exist.
\<close>

theorem RtlFindClearRuns_longest_wrong:
  "RtlFindClearRuns \<lparr>SizeOfBitMap = 32, Buffer = [0xF0444495]\<rparr>
     (replicate 2 \<lparr>RunStartingIndex = 0, RunNumberOfBits = 0\<rparr>) 2 True =
   (2, [\<lparr>RunStartingIndex = 23, RunNumberOfBits = 5\<rparr>, \<lparr>RunStartingIndex = 3, RunNumberOfBits = 1\<rparr>]) \<and>
   RtlFindNextForwardRunClear \<lparr>SizeOfBitMap = 32, Buffer = [0xF0444495]\<rparr> 19 = (3, 19)"
  by code_simp

section \<open>The last run before an index\<close>

definition bscanned :: "(nat \<Rightarrow> bool) \<Rightarrow> nat \<Rightarrow> ULONG \<Rightarrow> bool" where
  "bscanned P k v \<longleftrightarrow> (\<forall>j<32. bit v j \<longleftrightarrow> P (32 * k + j)) \<and> (\<forall>i\<ge>32 * Suc k. \<not> P i)"

lemma bscanned_above:
  assumes "bscanned P k v" "\<forall>j'>j. \<not> bit v j'"
  shows "\<forall>i>32 * k + j. \<not> P i"
proof (intro allI impI)
  fix i assume i: "32 * k + j < i"
  show "\<not> P i"
  proof (cases "32 * Suc k \<le> i")
    case False
    then obtain l where "i = 32 * k + l" "l < 32" using i by (intro that [of "i - 32 * k"]) auto
    with assms i show ?thesis by (auto simp: bscanned_def)
  qed (use assms in \<open>simp add: bscanned_def\<close>)
qed

lemma bscanned_0:
  assumes "bscanned P k 0" "32 * k \<le> i" shows "\<not> P i"
proof (cases "32 * Suc k \<le> i")
  case False
  then obtain l where "i = 32 * k + l" "l < 32" using assms(2) by (intro that [of "i - 32 * k"]) auto
  with assms(1) show ?thesis by (auto simp: bscanned_def)
qed (use assms in \<open>simp add: bscanned_def\<close>)

lemma bscanned_prev:
  assumes "bscanned P (Suc k) 0" "\<And>j. j < 32 \<Longrightarrow> bit w j \<longleftrightarrow> P (32 * k + j)"
  shows "bscanned P k w"
  unfolding bscanned_def using assms(2) bscanned_0 [OF assms(1)] by blast

lemma back_skip_set_scanned:
  assumes "bscanned P k v" "\<And>k' j. k' < k \<Longrightarrow> j < 32 \<Longrightarrow> P (32 * k' + j) \<longleftrightarrow> \<not> bit (buf ! k') j"
  shows "case back_skip_set buf k v of None \<Rightarrow> \<forall>i. \<not> P i
    | Some (v', k') \<Rightarrow> v' \<noteq> 0 \<and> k' \<le> k \<and> bscanned P k' v'"
  using assms
proof (induction buf k v rule: back_skip_set.induct)
  case (1 buf v)
  then show ?case using bscanned_0 [of P 0] by auto
next
  case (2 buf k v)
  show ?case
  proof (cases "v = 0")
    case True
    have "bscanned P k (NOT (buf ! k))"
      using bscanned_prev 2(2,3) True by (simp add: bit_not_iff)
    from 2(1) [OF True this] 2(3) True show ?thesis by (auto split: option.splits prod.splits)
  next
    case False
    with 2(2) show ?thesis by simp
  qed
qed

lemma back_skip_clear_scanned:
  assumes "bscanned P k v" "\<And>k' j. k' < k \<Longrightarrow> j < 32 \<Longrightarrow> P (32 * k' + j) \<longleftrightarrow> bit (buf ! k') j"
    and "back_skip_clear buf k v = (v', k')"
  shows "if v' = 0 then \<forall>i. \<not> P i else k' \<le> k \<and> bscanned P k' v'"
  using assms
proof (induction buf k v rule: back_skip_clear.induct)
  case (1 buf v)
  then show ?case using bscanned_0 [of P 0] by auto
next
  case (2 buf k v)
  show ?case
  proof (cases "v = 0")
    case True
    have "bscanned P k (buf ! k)"
      using bscanned_prev 2(2,3) True by simp
    from 2(1) [OF True this] 2(3,4) True show ?thesis by (auto split: if_splits)
  next
    case False
    with 2(2,4) show ?thesis by auto
  qed
qed


lemma keep_low:
  "j < 32 \<Longrightarrow> c < 32 \<Longrightarrow> bit (drop_bit (31 - c) (push_bit (31 - c) (v :: ULONG))) j \<longleftrightarrow> j \<le> c \<and> bit v j"
  by (auto simp: bit_drop_bit_eq bit_push_bit_iff)

lemma bscanned_low:
  assumes "\<And>j. j < 32 \<Longrightarrow> bit v j \<longleftrightarrow> j \<le> r \<and> Q (32 * k + j)" "r < 32"
  shows "bscanned (\<lambda>i. i \<le> 32 * k + r \<and> Q i) k v"
  using assms by (auto simp: bscanned_def)

lemma back_clear_spec:
  assumes v: "bscanned P k v" "v \<noteq> 0" and P: "\<And>i. P i \<longleftrightarrow> i \<le> F \<and> \<not> buf_bit buf i"
    and bp: "BitScanReverse v = Some b"
    and sk: "back_skip_clear buf k (drop_bit (31 - b) (push_bit (31 - b) (NOT v))) = (v', k')"
  defines "s \<equiv> if v' \<noteq> 0 then k' * 32 + the (BitScanReverse v') + 1 else 0"
  shows "s \<le> 32 * k + b \<and> (\<forall>i. s \<le> i \<and> i \<le> 32 * k + b \<longrightarrow> \<not> buf_bit buf i) \<and>
      (s = 0 \<or> buf_bit buf (s - 1))"
    and "32 * k + b \<le> F" "\<forall>i. 32 * k + b < i \<and> i \<le> F \<longrightarrow> buf_bit buf i"
proof -
  have b: "b < 32" "bit v b" "\<forall>j>b. \<not> bit v j"
    using bp bit_imp_le_length [of v b] by (auto simp: BitScanReverse_Some)
  have e: "P (32 * k + b)" "\<forall>i>32 * k + b. \<not> P i"
    using v(1) b bscanned_above [OF v(1) b(3)] by (auto simp: bscanned_def)
  then show F: "32 * k + b \<le> F" and "\<forall>i. 32 * k + b < i \<and> i \<le> F \<longrightarrow> buf_bit buf i"
    using P by auto
  have "bscanned (\<lambda>i. i \<le> 32 * k + b \<and> buf_bit buf i) k (drop_bit (31 - b) (push_bit (31 - b) (NOT v)))"
    using v(1) F P b(1) by (intro bscanned_low) (auto simp: keep_low bit_not_iff bscanned_def)
  from back_skip_clear_scanned [OF this _ sk] b(1)
  have rest: "if v' = 0 then \<forall>i. \<not> (i \<le> 32 * k + b \<and> buf_bit buf i)
      else k' \<le> k \<and> bscanned (\<lambda>i. i \<le> 32 * k + b \<and> buf_bit buf i) k' v'"
    by (auto simp: buf_bit_split)
  show "s \<le> 32 * k + b \<and> (\<forall>i. s \<le> i \<and> i \<le> 32 * k + b \<longrightarrow> \<not> buf_bit buf i) \<and>
    (s = 0 \<or> buf_bit buf (s - 1))"
  proof (cases "v' = 0")
    case True
    with rest show ?thesis by (simp add: s_def)
  next
    case False
    then obtain c where c: "BitScanReverse v' = Some c" by fastforce
    then have c': "bit v' c" "\<forall>j>c. \<not> bit v' j" "c < 32"
      using bit_imp_le_length [of v' c] by (auto simp: BitScanReverse_Some)
    have sc: "bscanned (\<lambda>i. i \<le> 32 * k + b \<and> buf_bit buf i) k' v'" using rest False by simp
    then have "32 * k' + c \<le> 32 * k + b" "buf_bit buf (32 * k' + c)"
      using c'(1,3) by (auto simp: bscanned_def)
    moreover have "\<not> buf_bit buf (32 * k + b)" using e(1) P by simp
    ultimately have "32 * k' + c < 32 * k + b" by (metis le_neq_implies_less)
    then show ?thesis
      using bscanned_above [OF sc c'(2)] \<open>buf_bit buf (32 * k' + c)\<close> False c
      by (auto simp: s_def mult.commute)
  qed
qed

lemma RtlFindLastBackwardRunClear_eq:
  assumes "F = unat (min FromIndex (SizeOfBitMap bm - 1))"
  shows "RtlFindLastBackwardRunClear bm FromIndex s0 =
    (case back_skip_set (Buffer bm) (F div 32)
        (drop_bit (31 - F mod 32) (push_bit (31 - F mod 32) (NOT (Buffer bm ! (F div 32))))) of
       None \<Rightarrow> (0, s0)
     | Some (v, k) \<Rightarrow>
         let b = the (BitScanReverse v);
             (v', k') = back_skip_clear (Buffer bm) k (drop_bit (31 - b) (push_bit (31 - b) (NOT v)));
             s = (if v' \<noteq> 0 then of_nat (k' * 32 + the (BitScanReverse v') + 1) else 0)
         in (of_nat (k * 32 + b) - s, s))"
proof -
  have "(x AND 31) \<le> 31" for x :: ULONG by (simp add: word_le_nat_alt)
  then have "unat (31 - (x AND 31)) = 31 - unat x mod 32" for x :: ULONG by (simp add: unat_sub)
  then show ?thesis unfolding RtlFindLastBackwardRunClear_def Let_def unat_div_32 assms by simp
qed

text \<open>
  \<^verbatim>\<open>RtlFindLastBackwardRunClear\<close> finds the last clear bit \<open>e\<close> at or before the index (clipped to the
  bitmap) and stores the start of the run of clear bits that ends there.  The value it
  returns is one less than the length of this run.  Without a clear bit it returns 0 and
  stores nothing.
\<close>

theorem RtlFindLastBackwardRunClear_correct:
  assumes "wf_bitmap bm" "SizeOfBitMap bm \<noteq> 0"
    and F: "F = min (unat FromIndex) (unat (SizeOfBitMap bm) - 1)"
    and r: "RtlFindLastBackwardRunClear bm FromIndex s0 = (n, s)"
  shows "(\<forall>i\<le>F. bm_bit bm i) \<and> n = 0 \<and> s = s0 \<or>
    (\<exists>e\<le>F. (\<forall>i. e < i \<and> i \<le> F \<longrightarrow> bm_bit bm i) \<and> unat s \<le> e \<and>
       has_run bm False (unat s) (Suc e - unat s) \<and> (unat s = 0 \<or> bm_bit bm (unat s - 1)) \<and>
       unat n = e - unat s)"
proof -
  define f where "f = min FromIndex (SizeOfBitMap bm - 1)"
  have "unat (SizeOfBitMap bm - 1) = unat (SizeOfBitMap bm) - 1"
    using assms(2) by (simp add: unat_minus_one)
  then have f: "unat f = F" by (auto simp: f_def F min_def word_le_nat_alt)
  have "0 < unat (SizeOfBitMap bm)" using assms(2) by (simp add: unat_gt_0)
  then have F_lt: "F < unat (SizeOfBitMap bm)" "F < 2 ^ 32"
    using unat_32_less [of f] f F by (linarith, simp)
  define k v where "k = F div 32" and "v = drop_bit (31 - F mod 32) (push_bit (31 - F mod 32) (NOT (Buffer bm ! k)))"
  have "bscanned (\<lambda>i. i \<le> 32 * k + F mod 32 \<and> \<not> bm_bit bm i) k v"
    by (intro bscanned_low) (auto simp: v_def keep_low bit_not_iff buf_bit_split)
  then have sc: "bscanned (\<lambda>i. i \<le> F \<and> \<not> bm_bit bm i) k v" by (simp add: k_def)
  note eq = RtlFindLastBackwardRunClear_eq [OF f [symmetric, unfolded f_def], of s0, folded k_def, folded v_def]
  have skip: "case back_skip_set (Buffer bm) k v of None \<Rightarrow> \<forall>i. \<not> (i \<le> F \<and> \<not> bm_bit bm i)
    | Some (v', k') \<Rightarrow> v' \<noteq> 0 \<and> k' \<le> k \<and> bscanned (\<lambda>i. i \<le> F \<and> \<not> bm_bit bm i) k' v'"
    by (rule back_skip_set_scanned [OF sc]) (auto simp: k_def buf_bit_split)
  show ?thesis
  proof (cases "back_skip_set (Buffer bm) k v")
    case None
    with skip r eq show ?thesis by auto
  next
    case (Some vk)
    then obtain v1 k1 where v1: "back_skip_set (Buffer bm) k v = Some (v1, k1)" by (cases vk) simp
    with skip have v1': "v1 \<noteq> 0" "bscanned (\<lambda>i. i \<le> F \<and> \<not> bm_bit bm i) k1 v1" by simp_all
    then obtain b where b: "BitScanReverse v1 = Some b" by fastforce
    obtain v2 k2 where sk: "back_skip_clear (Buffer bm) k1 (drop_bit (31 - b) (push_bit (31 - b) (NOT v1))) = (v2, k2)"
      by fastforce
    define t where "t = (if v2 \<noteq> 0 then k2 * 32 + the (BitScanReverse v2) + 1 else 0)"
    note sp = back_clear_spec [OF v1'(2,1) _ b sk, of F, folded t_def, OF refl]
    have ns: "n = of_nat (32 * k1 + b) - s" "s = of_nat t"
      using r eq v1 b sk by (auto simp: t_def Let_def mult.commute)
    have "unat s = t" using ns(2) sp F_lt(2) by (simp add: unat_of_nat_32)
    moreover have "unat n = 32 * k1 + b - t"
      unfolding ns by (rule unat_diff_of_nat_32) (use sp F_lt(2) in auto)
    ultimately show ?thesis
      using sp F_lt(1) by (intro disjI2 exI [of _ "32 * k1 + b"]) (auto simp: has_run_def less_Suc_eq_le)
  qed
qed

theorem RtlFindLastBackwardRunClear_correct_witness:
  "\<exists>n s e. RtlFindLastBackwardRunClear \<lparr>SizeOfBitMap = 40, Buffer = [0x060F874D, 0x3F303F30]\<rparr> 50 0 = (n, s) \<and>
     has_run \<lparr>SizeOfBitMap = 40, Buffer = [0x060F874D, 0x3F303F30]\<rparr> False (unat s) (Suc e - unat s) \<and>
     unat s \<le> e \<and> unat n = e - unat s"
proof -
  let ?b = "\<lparr>SizeOfBitMap = 40, Buffer = [0x060F874D, 0x3F303F30]\<rparr>"
  obtain n s where r: "RtlFindLastBackwardRunClear ?b 50 0 = (n, s)" by fastforce
  have "wf_bitmap ?b" "SizeOfBitMap ?b \<noteq> 0" "(39 :: nat) = min (unat (50 :: ULONG)) (unat (SizeOfBitMap ?b) - 1)"
    by (simp_all add: wf_bitmap_def)
  from RtlFindLastBackwardRunClear_correct [OF this r] have
    "\<not> (\<forall>i\<le>39. bm_bit ?b i) \<Longrightarrow> \<exists>e. has_run ?b False (unat s) (Suc e - unat s) \<and> unat s \<le> e \<and> unat n = e - unat s"
    by blast
  moreover have "\<not> bm_bit ?b 1" by (simp add: buf_bit_def)
  ultimately show ?thesis using r by fastforce
qed

end
