(* ===== verification/Rtl_Bitmap_Count.thy ===== *)
theory Rtl_Bitmap_Count
  imports Rtl_Bitmap_Search
begin

text \<open>
  Counting, testing and writing bits in \<^verbatim>\<open>sdk/lib/rtl/bitmap.c\<close>: the table-driven count of set bits
  against the cardinality of the set of positions, the range and single-bit operations, and
  the significant-bit searches in their 32-bit and 64-bit variants.
\<close>

section \<open>Counting\<close>

text \<open>The table of bit counts of the numbers below \<open>2 ^ k\<close>, by doubling.\<close>

fun counts :: "nat \<Rightarrow> nat list" where
  "counts 0 = [0]"
| "counts (Suc k) = counts k @ map Suc (counts k)"

lemma counts_length [simp]: "length (counts k) = 2 ^ k"
  by (induction k) simp_all

lemma counts_nth: "n < 2 ^ k \<Longrightarrow> counts k ! n = card {j. j < k \<and> bit n j}"
proof (induction k arbitrary: n)
  case 0
  then show ?case by simp
next
  case (Suc k)
  show ?case
  proof (cases "n < 2 ^ k")
    case True
    then have "\<not> bit n k" by (simp add: bit_iff_odd)
    then have "{j. j < Suc k \<and> bit n j} = {j. j < k \<and> bit n j}" by (auto simp: less_Suc_eq)
    with True Suc.IH show ?thesis by (simp add: nth_append)
  next
    case False
    define m where "m = n - 2 ^ k"
    have m: "n = 2 ^ k + m" "m < 2 ^ k" using False Suc.prems by (simp_all add: m_def)
    have bits: "bit n j \<longleftrightarrow> bit m j" if "j < k" for j
    proof -
      have "take_bit k n = m" using m by (simp add: take_bit_eq_mod)
      then show ?thesis using that by (metis bit_take_bit_iff)
    qed
    have "bit n k" using m by (simp add: bit_iff_odd div_add_self1)
    with bits have "{j. j < Suc k \<and> bit n j} = insert k {j. j < k \<and> bit m j}"
      by (auto simp: less_Suc_eq)
    with m Suc.IH [OF m(2)] show ?thesis by (simp add: nth_append)
  qed
qed

lemma counts_numeral: "counts (numeral k) = counts (pred_numeral k) @ map Suc (counts (pred_numeral k))"
  by (simp add: numeral_eq_Suc)

lemma BitCountTable_counts: "BitCountTable = counts 8"
  by (simp add: BitCountTable_def counts_numeral)

lemma BitCountTable_nth: "BitCountTable ! unat (b :: UCHAR) = card {j. j < 8 \<and> bit b j}"
proof -
  have "unat b < 2 ^ 8" by (rule less_le_trans [OF unsigned_less]) simp
  then have "BitCountTable ! unat b = card {j. j < 8 \<and> bit (unat b) j}"
    by (simp only: BitCountTable_counts counts_nth)
  then show ?thesis by (simp add: bit_unsigned_iff)
qed

lemma ulong_byte_bit: "j < 8 \<Longrightarrow> bit (ulong_byte buf k) j = buf_bit buf (8 * k + j)"
proof -
  assume j: "j < 8"
  obtain q t where k: "k = 4 * q + t" "t < 4" by (metis mod_less_divisor mult_div_mod_eq zero_less_numeral)
  define x where "x = 8 * t + j"
  have "8 * k + j = 32 * q + x" "x < 32" using j k by (simp_all add: x_def)
  then have "(8 * k + j) div 32 = q" "(8 * k + j) mod 32 = x" by simp_all
  then have "(8 * k + j) div 32 = k div 4" "(8 * k + j) mod 32 = 8 * (k mod 4) + j"
    using k by (simp_all add: x_def)
  with j show ?thesis by (simp add: ulong_byte_def buf_bit_def bit_ucast_iff bit_drop_bit_eq)
qed

definition set_below :: "ULONG list \<Rightarrow> nat \<Rightarrow> nat set" where
  "set_below buf n = {i. i < n \<and> buf_bit buf i}"

lemma set_below_card_add:
  "card (set_below buf (n + m)) = card (set_below buf n) + card {j. j < m \<and> buf_bit buf (n + j)}"
proof -
  have "set_below buf (n + m) = set_below buf n \<union> (+) n ` {j. j < m \<and> buf_bit buf (n + j)}"
    by (auto simp: set_below_def image_iff intro: le_add_diff_inverse [symmetric])
       (metis add_diff_inverse_nat nat_add_left_cancel_less)
  moreover have "set_below buf n \<inter> (+) n ` {j. j < m \<and> buf_bit buf (n + j)} = {}"
    by (auto simp: set_below_def)
  moreover have "finite (set_below buf n)" by (simp add: set_below_def)
  ultimately show ?thesis by (simp add: card_Un_disjoint card_image)
qed

lemma count_bytes_card:
  "count_bytes buf k n c = c + of_nat (card (set_below buf (8 * (k + n)))) - of_nat (card (set_below buf (8 * k)))"
proof (induction buf k n c rule: count_bytes.induct)
  case (1 buf k c)
  then show ?case by simp
next
  case (2 buf k n c)
  have "BitCountTable ! unat (ulong_byte buf k) = card {j. j < 8 \<and> buf_bit buf (8 * k + j)}"
    by (simp add: BitCountTable_nth ulong_byte_bit cong: conj_cong)
  moreover have "card (set_below buf (8 * Suc k)) =
      card (set_below buf (8 * k)) + card {j. j < 8 \<and> buf_bit buf (8 * k + j)}"
    using set_below_card_add [of buf "8 * k" 8] by (simp add: add.commute)
  ultimately show ?case using 2 by (simp add: algebra_simps)
qed

lemma unat_and_7: "unat ((x :: ULONG) AND 7) = unat x mod 8"
proof -
  have "x AND 7 = take_bit 3 x" by (simp add: take_bit_eq_mask mask_eq_exp_minus_1)
  then show ?thesis by (simp only: unsigned_take_bit_eq) (simp add: take_bit_eq_mod)
qed

lemma BitCountTable_low:
  "BitCountTable ! unat (x AND 0xFF :: ULONG) = card {j. j < 8 \<and> bit x j}"
proof -
  have x: "x AND 0xFF = take_bit 8 x" by (simp add: take_bit_eq_mask mask_eq_exp_minus_1)
  then have "unat (x AND 0xFF) < 2 ^ 8" by (simp only: unsigned_take_bit_eq) (simp add: take_bit_eq_mod)
  then have "BitCountTable ! unat (x AND 0xFF) = card {j. j < 8 \<and> bit (unat (x AND 0xFF)) j}"
    by (simp only: BitCountTable_counts counts_nth)
  then show ?thesis unfolding x by (simp add: bit_unsigned_iff bit_take_bit_iff cong: conj_cong)
qed

lemma last_byte_count:
  fixes w :: UCHAR
  assumes "r < 8"
  shows "BitCountTable ! unat (push_bit (8 - r) (ucast w :: ULONG) AND 0xFF) = card {j. j < r \<and> bit w j}"
proof -
  have "{j. j < 8 \<and> bit (push_bit (8 - r) (ucast w :: ULONG)) j} = (+) (8 - r) ` {j. j < r \<and> bit w j}"
  proof (intro set_eqI iffI)
    fix j assume j: "j \<in> {j. j < 8 \<and> bit (push_bit (8 - r) (ucast w :: ULONG)) j}"
    then have "8 - r \<le> j" "bit w (j - (8 - r))" by (auto simp: bit_push_bit_iff bit_ucast_iff)
    then show "j \<in> (+) (8 - r) ` {j. j < r \<and> bit w j}"
      using j assms by (intro image_eqI [of _ _ "j - (8 - r)"]) auto
  qed (use assms in \<open>auto simp: bit_push_bit_iff bit_ucast_iff\<close>)
  then show ?thesis unfolding BitCountTable_low by (simp add: card_image)
qed

lemma RtlNumberOfSetBits_below:
  "RtlNumberOfSetBits bm = of_nat (card (set_below (Buffer bm) (unat (SizeOfBitMap bm))))"
proof -
  define z where "z = unat (SizeOfBitMap bm)"
  have byte: "unat (SizeOfBitMap bm div 8) = z div 8" by (simp add: z_def unat_div)
  have "SizeOfBitMap bm AND 7 \<le> 8" by (simp add: word_le_nat_alt unat_and_7)
  then have shift: "unat (8 - (SizeOfBitMap bm AND 7)) = 8 - z mod 8"
    by (simp add: unat_sub unat_and_7 z_def)
  have zero: "SizeOfBitMap bm AND 7 = 0 \<longleftrightarrow> z mod 8 = 0"
    unfolding z_def by (metis unat_and_7 unat_eq_zero)
  have full: "count_bytes (Buffer bm) 0 (z div 8) 0 = of_nat (card (set_below (Buffer bm) (8 * (z div 8))))"
    using count_bytes_card [of "Buffer bm" 0 "z div 8" 0] by (simp add: set_below_def)
  have "card (set_below (Buffer bm) z) = card (set_below (Buffer bm) (8 * (z div 8))) +
      card {j. j < z mod 8 \<and> bit (ulong_byte (Buffer bm) (z div 8)) j}"
    using set_below_card_add [of "Buffer bm" "8 * (z div 8)" "z mod 8"]
    by (simp add: ulong_byte_bit cong: conj_cong)
  then show ?thesis
    unfolding RtlNumberOfSetBits_def Let_def byte full shift zero
    by (simp add: last_byte_count flip: z_def)
qed

text \<open>
  \<^verbatim>\<open>RtlNumberOfSetBits\<close>, which adds up table entries byte by byte and shifts the last byte into
  place, returns the number of set bits of the bitmap; \<^verbatim>\<open>RtlNumberOfClearBits\<close> returns the rest.
\<close>

theorem RtlNumberOfSetBits_card:
  "unat (RtlNumberOfSetBits bm) = card {i. i < unat (SizeOfBitMap bm) \<and> bm_bit bm i} \<and>
   unat (RtlNumberOfClearBits bm) = card {i. i < unat (SizeOfBitMap bm) \<and> \<not> bm_bit bm i}"
proof -
  let ?z = "unat (SizeOfBitMap bm)"
  have le: "card {i. i < ?z \<and> bm_bit bm i} \<le> ?z"
    using card_mono [of "{..<?z}" "{i. i < ?z \<and> bm_bit bm i}"] by auto
  then have set: "unat (RtlNumberOfSetBits bm) = card {i. i < ?z \<and> bm_bit bm i}"
    using unat_32_less [of "SizeOfBitMap bm"]
    by (simp add: RtlNumberOfSetBits_below set_below_def unat_of_nat_32)
  then have "unat (RtlNumberOfClearBits bm) = ?z - card {i. i < ?z \<and> bm_bit bm i}"
    using le by (simp add: RtlNumberOfClearBits_def unat_sub word_le_nat_alt)
  also have "\<dots> = card ({..<?z} - {i. i < ?z \<and> bm_bit bm i})" by (subst card_Diff_subset) auto
  also have "{..<?z} - {i. i < ?z \<and> bm_bit bm i} = {i. i < ?z \<and> \<not> bm_bit bm i}" by auto
  finally show ?thesis using set by simp
qed

section \<open>Testing\<close>

lemma range_fits:
  fixes s n z :: ULONG
  shows "\<not> (z < s + n \<or> s + n \<le> s) \<longleftrightarrow> n \<noteq> 0 \<and> unat s + unat n \<le> unat z"
proof (cases "unat s + unat n < 2 ^ 32")
  case True
  then have "unat (s + n) = unat s + unat n" by (simp add: unat_word_ariths)
  then show ?thesis by (auto simp: word_le_nat_alt word_less_nat_alt unat_gt_0 unat_eq_zero)
next
  case False
  then have "unat (s + n) = unat s + unat n - 2 ^ 32"
    using unat_32_less [of s] unat_32_less [of n] by (simp add: unat_word_ariths le_mod_geq)
  then show ?thesis using False unat_32_less [of s] unat_32_less [of n] unat_32_less [of z]
    by (auto simp: word_le_nat_alt word_less_nat_alt)
qed

context run_scanner
begin

lemma scan_whole_range:
  assumes wf: "wf_bitmap bm" and n: "n \<noteq> 0" "unat s + unat n \<le> unat (SizeOfBitMap bm)"
  shows "n \<le> scan bm s n \<longleftrightarrow> has_run bm val (unat s) (unat n)"
proof -
  have s: "s < SizeOfBitMap bm"
    using n unat_gt_0 [of n] by (simp add: word_less_nat_alt)
  show ?thesis
  proof
    assume "n \<le> scan bm s n"
    then show "has_run bm val (unat s) (unat n)"
      using scan_run [OF wf s, of _ n] n(2) less_le_trans unfolding has_run_def word_le_nat_alt
      by (metis add_le_cancel_left)
  next
    assume h: "has_run bm val (unat s) (unat n)"
    show "n \<le> scan bm s n"
    proof (rule ccontr)
      assume "\<not> n \<le> scan bm s n"
      then have "unat (scan bm s n) < unat n" "scan bm s n < n" by (simp_all add: word_le_nat_alt word_less_nat_alt)
      with scan_stop [OF wf s, of n] n(2) h show False by (simp add: has_run_def)
    qed
  qed
qed

end

text \<open>
  \<^verbatim>\<open>RtlAreBitsClear\<close> (\<^verbatim>\<open>RtlAreBitsSet\<close>) answers whether a non-empty range lies inside the bitmap and
  all its bits are clear (set), also when the end of the range overflows 32 bits.
\<close>

theorem RtlAreBits_iff:
  assumes "wf_bitmap bm"
  shows "(RtlAreBitsClear bm s n \<longleftrightarrow> n \<noteq> 0 \<and> has_run bm False (unat s) (unat n)) \<and>
    (RtlAreBitsSet bm s n \<longleftrightarrow> n \<noteq> 0 \<and> has_run bm True (unat s) (unat n))"
proof (cases "n \<noteq> 0 \<and> unat s + unat n \<le> unat (SizeOfBitMap bm)")
  case True
  then have "\<not> (SizeOfBitMap bm < s + n \<or> s + n \<le> s)" by (simp only: range_fits) simp
  with True show ?thesis
    using rc.scan_whole_range [OF assms] rs.scan_whole_range [OF assms]
    by (auto simp: RtlAreBitsClear_def RtlAreBitsSet_def)
next
  case False
  then have "SizeOfBitMap bm < s + n \<or> s + n \<le> s" using range_fits by blast
  with False show ?thesis by (auto simp: RtlAreBitsClear_def RtlAreBitsSet_def has_run_def)
qed

theorem RtlAreBits_iff_witness:
  "wf_bitmap \<lparr>SizeOfBitMap = 40, Buffer = [0x060F874D, 0x3F303F30]\<rparr> \<and>
   RtlAreBitsSet \<lparr>SizeOfBitMap = 40, Buffer = [0x060F874D, 0x3F303F30]\<rparr> 16 4 =
     has_run \<lparr>SizeOfBitMap = 40, Buffer = [0x060F874D, 0x3F303F30]\<rparr> True 16 4"
  using RtlAreBits_iff [of "\<lparr>SizeOfBitMap = 40, Buffer = [0x060F874D, 0x3F303F30]\<rparr>" 16 4]
  by (simp add: wf_bitmap_def)

lemma RtlTestBit_bit: "RtlTestBit bm j = bm_bit bm (unat j)"
  by (simp add: RtlTestBit_def buf_bit_def unat_div_32 and_one_eq bit_iff_odd_drop_bit odd_iff_mod_2_eq_one)

text \<open>
  Single bits: after \<^verbatim>\<open>RtlSetBit\<close> or \<^verbatim>\<open>RtlClearBit\<close> of an index inside the buffer, \<^verbatim>\<open>RtlTestBit\<close> of
  that index tells the new value and \<^verbatim>\<open>RtlTestBit\<close> of every other index the old one.
\<close>

theorem RtlTestBit_after_write:
  assumes "unat i < 32 * length (Buffer bm)"
  shows "(RtlTestBit (RtlSetBit bm i) j \<longleftrightarrow> j = i \<or> RtlTestBit bm j) \<and>
    (RtlTestBit (RtlClearBit bm i) j \<longleftrightarrow> j \<noteq> i \<and> RtlTestBit bm j)"
proof -
  have p: "unat i div 32 < length (Buffer bm)" using assms by (simp add: div_less_iff_less_mult mult.commute)
  have one: "bit (2 ^ k :: ULONG) m \<longleftrightarrow> m = k" if "m < 32" "k < 32" for m k
    using that by (auto simp: bit_exp_iff)
  have same: "unat j div 32 = unat i div 32 \<and> unat j mod 32 = unat i mod 32 \<longleftrightarrow> j = i"
    by (metis mult_div_mod_eq word_unat_eq_iff)
  show ?thesis
    using same unfolding RtlTestBit_bit RtlSetBit_def RtlClearBit_def Let_def unat_div_32 unat_and_31
    by (auto simp: buf_bit_or [OF p] buf_bit_and [OF p] bit_not_iff one)
qed

theorem RtlTestBit_after_write_witness:
  "RtlTestBit (RtlSetBit \<lparr>SizeOfBitMap = 8, Buffer = [0]\<rparr> 3) 3 \<and>
   RtlTestBit (RtlClearBit \<lparr>SizeOfBitMap = 8, Buffer = [0]\<rparr> 3) 3 = False"
  using RtlTestBit_after_write [of 3 "\<lparr>SizeOfBitMap = 8, Buffer = [0]\<rparr>" 3] by simp

section \<open>Most and least significant bits\<close>

lemma halves:
  fixes v :: "64 word"
  shows "bit (ucast (drop_bit 32 v) :: ULONG) j \<longleftrightarrow> bit v (j + 32)"
    and "bit (ucast v :: ULONG) j \<longleftrightarrow> j < 32 \<and> bit v j"
  using bit_imp_le_length [of v "j + 32"] by (auto simp: bit_ucast_iff bit_drop_bit_eq add.commute)

locale split_word =
  fixes v :: "64 word" and hi lo :: ULONG
  assumes hi: "\<And>j. bit hi j \<longleftrightarrow> bit v (j + 32)" and lo: "\<And>j. bit lo j \<longleftrightarrow> j < 32 \<and> bit v j"
begin

lemma bit_split: "bit v j \<longleftrightarrow> (if j < 32 then bit lo j else bit hi (j - 32))"
  by (simp add: hi lo)

lemma zero_split: "v = 0 \<longleftrightarrow> hi = 0 \<and> lo = 0"
proof
  assume "hi = 0 \<and> lo = 0"
  then show "v = 0" by (intro bit_word_eqI) (simp add: bit_split)
next
  assume "v = 0"
  then show "hi = 0 \<and> lo = 0" by (auto intro!: bit_word_eqI simp: hi lo)
qed

lemma reverse_split:
  "BitScanReverse v = (case BitScanReverse hi of Some p \<Rightarrow> Some (p + 32) | None \<Rightarrow> BitScanReverse lo)"
proof (cases "BitScanReverse hi")
  case (Some p)
  then have p: "bit hi p" "\<forall>j>p. \<not> bit hi j" by (simp_all add: BitScanReverse_Some)
  have "\<not> bit v j" if "p + 32 < j" for j using p(2) [rule_format, of "j - 32"] that by (simp add: bit_split)
  then have "BitScanReverse v = Some (p + 32)" using p(1) by (simp add: BitScanReverse_Some hi)
  with Some show ?thesis by simp
next
  case None
  show ?thesis
  proof (cases "BitScanReverse lo")
    case (Some p)
    then have "bit lo p" "\<forall>j>p. \<not> bit lo j" by (simp_all add: BitScanReverse_Some)
    then have "BitScanReverse v = Some p" using None lo [of p] by (simp add: BitScanReverse_Some bit_split)
    with Some None show ?thesis by simp
  qed (use None zero_split in simp)
qed

lemma forward_split:
  "BitScanForward v =
     (case BitScanForward lo of Some p \<Rightarrow> Some p | None \<Rightarrow> map_option (\<lambda>p. p + 32) (BitScanForward hi))"
proof (cases "BitScanForward lo")
  case (Some p)
  then have "BitScanForward v = Some p" by (simp add: BitScanForward_Some lo)
  with Some show ?thesis by simp
next
  case None
  show ?thesis
  proof (cases "BitScanForward hi")
    case (Some p)
    then have p: "bit hi p" "\<forall>j<p. \<not> bit hi j" by (simp_all add: BitScanForward_Some)
    have "\<not> bit v j" if "j < p + 32" for j
      using p(2) [rule_format, of "j - 32"] None that by (simp add: bit_split)
    then have "BitScanForward v = Some (p + 32)" using p(1) by (simp add: BitScanForward_Some hi)
    with None Some show ?thesis by simp
  qed (use None zero_split in simp)
qed

end

interpretation sw64: split_word v "ucast (drop_bit 32 v)" "ucast v" for v
  by unfold_locales (rule halves)+

text \<open>
  \<^verbatim>\<open>RtlFindMostSignificantBit\<close> and \<^verbatim>\<open>RtlFindLeastSignificantBit\<close> return the highest and the lowest
  set bit of a 64-bit value, -1 for 0, and the variant that works on two 32-bit halves
  agrees with the one for 64-bit machines.
\<close>

theorem RtlFindSignificantBit_correct:
  "RtlFindMostSignificantBit v = RtlFindMostSignificantBit_amd64 v \<and>
   RtlFindLeastSignificantBit v = RtlFindLeastSignificantBit_amd64 v \<and>
   (RtlFindMostSignificantBit v = - 1 \<longleftrightarrow> v = 0) \<and> (RtlFindLeastSignificantBit v = - 1 \<longleftrightarrow> v = 0) \<and>
   (RtlFindMostSignificantBit v = int p \<longleftrightarrow> bit v p \<and> {i. p < i \<and> bit v i} = {}) \<and>
   (RtlFindLeastSignificantBit v = int p \<longleftrightarrow> bit v p \<and> {i. i < p \<and> bit v i} = {})"
proof -
  have m: "RtlFindMostSignificantBit v = RtlFindMostSignificantBit_amd64 v"
    unfolding RtlFindMostSignificantBit_amd64_def sw64.reverse_split [of v]
    by (auto simp: RtlFindMostSignificantBit_def split: option.splits)
  have l: "RtlFindLeastSignificantBit v = RtlFindLeastSignificantBit_amd64 v"
    unfolding RtlFindLeastSignificantBit_amd64_def sw64.forward_split [of v]
    by (auto simp: RtlFindLeastSignificantBit_def split: option.splits)
  have "BitScanReverse v = Some p \<longleftrightarrow> bit v p \<and> {i. p < i \<and> bit v i} = {}"
    "BitScanForward v = Some p \<longleftrightarrow> bit v p \<and> {i. i < p \<and> bit v i} = {}"
    by (auto simp: BitScanReverse_Some BitScanForward_Some)
  moreover have "(BitScanReverse v = None \<longleftrightarrow> v = 0) \<and> (BitScanForward v = None \<longleftrightarrow> v = 0)" by simp
  ultimately show ?thesis
    unfolding m l RtlFindMostSignificantBit_amd64_def RtlFindLeastSignificantBit_amd64_def
    by (cases "BitScanReverse v"; cases "BitScanForward v") auto
qed

section \<open>Writing ranges\<close>

text \<open>
  \<^verbatim>\<open>RtlSetBits\<close> and \<^verbatim>\<open>RtlClearBits\<close>, which treat the first, the full and the last \<^verbatim>\<open>ULONG\<close> of a range
  separately, write exactly the bits of the range and keep all others.
\<close>

theorem RtlSetBits_ClearBits_exact:
  assumes "unat s + unat n \<le> 32 * length (Buffer bm)"
  shows "range_written bm (RtlSetBits bm s n) (unat s) (unat n) True \<and>
    range_written bm (RtlClearBits bm s n) (unat s) (unat n) False"
  using sw.write_bit [OF assms] cw.write_bit [OF assms] by (simp add: range_written_def)

theorem RtlSetBits_ClearBits_exact_witness:
  "range_written \<lparr>SizeOfBitMap = 80, Buffer = [1, 2, 3]\<rparr> (RtlSetBits \<lparr>SizeOfBitMap = 80, Buffer = [1, 2, 3]\<rparr> 5 70) 5 70 True"
  using RtlSetBits_ClearBits_exact [of 5 70 "\<lparr>SizeOfBitMap = 80, Buffer = [1, 2, 3]\<rparr>"] by simp

lemma fill_all_bit:
  assumes "wf_bitmap bm" "i < unat (SizeOfBitMap bm)"
  shows "buf_bit (RtlFillMemoryUlong (Buffer bm) 0 (unat ((SizeOfBitMap bm + 32 - 1) div 32) * 4) F) i =
    bit F (i mod 32)"
proof -
  have "unat (SizeOfBitMap bm + 31) = unat (SizeOfBitMap bm) + 31"
    using assms(1) by (simp add: wf_bitmap_def unat_word_ariths)
  then have "unat ((SizeOfBitMap bm + 32 - 1) div 32) = (unat (SizeOfBitMap bm) + 31) div 32"
    by (simp add: unat_div_32 algebra_simps)
  moreover have "i div 32 < (unat (SizeOfBitMap bm) + 31) div 32" using assms(2) by linarith
  moreover have "i div 32 < length (Buffer bm)"
    using assms by (simp add: wf_bitmap_def div_less_iff_less_mult mult.commute)
  ultimately show ?thesis by (simp add: RtlFillMemoryUlong_def buf_bit_def fill_ulongs_nth)
qed

text \<open>
  \<^verbatim>\<open>RtlSetAllBits\<close> and \<^verbatim>\<open>RtlClearAllBits\<close> give every bit of the bitmap the value and keep it
  well-formed.
\<close>

theorem RtlSetAllBits_ClearAllBits:
  assumes "wf_bitmap bm"
  shows "has_run (RtlSetAllBits bm) True 0 (unat (SizeOfBitMap bm)) \<and> wf_bitmap (RtlSetAllBits bm) \<and>
    has_run (RtlClearAllBits bm) False 0 (unat (SizeOfBitMap bm)) \<and> wf_bitmap (RtlClearAllBits bm)"
proof -
  have one: "bit (NOT 0 :: ULONG) (i mod 32)" for i using max_bit [of i] by simp
  have all: "Buffer (RtlSetAllBits bm) =
      RtlFillMemoryUlong (Buffer bm) 0 (unat ((SizeOfBitMap bm + 32 - 1) div 32) * 4) (NOT 0)"
    "Buffer (RtlClearAllBits bm) =
      RtlFillMemoryUlong (Buffer bm) 0 (unat ((SizeOfBitMap bm + 32 - 1) div 32) * 4) 0"
    by (simp_all add: RtlSetAllBits_def RtlClearAllBits_def Let_def)
  have "wf_bitmap (RtlSetAllBits bm)" "wf_bitmap (RtlClearAllBits bm)"
    using assms by (simp_all add: wf_bitmap_def RtlSetAllBits_def RtlClearAllBits_def Let_def)
  moreover have "buf_bit (Buffer (RtlSetAllBits bm)) i" "\<not> buf_bit (Buffer (RtlClearAllBits bm)) i"
    if "i < unat (SizeOfBitMap bm)" for i
    by (simp_all only: all fill_all_bit [OF assms that] one) simp
  ultimately show ?thesis
    by (simp add: has_run_def) (simp add: RtlSetAllBits_def RtlClearAllBits_def Let_def)
qed

theorem RtlSetAllBits_ClearAllBits_witness:
  "has_run (RtlSetAllBits \<lparr>SizeOfBitMap = 40, Buffer = [1, 2]\<rparr>) True 0 40"
  using RtlSetAllBits_ClearAllBits [of "\<lparr>SizeOfBitMap = 40, Buffer = [1, 2]\<rparr>"] by (simp add: wf_bitmap_def)

end
