(* ===== verification/Ros_Memory.thy ===== *)
theory Ros_Memory
  imports Ros_Prelude
begin

text \<open>
  Byte-addressed memory for the code that works on variable-length structures through raw
  pointers (SIDs, ACLs, security descriptors).  A pointer is a natural number, 0 is \<^verbatim>\<open>NULL\<close>;
  multi-byte fields are little-endian.  \<^verbatim>\<open>RtlCopyMemory\<close> and \<^verbatim>\<open>RtlMoveMemory\<close> both read the whole
  source before it is overwritten, as the C library's \<^verbatim>\<open>memcpy\<close> and \<^verbatim>\<open>memmove\<close> do here
  (\<^verbatim>\<open>sdk/lib/crt/mem\<close>).
\<close>

type_synonym mem = "nat \<Rightarrow> UCHAR"

definition rd16 :: "mem \<Rightarrow> nat \<Rightarrow> USHORT" where
  "rd16 m a = (ucast (m a) OR push_bit 8 (ucast (m (a + 1))))"

definition rd32 :: "mem \<Rightarrow> nat \<Rightarrow> ULONG" where
  "rd32 m a = (ucast (rd16 m a) OR push_bit 16 (ucast (rd16 m (a + 2))))"

definition wr8 :: "mem \<Rightarrow> nat \<Rightarrow> UCHAR \<Rightarrow> mem" where
  "wr8 m a v = m(a := v)"

definition wr16 :: "mem \<Rightarrow> nat \<Rightarrow> USHORT \<Rightarrow> mem" where
  "wr16 m a v = m(a := ucast v, a + 1 := ucast (drop_bit 8 v))"

definition wr32 :: "mem \<Rightarrow> nat \<Rightarrow> ULONG \<Rightarrow> mem" where
  "wr32 m a v = wr16 (wr16 m a (ucast v)) (a + 2) (ucast (drop_bit 16 v))"

definition RtlMoveMemory :: "mem \<Rightarrow> nat \<Rightarrow> nat \<Rightarrow> nat \<Rightarrow> mem" where
  "RtlMoveMemory m Destination Source Length =
     (\<lambda>a. if Destination \<le> a \<and> a < Destination + Length then m (Source + (a - Destination)) else m a)"

abbreviation (input) RtlCopyMemory :: "mem \<Rightarrow> nat \<Rightarrow> nat \<Rightarrow> nat \<Rightarrow> mem" where
  "RtlCopyMemory \<equiv> RtlMoveMemory"

definition RtlZeroMemory :: "mem \<Rightarrow> nat \<Rightarrow> nat \<Rightarrow> mem" where
  "RtlZeroMemory m Destination Length =
     (\<lambda>a. if Destination \<le> a \<and> a < Destination + Length then 0 else m a)"

definition bytes :: "mem \<Rightarrow> nat \<Rightarrow> nat \<Rightarrow> UCHAR list" where
  "bytes m a n = map (\<lambda>i. m (a + i)) [0..<n]"

definition RtlEqualMemory :: "mem \<Rightarrow> nat \<Rightarrow> nat \<Rightarrow> nat \<Rightarrow> bool" where
  "RtlEqualMemory m a b n = (bytes m a n = bytes m b n)"

section \<open>Reading back what was written\<close>

lemma wr8_apply: "wr8 m a v x = (if x = a then v else m x)"
  by (simp add: wr8_def)

lemma wr16_apply:
  "wr16 m a v x = (if x = a then ucast v else if x = a + 1 then ucast (drop_bit 8 v) else m x)"
  by (simp add: wr16_def)

lemma wr32_apply:
  "wr32 m a v x = (if x = a then ucast v else if x = a + 1 then ucast (drop_bit 8 v)
     else if x = a + 2 then ucast (drop_bit 16 v) else if x = a + 3 then ucast (drop_bit 24 v) else m x)"
proof -
  have "ucast (ucast v :: USHORT) = (ucast v :: UCHAR)"
    "ucast (drop_bit 8 (ucast v :: USHORT)) = (ucast (drop_bit 8 v) :: UCHAR)"
    "ucast (ucast (drop_bit 16 v) :: USHORT) = (ucast (drop_bit 16 v) :: UCHAR)"
    "ucast (drop_bit 8 (ucast (drop_bit 16 v) :: USHORT)) = (ucast (drop_bit 24 v) :: UCHAR)"
    by (rule bit_word_eqI, auto simp: bit_ucast_iff bit_drop_bit_eq)+
  then show ?thesis by (auto simp: wr32_def wr16_apply)
qed

lemma rd16_wr16 [simp]: "rd16 (wr16 m a v) a = v"
  by (rule bit_word_eqI) (auto simp: rd16_def wr16_apply bit_or_iff bit_push_bit_iff bit_ucast_iff bit_drop_bit_eq)

lemma rd32_wr32 [simp]: "rd32 (wr32 m a v) a = v"
proof -
  have "rd16 (wr16 (wr16 m a x) (a + 2) y) a = x" for x y
    by (rule bit_word_eqI) (auto simp: rd16_def wr16_apply bit_or_iff bit_push_bit_iff bit_ucast_iff bit_drop_bit_eq)
  then show ?thesis
    by (intro bit_word_eqI)
       (auto simp: rd32_def wr32_def bit_or_iff bit_push_bit_iff bit_ucast_iff bit_drop_bit_eq)
qed

text \<open>A read depends only on the bytes it covers.\<close>

lemma rd16_cong: "m' a = m a \<Longrightarrow> m' (a + 1) = m (a + 1) \<Longrightarrow> rd16 m' a = rd16 m a"
  by (simp add: rd16_def)

lemma rd32_shift: "(\<And>i. i < 4 \<Longrightarrow> m' (b + i) = m (a + i)) \<Longrightarrow> rd32 m' b = rd32 m a"
proof -
  assume h: "\<And>i. i < 4 \<Longrightarrow> m' (b + i) = m (a + i)"
  have "rd16 m' b = rd16 m a" "rd16 m' (b + 2) = rd16 m (a + 2)"
    using h [of 0] h [of 1] h [of 2] h [of 3] by (simp_all add: rd16_def numeral_3_eq_3)
  then show ?thesis by (simp add: rd32_def)
qed

lemma rd32_cong: "(\<And>i. i < 4 \<Longrightarrow> m' (a + i) = m (a + i)) \<Longrightarrow> rd32 m' a = rd32 m a"
  by (rule rd32_shift)

lemma bytes_length [simp]: "length (bytes m a n) = n"
  by (simp add: bytes_def)

lemma bytes_nth: "i < n \<Longrightarrow> bytes m a n ! i = m (a + i)"
  by (simp add: bytes_def)

lemma bytes_eq_iff: "bytes m a n = bytes m' b n \<longleftrightarrow> (\<forall>i<n. m (a + i) = m' (b + i))"
  by (auto simp: list_eq_iff_nth_eq bytes_nth)

lemma bytes_append: "bytes m a (n + k) = bytes m a n @ bytes m (a + n) k"
  by (rule nth_equalityI) (auto simp: bytes_nth nth_append add.assoc)

lemma RtlMoveMemory_bytes [simp]: "bytes (RtlMoveMemory m d s n) d n = bytes m s n"
  by (simp add: bytes_eq_iff RtlMoveMemory_def)

end
