(* ===== verification/Rtl_Sid.thy ===== *)
theory Rtl_Sid
  imports Ros_Memory
begin

text \<open>
  Security identifiers, \<^verbatim>\<open>sdk/lib/rtl/sid.c\<close>.  A SID in memory is a revision byte, a count byte, six
  bytes of identifier authority and up to 15 sub-authorities of four bytes each.  The guarded
  reads of the source (\<^verbatim>\<open>_SEH2_TRY\<close>) are modelled for readable memory.
\<close>

section \<open>The operations of sid.c\<close>

abbreviation (input) SID_REVISION :: UCHAR where "SID_REVISION \<equiv> 1"
abbreviation (input) SID_MAX_SUB_AUTHORITIES :: UCHAR where "SID_MAX_SUB_AUTHORITIES \<equiv> 15"

definition Sid_Revision :: "mem \<Rightarrow> nat \<Rightarrow> UCHAR" where "Sid_Revision m Sid = m Sid"
definition SubAuthorityCount :: "mem \<Rightarrow> nat \<Rightarrow> UCHAR" where "SubAuthorityCount m Sid = m (Sid + 1)"
definition IdentifierAuthority :: "mem \<Rightarrow> nat \<Rightarrow> nat \<Rightarrow> UCHAR" where
  "IdentifierAuthority m Sid i = m (Sid + 2 + i)"
definition SubAuthority :: "mem \<Rightarrow> nat \<Rightarrow> nat \<Rightarrow> ULONG" where
  "SubAuthority m Sid i = rd32 m (Sid + 8 + 4 * i)"

definition RtlValidSid :: "mem \<Rightarrow> nat \<Rightarrow> bool" where
  "RtlValidSid m Sid =
     (if Sid \<noteq> 0 \<and>
         (Sid_Revision m Sid AND 0xF \<noteq> SID_REVISION \<or>
          SubAuthorityCount m Sid > SID_MAX_SUB_AUTHORITIES)
      then False else True)"

definition RtlLengthRequiredSid :: "ULONG \<Rightarrow> ULONG" where
  "RtlLengthRequiredSid Count = 8 + 4 * Count"

definition RtlInitializeSid :: "mem \<Rightarrow> nat \<Rightarrow> nat \<Rightarrow> UCHAR \<Rightarrow> NTSTATUS \<times> mem" where
  "RtlInitializeSid m Sid Authority Count =
     (let m = wr8 m Sid SID_REVISION;
          m = wr8 m (Sid + 1) Count;
          m = RtlCopyMemory m (Sid + 2) Authority 6
      in (STATUS_SUCCESS, m))"

definition RtlSubAuthoritySid :: "nat \<Rightarrow> ULONG \<Rightarrow> nat" where
  "RtlSubAuthoritySid Sid Index = Sid + 8 + 4 * unat Index"

definition RtlSubAuthorityCountSid :: "nat \<Rightarrow> nat" where
  "RtlSubAuthorityCountSid Sid = Sid + 1"

definition RtlIdentifierAuthoritySid :: "nat \<Rightarrow> nat" where
  "RtlIdentifierAuthoritySid Sid = Sid + 2"

definition RtlLengthSid :: "mem \<Rightarrow> nat \<Rightarrow> ULONG" where
  "RtlLengthSid m Sid = 8 + 4 * ucast (SubAuthorityCount m Sid)"

definition RtlEqualSid :: "mem \<Rightarrow> nat \<Rightarrow> nat \<Rightarrow> bool" where
  "RtlEqualSid m Sid1 Sid2 =
     (if rd16 m Sid1 \<noteq> rd16 m Sid2 then False
      else RtlEqualMemory m Sid1 Sid2 (unat (RtlLengthSid m Sid1)))"

definition RtlCopySid :: "mem \<Rightarrow> ULONG \<Rightarrow> nat \<Rightarrow> nat \<Rightarrow> NTSTATUS \<times> mem" where
  "RtlCopySid m BufferLength Dest Src =
     (let SidLength = RtlLengthSid m Src
      in if SidLength > BufferLength then (STATUS_BUFFER_TOO_SMALL, m)
         else (STATUS_SUCCESS, RtlMoveMemory m Dest Src (unat SidLength)))"

text \<open>The loop of \<^verbatim>\<open>RtlEqualPrefixSid\<close> over the sub-authorities but the last.\<close>

fun equal_subauthorities :: "mem \<Rightarrow> nat \<Rightarrow> nat \<Rightarrow> nat \<Rightarrow> nat \<Rightarrow> bool" where
  "equal_subauthorities m Sid1 Sid2 i 0 = True"
| "equal_subauthorities m Sid1 Sid2 i (Suc left) =
     (if SubAuthority m Sid1 i \<noteq> SubAuthority m Sid2 i then False
      else equal_subauthorities m Sid1 Sid2 (Suc i) left)"

definition RtlEqualPrefixSid :: "mem \<Rightarrow> nat \<Rightarrow> nat \<Rightarrow> bool" where
  "RtlEqualPrefixSid m Sid1 Sid2 =
     (if Sid_Revision m Sid1 \<noteq> Sid_Revision m Sid2 then False
      else if list_all (\<lambda>i. IdentifierAuthority m Sid1 i = IdentifierAuthority m Sid2 i) [0, 1, 2, 3, 4, 5]
      then
        (if SubAuthorityCount m Sid1 = SubAuthorityCount m Sid2 then
           (if SubAuthorityCount m Sid1 = 0 then True
            else equal_subauthorities m Sid1 Sid2 0 (unat (SubAuthorityCount m Sid1) - 1))
         else False)
      else False)"

record SID_AND_ATTRIBUTES =
  sid_ptr :: nat
  sid_attributes :: ULONG

text \<open>
  \<^verbatim>\<open>RtlCopySidAndAttributesArray\<close>: the arrays are lists, the SIDs lie in memory.  The result holds the
  status, the memory, the destination array and, on success, where the unused part of the SID
  area starts and how long it is.
\<close>

fun copy_sid_loop ::
  "mem \<Rightarrow> SID_AND_ATTRIBUTES list \<Rightarrow> nat \<Rightarrow> ULONG \<Rightarrow> SID_AND_ATTRIBUTES list \<Rightarrow> nat \<Rightarrow>
   NTSTATUS \<times> mem \<times> SID_AND_ATTRIBUTES list \<times> (nat \<times> ULONG) option" where
  "copy_sid_loop m [] i SidAreaSize Dest SidArea =
     (STATUS_SUCCESS, m, Dest, Some (SidArea, SidAreaSize))"
| "copy_sid_loop m (s # Src) i SidAreaSize Dest SidArea =
     (let SidLength = RtlLengthSid m (sid_ptr s)
      in if SidLength > SidAreaSize then (STATUS_BUFFER_TOO_SMALL, m, Dest, None)
         else
           let SidAreaSize = SidAreaSize - SidLength;
               Dest = Dest[i := \<lparr>sid_ptr = SidArea, sid_attributes = sid_attributes s\<rparr>];
               m = snd (RtlCopySid m SidLength SidArea (sid_ptr s))
           in copy_sid_loop m Src (Suc i) SidAreaSize Dest (SidArea + unat SidLength))"

definition RtlCopySidAndAttributesArray ::
  "mem \<Rightarrow> ULONG \<Rightarrow> SID_AND_ATTRIBUTES list \<Rightarrow> ULONG \<Rightarrow> SID_AND_ATTRIBUTES list \<Rightarrow> nat \<Rightarrow>
   NTSTATUS \<times> mem \<times> SID_AND_ATTRIBUTES list \<times> (nat \<times> ULONG) option" where
  "RtlCopySidAndAttributesArray m Count Src SidAreaSize Dest SidArea =
     copy_sid_loop m (take (unat Count) Src) 0 SidAreaSize Dest SidArea"

text \<open>
  \<^verbatim>\<open>RtlAllocateAndInitializeSid\<close>: the allocator is a parameter that returns a block address or 0.
\<close>

fun write_subauthorities :: "mem \<Rightarrow> nat \<Rightarrow> nat \<Rightarrow> ULONG list \<Rightarrow> mem" where
  "write_subauthorities m pSid i [] = m"
| "write_subauthorities m pSid i (v # vs) =
     write_subauthorities (wr32 m (pSid + 8 + 4 * i) v) pSid (Suc i) vs"

definition RtlAllocateAndInitializeSid ::
  "(ULONG \<Rightarrow> nat) \<Rightarrow> mem \<Rightarrow> nat \<Rightarrow> UCHAR \<Rightarrow> ULONG list \<Rightarrow> NTSTATUS \<times> mem \<times> nat option" where
  "RtlAllocateAndInitializeSid alloc m Authority Count SubAuthorities =
     (if Count > 8 then (STATUS_INVALID_SID, m, None)
      else
        let pSid = alloc (RtlLengthRequiredSid (ucast Count))
        in if pSid = 0 then (STATUS_NO_MEMORY, m, None)
           else
             let m = wr8 m pSid SID_REVISION;
                 m = wr8 m (pSid + 1) Count;
                 m = RtlCopyMemory m (pSid + 2) Authority 6;
                 m = write_subauthorities m pSid 0 (take (unat Count) SubAuthorities)
             in (STATUS_SUCCESS, m, Some pSid))"

section \<open>SIDs as byte strings\<close>

definition sid_len :: "mem \<Rightarrow> nat \<Rightarrow> nat" where
  "sid_len m Sid = 8 + 4 * unat (SubAuthorityCount m Sid)"

definition sid_bytes :: "mem \<Rightarrow> nat \<Rightarrow> UCHAR list" where
  "sid_bytes m Sid = bytes m Sid (sid_len m Sid)"

lemma unat_RtlLengthSid [simp]: "unat (RtlLengthSid m Sid) = sid_len m Sid"
proof -
  have "unat (SubAuthorityCount m Sid) < 256" by (rule less_le_trans [OF unsigned_less]) simp
  then show ?thesis
    by (simp add: RtlLengthSid_def sid_len_def unat_word_ariths unsigned_ucast_eq take_bit_nat_eq_self)
qed

lemma sid_len_ge: "8 \<le> sid_len m Sid"
  by (simp add: sid_len_def)

lemma sid_len_cong: "m' (b + 1) = m (a + 1) \<Longrightarrow> sid_len m' b = sid_len m a"
  by (simp add: sid_len_def SubAuthorityCount_def)

lemma rd16_eq_iff: "rd16 m a = rd16 m' b \<longleftrightarrow> m a = m' b \<and> m (a + 1) = m' (b + 1)"
proof
  assume eq: "rd16 m a = rd16 m' b"
  have bits: "bit (rd16 m x) j = (if j < 8 then bit (m x) j else j < 16 \<and> bit (m (x + 1)) (j - 8))" for m x j
    by (auto simp: rd16_def bit_or_iff bit_push_bit_iff bit_ucast_iff dest: bit_imp_le_length)
  have "bit (m a) j = bit (m' b) j" if "j < 8" for j
    using bits [of m a j] bits [of m' b j] eq that by simp
  moreover have "bit (m (a + 1)) j = bit (m' (b + 1)) j" if "j < 8" for j
    using bits [of m a "j + 8"] bits [of m' b "j + 8"] eq that by simp
  ultimately show "m a = m' b \<and> m (a + 1) = m' (b + 1)"
    by (auto intro!: bit_word_eqI)
qed (simp add: rd16_def)

lemma sid_bytes_eq_iff:
  "sid_bytes m a = sid_bytes m' b \<longleftrightarrow> (\<forall>i < sid_len m a. m (a + i) = m' (b + i))"
proof
  assume "\<forall>i < sid_len m a. m (a + i) = m' (b + i)"
  moreover from this [rule_format, of 1] have "m (a + 1) = m' (b + 1)" using sid_len_ge [of m a] by simp
  ultimately show "sid_bytes m a = sid_bytes m' b"
    using sid_len_cong [of m a m' b] by (simp add: sid_bytes_def bytes_eq_iff)
next
  assume eq: "sid_bytes m a = sid_bytes m' b"
  then have "sid_len m a = sid_len m' b" by (metis sid_bytes_def bytes_length)
  with eq show "\<forall>i < sid_len m a. m (a + i) = m' (b + i)" by (simp add: sid_bytes_def bytes_eq_iff)
qed

text \<open>
  \<^verbatim>\<open>RtlEqualSid\<close>, which compares the first two bytes and then the length of the first SID, holds
  exactly when the two SIDs are the same byte string.
\<close>

theorem RtlEqualSid_iff: "RtlEqualSid m a b \<longleftrightarrow> sid_bytes m a = sid_bytes m b"
proof -
  have "rd16 m a = rd16 m b" if "sid_bytes m a = sid_bytes m b"
    using that [unfolded sid_bytes_eq_iff, rule_format, of 0] that [unfolded sid_bytes_eq_iff, rule_format, of 1]
      sid_len_ge [of m a] by (simp add: rd16_eq_iff)
  then show ?thesis
    by (auto simp: RtlEqualSid_def RtlEqualMemory_def bytes_eq_iff sid_bytes_eq_iff)
qed

text \<open>
  \<^verbatim>\<open>RtlCopySid\<close> fails without writing when the buffer is shorter than the SID; otherwise the
  destination holds the source's byte string, also when the two overlap, and no byte outside
  the copied length changes.
\<close>

theorem RtlCopySid_correct:
  "RtlCopySid m BufferLength Dest Src = (s, m') \<Longrightarrow>
   (if unat BufferLength < sid_len m Src then s = STATUS_BUFFER_TOO_SMALL \<and> m' = m
    else s = STATUS_SUCCESS \<and> sid_bytes m' Dest = sid_bytes m Src \<and>
      (\<forall>x. x < Dest \<or> Dest + sid_len m Src \<le> x \<longrightarrow> m' x = m x))"
proof -
  assume c: "RtlCopySid m BufferLength Dest Src = (s, m')"
  show ?thesis
  proof (cases "unat BufferLength < sid_len m Src")
    case True
    then show ?thesis using c by (auto simp: RtlCopySid_def Let_def word_less_nat_alt)
  next
    case False
    then have m': "s = STATUS_SUCCESS" "m' = RtlMoveMemory m Dest Src (sid_len m Src)"
      using c by (auto simp: RtlCopySid_def Let_def word_less_nat_alt)
    have "sid_len m' Dest = sid_len m Src"
      using sid_len_ge [of m Src] by (intro sid_len_cong) (simp add: m' RtlMoveMemory_def)
    then show ?thesis using False m' by (auto simp: sid_bytes_def RtlMoveMemory_def [of _ _ _ "sid_len m Src"] bytes_eq_iff)
  qed
qed

theorem RtlCopySid_correct_witness:
  "RtlCopySid (\<lambda>a. if a = 100 then 1 else if a = 101 then 2 else of_nat a) 20 200 100 =
     (STATUS_SUCCESS, RtlMoveMemory (\<lambda>a. if a = 100 then 1 else if a = 101 then 2 else of_nat a) 200 100 16) \<and>
   sid_bytes (RtlMoveMemory (\<lambda>a. if a = 100 then 1 else if a = 101 then 2 else of_nat a) 200 100 16) 200 =
   sid_bytes (\<lambda>a. if a = 100 then 1 else if a = 101 then 2 else of_nat a) 100"
proof -
  let ?m = "\<lambda>a. if a = 100 then 1 else if a = 101 then 2 else of_nat a :: UCHAR"
  have c: "RtlCopySid ?m 20 200 100 = (STATUS_SUCCESS, RtlMoveMemory ?m 200 100 16)"
    by (simp add: RtlCopySid_def RtlLengthSid_def SubAuthorityCount_def)
  have "sid_len ?m 100 = 16" by (simp add: sid_len_def SubAuthorityCount_def)
  with RtlCopySid_correct [OF c] c show ?thesis by simp
qed

section \<open>Arrays of SIDs and new SIDs\<close>

definition sid_apart :: "mem \<Rightarrow> nat \<Rightarrow> nat \<Rightarrow> nat \<Rightarrow> bool" where
  "sid_apart m Sid a n \<longleftrightarrow> Sid + sid_len m Sid \<le> a \<or> a + n \<le> Sid"

definition area_len :: "mem \<Rightarrow> SID_AND_ATTRIBUTES list \<Rightarrow> nat" where
  "area_len m Src = sum_list (map (\<lambda>s. sid_len m (sid_ptr s)) Src)"

lemma of_nat_sid_len: "of_nat (sid_len m Sid) = RtlLengthSid m Sid"
  by (simp del: unat_RtlLengthSid flip: unat_RtlLengthSid)

lemma sid_kept:
  assumes "\<And>x. Sid \<le> x \<Longrightarrow> x < Sid + sid_len m Sid \<Longrightarrow> m' x = m x"
  shows "sid_len m' Sid = sid_len m Sid" "sid_bytes m' Sid = sid_bytes m Sid"
proof -
  show len: "sid_len m' Sid = sid_len m Sid"
    using assms [of "Sid + 1"] sid_len_ge [of m Sid] by (intro sid_len_cong) simp
  show "sid_bytes m' Sid = sid_bytes m Sid"
    unfolding sid_bytes_eq_iff len using assms by simp
qed

lemma copy_sid_loop_spec:
  assumes "copy_sid_loop m Src i z Dest area = (st, m', Dest', rem)" "i + length Src \<le> length Dest"
    and "\<forall>s\<in>set Src. sid_apart m (sid_ptr s) area (unat z)"
  shows "if area_len m Src \<le> unat z
    then st = STATUS_SUCCESS \<and> rem = Some (area + area_len m Src, z - of_nat (area_len m Src)) \<and>
      (\<forall>k<i. Dest' ! k = Dest ! k) \<and>
      (\<forall>k < length Src. sid_attributes (Dest' ! (i + k)) = sid_attributes (Src ! k) \<and>
         sid_bytes m' (sid_ptr (Dest' ! (i + k))) = sid_bytes m (sid_ptr (Src ! k))) \<and>
      (\<forall>x. x < area \<or> area + unat z \<le> x \<longrightarrow> m' x = m x)
    else st = STATUS_BUFFER_TOO_SMALL \<and> rem = None"
  using assms
proof (induction m Src i z Dest area rule: copy_sid_loop.induct)
  case (1 m i z Dest area)
  then show ?case by (auto simp: area_len_def)
next
  case (2 m s Src i z Dest area)
  define L where "L = sid_len m (sid_ptr s)"
  show ?case
  proof (cases "unat z < L")
    case True
    then show ?thesis using 2(2) by (auto simp: Let_def L_def word_less_nat_alt area_len_def)
  next
    case False
    define m1 where "m1 = RtlMoveMemory m area (sid_ptr s) L"
    define z1 where "z1 = z - RtlLengthSid m (sid_ptr s)"
    have len: "unat (RtlLengthSid m (sid_ptr s)) = L" by (simp add: L_def)
    have s1: "unat z1 = unat z - L"
      using False by (simp add: z1_def L_def unat_sub word_le_nat_alt)
    have m1: "m1 x = m x" if "x < area \<or> area + unat z \<le> x" for x
      using that False by (auto simp: m1_def RtlMoveMemory_def)
    have kept: "sid_len m1 (sid_ptr t) = sid_len m (sid_ptr t)" "sid_bytes m1 (sid_ptr t) = sid_bytes m (sid_ptr t)"
      if "t \<in> set Src" for t
      using 2(4) that by (auto intro!: sid_kept m1 simp: sid_apart_def)
    have al: "area_len m1 Src = area_len m Src" "area_len m (s # Src) = L + area_len m Src"
      using kept(1) by (auto simp: area_len_def L_def intro!: arg_cong [of _ _ sum_list])
    have loop: "copy_sid_loop m1 Src (Suc i) z1
      (Dest[i := \<lparr>sid_ptr = area, sid_attributes = sid_attributes s\<rparr>]) (area + L) = (st, m', Dest', rem)"
      using 2(2) False by (simp add: Let_def L_def m1_def z1_def word_less_nat_alt RtlCopySid_def)
    have nz: "\<not> z < RtlLengthSid m (sid_ptr s)" using False by (simp add: L_def word_less_nat_alt)
    have m1': "m1 = snd (RtlCopySid m (RtlLengthSid m (sid_ptr s)) area (sid_ptr s))"
      by (simp add: RtlCopySid_def m1_def L_def)
    have apart: "\<forall>t\<in>set Src. sid_apart m1 (sid_ptr t) (area + L) (unat z1)"
      using 2(4) False s1 kept(1) by (fastforce simp: sid_apart_def)
    have len_D: "Suc i + length Src \<le> length (Dest[i := \<lparr>sid_ptr = area, sid_attributes = sid_attributes s\<rparr>])"
      using 2(3) by simp
    note IH = 2(1) [OF refl nz z1_def refl m1', unfolded len, OF loop len_D apart, unfolded al(1) s1]
    show ?thesis
    proof (cases "area_len m (s # Src) \<le> unat z")
      case fits: True
      then have "area_len m Src \<le> unat z - L" by (simp add: al)
      with IH have st: "st = STATUS_SUCCESS" "rem = Some (area + L + area_len m Src, z1 - of_nat (area_len m Src))"
        and D: "\<And>k. k < Suc i \<Longrightarrow> Dest' ! k = Dest[i := \<lparr>sid_ptr = area, sid_attributes = sid_attributes s\<rparr>] ! k"
        and T: "\<And>k. k < length Src \<Longrightarrow> sid_attributes (Dest' ! (Suc i + k)) = sid_attributes (Src ! k) \<and>
          sid_bytes m' (sid_ptr (Dest' ! (Suc i + k))) = sid_bytes m1 (sid_ptr (Src ! k))"
        and fr: "\<And>x. x < area + L \<or> area + L + (unat z - L) \<le> x \<Longrightarrow> m' x = m1 x"
        by auto
      have c: "sid_bytes m (sid_ptr s) = sid_bytes m1 area"
        unfolding sid_bytes_eq_iff by (simp add: m1_def RtlMoveMemory_def L_def)
      then have "sid_len m1 area = L" by (metis sid_bytes_def bytes_length L_def)
      then have "sid_bytes m' area = sid_bytes m1 area" using fr by (intro sid_kept) simp
      with c have head: "sid_bytes m' area = sid_bytes m (sid_ptr s)" by simp
      have Di: "Dest' ! i = \<lparr>sid_ptr = area, sid_attributes = sid_attributes s\<rparr>" using D [of i] 2(3) by simp
      have "sid_attributes (Dest' ! (i + k)) = sid_attributes ((s # Src) ! k) \<and>
          sid_bytes m' (sid_ptr (Dest' ! (i + k))) = sid_bytes m (sid_ptr ((s # Src) ! k))"
        if "k < length (s # Src)" for k
        using that head Di T kept(2) by (cases k) auto
      moreover have "m' x = m x" if "x < area \<or> area + unat z \<le> x" for x
        using fr [of x] m1 [OF that] that False by auto
      moreover have "z1 - of_nat (area_len m Src) = z - of_nat (area_len m (s # Src))"
        by (simp add: z1_def al(2) L_def of_nat_sid_len)
      ultimately show ?thesis using fits st D by (auto simp: al(2) add.assoc)
    next
      case no: False
      then have "\<not> area_len m Src \<le> unat z - L" using False by (simp add: al)
      with IH no show ?thesis by simp
    qed
  qed
qed

text \<open>
  \<^verbatim>\<open>RtlCopySidAndAttributesArray\<close> succeeds exactly when the SID area holds all SIDs; then every
  destination entry has its source's attributes and points to a copy of its source's SID in the
  area, the reported remainder is what is left of the area, and memory outside the area is
  unchanged.
\<close>

theorem RtlCopySidAndAttributesArray_correct:
  assumes "RtlCopySidAndAttributesArray m Count Src z Dest area = (st, m', Dest', rem)"
    and "unat Count = length Src" "length Src \<le> length Dest"
    and "\<forall>s\<in>set Src. sid_apart m (sid_ptr s) area (unat z)"
  shows "if area_len m Src \<le> unat z
    then st = STATUS_SUCCESS \<and> rem = Some (area + area_len m Src, z - of_nat (area_len m Src)) \<and>
      (\<forall>k < length Src. sid_attributes (Dest' ! k) = sid_attributes (Src ! k) \<and>
         sid_bytes m' (sid_ptr (Dest' ! k)) = sid_bytes m (sid_ptr (Src ! k))) \<and>
      (\<forall>x. x < area \<or> area + unat z \<le> x \<longrightarrow> m' x = m x)
    else st = STATUS_BUFFER_TOO_SMALL \<and> rem = None"
  using copy_sid_loop_spec [of m Src 0 z Dest area st m' Dest' rem] assms
  by (auto simp: RtlCopySidAndAttributesArray_def split: if_splits)

theorem RtlCopySidAndAttributesArray_correct_witness:
  "\<exists>m' Dest' rem. RtlCopySidAndAttributesArray (\<lambda>_. 1) 1 [\<lparr>sid_ptr = 100, sid_attributes = 7\<rparr>] 30
     [\<lparr>sid_ptr = 0, sid_attributes = 0\<rparr>] 200 = (STATUS_SUCCESS, m', Dest', rem) \<and>
     sid_bytes m' (sid_ptr (Dest' ! 0)) = sid_bytes (\<lambda>_. 1) 100"
proof -
  obtain st m' Dest' rem where r: "RtlCopySidAndAttributesArray (\<lambda>_. 1) 1 [\<lparr>sid_ptr = 100, sid_attributes = 7\<rparr>] 30
     [\<lparr>sid_ptr = 0, sid_attributes = 0\<rparr>] 200 = (st, m', Dest', rem)" by (metis prod_cases4)
  have "area_len (\<lambda>_. 1) [\<lparr>sid_ptr = 100, sid_attributes = 7\<rparr>] = 12"
    "sid_apart (\<lambda>_. 1) 100 200 30"
    by (simp_all add: area_len_def sid_len_def SubAuthorityCount_def sid_apart_def)
  with RtlCopySidAndAttributesArray_correct [OF r] r show ?thesis by auto
qed

lemma write_subauthorities_frame:
  "x < pSid + 8 + 4 * i \<or> pSid + 8 + 4 * (i + length vs) \<le> x \<Longrightarrow>
   write_subauthorities m pSid i vs x = m x"
  by (induction m pSid i vs rule: write_subauthorities.induct) (auto simp: wr32_apply)

lemma write_subauthorities_read:
  "k < length vs \<Longrightarrow> SubAuthority (write_subauthorities m pSid i vs) pSid (i + k) = vs ! k"
proof (induction m pSid i vs arbitrary: k rule: write_subauthorities.induct)
  case (1 m pSid i)
  then show ?case by simp
next
  case (2 m pSid i v vs)
  show ?case
  proof (cases k)
    case 0
    have "rd32 (write_subauthorities (wr32 m (pSid + 8 + 4 * i) v) pSid (Suc i) vs) (pSid + 8 + 4 * i) =
        rd32 (wr32 m (pSid + 8 + 4 * i) v) (pSid + 8 + 4 * i)"
      by (rule rd32_cong) (auto intro: write_subauthorities_frame)
    with 0 show ?thesis by (simp add: SubAuthority_def)
  next
    case (Suc j)
    with 2 show ?thesis by simp
  qed
qed

text \<open>
  When \<^verbatim>\<open>RtlAllocateAndInitializeSid\<close> succeeds, the new block holds a valid SID with the given
  authority and sub-authorities; more than eight sub-authorities and a failed allocation give
  the two error codes and leave memory alone.
\<close>

theorem RtlAllocateAndInitializeSid_correct:
  assumes "RtlAllocateAndInitializeSid alloc m Authority Count vs = (st, m', r)" "length vs = 8"
    and "Authority + 6 \<le> alloc (RtlLengthRequiredSid (ucast Count)) \<or>
      alloc (RtlLengthRequiredSid (ucast Count)) + 2 \<le> Authority"
  shows "if 8 < Count then st = STATUS_INVALID_SID \<and> r = None \<and> m' = m
    else if alloc (RtlLengthRequiredSid (ucast Count)) = 0 then st = STATUS_NO_MEMORY \<and> r = None \<and> m' = m
    else \<exists>p. st = STATUS_SUCCESS \<and> r = Some p \<and> RtlValidSid m' p \<and> SubAuthorityCount m' p = Count \<and>
      (\<forall>i<6. IdentifierAuthority m' p i = m (Authority + i)) \<and>
      (\<forall>i < unat Count. SubAuthority m' p i = vs ! i)"
proof -
  define p where "p = alloc (RtlLengthRequiredSid (ucast Count))"
  show ?thesis
  proof (cases "8 < Count \<or> p = 0")
    case True
    with assms(1) show ?thesis by (auto simp: RtlAllocateAndInitializeSid_def p_def Let_def)
  next
    case False
    define m1 where "m1 = RtlCopyMemory (wr8 (wr8 m p 1) (p + 1) Count) (p + 2) Authority 6"
    have r: "st = STATUS_SUCCESS" "r = Some p" "m' = write_subauthorities m1 p 0 (take (unat Count) vs)"
      using assms(1) False by (auto simp: RtlAllocateAndInitializeSid_def p_def Let_def m1_def)
    have c: "unat Count \<le> 8" using False by (simp add: word_less_nat_alt)
    have head: "m' x = m1 x" if "x < p + 8" for x using that by (simp add: r(3) write_subauthorities_frame)
    have "RtlValidSid m' p" "SubAuthorityCount m' p = Count"
      using False c by (simp_all add: RtlValidSid_def Sid_Revision_def SubAuthorityCount_def head m1_def
          RtlMoveMemory_def wr8_apply word_less_nat_alt)
    moreover have "IdentifierAuthority m' p i = m (Authority + i)" if "i < 6" for i
      using that assms(3) by (auto simp: IdentifierAuthority_def head m1_def RtlMoveMemory_def wr8_apply p_def)
    moreover have "SubAuthority m' p i = vs ! i" if "i < unat Count" for i
      using that write_subauthorities_read [of i "take (unat Count) vs" m1 p 0] c assms(2) by (simp add: r(3))
    ultimately show ?thesis using False r by (simp add: p_def)
  qed
qed

theorem RtlAllocateAndInitializeSid_correct_witness:
  "\<exists>m' p. RtlAllocateAndInitializeSid (\<lambda>_. 1000) (\<lambda>a. of_nat a) 50 2 [32, 544, 0, 0, 0, 0, 0, 0] =
     (STATUS_SUCCESS, m', Some p) \<and> RtlValidSid m' p \<and> SubAuthorityCount m' p = 2"
proof -
  obtain st m' r where e: "RtlAllocateAndInitializeSid (\<lambda>_. 1000) (\<lambda>a. of_nat a) 50 2 [32, 544, 0, 0, 0, 0, 0, 0] =
     (st, m', r)" by (metis prod_cases3)
  from RtlAllocateAndInitializeSid_correct [OF e] e show ?thesis by auto
qed

end
