(* ===== verification/Rtl_Acl.thy ===== *)
theory Rtl_Acl
  imports Rtl_Sid
begin

text \<open>
  Access control lists, \<^verbatim>\<open>sdk/lib/rtl/acl.c\<close>, on byte memory: an 8-byte header (revision, size, ACE
  count) followed by ACEs of variable size.  The operations keep the order of checks and of
  memory writes of the source.  Reads guarded by \<^verbatim>\<open>_SEH2_TRY\<close> are modelled for readable memory.
\<close>


section \<open>Layout\<close>

abbreviation (input) MIN_ACL_REVISION :: ULONG where "MIN_ACL_REVISION \<equiv> 2"
abbreviation (input) ACL_REVISION3 :: ULONG where "ACL_REVISION3 \<equiv> 3"
abbreviation (input) ACL_REVISION4 :: ULONG where "ACL_REVISION4 \<equiv> 4"
abbreviation (input) MAX_ACL_REVISION :: ULONG where "MAX_ACL_REVISION \<equiv> 4"
abbreviation (input) ACCESS_ALLOWED_ACE_TYPE :: UCHAR where "ACCESS_ALLOWED_ACE_TYPE \<equiv> 0"
abbreviation (input) ACCESS_DENIED_ACE_TYPE :: UCHAR where "ACCESS_DENIED_ACE_TYPE \<equiv> 1"
abbreviation (input) SYSTEM_AUDIT_ACE_TYPE :: UCHAR where "SYSTEM_AUDIT_ACE_TYPE \<equiv> 2"
abbreviation (input) ACCESS_MAX_MS_V2_ACE_TYPE :: UCHAR where "ACCESS_MAX_MS_V2_ACE_TYPE \<equiv> 3"
abbreviation (input) ACCESS_ALLOWED_COMPOUND_ACE_TYPE :: UCHAR where "ACCESS_ALLOWED_COMPOUND_ACE_TYPE \<equiv> 4"
abbreviation (input) ACCESS_MAX_MS_V3_ACE_TYPE :: UCHAR where "ACCESS_MAX_MS_V3_ACE_TYPE \<equiv> 4"
abbreviation (input) ACCESS_ALLOWED_OBJECT_ACE_TYPE :: UCHAR where "ACCESS_ALLOWED_OBJECT_ACE_TYPE \<equiv> 5"
abbreviation (input) ACCESS_DENIED_OBJECT_ACE_TYPE :: UCHAR where "ACCESS_DENIED_OBJECT_ACE_TYPE \<equiv> 6"
abbreviation (input) SYSTEM_AUDIT_OBJECT_ACE_TYPE :: UCHAR where "SYSTEM_AUDIT_OBJECT_ACE_TYPE \<equiv> 7"
abbreviation (input) ACCESS_MIN_MS_OBJECT_ACE_TYPE :: UCHAR where "ACCESS_MIN_MS_OBJECT_ACE_TYPE \<equiv> 5"
abbreviation (input) ACCESS_MAX_MS_OBJECT_ACE_TYPE :: UCHAR where "ACCESS_MAX_MS_OBJECT_ACE_TYPE \<equiv> 8"
abbreviation (input) ACCESS_MAX_MS_ACE_TYPE :: UCHAR where "ACCESS_MAX_MS_ACE_TYPE \<equiv> 8"
abbreviation (input) SYSTEM_AUDIT_CALLBACK_OBJECT_ACE_TYPE :: UCHAR where "SYSTEM_AUDIT_CALLBACK_OBJECT_ACE_TYPE \<equiv> 0xF"
abbreviation (input) VALID_INHERIT_FLAGS :: ULONG where "VALID_INHERIT_FLAGS \<equiv> 0x1F"
abbreviation (input) SUCCESSFUL_ACCESS_ACE_FLAG :: ULONG where "SUCCESSFUL_ACCESS_ACE_FLAG \<equiv> 0x40"
abbreviation (input) FAILED_ACCESS_ACE_FLAG :: ULONG where "FAILED_ACCESS_ACE_FLAG \<equiv> 0x80"
abbreviation (input) ACE_OBJECT_TYPE_PRESENT :: ULONG where "ACE_OBJECT_TYPE_PRESENT \<equiv> 1"
abbreviation (input) ACE_INHERITED_OBJECT_TYPE_PRESENT :: ULONG where "ACE_INHERITED_OBJECT_TYPE_PRESENT \<equiv> 2"
abbreviation (input) sizeof_GUID :: nat where "sizeof_GUID \<equiv> 16"

definition AclRevision :: "mem \<Rightarrow> nat \<Rightarrow> UCHAR" where "AclRevision m Acl = m Acl"
definition AclSize :: "mem \<Rightarrow> nat \<Rightarrow> USHORT" where "AclSize m Acl = rd16 m (Acl + 2)"
definition AceCount :: "mem \<Rightarrow> nat \<Rightarrow> USHORT" where "AceCount m Acl = rd16 m (Acl + 4)"

definition AceType :: "mem \<Rightarrow> nat \<Rightarrow> UCHAR" where "AceType m Ace = m Ace"
definition AceFlags :: "mem \<Rightarrow> nat \<Rightarrow> UCHAR" where "AceFlags m Ace = m (Ace + 1)"
definition AceSize :: "mem \<Rightarrow> nat \<Rightarrow> USHORT" where "AceSize m Ace = rd16 m (Ace + 2)"
definition AceMask :: "mem \<Rightarrow> nat \<Rightarrow> ACCESS_MASK" where "AceMask m Ace = rd32 m (Ace + 4)"
definition ObjectAceFlags :: "mem \<Rightarrow> nat \<Rightarrow> ULONG" where "ObjectAceFlags m Ace = rd32 m (Ace + 8)"

section \<open>The operations of acl.c\<close>

subsection \<open>The first free position\<close>

text \<open>\<^const>\<open>None\<close> is the early return with \<^verbatim>\<open>FALSE\<close>.\<close>

fun first_free_loop :: "mem \<Rightarrow> nat \<Rightarrow> nat \<Rightarrow> nat \<Rightarrow> nat option" where
  "first_free_loop m AclEnd 0 Current = Some Current"
| "first_free_loop m AclEnd (Suc left) Current =
     (if Current \<ge> AclEnd then None
      else first_free_loop m AclEnd left (Current + unat (AceSize m Current)))"

definition RtlFirstFreeAce :: "mem \<Rightarrow> nat \<Rightarrow> bool \<times> nat" where
  "RtlFirstFreeAce m Acl =
     (let AclEnd = Acl + unat (AclSize m Acl)
      in case first_free_loop m AclEnd (unat (AceCount m Acl)) (Acl + 8) of
           None \<Rightarrow> (False, 0)
         | Some Current \<Rightarrow> (True, if Current \<le> AclEnd then Current else 0))"

subsection \<open>Moving the bytes of ACEs\<close>

definition RtlpAddData :: "mem \<Rightarrow> nat \<Rightarrow> nat \<Rightarrow> nat \<Rightarrow> nat \<Rightarrow> mem" where
  "RtlpAddData m AceList AceListLength Ace Offset =
     (let m = (if Offset > 0 then RtlCopyMemory m (Ace + AceListLength) Ace Offset else m)
      in if AceListLength \<noteq> 0 then RtlCopyMemory m Ace AceList AceListLength else m)"

definition RtlpDeleteData :: "mem \<Rightarrow> nat \<Rightarrow> nat \<Rightarrow> nat \<Rightarrow> mem" where
  "RtlpDeleteData m Ace Size Offset =
     (let m = (if Size < Offset then RtlMoveMemory m Ace (Ace + Size) (Offset - Size) else m)
      in if of_nat Offset - of_nat Size < (of_nat Offset :: ULONG)
         then RtlZeroMemory m (Ace + Offset - Size) Size else m)"

subsection \<open>Validation\<close>

text \<open>
  The checks of \<^verbatim>\<open>RtlValidAcl\<close> on one ACE, by the kind of the ACE: the plain ones, the object ones
  that carry access rights, and the rest.
\<close>

definition valid_known_ace :: "mem \<Rightarrow> nat \<Rightarrow> bool" where
  "valid_known_ace m Ace =
     (let Sid = Ace + 8
      in if ROUND_DOWN (ucast (AceSize m Ace)) 4 \<noteq> ucast (AceSize m Ace) then False
         else if AceSize m Ace < 4 then False
         else if Sid_Revision m Sid \<noteq> SID_REVISION then False
         else if SubAuthorityCount m Sid > SID_MAX_SUB_AUTHORITIES then False
         else if unat (AceSize m Ace) < 4 + unat (RtlLengthSid m Sid) then False
         else True)"

definition valid_object_ace :: "mem \<Rightarrow> nat \<Rightarrow> nat \<Rightarrow> bool" where
  "valid_object_ace m Acl Ace =
     (if ucast (AclRevision m Acl) < ACL_REVISION4 then False
      else if ROUND_DOWN (ucast (AceSize m Ace)) 4 \<noteq> ucast (AceSize m Ace) then False
      else if AceSize m Ace < 16 then False
      else
        let Flags = ObjectAceFlags m Ace;
            GuidSize = (if Flags AND ACE_OBJECT_TYPE_PRESENT \<noteq> 0 then sizeof_GUID else 0) +
                       (if Flags AND ACE_INHERITED_OBJECT_TYPE_PRESENT \<noteq> 0 then sizeof_GUID else 0);
            Sid = Ace + 12 + GuidSize
        in if Sid_Revision m Sid \<noteq> SID_REVISION then False
           else if SubAuthorityCount m Sid > SID_MAX_SUB_AUTHORITIES then False
           else if AceSize m Ace < of_nat (16 - 4 + GuidSize + unat (RtlLengthSid m Sid)) then False
           else True)"

definition valid_ace :: "mem \<Rightarrow> nat \<Rightarrow> nat \<Rightarrow> bool" where
  "valid_ace m Acl Ace =
     (if Ace + 4 \<ge> Acl + unat (AclSize m Acl) then False
      else if ROUND_DOWN (ucast (AceSize m Ace)) 2 \<noteq> ucast (AceSize m Ace) then False
      else if Ace + unat (AceSize m Ace) > Acl + unat (AclSize m Acl) then False
      else if AceType m Ace \<le> ACCESS_MAX_MS_V2_ACE_TYPE then valid_known_ace m Ace
      else if AceType m Ace = ACCESS_ALLOWED_OBJECT_ACE_TYPE \<or> AceType m Ace = ACCESS_DENIED_OBJECT_ACE_TYPE
      then valid_object_ace m Acl Ace
      else if AceType m Ace = ACCESS_ALLOWED_COMPOUND_ACE_TYPE then True
      else if AceType m Ace \<ge> ACCESS_MIN_MS_OBJECT_ACE_TYPE \<and> AceType m Ace \<le> ACCESS_MAX_MS_OBJECT_ACE_TYPE
      then True
      else if AceSize m Ace < 4 then False
      else True)"

fun valid_aces :: "mem \<Rightarrow> nat \<Rightarrow> nat \<Rightarrow> nat \<Rightarrow> bool" where
  "valid_aces m Acl 0 Ace = True"
| "valid_aces m Acl (Suc left) Ace =
     (if valid_ace m Acl Ace then valid_aces m Acl left (Ace + unat (AceSize m Ace)) else False)"

definition RtlValidAcl :: "mem \<Rightarrow> nat \<Rightarrow> bool" where
  "RtlValidAcl m Acl =
     (if ucast (AclRevision m Acl) < MIN_ACL_REVISION \<or> ucast (AclRevision m Acl) > MAX_ACL_REVISION then False
      else if ROUND_DOWN (ucast (AclSize m Acl)) 2 \<noteq> ucast (AclSize m Acl) then False
      else if AclSize m Acl < 8 then False
      else valid_aces m Acl (unat (AceCount m Acl)) (Acl + 8))"

subsection \<open>Appending ACEs\<close>

definition invalid_ace_flags :: "bool \<Rightarrow> ULONG \<Rightarrow> ULONG" where
  "invalid_ace_flags audit Flags =
     (if audit
      then Flags AND NOT (VALID_INHERIT_FLAGS OR SUCCESSFUL_ACCESS_ACE_FLAG OR FAILED_ACCESS_ACE_FLAG)
      else Flags AND NOT VALID_INHERIT_FLAGS)"

definition RtlpAddKnownAce ::
  "mem \<Rightarrow> nat \<Rightarrow> ULONG \<Rightarrow> ULONG \<Rightarrow> ACCESS_MASK \<Rightarrow> nat \<Rightarrow> UCHAR \<Rightarrow> NTSTATUS \<times> mem" where
  "RtlpAddKnownAce m Acl Revision Flags AccessMask Sid Type =
     (if \<not> RtlValidSid m Sid then (STATUS_INVALID_SID, m)
      else if ucast (AclRevision m Acl) > ACL_REVISION4 \<or> Revision > ACL_REVISION4
      then (STATUS_REVISION_MISMATCH, m)
      else
        let Revision = (if Revision < ucast (AclRevision m Acl) then ucast (AclRevision m Acl) else Revision)
        in if invalid_ace_flags (Type = SYSTEM_AUDIT_ACE_TYPE) Flags \<noteq> 0 then (STATUS_INVALID_PARAMETER, m)
           else if \<not> RtlValidAcl m Acl then (STATUS_INVALID_ACL, m)
           else
             (case RtlFirstFreeAce m Acl of (found, Ace) \<Rightarrow>
                if \<not> found then (STATUS_INVALID_ACL, m)
                else
                  let Size = RtlLengthSid m Sid + 8
                  in if Ace = 0 \<or> Ace + unat Size > Acl + unat (AclSize m Acl)
                     then (STATUS_ALLOTTED_SPACE_EXCEEDED, m)
                     else
                       let m = wr8 m (Ace + 1) (ucast Flags);
                           m = wr8 m Ace Type;
                           m = wr16 m (Ace + 2) (ucast Size);
                           m = wr32 m (Ace + 4) AccessMask;
                           m = snd (RtlCopySid m (RtlLengthSid m Sid) (Ace + 8) Sid);
                           m = wr16 m (Acl + 4) (AceCount m Acl + 1);
                           m = wr8 m Acl (ucast Revision)
                       in (STATUS_SUCCESS, m)))"

definition RtlpAddKnownObjectAce ::
  "mem \<Rightarrow> nat \<Rightarrow> ULONG \<Rightarrow> ULONG \<Rightarrow> ACCESS_MASK \<Rightarrow> nat \<Rightarrow> nat \<Rightarrow> nat \<Rightarrow> UCHAR \<Rightarrow> NTSTATUS \<times> mem" where
  "RtlpAddKnownObjectAce m Acl Revision Flags AccessMask ObjectTypeGuid InheritedObjectTypeGuid Sid Type =
     (if \<not> RtlValidSid m Sid then (STATUS_INVALID_SID, m)
      else if ucast (AclRevision m Acl) > ACL_REVISION4 \<or> Revision \<noteq> ACL_REVISION4
      then (STATUS_REVISION_MISMATCH, m)
      else
        let Revision = (if Revision < ucast (AclRevision m Acl) then ucast (AclRevision m Acl) else Revision)
        in if invalid_ace_flags (Type = SYSTEM_AUDIT_OBJECT_ACE_TYPE \<or>
                                 Type = SYSTEM_AUDIT_CALLBACK_OBJECT_ACE_TYPE) Flags \<noteq> 0
           then (STATUS_INVALID_PARAMETER, m)
           else if \<not> RtlValidAcl m Acl then (STATUS_INVALID_ACL, m)
           else
             (case RtlFirstFreeAce m Acl of (found, Ace) \<Rightarrow>
                if \<not> found then (STATUS_INVALID_ACL, m)
                else
                  let Size = RtlLengthSid m Sid + 8 + 4;
                      AceObjectFlags = 0;
                      (AceObjectFlags, Size) =
                        (if ObjectTypeGuid \<noteq> 0 then (AceObjectFlags OR ACE_OBJECT_TYPE_PRESENT, Size + 16)
                         else (AceObjectFlags, Size));
                      (AceObjectFlags, Size) =
                        (if InheritedObjectTypeGuid \<noteq> 0
                         then (AceObjectFlags OR ACE_INHERITED_OBJECT_TYPE_PRESENT, Size + 16)
                         else (AceObjectFlags, Size))
                  in if Ace = 0 \<or> Ace + unat Size > Acl + unat (AclSize m Acl)
                     then (STATUS_ALLOTTED_SPACE_EXCEEDED, m)
                     else
                       let m = wr8 m (Ace + 1) (ucast Flags);
                           m = wr8 m Ace Type;
                           m = wr16 m (Ace + 2) (ucast Size);
                           m = wr32 m (Ace + 4) AccessMask;
                           m = wr32 m (Ace + 8) AceObjectFlags;
                           SidStart = Ace + 12;
                           (m, SidStart) =
                             (if ObjectTypeGuid \<noteq> 0
                              then (RtlCopyMemory m SidStart ObjectTypeGuid 16, SidStart + 16)
                              else (m, SidStart));
                           (m, SidStart) =
                             (if InheritedObjectTypeGuid \<noteq> 0
                              then (RtlCopyMemory m SidStart InheritedObjectTypeGuid 16, SidStart + 16)
                              else (m, SidStart));
                           m = snd (RtlCopySid m (RtlLengthSid m Sid) SidStart Sid);
                           m = wr16 m (Acl + 4) (AceCount m Acl + 1);
                           m = wr8 m Acl (ucast Revision)
                       in (STATUS_SUCCESS, m)))"

definition RtlAddAccessAllowedAce :: "mem \<Rightarrow> nat \<Rightarrow> ULONG \<Rightarrow> ACCESS_MASK \<Rightarrow> nat \<Rightarrow> NTSTATUS \<times> mem" where
  "RtlAddAccessAllowedAce m Acl Revision AccessMask Sid =
     RtlpAddKnownAce m Acl Revision 0 AccessMask Sid ACCESS_ALLOWED_ACE_TYPE"

definition RtlAddAccessAllowedAceEx :: "mem \<Rightarrow> nat \<Rightarrow> ULONG \<Rightarrow> ULONG \<Rightarrow> ACCESS_MASK \<Rightarrow> nat \<Rightarrow> NTSTATUS \<times> mem" where
  "RtlAddAccessAllowedAceEx m Acl Revision Flags AccessMask Sid =
     RtlpAddKnownAce m Acl Revision Flags AccessMask Sid ACCESS_ALLOWED_ACE_TYPE"

definition RtlAddAccessAllowedObjectAce ::
  "mem \<Rightarrow> nat \<Rightarrow> ULONG \<Rightarrow> ULONG \<Rightarrow> ACCESS_MASK \<Rightarrow> nat \<Rightarrow> nat \<Rightarrow> nat \<Rightarrow> NTSTATUS \<times> mem" where
  "RtlAddAccessAllowedObjectAce m Acl Revision Flags AccessMask ObjectTypeGuid InheritedObjectTypeGuid Sid =
     (if ObjectTypeGuid = 0 \<and> InheritedObjectTypeGuid = 0
      then RtlpAddKnownAce m Acl Revision Flags AccessMask Sid ACCESS_ALLOWED_ACE_TYPE
      else RtlpAddKnownObjectAce m Acl Revision Flags AccessMask ObjectTypeGuid InheritedObjectTypeGuid Sid
             ACCESS_ALLOWED_OBJECT_ACE_TYPE)"

definition RtlAddAccessDeniedAce :: "mem \<Rightarrow> nat \<Rightarrow> ULONG \<Rightarrow> ACCESS_MASK \<Rightarrow> nat \<Rightarrow> NTSTATUS \<times> mem" where
  "RtlAddAccessDeniedAce m Acl Revision AccessMask Sid =
     RtlpAddKnownAce m Acl Revision 0 AccessMask Sid ACCESS_DENIED_ACE_TYPE"

definition RtlAddAccessDeniedAceEx :: "mem \<Rightarrow> nat \<Rightarrow> ULONG \<Rightarrow> ULONG \<Rightarrow> ACCESS_MASK \<Rightarrow> nat \<Rightarrow> NTSTATUS \<times> mem" where
  "RtlAddAccessDeniedAceEx m Acl Revision Flags AccessMask Sid =
     RtlpAddKnownAce m Acl Revision Flags AccessMask Sid ACCESS_DENIED_ACE_TYPE"

definition RtlAddAccessDeniedObjectAce ::
  "mem \<Rightarrow> nat \<Rightarrow> ULONG \<Rightarrow> ULONG \<Rightarrow> ACCESS_MASK \<Rightarrow> nat \<Rightarrow> nat \<Rightarrow> nat \<Rightarrow> NTSTATUS \<times> mem" where
  "RtlAddAccessDeniedObjectAce m Acl Revision Flags AccessMask ObjectTypeGuid InheritedObjectTypeGuid Sid =
     (if ObjectTypeGuid = 0 \<and> InheritedObjectTypeGuid = 0
      then RtlpAddKnownAce m Acl Revision Flags AccessMask Sid ACCESS_DENIED_ACE_TYPE
      else RtlpAddKnownObjectAce m Acl Revision Flags AccessMask ObjectTypeGuid InheritedObjectTypeGuid Sid
             ACCESS_DENIED_OBJECT_ACE_TYPE)"

definition audit_flags :: "ULONG \<Rightarrow> bool \<Rightarrow> bool \<Rightarrow> ULONG" where
  "audit_flags Flags Success Failure =
     (let Flags = (if Success then Flags OR SUCCESSFUL_ACCESS_ACE_FLAG else Flags)
      in if Failure then Flags OR FAILED_ACCESS_ACE_FLAG else Flags)"

definition RtlAddAuditAccessAce ::
  "mem \<Rightarrow> nat \<Rightarrow> ULONG \<Rightarrow> ACCESS_MASK \<Rightarrow> nat \<Rightarrow> bool \<Rightarrow> bool \<Rightarrow> NTSTATUS \<times> mem" where
  "RtlAddAuditAccessAce m Acl Revision AccessMask Sid Success Failure =
     RtlpAddKnownAce m Acl Revision (audit_flags 0 Success Failure) AccessMask Sid SYSTEM_AUDIT_ACE_TYPE"

definition RtlAddAuditAccessAceEx ::
  "mem \<Rightarrow> nat \<Rightarrow> ULONG \<Rightarrow> ULONG \<Rightarrow> ACCESS_MASK \<Rightarrow> nat \<Rightarrow> bool \<Rightarrow> bool \<Rightarrow> NTSTATUS \<times> mem" where
  "RtlAddAuditAccessAceEx m Acl Revision Flags AccessMask Sid Success Failure =
     RtlpAddKnownAce m Acl Revision (audit_flags Flags Success Failure) AccessMask Sid SYSTEM_AUDIT_ACE_TYPE"

definition RtlAddAuditAccessObjectAce ::
  "mem \<Rightarrow> nat \<Rightarrow> ULONG \<Rightarrow> ULONG \<Rightarrow> ACCESS_MASK \<Rightarrow> nat \<Rightarrow> nat \<Rightarrow> nat \<Rightarrow> bool \<Rightarrow> bool \<Rightarrow> NTSTATUS \<times> mem" where
  "RtlAddAuditAccessObjectAce m Acl Revision Flags AccessMask ObjectTypeGuid InheritedObjectTypeGuid Sid
       Success Failure =
     (let Flags = audit_flags Flags Success Failure
      in if ObjectTypeGuid = 0 \<and> InheritedObjectTypeGuid = 0
         then RtlpAddKnownAce m Acl Revision Flags AccessMask Sid SYSTEM_AUDIT_ACE_TYPE
         else RtlpAddKnownObjectAce m Acl Revision Flags AccessMask ObjectTypeGuid InheritedObjectTypeGuid Sid
                SYSTEM_AUDIT_OBJECT_ACE_TYPE)"

subsection \<open>Looking up, inserting and deleting ACEs\<close>

text \<open>
  \<open>Inl\<close> is the return with \<^verbatim>\<open>STATUS_INVALID_PARAMETER\<close> from inside the loop; the out-pointer then keeps
  the last position.  A result without position leaves the out-pointer alone.
\<close>

fun get_ace_loop :: "mem \<Rightarrow> nat \<Rightarrow> nat \<Rightarrow> nat \<Rightarrow> nat + nat" where
  "get_ace_loop m AclEnd 0 Ace = Inr Ace"
| "get_ace_loop m AclEnd (Suc left) Ace =
     (if Ace \<ge> AclEnd then Inl Ace else get_ace_loop m AclEnd left (Ace + unat (AceSize m Ace)))"

definition RtlGetAce :: "mem \<Rightarrow> nat \<Rightarrow> ULONG \<Rightarrow> NTSTATUS \<times> nat option" where
  "RtlGetAce m Acl AceIndex =
     (if ucast (AclRevision m Acl) < MIN_ACL_REVISION \<or> ucast (AclRevision m Acl) > MAX_ACL_REVISION \<or>
         AceIndex \<ge> ucast (AceCount m Acl)
      then (STATUS_INVALID_PARAMETER, None)
      else
        let AclEnd = Acl + unat (AclSize m Acl)
        in case get_ace_loop m AclEnd (unat AceIndex) (Acl + 8) of
             Inl Ace \<Rightarrow> (STATUS_INVALID_PARAMETER, Some Ace)
           | Inr Ace \<Rightarrow> if Ace \<ge> AclEnd then (STATUS_INVALID_PARAMETER, Some Ace)
                        else (STATUS_SUCCESS, Some Ace))"

text \<open>The first loop of \<^verbatim>\<open>RtlAddAce\<close>, over the new ACEs; an ACE of size 0 makes it run forever.\<close>

partial_function (option) add_ace_scan ::
  "mem \<Rightarrow> nat \<Rightarrow> ULONG \<Rightarrow> nat \<Rightarrow> USHORT \<Rightarrow> (NTSTATUS + nat \<times> USHORT) option" where
  "add_ace_scan m ListEnd Revision Ace NewAceCount =
     (if Ace < ListEnd then
        if AceType m Ace \<le> ACCESS_MAX_MS_ACE_TYPE \<and> AceType m Ace > ACCESS_MAX_MS_V3_ACE_TYPE \<and>
           Revision < ACL_REVISION4
        then Some (Inl STATUS_INVALID_PARAMETER)
        else if AceType m Ace \<le> ACCESS_MAX_MS_V3_ACE_TYPE \<and> AceType m Ace > ACCESS_MAX_MS_V2_ACE_TYPE \<and>
           Revision < ACL_REVISION3
        then Some (Inl STATUS_INVALID_PARAMETER)
        else add_ace_scan m ListEnd Revision (Ace + unat (AceSize m Ace)) (NewAceCount + 1)
      else Some (Inr (Ace, NewAceCount)))"

text \<open>The pointer to the ACE of a given index: the walk that \<^verbatim>\<open>RtlAddAce\<close> and \<^verbatim>\<open>RtlDeleteAce\<close> make.\<close>

fun ace_ptr :: "mem \<Rightarrow> nat \<Rightarrow> nat \<Rightarrow> nat" where
  "ace_ptr m Ace 0 = Ace"
| "ace_ptr m Ace (Suc Index) = ace_ptr m (Ace + unat (AceSize m Ace)) Index"

definition RtlAddAce :: "mem \<Rightarrow> nat \<Rightarrow> ULONG \<Rightarrow> ULONG \<Rightarrow> nat \<Rightarrow> ULONG \<Rightarrow> (NTSTATUS \<times> mem) option" where
  "RtlAddAce m Acl Revision StartingIndex AceList AceListLength =
     (if \<not> RtlValidAcl m Acl then Some (STATUS_INVALID_PARAMETER, m)
      else
        (case RtlFirstFreeAce m Acl of (found, FreeAce) \<Rightarrow>
           if \<not> found then Some (STATUS_INVALID_PARAMETER, m)
           else
             (case add_ace_scan m (AceList + unat AceListLength) Revision AceList 0 of
                None \<Rightarrow> None
              | Some (Inl status) \<Rightarrow> Some (status, m)
              | Some (Inr (Ace, NewAceCount)) \<Rightarrow>
                  if Ace > AceList + unat AceListLength then Some (STATUS_INVALID_PARAMETER, m)
                  else if FreeAce = 0 \<or> FreeAce + unat AceListLength > Acl + unat (AclSize m Acl)
                  then Some (STATUS_BUFFER_TOO_SMALL, m)
                  else
                    let Ace = ace_ptr m (Acl + 8) (min (unat StartingIndex) (unat (AceCount m Acl)));
                        m = RtlpAddData m AceList (unat AceListLength) Ace (FreeAce - Ace);
                        m = wr16 m (Acl + 4) (AceCount m Acl + NewAceCount);
                        m = wr8 m Acl (ucast (min (ucast (AclRevision m Acl)) Revision))
                    in Some (STATUS_SUCCESS, m))))"

definition RtlDeleteAce :: "mem \<Rightarrow> nat \<Rightarrow> ULONG \<Rightarrow> NTSTATUS \<times> mem" where
  "RtlDeleteAce m Acl AceIndex =
     (if \<not> RtlValidAcl m Acl then (STATUS_INVALID_PARAMETER, m)
      else if ucast (AceCount m Acl) \<le> AceIndex then (STATUS_INVALID_PARAMETER, m)
      else
        (case RtlFirstFreeAce m Acl of (found, FreeAce) \<Rightarrow>
           if \<not> found then (STATUS_INVALID_PARAMETER, m)
           else
             let Ace = ace_ptr m (Acl + 8) (unat AceIndex);
                 m = RtlpDeleteData m Ace (unat (AceSize m Ace)) (FreeAce - Ace);
                 m = wr16 m (Acl + 4) (AceCount m Acl - 1)
             in (STATUS_SUCCESS, m)))"

subsection \<open>Creating and querying\<close>

definition RtlCreateAcl :: "mem \<Rightarrow> nat \<Rightarrow> ULONG \<Rightarrow> ULONG \<Rightarrow> NTSTATUS \<times> mem" where
  "RtlCreateAcl m Acl Size Revision =
     (if Size < 8 then (STATUS_BUFFER_TOO_SMALL, m)
      else if Revision < MIN_ACL_REVISION \<or> Revision > MAX_ACL_REVISION \<or> Size > 0xFFFF
      then (STATUS_INVALID_PARAMETER, m)
      else
        let m = wr16 m (Acl + 2) (ucast (ROUND_UP Size 4));
            m = wr8 m Acl (ucast Revision);
            m = wr16 m (Acl + 4) 0;
            m = wr8 m (Acl + 1) 0;
            m = wr16 m (Acl + 6) 0
        in (STATUS_SUCCESS, m))"

datatype acl_information =
  ACL_REVISION_INFORMATION ULONG
| ACL_SIZE_INFORMATION ULONG ULONG ULONG

definition RtlQueryInformationAcl :: "mem \<Rightarrow> nat \<Rightarrow> ULONG \<Rightarrow> ULONG \<Rightarrow> NTSTATUS \<times> acl_information option" where
  "RtlQueryInformationAcl m Acl InformationLength InformationClass =
     (if ucast (AclRevision m Acl) < MIN_ACL_REVISION \<or> ucast (AclRevision m Acl) > MAX_ACL_REVISION
      then (STATUS_INVALID_PARAMETER, None)
      else if InformationClass = 1 then
        (if InformationLength < 4 then (STATUS_BUFFER_TOO_SMALL, None)
         else (STATUS_SUCCESS, Some (ACL_REVISION_INFORMATION (ucast (AclRevision m Acl)))))
      else if InformationClass = 2 then
        (if InformationLength < 12 then (STATUS_BUFFER_TOO_SMALL, None)
         else
           (case RtlFirstFreeAce m Acl of (found, Ace) \<Rightarrow>
              if \<not> found then (STATUS_INVALID_PARAMETER, None)
              else if Ace \<noteq> 0 then
                let AclBytesInUse = of_nat (Ace - Acl)
                in (STATUS_SUCCESS, Some (ACL_SIZE_INFORMATION (ucast (AceCount m Acl)) AclBytesInUse
                      (ucast (AclSize m Acl) - AclBytesInUse)))
              else
                (STATUS_SUCCESS, Some (ACL_SIZE_INFORMATION (ucast (AceCount m Acl)) (ucast (AclSize m Acl)) 0))))
      else (STATUS_INVALID_INFO_CLASS, None))"

definition RtlSetInformationAcl :: "mem \<Rightarrow> nat \<Rightarrow> ULONG \<Rightarrow> ULONG \<Rightarrow> ULONG \<Rightarrow> NTSTATUS \<times> mem" where
  "RtlSetInformationAcl m Acl Information InformationLength InformationClass =
     (if ucast (AclRevision m Acl) < MIN_ACL_REVISION \<or> ucast (AclRevision m Acl) > MAX_ACL_REVISION
      then (STATUS_INVALID_PARAMETER, m)
      else if InformationClass = 1 then
        (if InformationLength < 4 then (STATUS_BUFFER_TOO_SMALL, m)
         else if ucast (AclRevision m Acl) \<ge> Information then (STATUS_INVALID_PARAMETER, m)
         else (STATUS_SUCCESS, wr8 m Acl (ucast Information)))
      else (STATUS_INVALID_INFO_CLASS, m))"

end
