(* ===== verification/Rtl_Acl_Lists.thy ===== *)
theory Rtl_Acl_Lists
  imports Rtl_Acl
begin

text \<open>
  What the operations of \<^verbatim>\<open>sdk/lib/rtl/acl.c\<close> do to an ACL seen as a list of ACEs.  \<open>acl_aces\<close> reads the
  list of ACE byte strings out of memory; appending, inserting and deleting on bytes refine
  appending, inserting and deleting on that list, and keep the validity that \<^verbatim>\<open>RtlValidAcl\<close>
  checks.
\<close>

section \<open>The list of ACEs\<close>

abbreviation ace_len :: "mem \<Rightarrow> nat \<Rightarrow> nat" where
  "ace_len m Ace \<equiv> unat (AceSize m Ace)"

fun ace_list :: "mem \<Rightarrow> nat \<Rightarrow> nat \<Rightarrow> UCHAR list list" where
  "ace_list m p 0 = []"
| "ace_list m p (Suc n) = bytes m p (ace_len m p) # ace_list m (p + ace_len m p) n"

fun sized_aces :: "mem \<Rightarrow> nat \<Rightarrow> nat \<Rightarrow> bool" where
  "sized_aces m p 0 = True"
| "sized_aces m p (Suc n) = (4 \<le> ace_len m p \<and> sized_aces m (p + ace_len m p) n)"

lemma ace_list_length [simp]: "length (ace_list m p n) = n"
  by (induction m p n rule: ace_list.induct) simp_all

lemma ace_ptr_ge: "p \<le> ace_ptr m p n"
  by (induction m p n rule: ace_ptr.induct) simp_all

lemma ace_ptr_add: "ace_ptr m p (n + k) = ace_ptr m (ace_ptr m p n) k"
  by (induction m p n rule: ace_ptr.induct) simp_all

lemma ace_ptr_mono: "n \<le> k \<Longrightarrow> ace_ptr m p n \<le> ace_ptr m p k"
  using ace_ptr_add [of m p n "k - n"] ace_ptr_ge by simp

lemma ace_list_add: "ace_list m p (n + k) = ace_list m p n @ ace_list m (ace_ptr m p n) k"
  by (induction m p n rule: ace_list.induct) simp_all

lemma sized_aces_add: "sized_aces m p (n + k) \<longleftrightarrow> sized_aces m p n \<and> sized_aces m (ace_ptr m p n) k"
  by (induction m p n rule: sized_aces.induct) simp_all

lemma AceSize_shift: "m' (q + 2) = m (p + 2) \<Longrightarrow> m' (q + 3) = m (p + 3) \<Longrightarrow> AceSize m' q = AceSize m p"
  by (simp add: AceSize_def rd16_def numeral_3_eq_3 numeral_2_eq_2)

lemma ace_list_shift:
  assumes "sized_aces m p n" "\<And>j. p + j < ace_ptr m p n \<Longrightarrow> m' (q + j) = m (p + j)"
  shows "ace_list m' q n = ace_list m p n \<and> sized_aces m' q n \<and>
    ace_ptr m' q n + p = ace_ptr m p n + q"
  using assms
proof (induction m p n arbitrary: q rule: ace_list.induct)
  case (1 m p)
  then show ?case by simp
next
  case (2 m p n)
  have ge: "p + ace_len m p \<le> ace_ptr m p (Suc n)" using ace_ptr_ge by simp
  have "AceSize m' q = AceSize m p"
    using 2(2) 2(3) [of 2] 2(3) [of 3] ge by (intro AceSize_shift) simp_all
  moreover have "bytes m' q (ace_len m p) = bytes m p (ace_len m p)"
    using 2(3) ge by (simp add: bytes_eq_iff)
  moreover have "m' (q + ace_len m p + j) = m (p + ace_len m p + j)"
    if "p + ace_len m p + j < ace_ptr m (p + ace_len m p) n" for j
    using 2(3) [of "ace_len m p + j"] that by (simp add: add.assoc)
  ultimately show ?case using 2(1) [of "q + ace_len m p"] 2(2) by auto
qed

text \<open>An ACL whose ACEs at least hold their headers.\<close>

definition acl_ok :: "mem \<Rightarrow> nat \<Rightarrow> bool" where
  "acl_ok m Acl \<longleftrightarrow> RtlValidAcl m Acl \<and> sized_aces m (Acl + 8) (unat (AceCount m Acl))"

definition acl_aces :: "mem \<Rightarrow> nat \<Rightarrow> UCHAR list list" where
  "acl_aces m Acl = ace_list m (Acl + 8) (unat (AceCount m Acl))"

definition acl_end :: "mem \<Rightarrow> nat \<Rightarrow> nat" where
  "acl_end m Acl = Acl + unat (AclSize m Acl)"

definition free_ace :: "mem \<Rightarrow> nat \<Rightarrow> nat" where
  "free_ace m Acl = ace_ptr m (Acl + 8) (unat (AceCount m Acl))"

lemma valid_ace_bounds:
  "valid_ace m Acl p \<Longrightarrow> p + 4 < acl_end m Acl \<and> p + ace_len m p \<le> acl_end m Acl"
  by (auto simp: valid_ace_def acl_end_def split: if_splits)

lemma valid_aces_walk:
  assumes "valid_aces m Acl n p" "p \<le> acl_end m Acl"
  shows "first_free_loop m (acl_end m Acl) n p = Some (ace_ptr m p n) \<and> ace_ptr m p n \<le> acl_end m Acl"
  using assms
proof (induction m Acl n p rule: valid_aces.induct)
  case (2 m Acl n p)
  then show ?case using valid_ace_bounds [of m Acl p] by (auto split: if_splits)
qed simp

lemma valid_aces_get:
  assumes "valid_aces m Acl n p" "k < n"
  shows "get_ace_loop m (acl_end m Acl) k p = Inr (ace_ptr m p k) \<and> ace_ptr m p k + 4 < acl_end m Acl"
  using assms
proof (induction m Acl n p arbitrary: k rule: valid_aces.induct)
  case (2 m Acl n p)
  then show ?case using valid_ace_bounds [of m Acl p] by (cases k) (auto split: if_splits)
qed simp

lemma RtlValidAcl_aces:
  assumes "RtlValidAcl m Acl"
  shows "valid_aces m Acl (unat (AceCount m Acl)) (Acl + 8)" "Acl + 8 \<le> acl_end m Acl"
    "2 \<le> AclRevision m Acl" "AclRevision m Acl \<le> 4"
  using assms by (auto simp: RtlValidAcl_def acl_end_def word_less_nat_alt word_le_nat_alt split: if_splits)

lemma RtlFirstFreeAce_valid:
  assumes "RtlValidAcl m Acl"
  shows "RtlFirstFreeAce m Acl = (True, free_ace m Acl)" "free_ace m Acl \<le> acl_end m Acl"
    "Acl + 8 \<le> free_ace m Acl"
  using valid_aces_walk [OF RtlValidAcl_aces(1,2) [OF assms]] ace_ptr_ge
  by (simp_all add: RtlFirstFreeAce_def acl_end_def free_ace_def)


definition guid_size :: "ULONG \<Rightarrow> nat" where
  "guid_size Flags = (if Flags AND ACE_OBJECT_TYPE_PRESENT \<noteq> 0 then sizeof_GUID else 0) +
     (if Flags AND ACE_INHERITED_OBJECT_TYPE_PRESENT \<noteq> 0 then sizeof_GUID else 0)"

lemma valid_object_ace_alt:
  "valid_object_ace m Acl p \<longleftrightarrow>
     4 \<le> unat (AclRevision m Acl) \<and> ROUND_DOWN (ucast (AceSize m p)) 4 = ucast (AceSize m p) \<and>
     16 \<le> ace_len m p \<and> Sid_Revision m (p + 12 + guid_size (ObjectAceFlags m p)) = SID_REVISION \<and>
     unat (SubAuthorityCount m (p + 12 + guid_size (ObjectAceFlags m p))) \<le> 15 \<and>
     12 + guid_size (ObjectAceFlags m p) + sid_len m (p + 12 + guid_size (ObjectAceFlags m p)) \<le> ace_len m p"
proof -
  define G where "G = guid_size (ObjectAceFlags m p)"
  have small: "unat (of_nat (16 - 4 + G + sid_len m s) :: USHORT) = 12 + G + sid_len m s"
    if "unat (SubAuthorityCount m s) \<le> 15" for s
  proof -
    have "G \<le> 32" "sid_len m s \<le> 68" using that by (simp_all add: G_def guid_size_def sid_len_def)
    then show ?thesis by (subst unat_of_nat_16) simp_all
  qed
  show ?thesis
    unfolding valid_object_ace_def Let_def guid_size_def [symmetric] G_def [symmetric] unat_RtlLengthSid
    using small by (auto simp: word_less_nat_alt not_less)
qed

lemma valid_known_ace_alt:
  "valid_known_ace m p \<longleftrightarrow>
     ROUND_DOWN (ucast (AceSize m p)) 4 = ucast (AceSize m p) \<and> Sid_Revision m (p + 8) = SID_REVISION \<and>
     unat (SubAuthorityCount m (p + 8)) \<le> 15 \<and> 4 + sid_len m (p + 8) \<le> ace_len m p"
  by (auto simp: valid_known_ace_def Let_def word_less_nat_alt not_less)

lemma valid_ace_shift:
  assumes v: "valid_ace m Acl p" and len: "4 \<le> ace_len m p"
    and eq: "\<And>j. j < ace_len m p \<Longrightarrow> m' (q + j) = m (p + j)" and "q \<le> p"
    and size: "AclSize m' Acl = AclSize m Acl" and rev: "AclRevision m Acl \<le> AclRevision m' Acl"
  shows "valid_ace m' Acl q"
proof -
  have sz: "AceSize m' q = AceSize m p" using eq [of 2] eq [of 3] len by (intro AceSize_shift) simp_all
  have ty: "AceType m' q = AceType m p" using eq [of 0] len by (simp add: AceType_def)
  have known: "valid_known_ace m' q" if k: "valid_known_ace m p"
  proof -
    have "12 \<le> ace_len m p" using k sid_len_ge [of m "p + 8"] by (simp add: valid_known_ace_alt)
    then have "Sid_Revision m' (q + 8) = Sid_Revision m (p + 8)" "SubAuthorityCount m' (q + 8) = SubAuthorityCount m (p + 8)"
      using eq [of 8] eq [of 9] by (simp_all add: Sid_Revision_def SubAuthorityCount_def add.commute)
    with k sz show ?thesis by (simp add: valid_known_ace_alt sid_len_def)
  qed
  have object: "valid_object_ace m' Acl q" if k: "valid_object_ace m Acl p"
  proof -
    define G where "G = guid_size (ObjectAceFlags m p)"
    note k' = k [unfolded valid_object_ace_alt, folded G_def]
    have fl: "ObjectAceFlags m' q = ObjectAceFlags m p"
      unfolding ObjectAceFlags_def using k' eq [of "8 + _"]
      by (intro rd32_shift) (simp add: add.assoc)
    have "Sid_Revision m' (q + 12 + G) = Sid_Revision m (p + 12 + G)"
      "SubAuthorityCount m' (q + 12 + G) = SubAuthorityCount m (p + 12 + G)"
      using eq [of "12 + G"] eq [of "13 + G"] k' sid_len_ge [of m "p + 12 + G"]
      by (simp_all add: Sid_Revision_def SubAuthorityCount_def algebra_simps)
    with k' sz fl rev show ?thesis
      unfolding valid_object_ace_alt fl G_def [symmetric] by (simp add: sid_len_def word_le_nat_alt)
  qed
  show ?thesis
    using v assms(4) known object unfolding valid_ace_def sz ty size by (auto split: if_splits)
qed


lemma valid_aces_add: "valid_aces m Acl (n + k) p \<longleftrightarrow> valid_aces m Acl n p \<and> valid_aces m Acl k (ace_ptr m p n)"
  by (induction m Acl n p rule: valid_aces.induct) simp_all

lemma valid_aces_shift:
  assumes "valid_aces m Acl n p" "sized_aces m p n"
    and "\<And>j. p + j < ace_ptr m p n \<Longrightarrow> m' (q + j) = m (p + j)" "q \<le> p"
    and "AclSize m' Acl = AclSize m Acl" "AclRevision m Acl \<le> AclRevision m' Acl"
  shows "valid_aces m' Acl n q"
  using assms
proof (induction m Acl n p arbitrary: q rule: valid_aces.induct)
  case (1 m Acl p)
  then show ?case by simp
next
  case (2 m Acl n p)
  have ge: "p + ace_len m p \<le> ace_ptr m p (Suc n)" using ace_ptr_ge by simp
  have v: "valid_ace m Acl p" "valid_aces m Acl n (p + ace_len m p)" using 2(2) by (auto split: if_splits)
  have "valid_ace m' Acl q"
  proof (rule valid_ace_shift [OF v(1)])
    show "m' (q + j) = m (p + j)" if "j < ace_len m p" for j using 2(4) [of j] that ge by simp
  qed (use 2(3,5-7) in simp_all)
  moreover have "AceSize m' q = AceSize m p"
    using 2(3) 2(4) [of 2] 2(4) [of 3] ge by (intro AceSize_shift) simp_all
  moreover have "valid_aces m' Acl n (q + ace_len m p)"
  proof (rule 2(1) [OF v(1,2)])
    show "m' (q + ace_len m p + j) = m (p + ace_len m p + j)" if "p + ace_len m p + j < ace_ptr m (p + ace_len m p) n" for j
      using 2(4) [of "ace_len m p + j"] that by (simp add: add.assoc)
  qed (use 2(3,5-7) in simp_all)
  ultimately show ?case by simp
qed

lemma ROUND_DOWN_multiple:
  assumes "unat x mod 4 = 0" shows "ROUND_DOWN x 4 = x" "ROUND_DOWN x 2 = x"
proof -
  have "take_bit 2 (unat x) = 0" using assms by (simp add: take_bit_eq_mod)
  then have low: "\<not> bit x j" if "j < 2" for j
  proof -
    have "bit x j = bit (take_bit 2 (unat x)) j" using that by (simp add: bit_take_bit_iff bit_unsigned_iff)
    then show ?thesis using \<open>take_bit 2 (unat x) = 0\<close> by simp
  qed
  then have ge: "2 \<le> j" if "bit x j" for j using that not_le by blast
  have eq: "ROUND_DOWN x 4 = x AND NOT (mask 2)" "ROUND_DOWN x 2 = x AND NOT (mask 1)"
    by (simp_all add: ROUND_DOWN_def mask_eq_exp_minus_1)
  have "bit (x AND NOT (mask c)) n = bit x n" if "c \<le> 2" "n < 32" for c n
    using ge [of n] that by (auto simp: bit_and_iff bit_not_iff bit_mask_iff)
  then show "ROUND_DOWN x 4 = x" "ROUND_DOWN x 2 = x"
    unfolding eq by (auto intro!: bit_word_eqI simp del: One_nat_def mask_Suc_0)
qed

section \<open>Looking up ACEs\<close>

text \<open>
  On a valid ACL \<^verbatim>\<open>RtlGetAce\<close> succeeds for exactly the indices below the ACE count, and returns the
  position of that ACE, which lies inside the ACL; for a valid ACL \<^verbatim>\<open>RtlFirstFreeAce\<close> returns the
  end of the last ACE, and the size query reports the bytes up to there as used.
\<close>

theorem RtlGetAce_valid:
  assumes "RtlValidAcl m Acl"
  shows "(if unat AceIndex < unat (AceCount m Acl)
      then RtlGetAce m Acl AceIndex = (STATUS_SUCCESS, Some (ace_ptr m (Acl + 8) (unat AceIndex))) \<and>
        ace_ptr m (Acl + 8) (unat AceIndex) + 4 < acl_end m Acl
      else RtlGetAce m Acl AceIndex = (STATUS_INVALID_PARAMETER, None)) \<and>
    RtlFirstFreeAce m Acl = (True, free_ace m Acl) \<and>
    RtlQueryInformationAcl m Acl 12 2 =
      (STATUS_SUCCESS, Some (ACL_SIZE_INFORMATION (ucast (AceCount m Acl)) (of_nat (free_ace m Acl - Acl))
         (ucast (AclSize m Acl) - of_nat (free_ace m Acl - Acl))))"
proof -
  note v = RtlValidAcl_aces [OF assms] and f = RtlFirstFreeAce_valid [OF assms]
  have rev: "\<not> (ucast (AclRevision m Acl) :: ULONG) < 2" "\<not> (ucast (AclRevision m Acl) :: ULONG) > 4"
    using v(3,4) by (simp_all add: word_less_nat_alt word_le_nat_alt)
  have "RtlGetAce m Acl AceIndex = (STATUS_SUCCESS, Some (ace_ptr m (Acl + 8) (unat AceIndex))) \<and>
        ace_ptr m (Acl + 8) (unat AceIndex) + 4 < acl_end m Acl" if "unat AceIndex < unat (AceCount m Acl)"
    using valid_aces_get [OF v(1) that] that rev
    by (simp add: RtlGetAce_def acl_end_def word_le_nat_alt)
  moreover have "RtlGetAce m Acl AceIndex = (STATUS_INVALID_PARAMETER, None)" if "\<not> unat AceIndex < unat (AceCount m Acl)"
    using that by (simp add: RtlGetAce_def word_le_nat_alt)
  ultimately show ?thesis using f rev by (simp add: RtlQueryInformationAcl_def Let_def)
qed

section \<open>Appending a plain ACE\<close>

definition apart :: "nat \<Rightarrow> nat \<Rightarrow> nat \<Rightarrow> nat \<Rightarrow> bool" where
  "apart a n b k \<longleftrightarrow> a + n \<le> b \<or> b + k \<le> a"

lemma RtlpAddKnownAce_success:
  assumes "RtlpAddKnownAce m Acl Revision Flags AccessMask Sid Type = (STATUS_SUCCESS, m')"
    and "apart Sid (sid_len m Sid) Acl (unat (AclSize m Acl))"
  defines "F \<equiv> free_ace m Acl" and "L \<equiv> sid_len m Sid"
  shows "RtlValidAcl m Acl" "F + 8 + L \<le> acl_end m Acl" "RtlValidSid m Sid"
    and "m' = wr8 (wr16 (RtlMoveMemory
       (wr32 (wr16 (wr8 (wr8 m (F + 1) (ucast Flags)) F Type) (F + 2) (of_nat (8 + L))) (F + 4) AccessMask)
       (F + 8) Sid L) (Acl + 4) (AceCount m Acl + 1)) Acl (max (AclRevision m Acl) (ucast Revision))"
    and "Revision \<le> 4"
proof -
  have nz: "STATUS_SUCCESS \<noteq> STATUS_INVALID_SID" "STATUS_SUCCESS \<noteq> STATUS_REVISION_MISMATCH" by simp_all
  have c: "unat (SubAuthorityCount m Sid) < 256" by (rule unat_less_8_16)
  have size: "RtlLengthSid m Sid + 8 = of_nat (8 + L)" by (simp add: L_def of_nat_sid_len [symmetric])
  then have unat_size: "unat (RtlLengthSid m Sid + 8) = 8 + L"
    using c by (simp add: unat_of_nat_32 L_def sid_len_def del: of_nat_add)
  have usize: "ucast (RtlLengthSid m Sid + 8) = (of_nat (8 + L) :: USHORT)"
    using unat_size c
    by (simp add: word_unat_eq_iff unat_ucast_down(2) unat_of_nat_16 L_def sid_len_def del: of_nat_add)
  show valid: "RtlValidAcl m Acl" and "RtlValidSid m Sid" "Revision \<le> 4"
    using assms(1) by (auto simp: RtlpAddKnownAce_def split: if_splits)
  note f = RtlFirstFreeAce_valid [OF valid, folded F_def]
  define m1 where "m1 = wr32 (wr16 (wr8 (wr8 m (F + 1) (ucast Flags)) F Type) (F + 2) (of_nat (8 + L))) (F + 4) AccessMask"
  have m1: "m1 x = m x" if "x < F \<or> F + 8 \<le> x" for x
    using that by (auto simp: m1_def wr8_apply wr16_apply wr32_apply)
  show room: "F + 8 + L \<le> acl_end m Acl"
    using assms(1) valid f unat_size
    by (auto simp: RtlpAddKnownAce_def Let_def acl_end_def not_less split: if_splits)
  have len1: "RtlLengthSid m1 Sid = RtlLengthSid m Sid"
    using assms(2) room f(3) m1 [of "Sid + 1"] sid_len_ge [of m Sid]
    by (auto simp: RtlLengthSid_def SubAuthorityCount_def apart_def acl_end_def L_def)
  then have slen: "sid_len m1 Sid = L" by (metis unat_RtlLengthSid L_def)
  have count: "AceCount (RtlMoveMemory m1 (F + 8) Sid L) Acl = AceCount m Acl"
    using f(3) unfolding AceCount_def by (intro rd16_cong) (auto simp: RtlMoveMemory_def m1)
  have rev: "ucast (if Revision < ucast (AclRevision m Acl) then ucast (AclRevision m Acl) else Revision) =
      max (AclRevision m Acl) (ucast Revision)"
    using \<open>Revision \<le> 4\<close>
    by (simp add: word_unat_eq_iff max_def word_le_nat_alt word_less_nat_alt unat_ucast_down(1) unat_less_8_16(1))
  show "m' = wr8 (wr16 (RtlMoveMemory
       (wr32 (wr16 (wr8 (wr8 m (F + 1) (ucast Flags)) F Type) (F + 2) (of_nat (8 + L))) (F + 4) AccessMask)
       (F + 8) Sid L) (Acl + 4) (AceCount m Acl + 1)) Acl (max (AclRevision m Acl) (ucast Revision))"
    using assms(1)
    unfolding RtlpAddKnownAce_def Let_def f(1) prod.case usize m1_def [symmetric] len1 rev RtlCopySid_def
      unat_RtlLengthSid L_def [symmetric] slen
    by (simp add: count split: if_splits)
qed

lemma RtlValidAcl_intro:
  assumes "RtlValidAcl m Acl" "AclSize m' Acl = AclSize m Acl"
    and "AclRevision m Acl \<le> AclRevision m' Acl" "AclRevision m' Acl \<le> 4"
    and "valid_aces m' Acl (unat (AceCount m' Acl)) (Acl + 8)"
  shows "RtlValidAcl m' Acl"
  using assms RtlValidAcl_aces(3) [OF assms(1)]
  by (auto simp: RtlValidAcl_def word_less_nat_alt word_le_nat_alt split: if_splits)

text \<open>What a successful append leaves in memory, byte by byte.\<close>

lemma RtlpAddKnownAce_memory:
  assumes "RtlpAddKnownAce m Acl Revision Flags AccessMask Sid Type = (STATUS_SUCCESS, m')"
    and "apart Sid (sid_len m Sid) Acl (unat (AclSize m Acl))"
  defines "F \<equiv> free_ace m Acl" and "L \<equiv> sid_len m Sid"
  shows "\<And>x. x \<noteq> Acl \<Longrightarrow> x \<noteq> Acl + 4 \<Longrightarrow> x \<noteq> Acl + 5 \<Longrightarrow> x < F \<or> F + 8 + L \<le> x \<Longrightarrow> m' x = m x"
    and "AclRevision m' Acl = max (AclRevision m Acl) (ucast Revision)" "AceCount m' Acl = AceCount m Acl + 1"
    and "AclSize m' Acl = AclSize m Acl"
    and "AceType m' F = Type" "AceFlags m' F = ucast Flags" "AceSize m' F = of_nat (8 + L)" "AceMask m' F = AccessMask"
    and "sid_bytes m' (F + 8) = sid_bytes m Sid"
proof -
  note S = RtlpAddKnownAce_success [OF assms(1,2), folded F_def L_def]
  define c where "c = AceCount m Acl + 1"
  define h where "h = wr16 (wr8 (wr8 m (F + 1) (ucast Flags)) F Type) (F + 2) (of_nat (8 + L))"
  define m1 where "m1 = wr32 h (F + 4) AccessMask"
  have F: "Acl + 8 \<le> F" using RtlFirstFreeAce_valid(3) [OF S(1)] by (simp add: F_def)
  have m': "m' = wr8 (wr16 (RtlMoveMemory m1 (F + 8) Sid L) (Acl + 4) c) Acl (max (AclRevision m Acl) (ucast Revision))"
    using S(4) by (simp add: m1_def h_def c_def)
  have m1: "m1 x = m x" if "x < F \<or> F + 8 \<le> x" for x
    using that by (auto simp: m1_def h_def wr8_apply wr16_apply wr32_apply)
  have low: "m' x = m1 x" if "F \<le> x" "x < F + 8" for x
    using that F by (simp add: m' wr8_apply wr16_apply RtlMoveMemory_def)
  have hdr: "m1 x = h x" if "x < F + 4" for x using that by (simp add: m1_def wr32_apply)
  show "m' x = m x" if "x \<noteq> Acl" "x \<noteq> Acl + 4" "x \<noteq> Acl + 5" "x < F \<or> F + 8 + L \<le> x" for x
    using that m1 [of x] by (auto simp: m' wr8_apply wr16_apply RtlMoveMemory_def)
  then show "AclSize m' Acl = AclSize m Acl" using F by (simp add: AclSize_def rd16_def)
  show "AclRevision m' Acl = max (AclRevision m Acl) (ucast Revision)" by (simp add: AclRevision_def m' wr8_apply)
  have "AceCount m' Acl = rd16 (wr16 (RtlMoveMemory m1 (F + 8) Sid L) (Acl + 4) c) (Acl + 4)"
    unfolding AceCount_def by (rule rd16_cong) (simp_all add: m' wr8_apply)
  then show "AceCount m' Acl = AceCount m Acl + 1" by (simp add: c_def)
  show "AceType m' F = Type" "AceFlags m' F = ucast Flags"
    by (simp_all add: AceType_def AceFlags_def low hdr h_def wr16_apply wr8_apply)
  have "AceSize m' F = rd16 h (F + 2)" unfolding AceSize_def by (rule rd16_cong) (simp_all add: low hdr)
  then show "AceSize m' F = of_nat (8 + L)" by (simp add: h_def)
  have "AceMask m' F = rd32 m1 (F + 4)" unfolding AceMask_def by (rule rd32_cong) (simp add: low)
  then show "AceMask m' F = AccessMask" by (simp add: m1_def)
  have "m (Sid + i) = m' (F + 8 + i)" if "i < L" for i
    using that F assms(2) S(2) m1 [of "Sid + i"]
    by (auto simp: m' wr8_apply wr16_apply RtlMoveMemory_def apart_def L_def acl_end_def)
  then show "sid_bytes m' (F + 8) = sid_bytes m Sid"
    using sid_bytes_eq_iff [of m Sid m' "F + 8"] by (simp add: L_def)
qed

text \<open>
  C13.  When \<^verbatim>\<open>RtlpAddKnownAce\<close> appends a plain ACE, the new ACL is valid again and its ACEs are the old
  ones, byte for byte, followed by one new ACE with the given type, flags, mask and SID; no byte
  outside the ACL changes.
\<close>

theorem RtlpAddKnownAce_appends:
  assumes "acl_ok m Acl" "RtlpAddKnownAce m Acl Revision Flags AccessMask Sid Type = (STATUS_SUCCESS, m')"
    and "apart Sid (sid_len m Sid) Acl (unat (AclSize m Acl))" "Sid \<noteq> 0"
    and "Sid_Revision m Sid = SID_REVISION" "Type \<le> ACCESS_MAX_MS_V2_ACE_TYPE" "unat (AceCount m Acl) < 0xFFFF"
  shows "acl_ok m' Acl \<and>
    acl_aces m' Acl = acl_aces m Acl @ [bytes m' (free_ace m Acl) (8 + sid_len m Sid)] \<and>
    AceType m' (free_ace m Acl) = Type \<and> AceFlags m' (free_ace m Acl) = ucast Flags \<and>
    AceMask m' (free_ace m Acl) = AccessMask \<and> sid_bytes m' (free_ace m Acl + 8) = sid_bytes m Sid \<and>
    (\<forall>x. x < Acl \<or> acl_end m Acl \<le> x \<longrightarrow> m' x = m x)"
proof -
  define F L n where "F = free_ace m Acl" and "L = sid_len m Sid" and "n = unat (AceCount m Acl)"
  note S = RtlpAddKnownAce_success [OF assms(2,3), folded F_def L_def]
  note M = RtlpAddKnownAce_memory [OF assms(2,3), folded F_def L_def]
  have F: "Acl + 8 \<le> F" "F = ace_ptr m (Acl + 8) n"
    using RtlFirstFreeAce_valid(3) [OF S(1)] by (simp_all add: F_def free_ace_def n_def)
  have sized: "sized_aces m (Acl + 8) n" using assms(1) by (simp add: acl_ok_def n_def)
  have L: "8 \<le> L" "L \<le> 68" "L mod 4 = 0" 
    using S(3) assms(4) by (auto simp: L_def sid_len_def RtlValidSid_def word_less_nat_alt split: if_splits)
  have len: "ace_len m' F = 8 + L" using M(7) L(2) by (simp add: unat_of_nat_16 del: of_nat_add)
  have same: "m' (Acl + 8 + j) = m (Acl + 8 + j)" if "Acl + 8 + j < ace_ptr m (Acl + 8) n" for j
    using that F by (intro M(1)) auto
  note old = ace_list_shift [OF sized same]
  then have ptr: "ace_ptr m' (Acl + 8) n = F" using F(2) by simp
  have cnt: "unat (AceCount m' Acl) = n + 1"
    using assms(7) unfolding M(3) n_def by (simp add: unat_word_ariths)
  have aces: "acl_aces m' Acl = acl_aces m Acl @ [bytes m' F (8 + L)]"
    unfolding acl_aces_def cnt ace_list_add using old ptr len by (simp add: n_def)
  have sid: "Sid_Revision m' (F + 8) = SID_REVISION" "SubAuthorityCount m' (F + 8) = SubAuthorityCount m Sid"
    using M(9) [unfolded sid_bytes_eq_iff [of m' "F + 8" m Sid], rule_format, of 0]
      M(9) [unfolded sid_bytes_eq_iff [of m' "F + 8" m Sid], rule_format, of 1]
      sid_len_ge [of m' "F + 8"] assms(5) by (simp_all add: Sid_Revision_def SubAuthorityCount_def)
  have "unat (ucast (AceSize m' F) :: ULONG) mod 4 = 0" using len L(3) by simp presburger
  then have new: "valid_ace m' Acl F"
    using S(2,3) L len sid M(4,5) assms(4,6)
    by (auto simp: valid_ace_def valid_known_ace_alt ROUND_DOWN_multiple acl_end_def sid_len_def L_def
        RtlValidSid_def word_less_nat_alt split: if_splits)
  have rev: "AclRevision m Acl \<le> AclRevision m' Acl" "AclRevision m' Acl \<le> 4"
    using S(5) RtlValidAcl_aces(4) [OF S(1)] unfolding M(2)
    by (simp_all add: max_def word_le_nat_alt unat_ucast_down(1))
  have "valid_aces m' Acl n (Acl + 8)"
    by (rule valid_aces_shift [OF RtlValidAcl_aces(1) [OF S(1), folded n_def] sized same _ M(4) rev(1)]) simp_all
  then have "RtlValidAcl m' Acl"
    using new by (intro RtlValidAcl_intro [OF S(1) M(4) rev]) (simp only: cnt valid_aces_add ptr, simp)
  moreover have "sized_aces m' (Acl + 8) (n + 1)"
    unfolding sized_aces_add using old ptr len by simp
  ultimately have "acl_ok m' Acl" unfolding acl_ok_def cnt by blast
  moreover have "m' x = m x" if "x < Acl \<or> acl_end m Acl \<le> x" for x
    using that S(2) F(1) L(1) by (intro M(1)) auto
  ultimately show ?thesis
    using aces M(5,6,8,9) unfolding F_def [symmetric] L_def [symmetric] by blast
qed

text \<open>A small memory: an empty ACL of 64 bytes at 100 and the SID \<^verbatim>\<open>S-1-0-0\<close> at 10.\<close>

definition sample_mem :: mem where
  "sample_mem = (\<lambda>a. if a = 100 then 2 else if a = 102 then 64 else if a = 10 \<or> a = 11 then 1 else 0)"

lemma sample_acl:
  "acl_ok sample_mem 100" "sid_len sample_mem 10 = 12" "Sid_Revision sample_mem 10 = 1"
  "unat (AclSize sample_mem 100) = 64" "AceCount sample_mem 100 = 0" "RtlValidSid sample_mem 10"
  "acl_aces sample_mem 100 = []"
  by (simp_all add: acl_aces_def acl_ok_def RtlValidAcl_def AclRevision_def AclSize_def AceCount_def rd16_def ROUND_DOWN_def
      sid_len_def SubAuthorityCount_def Sid_Revision_def RtlValidSid_def sample_mem_def)

theorem RtlGetAce_valid_witness:
  "RtlGetAce sample_mem 100 0 = (STATUS_INVALID_PARAMETER, None) \<and> RtlFirstFreeAce sample_mem 100 = (True, 108)"
  using RtlGetAce_valid [of sample_mem 100 0] sample_acl(1) by (simp add: sample_acl acl_ok_def free_ace_def)

theorem RtlpAddKnownAce_appends_witness:
  "\<exists>m'. RtlpAddKnownAce sample_mem 100 2 0 0x1F01FF 10 0 = (STATUS_SUCCESS, m') \<and> acl_ok m' 100 \<and>
     length (acl_aces m' 100) = 1"
proof -
  have "RtlFirstFreeAce sample_mem 100 = (True, 108)"
    by (simp add: RtlFirstFreeAce_def sample_acl)
  then have "fst (RtlpAddKnownAce sample_mem 100 2 0 0x1F01FF 10 0) = STATUS_SUCCESS"
    using sample_acl
    by (simp add: RtlpAddKnownAce_def invalid_ace_flags_def acl_ok_def Let_def RtlLengthSid_def
        SubAuthorityCount_def AclRevision_def sample_mem_def)
  then obtain m' where r: "RtlpAddKnownAce sample_mem 100 2 0 0x1F01FF 10 0 = (STATUS_SUCCESS, m')"
    by (metis prod.collapse)
  have "apart 10 (sid_len sample_mem 10) 100 (unat (AclSize sample_mem 100))"
    by (simp add: apart_def sample_acl)
  from RtlpAddKnownAce_appends [OF sample_acl(1) r this] r show ?thesis
    by (simp add: sample_acl)
qed

end
