(* ===== verification/Rtl_Acl_Edit.thy ===== *)
theory Rtl_Acl_Edit
  imports Rtl_Acl_Lists
begin

text \<open>
  Deleting from, creating and inserting into an ACL: what \<^verbatim>\<open>RtlDeleteAce\<close>, \<^verbatim>\<open>RtlCreateAcl\<close> and \<^verbatim>\<open>RtlAddAce\<close> of
  \<^verbatim>\<open>sdk/lib/rtl/acl.c\<close> do to the list of ACEs, and where the checks of \<^verbatim>\<open>RtlValidAcl\<close> and \<^verbatim>\<open>RtlAddAce\<close>
  let a malformed ACE through.
\<close>

section \<open>Deleting an ACE\<close>

lemma RtlpDeleteData_bytes:
  assumes "0 < sz" "sz \<le> d" "d < 2 ^ 32"
  shows "RtlpDeleteData m P sz d x =
    (if P \<le> x \<and> x < P + d - sz then m (x + sz) else if P + d - sz \<le> x \<and> x < P + d then 0 else m x)"
proof -
  have "of_nat d - of_nat sz < (of_nat d :: ULONG)"
    using assms by (simp add: word_less_nat_alt unat_diff_of_nat_32 unat_of_nat_32)
  then show ?thesis
    using assms by (auto simp: RtlpDeleteData_def RtlZeroMemory_def RtlMoveMemory_def add.commute)
qed

lemma acl_end_small: "acl_end m Acl - Acl < 65536"
  using unat_less_8_16(2) [of "AclSize m Acl"] by (simp add: acl_end_def)

text \<open>Where an ACE of a valid ACL lies.\<close>

lemma ace_position:
  assumes "acl_ok m Acl" "i < unat (AceCount m Acl)"
  defines "P \<equiv> ace_ptr m (Acl + 8) i"
  defines "r \<equiv> unat (AceCount m Acl) - Suc i"
  shows "unat (AceCount m Acl) = i + Suc r" "4 \<le> ace_len m P" "sized_aces m (P + ace_len m P) r"
    and "sized_aces m (Acl + 8) i" "free_ace m Acl = ace_ptr m (P + ace_len m P) r"
    and "Acl + 8 \<le> P" "P + ace_len m P \<le> free_ace m Acl" "free_ace m Acl - P < 2 ^ 32"
proof -
  show n: "unat (AceCount m Acl) = i + Suc r" using assms(2) by (simp add: r_def)
  have valid: "RtlValidAcl m Acl" and "sized_aces m (Acl + 8) (i + Suc r)"
    using assms(1) n by (simp_all add: acl_ok_def)
  then show "4 \<le> ace_len m P" "sized_aces m (P + ace_len m P) r" "sized_aces m (Acl + 8) i"
    by (simp_all only: sized_aces_add sized_aces.simps P_def)
  show F: "free_ace m Acl = ace_ptr m (P + ace_len m P) r"
    by (simp only: free_ace_def n ace_ptr_add ace_ptr.simps P_def)
  show P: "Acl + 8 \<le> P" "P + ace_len m P \<le> free_ace m Acl" using ace_ptr_ge by (simp_all add: P_def F)
  show "free_ace m Acl - P < 2 ^ 32"
    using RtlFirstFreeAce_valid(2) [OF valid] acl_end_small [of m Acl] P by simp
qed

lemma RtlDeleteAce_memory:
  assumes ok: "acl_ok m Acl" and i: "unat i < unat (AceCount m Acl)"
  defines "P \<equiv> ace_ptr m (Acl + 8) (unat i)" and "F \<equiv> free_ace m Acl"
  obtains m' where "RtlDeleteAce m Acl i = (STATUS_SUCCESS, m')" "AceCount m' Acl = AceCount m Acl - 1"
    and "\<And>x. x \<noteq> Acl + 4 \<Longrightarrow> x \<noteq> Acl + 5 \<Longrightarrow>
      m' x = (if P \<le> x \<and> x < F - ace_len m P then m (x + ace_len m P)
              else if F - ace_len m P \<le> x \<and> x < F then 0 else m x)"
proof -
  define sz where "sz = ace_len m P"
  note pos = ace_position [OF ok i, folded P_def F_def sz_def]
  have valid: "RtlValidAcl m Acl" using ok by (simp add: acl_ok_def)
  define m1 where "m1 = RtlpDeleteData m P sz (F - P)"
  have m1: "m1 x = (if P \<le> x \<and> x < F - sz then m (x + sz) else if F - sz \<le> x \<and> x < F then 0 else m x)" for x
    using RtlpDeleteData_bytes [of sz "F - P" m P x] pos(2,6-8) by (simp add: m1_def)
  define m' where "m' = wr16 m1 (Acl + 4) (AceCount m Acl - 1)"
  have "m' x = m1 x" if "x \<noteq> Acl + 4" "x \<noteq> Acl + 5" for x using that by (simp add: m'_def wr16_apply)
  moreover have "AceCount m1 Acl = AceCount m Acl"
    unfolding AceCount_def using pos(6,7) by (intro rd16_cong) (auto simp: m1)
  then have "RtlDeleteAce m Acl i = (STATUS_SUCCESS, m')"
    using i valid RtlFirstFreeAce_valid(1) [OF valid]
    by (simp add: RtlDeleteAce_def word_le_nat_alt Let_def P_def [symmetric] sz_def [symmetric]
        F_def [symmetric] m1_def [symmetric] m'_def)
  moreover have "AceCount m' Acl = AceCount m Acl - 1" by (simp add: AceCount_def m'_def)
  ultimately show thesis using that m1 by (simp add: sz_def)
qed

text \<open>
  C15.  On a valid ACL \<^verbatim>\<open>RtlDeleteAce\<close> of an index below the ACE count removes exactly that ACE from the
  list, zeroes the freed bytes and leaves a valid ACL; any other index is refused.
\<close>

theorem RtlDeleteAce_correct:
  assumes ok: "acl_ok m Acl"
  shows "if unat i < unat (AceCount m Acl)
    then \<exists>m'. RtlDeleteAce m Acl i = (STATUS_SUCCESS, m') \<and> acl_ok m' Acl \<and>
      acl_aces m' Acl = take (unat i) (acl_aces m Acl) @ drop (Suc (unat i)) (acl_aces m Acl) \<and>
      (\<forall>x. x < Acl \<or> free_ace m Acl \<le> x \<longrightarrow> m' x = m x) \<and>
      (\<forall>x. free_ace m' Acl \<le> x \<and> x < free_ace m Acl \<longrightarrow> m' x = 0)
    else RtlDeleteAce m Acl i = (STATUS_INVALID_PARAMETER, m)"
proof (cases "unat i < unat (AceCount m Acl)")
  case False
  then show ?thesis using ok by (simp add: RtlDeleteAce_def acl_ok_def word_le_nat_alt)
next
  case True
  define P F where "P = ace_ptr m (Acl + 8) (unat i)" and "F = free_ace m Acl"
  define r where "r = unat (AceCount m Acl) - Suc (unat i)"
  define sz where "sz = ace_len m P"
  note pos = ace_position [OF ok True, folded P_def r_def F_def sz_def]
  obtain m' where del: "RtlDeleteAce m Acl i = (STATUS_SUCCESS, m')" and cnt: "AceCount m' Acl = AceCount m Acl - 1"
    and m': "\<And>x. x \<noteq> Acl + 4 \<Longrightarrow> x \<noteq> Acl + 5 \<Longrightarrow> m' x =
      (if P \<le> x \<and> x < F - sz then m (x + sz) else if F - sz \<le> x \<and> x < F then 0 else m x)"
    using RtlDeleteAce_memory [OF ok True, folded P_def F_def sz_def] by blast
  have cnt': "unat (AceCount m' Acl) = unat i + r"
    using True pos(1) unfolding cnt by (simp add: unat_sub_if')
  have "m' x = m x" if "x < Acl + 4" for x using that pos(6,7) by (auto simp: m')
  then have hdr: "AclSize m' Acl = AclSize m Acl" "AclRevision m' Acl = AclRevision m Acl"
    unfolding AclSize_def AclRevision_def by (auto intro!: rd16_cong)
  have same: "m' (Acl + 8 + j) = m (Acl + 8 + j)" if "Acl + 8 + j < ace_ptr m (Acl + 8) (unat i)" for j
    using that pos(7) by (auto simp: m' P_def)
  have moved: "m' (P + j) = m (P + sz + j)" if "P + sz + j < ace_ptr m (P + sz) r" for j
    using that pos(5-7) by (auto simp: m' algebra_simps less_diff_conv)
  note old = ace_list_shift [OF pos(4) same] and tail = ace_list_shift [OF pos(3) moved]
  have ptr: "ace_ptr m' (Acl + 8) (unat i) = P" using old by (simp add: P_def)
  have valid: "valid_aces m Acl (unat i) (Acl + 8)" "valid_aces m Acl r (P + sz)" and va: "RtlValidAcl m Acl"
    using RtlValidAcl_aces(1) [of m Acl] ok unfolding acl_ok_def pos(1) valid_aces_add
    by (auto simp: P_def [symmetric] sz_def split: if_splits)
  have "valid_aces m' Acl (unat i) (Acl + 8)"
    by (rule valid_aces_shift [OF valid(1) pos(4) same _ hdr(1)]) (simp_all add: hdr(2))
  moreover have "valid_aces m' Acl r P"
    by (rule valid_aces_shift [OF valid(2) pos(3) moved _ hdr(1)]) (simp_all add: hdr(2))
  ultimately have "RtlValidAcl m' Acl"
    using RtlValidAcl_aces(4) [OF va] ptr
    by (intro RtlValidAcl_intro [OF va hdr(1)]) (simp_all add: hdr(2) cnt' valid_aces_add)
  then have "acl_ok m' Acl" using old tail ptr by (simp add: acl_ok_def cnt' sized_aces_add)
  moreover have "acl_aces m' Acl = take (unat i) (acl_aces m Acl) @ drop (Suc (unat i)) (acl_aces m Acl)"
    unfolding acl_aces_def cnt' pos(1) ace_list_add ptr P_def [symmetric] using old tail by (simp add: sz_def)
  moreover have "free_ace m' Acl = F - sz"
    unfolding free_ace_def cnt' ace_ptr_add ptr pos(5) using tail by (auto intro!: add_implies_diff)
  moreover have "m' x = m x" if "x < Acl \<or> F \<le> x" for x using that pos(6,7) by (auto simp: m')
  moreover have "m' x = 0" if "F - sz \<le> x \<and> x < F" for x using that pos(6,7) by (auto simp: m')
  ultimately show ?thesis using True del by (simp add: F_def)
qed

theorem RtlDeleteAce_correct_witness:
  "RtlDeleteAce sample_mem 100 0 = (STATUS_INVALID_PARAMETER, sample_mem)"
  using RtlDeleteAce_correct [OF sample_acl(1), of 0] by (simp add: sample_acl)

section \<open>Creating an ACL\<close>

lemma unat_ROUND_DOWN_4: "unat (ROUND_DOWN x 4) = 4 * (unat x div 4)"
proof -
  have "ROUND_DOWN x 4 = push_bit 2 (drop_bit 2 x)"
  proof (rule bit_word_eqI)
    fix j assume "j < LENGTH(32)"
    moreover have "ROUND_DOWN x 4 = x AND NOT (mask 2)" by (simp add: ROUND_DOWN_def mask_eq_exp_minus_1)
    ultimately show "bit (ROUND_DOWN x 4) j = bit (push_bit 2 (drop_bit 2 x)) j"
      by (cases "j < 2")
         (auto simp: bit_and_iff bit_not_iff bit_mask_iff bit_push_bit_iff bit_drop_bit_eq not_less
           simp del: push_bit_of_1 dest!: le_Suc_ex)
  qed
  moreover have "4 * (unat x div 4) < 4294967296" using unat_32_less [of x] by simp
  ultimately show ?thesis
    by (simp add: drop_bit_eq_div push_bit_eq_mult unat_word_ariths unat_div mult.commute)
qed

text \<open>
  \<^verbatim>\<open>RtlCreateAcl\<close> with a revision from 2 to 4 and a size from 8 to 65532 makes a valid, empty ACL
  whose size is the given one rounded up to a multiple of four; for the sizes 65533 to 65535 it
  reports success too but the rounded size does not fit the field, which becomes 0, and the
  result is not a valid ACL.
\<close>

theorem RtlCreateAcl_correct:
  assumes "8 \<le> unat Size" "unat Size \<le> 0xFFFF" "2 \<le> unat Revision" "unat Revision \<le> 4"
  shows "\<exists>m'. RtlCreateAcl m Acl Size Revision = (STATUS_SUCCESS, m') \<and> acl_aces m' Acl = [] \<and>
    (if unat Size \<le> 65532
     then acl_ok m' Acl \<and> unat (AclSize m' Acl) = 4 * ((unat Size + 3) div 4)
     else AclSize m' Acl = 0 \<and> \<not> RtlValidAcl m' Acl)"
proof -
  define m' where "m' = wr16 (wr8 (wr16 (wr8 (wr16 m (Acl + 2) (ucast (ROUND_UP Size 4))) Acl (ucast Revision))
      (Acl + 4) 0) (Acl + 1) 0) (Acl + 6) 0"
  have r: "RtlCreateAcl m Acl Size Revision = (STATUS_SUCCESS, m')"
    using assms by (simp add: RtlCreateAcl_def Let_def m'_def word_less_nat_alt)
  have count: "AceCount m' Acl = 0" and rev: "AclRevision m' Acl = ucast Revision"
    by (simp_all add: m'_def AceCount_def AclRevision_def rd16_def wr16_apply wr8_apply)
  have "AclSize m' Acl = rd16 (wr16 m (Acl + 2) (ucast (ROUND_UP Size 4))) (Acl + 2)"
    unfolding AclSize_def by (rule rd16_cong) (simp_all add: m'_def wr16_apply wr8_apply)
  then have size: "AclSize m' Acl = ucast (ROUND_UP Size 4)" by simp
  have "unat (3 + Size) = unat Size + 3" using assms(2) by (simp add: unat_word_ariths)
  then have up: "unat (ROUND_UP Size 4) = 4 * ((unat Size + 3) div 4)"
    by (simp add: ROUND_UP_def unat_ROUND_DOWN_4)
  show ?thesis
  proof (cases "unat Size \<le> 65532")
    case True
    then have *: "unat (AclSize m' Acl) = 4 * ((unat Size + 3) div 4)"
      unfolding size using up by (subst unat_ucast_down(2)) simp_all
    have "unat (ucast (AclSize m' Acl) :: ULONG) mod 4 = 0" using * by simp
    then have "RtlValidAcl m' Acl"
      using assms(1,3,4) * count rev
      by (simp add: RtlValidAcl_def ROUND_DOWN_multiple word_less_nat_alt unat_ucast_down(1))
    then show ?thesis using True r * count by (simp add: acl_ok_def acl_aces_def)
  next
    case False
    then have "unat (ROUND_UP Size 4) = 65536" using up assms(2) by simp
    then have "AclSize m' Acl = 0"
      unfolding size by (simp add: word_unat_eq_iff unsigned_ucast_eq take_bit_eq_mod)
    then show ?thesis using False r count by (simp add: acl_aces_def RtlValidAcl_def)
  qed
qed

theorem RtlCreateAcl_correct_witness:
  "\<exists>m'. RtlCreateAcl sample_mem 500 0x100 2 = (STATUS_SUCCESS, m') \<and> acl_ok m' 500 \<and> acl_aces m' 500 = []"
  using RtlCreateAcl_correct [of "0x100" 2 sample_mem 500] by auto

section \<open>Inserting ACEs\<close>

fun revisions_ok :: "mem \<Rightarrow> ULONG \<Rightarrow> nat \<Rightarrow> nat \<Rightarrow> bool" where
  "revisions_ok m Revision p 0 = True"
| "revisions_ok m Revision p (Suc k) =
     (\<not> (AceType m p \<le> 8 \<and> AceType m p > 4 \<and> Revision < 4) \<and>
      \<not> (AceType m p \<le> 4 \<and> AceType m p > 3 \<and> Revision < 3) \<and>
      revisions_ok m Revision (p + ace_len m p) k)"

lemma add_ace_scan_list:
  assumes "sized_aces m p k" "revisions_ok m Revision p k"
  shows "add_ace_scan m (ace_ptr m p k) Revision p c = Some (Inr (ace_ptr m p k, c + of_nat k))"
  using assms
proof (induction m p k arbitrary: c rule: ace_list.induct)
  case (1 m p)
  then show ?case by (subst add_ace_scan.simps) simp
next
  case (2 m p k)
  have "p < ace_ptr m (p + ace_len m p) k" using 2(2) ace_ptr_ge [of "p + ace_len m p" m k] by simp
  with 2 show ?case by (subst add_ace_scan.simps) (auto simp: algebra_simps)
qed

lemma RtlpAddData_bytes:
  "RtlpAddData m src n P d x =
    (if P \<le> x \<and> x < P + n then
       (if P + n \<le> src + (x - P) \<and> src + (x - P) < P + n + d then m (src + (x - P) - n) else m (src + (x - P)))
     else if P + n \<le> x \<and> x < P + n + d then m (x - n) else m x)"
  by (auto simp: RtlpAddData_def RtlMoveMemory_def Let_def)

lemma RtlAddAce_memory:
  assumes ok: "acl_ok m Acl" and new: "sized_aces m AceList k" "revisions_ok m Revision AceList k"
    and len: "ace_ptr m AceList k = AceList + unat Len" and ap: "apart AceList (unat Len) Acl (unat (AclSize m Acl))"
    and room: "free_ace m Acl + unat Len \<le> acl_end m Acl"
    and F: "F = free_ace m Acl" and P: "P = ace_ptr m (Acl + 8) (min (unat Index) (unat (AceCount m Acl)))"
  obtains m' where "RtlAddAce m Acl Revision Index AceList Len = Some (STATUS_SUCCESS, m')"
    and "AceCount m' Acl = AceCount m Acl + of_nat k"
    and "\<And>x. x \<noteq> Acl \<Longrightarrow> x \<noteq> Acl + 4 \<Longrightarrow> x \<noteq> Acl + 5 \<Longrightarrow>
      m' x = (if P \<le> x \<and> x < P + unat Len then m (AceList + (x - P))
              else if P + unat Len \<le> x \<and> x < F + unat Len then m (x - unat Len) else m x)"
proof -
  have valid: "RtlValidAcl m Acl" using ok by (simp add: acl_ok_def)
  note f = RtlFirstFreeAce_valid [OF valid, folded F]
  have PF: "Acl + 8 \<le> P" "P \<le> F" using ace_ptr_ge by (auto simp: P F free_ace_def intro!: ace_ptr_mono)
  define m1 where "m1 = RtlpAddData m AceList (unat Len) P (F - P)"
  have m1: "m1 x = (if P \<le> x \<and> x < P + unat Len then m (AceList + (x - P))
              else if P + unat Len \<le> x \<and> x < F + unat Len then m (x - unat Len) else m x)" for x
    using PF ap room by (auto simp: m1_def RtlpAddData_bytes apart_def acl_end_def F)
  have count: "AceCount m1 Acl = AceCount m Acl"
    unfolding AceCount_def using PF by (intro rd16_cong) (auto simp: m1)
  define m2 where "m2 = wr16 m1 (Acl + 4) (AceCount m Acl + of_nat k)"
  define m' where "m' = wr8 m2 Acl (ucast (min (ucast (AclRevision m2 Acl)) Revision))"
  have "add_ace_scan m (AceList + unat Len) Revision AceList 0 = Some (Inr (AceList + unat Len, of_nat k))"
    using add_ace_scan_list [OF new, of 0] by (simp add: len)
  then have "RtlAddAce m Acl Revision Index AceList Len = Some (STATUS_SUCCESS, m')"
    using valid f room [folded F] PF
    by (simp add: RtlAddAce_def Let_def P [symmetric] m1_def [symmetric] count m2_def [symmetric] m'_def acl_end_def)
  moreover have "AceCount m' Acl = rd16 m2 (Acl + 4)"
    unfolding AceCount_def by (rule rd16_cong) (simp_all add: m'_def wr8_apply)
  then have "AceCount m' Acl = AceCount m Acl + of_nat k" by (simp add: m2_def)
  moreover have "m' x = m1 x" if "x \<noteq> Acl" "x \<noteq> Acl + 4" "x \<noteq> Acl + 5" for x
    using that by (simp add: m'_def m2_def wr8_apply wr16_apply)
  ultimately show thesis using that m1 by simp
qed



lemma inserted_acl:
  "acl_ok (sample_mem(202 := 20)) 100" "AceSize (sample_mem(202 := 20)) 200 = 20" "AceType (sample_mem(202 := 20)) 200 = 0"
  "unat (AclSize (sample_mem(202 := 20)) 100) = 64" "AceCount (sample_mem(202 := 20)) 100 = 0"
  by (simp_all add: acl_ok_def RtlValidAcl_def AclRevision_def AclSize_def AceCount_def rd16_def ROUND_DOWN_def
      sample_mem_def AceSize_def AceType_def)


lemma add_ace_scan_stuck:
  assumes "add_ace_scan m ListEnd Revision p c = Some y"
  shows "\<not> (p < ListEnd \<and> AceSize m p = 0 \<and> revisions_ok m Revision p 1)"
proof (rule add_ace_scan.raw_induct [OF _ assms], goal_cases)
  case (1 f m ListEnd Revision p c y)
  show ?case
  proof
    assume s: "p < ListEnd \<and> AceSize m p = 0 \<and> revisions_ok m Revision p 1"
    then have "f m ListEnd Revision p (c + 1) = Some y" using 1(2) by (simp split: if_splits)
    from 1(1) [OF this] s show False by blast
  qed
qed

text \<open>
  \<^verbatim>\<open>RtlAddAce\<close> trusts the size field of the ACEs it is given: on a valid ACL, a list whose first ACE
  claims the size 0 and passes the revision check makes the scan of the list run forever.
\<close>

theorem RtlAddAce_diverges:
  assumes "RtlValidAcl m Acl" "AceSize m AceList = 0" "0 < unat Len" "revisions_ok m Revision AceList 1"
  shows "RtlAddAce m Acl Revision Index AceList Len = None"
proof -
  have "add_ace_scan m (AceList + unat Len) Revision AceList 0 \<noteq> Some y" for y
    using add_ace_scan_stuck [of m "AceList + unat Len" Revision AceList 0 y] assms(2-4) by auto
  then have "add_ace_scan m (AceList + unat Len) Revision AceList 0 = None" by (meson not_Some_eq)
  then show ?thesis using assms(1) RtlFirstFreeAce_valid(1) [OF assms(1)] by (simp add: RtlAddAce_def)
qed


theorem RtlAddAce_diverges_witness: "RtlAddAce sample_mem 100 2 0 200 20 = None"
  using RtlAddAce_diverges [of sample_mem 100 200 20 2 0] sample_acl(1)
  by (simp add: acl_ok_def sample_mem_def AceSize_def AceType_def rd16_def)

section \<open>What a valid ACL does not promise\<close>

text \<open>An ACL of 20 bytes at 100 with one ACE of 12 bytes, whose SID of no sub-authorities starts at its byte 8.\<close>

definition overhang_mem :: mem where
  "overhang_mem = (\<lambda>a. if a = 100 then 2 else if a = 102 then 20 else if a = 104 then 1
     else if a = 110 then 12 else if a = 116 then 1 else 0)"

lemma overhang_acl:
  "AclRevision overhang_mem 100 = 2" "AclSize overhang_mem 100 = 20" "AceCount overhang_mem 100 = 1"
  "AceType overhang_mem 108 = 0" "AceSize overhang_mem 108 = 12" "Sid_Revision overhang_mem 116 = 1"
  "SubAuthorityCount overhang_mem 116 = 0"
  by (simp_all add: AclRevision_def AclSize_def AceCount_def AceType_def AceSize_def Sid_Revision_def
      SubAuthorityCount_def rd16_def overhang_mem_def)

lemma overhang_valid: "RtlValidAcl overhang_mem 100"
proof -
  have "valid_known_ace overhang_mem 108"
    by (simp add: valid_known_ace_alt overhang_acl ROUND_DOWN_def sid_len_def)
  then have "valid_ace overhang_mem 100 108" by (simp add: valid_ace_def overhang_acl ROUND_DOWN_def)
  then have "valid_aces overhang_mem 100 (Suc 0) 108" by simp
  then show ?thesis by (simp add: RtlValidAcl_def overhang_acl ROUND_DOWN_def)
qed

text \<open>
  The size check of \<^verbatim>\<open>RtlValidAcl\<close> for a plain ACE leaves out the four bytes of the access mask: in a
  valid ACL the SID of a plain ACE ends at most four bytes after the ACE, and this bound is met.
  There is an ACL that \<^verbatim>\<open>RtlValidAcl\<close> accepts although its only SID ends four bytes after the ACL.
\<close>

theorem RtlValidAcl_sid_overhang:
  assumes "RtlValidAcl m Acl" "i < unat (AceCount m Acl)" "p = ace_ptr m (Acl + 8) i"
    and "AceType m p \<le> ACCESS_MAX_MS_V2_ACE_TYPE"
  shows "(p + 8 + sid_len m (p + 8) \<le> p + ace_len m p + 4 \<and> p + 8 + sid_len m (p + 8) \<le> acl_end m Acl + 4) \<and>
    RtlValidAcl overhang_mem 100 \<and> 108 + 8 + sid_len overhang_mem 116 = acl_end overhang_mem 100 + 4"
proof -
  have "valid_ace m Acl p"
    using RtlValidAcl_aces(1) [OF assms(1)] le_add_diff_inverse [of "Suc i" "unat (AceCount m Acl)"] assms(2,3)
      valid_aces_add [of m Acl i "Suc (unat (AceCount m Acl) - Suc i)" "Acl + 8"]
    by (simp split: if_splits)
  then have "valid_known_ace m p" "p + ace_len m p \<le> acl_end m Acl"
    using assms(4) valid_ace_bounds by (auto simp: valid_ace_def split: if_splits)
  then have "p + 8 + sid_len m (p + 8) \<le> p + ace_len m p + 4 \<and> p + 8 + sid_len m (p + 8) \<le> acl_end m Acl + 4"
    by (simp add: valid_known_ace_alt)
  then show ?thesis using overhang_valid by (simp add: acl_end_def overhang_acl sid_len_def)
qed

theorem RtlValidAcl_sid_overhang_witness:
  "108 + 8 + sid_len overhang_mem (108 + 8) \<le> 108 + ace_len overhang_mem 108 + 4"
  using RtlValidAcl_sid_overhang [OF overhang_valid, of 0 108] by (simp add: overhang_acl)

end
