(* ===== verification/Rtl_Sd.thy ===== *)
theory Rtl_Sd
  imports Rtl_Acl_Lists
begin

text \<open>
  Security descriptors, \<^verbatim>\<open>sdk/lib/rtl/sd.c\<close> and the inline helpers of
  \<^verbatim>\<open>ntoskrnl/include/internal/se.h\<close>, on the byte memory of \<^verbatim>\<open>Ros_Memory\<close>.  The layout is the one of a
  32-bit build: both forms of the descriptor have 20 bytes, and the four fields from offset 4
  hold pointers in the absolute form and offsets from the descriptor in the self-relative form.
  An output argument that the code leaves alone on some path is an option value.
\<close>

section \<open>Layout\<close>

abbreviation (input) SECURITY_DESCRIPTOR_REVISION :: UCHAR where "SECURITY_DESCRIPTOR_REVISION \<equiv> 1"
abbreviation (input) SE_OWNER_DEFAULTED :: USHORT where "SE_OWNER_DEFAULTED \<equiv> 0x0001"
abbreviation (input) SE_GROUP_DEFAULTED :: USHORT where "SE_GROUP_DEFAULTED \<equiv> 0x0002"
abbreviation (input) SE_DACL_PRESENT :: USHORT where "SE_DACL_PRESENT \<equiv> 0x0004"
abbreviation (input) SE_DACL_DEFAULTED :: USHORT where "SE_DACL_DEFAULTED \<equiv> 0x0008"
abbreviation (input) SE_SACL_PRESENT :: USHORT where "SE_SACL_PRESENT \<equiv> 0x0010"
abbreviation (input) SE_SACL_DEFAULTED :: USHORT where "SE_SACL_DEFAULTED \<equiv> 0x0020"
abbreviation (input) SE_RM_CONTROL_VALID :: USHORT where "SE_RM_CONTROL_VALID \<equiv> 0x4000"
abbreviation (input) SE_SELF_RELATIVE :: USHORT where "SE_SELF_RELATIVE \<equiv> 0x8000"
abbreviation (input) STATUS_BAD_DESCRIPTOR_FORMAT :: NTSTATUS where "STATUS_BAD_DESCRIPTOR_FORMAT \<equiv> 0xC00000E7"
abbreviation (input) STATUS_INVALID_PARAMETER_1 :: NTSTATUS where "STATUS_INVALID_PARAMETER_1 \<equiv> 0xC00000EF"
abbreviation (input) STATUS_INVALID_PARAMETER_2 :: NTSTATUS where "STATUS_INVALID_PARAMETER_2 \<equiv> 0xC00000F0"
abbreviation (input) OWNER_SECURITY_INFORMATION :: ULONG where "OWNER_SECURITY_INFORMATION \<equiv> 1"
abbreviation (input) GROUP_SECURITY_INFORMATION :: ULONG where "GROUP_SECURITY_INFORMATION \<equiv> 2"

text \<open>The control bits that are attributes, as \<^verbatim>\<open>RtlSetControlSecurityDescriptor\<close> lists them (0x40 to 0x2000).\<close>

abbreviation (input) SD_ATTRIBUTES :: USHORT where "SD_ATTRIBUTES \<equiv> 0x3FC0"

definition Sd_Revision :: "mem \<Rightarrow> nat \<Rightarrow> UCHAR" where "Sd_Revision m Sd = m Sd"
definition Sd_Sbz1 :: "mem \<Rightarrow> nat \<Rightarrow> UCHAR" where "Sd_Sbz1 m Sd = m (Sd + 1)"
definition Sd_Control :: "mem \<Rightarrow> nat \<Rightarrow> USHORT" where "Sd_Control m Sd = rd16 m (Sd + 2)"
definition Sd_Owner :: "mem \<Rightarrow> nat \<Rightarrow> ULONG" where "Sd_Owner m Sd = rd32 m (Sd + 4)"
definition Sd_Group :: "mem \<Rightarrow> nat \<Rightarrow> ULONG" where "Sd_Group m Sd = rd32 m (Sd + 8)"
definition Sd_Sacl :: "mem \<Rightarrow> nat \<Rightarrow> ULONG" where "Sd_Sacl m Sd = rd32 m (Sd + 12)"
definition Sd_Dacl :: "mem \<Rightarrow> nat \<Rightarrow> ULONG" where "Sd_Dacl m Sd = rd32 m (Sd + 16)"

section \<open>The components of a descriptor\<close>

definition SepGetGroupFromDescriptor :: "mem \<Rightarrow> nat \<Rightarrow> nat" where
  "SepGetGroupFromDescriptor m Sd =
     (if Sd_Control m Sd AND SE_SELF_RELATIVE \<noteq> 0
      then if Sd_Group m Sd = 0 then 0 else Sd + unat (Sd_Group m Sd)
      else unat (Sd_Group m Sd))"

definition SepGetOwnerFromDescriptor :: "mem \<Rightarrow> nat \<Rightarrow> nat" where
  "SepGetOwnerFromDescriptor m Sd =
     (if Sd_Control m Sd AND SE_SELF_RELATIVE \<noteq> 0
      then if Sd_Owner m Sd = 0 then 0 else Sd + unat (Sd_Owner m Sd)
      else unat (Sd_Owner m Sd))"

definition SepGetDaclFromDescriptor :: "mem \<Rightarrow> nat \<Rightarrow> nat" where
  "SepGetDaclFromDescriptor m Sd =
     (if Sd_Control m Sd AND SE_DACL_PRESENT = 0 then 0
      else if Sd_Control m Sd AND SE_SELF_RELATIVE \<noteq> 0
      then if Sd_Dacl m Sd = 0 then 0 else Sd + unat (Sd_Dacl m Sd)
      else unat (Sd_Dacl m Sd))"

definition SepGetSaclFromDescriptor :: "mem \<Rightarrow> nat \<Rightarrow> nat" where
  "SepGetSaclFromDescriptor m Sd =
     (if Sd_Control m Sd AND SE_SACL_PRESENT = 0 then 0
      else if Sd_Control m Sd AND SE_SELF_RELATIVE \<noteq> 0
      then if Sd_Sacl m Sd = 0 then 0 else Sd + unat (Sd_Sacl m Sd)
      else unat (Sd_Sacl m Sd))"

definition RtlpValidateSDOffsetAndSize :: "ULONG \<Rightarrow> ULONG \<Rightarrow> ULONG \<Rightarrow> bool \<times> ULONG" where
  "RtlpValidateSDOffsetAndSize Offset Length MinLength =
     (if Offset < 20 then (False, 0)
      else if Offset \<ge> Length then (False, 0)
      else if Length - Offset < MinLength then (False, 0)
      else if ROUND_DOWN Offset 4 \<noteq> Offset then (False, 0)
      else (True, Length - Offset))"

text \<open>The sizes of the components, rounded up, for \<^verbatim>\<open>RtlpQuerySecurityDescriptor\<close>; a missing component has size 0.\<close>

definition sid_size :: "mem \<Rightarrow> nat \<Rightarrow> ULONG" where
  "sid_size m Sid = (if Sid \<noteq> 0 then ROUND_UP (RtlLengthSid m Sid) 4 else 0)"

definition acl_size :: "mem \<Rightarrow> nat \<Rightarrow> ULONG" where
  "acl_size m Acl = (if Acl \<noteq> 0 then ROUND_UP (ucast (AclSize m Acl)) 4 else 0)"

record SD_PARTS =
  pOwner :: nat
  OwnerSize :: ULONG
  pGroup :: nat
  GroupSize :: ULONG
  pDacl :: nat
  DaclSize :: ULONG
  pSacl :: nat
  SaclSize :: ULONG

definition RtlpQuerySecurityDescriptor :: "mem \<Rightarrow> nat \<Rightarrow> SD_PARTS" where
  "RtlpQuerySecurityDescriptor m Sd =
     (let Owner = SepGetOwnerFromDescriptor m Sd;
          PrimaryGroup = SepGetGroupFromDescriptor m Sd;
          Dacl = SepGetDaclFromDescriptor m Sd;
          Sacl = SepGetSaclFromDescriptor m Sd
      in \<lparr>pOwner = Owner, OwnerSize = sid_size m Owner, pGroup = PrimaryGroup, GroupSize = sid_size m PrimaryGroup,
          pDacl = Dacl, DaclSize = acl_size m Dacl, pSacl = Sacl, SaclSize = acl_size m Sacl\<rparr>)"

section \<open>Creating, reading and writing\<close>

definition RtlCreateSecurityDescriptor :: "mem \<Rightarrow> nat \<Rightarrow> ULONG \<Rightarrow> NTSTATUS \<times> mem" where
  "RtlCreateSecurityDescriptor m Sd Revision =
     (if Revision \<noteq> ucast SECURITY_DESCRIPTOR_REVISION then (STATUS_UNKNOWN_REVISION, m)
      else (STATUS_SUCCESS, wr8 (RtlZeroMemory m Sd 20) Sd SECURITY_DESCRIPTOR_REVISION))"

definition RtlCreateSecurityDescriptorRelative :: "mem \<Rightarrow> nat \<Rightarrow> ULONG \<Rightarrow> NTSTATUS \<times> mem" where
  "RtlCreateSecurityDescriptorRelative m Sd Revision =
     (if Revision \<noteq> ucast SECURITY_DESCRIPTOR_REVISION then (STATUS_UNKNOWN_REVISION, m)
      else (STATUS_SUCCESS, wr16 (wr8 (RtlZeroMemory m Sd 20) Sd SECURITY_DESCRIPTOR_REVISION) (Sd + 2) SE_SELF_RELATIVE))"

definition RtlLengthSecurityDescriptor :: "mem \<Rightarrow> nat \<Rightarrow> ULONG" where
  "RtlLengthSecurityDescriptor m Sd =
     (let Length = 20;
          Length = Length + sid_size m (SepGetOwnerFromDescriptor m Sd);
          Length = Length + sid_size m (SepGetGroupFromDescriptor m Sd);
          Length = Length + acl_size m (SepGetDaclFromDescriptor m Sd);
          Length = Length + acl_size m (SepGetSaclFromDescriptor m Sd)
      in Length)"

definition RtlGetDaclSecurityDescriptor :: "mem \<Rightarrow> nat \<Rightarrow> NTSTATUS \<times> (bool \<times> (nat \<times> bool) option) option" where
  "RtlGetDaclSecurityDescriptor m Sd =
     (if Sd_Revision m Sd \<noteq> SECURITY_DESCRIPTOR_REVISION then (STATUS_UNKNOWN_REVISION, None)
      else if Sd_Control m Sd AND SE_DACL_PRESENT = SE_DACL_PRESENT
      then (STATUS_SUCCESS, Some (True, Some (SepGetDaclFromDescriptor m Sd,
              Sd_Control m Sd AND SE_DACL_DEFAULTED = SE_DACL_DEFAULTED)))
      else (STATUS_SUCCESS, Some (False, None)))"

definition RtlGetSaclSecurityDescriptor :: "mem \<Rightarrow> nat \<Rightarrow> NTSTATUS \<times> (bool \<times> (nat \<times> bool) option) option" where
  "RtlGetSaclSecurityDescriptor m Sd =
     (if Sd_Revision m Sd \<noteq> SECURITY_DESCRIPTOR_REVISION then (STATUS_UNKNOWN_REVISION, None)
      else if Sd_Control m Sd AND SE_SACL_PRESENT = SE_SACL_PRESENT
      then (STATUS_SUCCESS, Some (True, Some (SepGetSaclFromDescriptor m Sd,
              Sd_Control m Sd AND SE_SACL_DEFAULTED = SE_SACL_DEFAULTED)))
      else (STATUS_SUCCESS, Some (False, None)))"

definition RtlGetOwnerSecurityDescriptor :: "mem \<Rightarrow> nat \<Rightarrow> NTSTATUS \<times> (nat \<times> bool) option" where
  "RtlGetOwnerSecurityDescriptor m Sd =
     (if Sd_Revision m Sd \<noteq> SECURITY_DESCRIPTOR_REVISION then (STATUS_UNKNOWN_REVISION, None)
      else (STATUS_SUCCESS, Some (SepGetOwnerFromDescriptor m Sd,
              Sd_Control m Sd AND SE_OWNER_DEFAULTED = SE_OWNER_DEFAULTED)))"

definition RtlGetGroupSecurityDescriptor :: "mem \<Rightarrow> nat \<Rightarrow> NTSTATUS \<times> (nat \<times> bool) option" where
  "RtlGetGroupSecurityDescriptor m Sd =
     (if Sd_Revision m Sd \<noteq> SECURITY_DESCRIPTOR_REVISION then (STATUS_UNKNOWN_REVISION, None)
      else (STATUS_SUCCESS, Some (SepGetGroupFromDescriptor m Sd,
              Sd_Control m Sd AND SE_GROUP_DEFAULTED = SE_GROUP_DEFAULTED)))"

text \<open>The update of the control field by the setters: clear one flag, then set it when asked to.\<close>

definition set_defaulted :: "mem \<Rightarrow> nat \<Rightarrow> USHORT \<Rightarrow> bool \<Rightarrow> mem" where
  "set_defaulted m Sd Flag Defaulted =
     (let m = wr16 m (Sd + 2) (Sd_Control m Sd AND NOT Flag)
      in if Defaulted then wr16 m (Sd + 2) (Sd_Control m Sd OR Flag) else m)"

definition RtlSetDaclSecurityDescriptor :: "mem \<Rightarrow> nat \<Rightarrow> bool \<Rightarrow> nat \<Rightarrow> bool \<Rightarrow> NTSTATUS \<times> mem" where
  "RtlSetDaclSecurityDescriptor m Sd DaclPresent Dacl DaclDefaulted =
     (if Sd_Revision m Sd \<noteq> SECURITY_DESCRIPTOR_REVISION then (STATUS_UNKNOWN_REVISION, m)
      else if Sd_Control m Sd AND SE_SELF_RELATIVE \<noteq> 0 then (STATUS_INVALID_SECURITY_DESCR, m)
      else if \<not> DaclPresent then (STATUS_SUCCESS, wr16 m (Sd + 2) (Sd_Control m Sd AND NOT SE_DACL_PRESENT))
      else
        let m = wr32 m (Sd + 16) (of_nat Dacl);
            m = wr16 m (Sd + 2) (Sd_Control m Sd OR SE_DACL_PRESENT)
        in (STATUS_SUCCESS, set_defaulted m Sd SE_DACL_DEFAULTED DaclDefaulted))"

definition RtlSetSaclSecurityDescriptor :: "mem \<Rightarrow> nat \<Rightarrow> bool \<Rightarrow> nat \<Rightarrow> bool \<Rightarrow> NTSTATUS \<times> mem" where
  "RtlSetSaclSecurityDescriptor m Sd SaclPresent Sacl SaclDefaulted =
     (if Sd_Revision m Sd \<noteq> SECURITY_DESCRIPTOR_REVISION then (STATUS_UNKNOWN_REVISION, m)
      else if Sd_Control m Sd AND SE_SELF_RELATIVE \<noteq> 0 then (STATUS_INVALID_SECURITY_DESCR, m)
      else if \<not> SaclPresent then (STATUS_SUCCESS, wr16 m (Sd + 2) (Sd_Control m Sd AND NOT SE_SACL_PRESENT))
      else
        let m = wr32 m (Sd + 12) (of_nat Sacl);
            m = wr16 m (Sd + 2) (Sd_Control m Sd OR SE_SACL_PRESENT)
        in (STATUS_SUCCESS, set_defaulted m Sd SE_SACL_DEFAULTED SaclDefaulted))"

definition RtlSetOwnerSecurityDescriptor :: "mem \<Rightarrow> nat \<Rightarrow> nat \<Rightarrow> bool \<Rightarrow> NTSTATUS \<times> mem" where
  "RtlSetOwnerSecurityDescriptor m Sd Owner OwnerDefaulted =
     (if Sd_Revision m Sd \<noteq> SECURITY_DESCRIPTOR_REVISION then (STATUS_UNKNOWN_REVISION, m)
      else if Sd_Control m Sd AND SE_SELF_RELATIVE \<noteq> 0 then (STATUS_INVALID_SECURITY_DESCR, m)
      else (STATUS_SUCCESS, set_defaulted (wr32 m (Sd + 4) (of_nat Owner)) Sd SE_OWNER_DEFAULTED OwnerDefaulted))"

definition RtlSetGroupSecurityDescriptor :: "mem \<Rightarrow> nat \<Rightarrow> nat \<Rightarrow> bool \<Rightarrow> NTSTATUS \<times> mem" where
  "RtlSetGroupSecurityDescriptor m Sd Group GroupDefaulted =
     (if Sd_Revision m Sd \<noteq> SECURITY_DESCRIPTOR_REVISION then (STATUS_UNKNOWN_REVISION, m)
      else if Sd_Control m Sd AND SE_SELF_RELATIVE \<noteq> 0 then (STATUS_INVALID_SECURITY_DESCR, m)
      else (STATUS_SUCCESS, set_defaulted (wr32 m (Sd + 8) (of_nat Group)) Sd SE_GROUP_DEFAULTED GroupDefaulted))"

definition RtlGetControlSecurityDescriptor :: "mem \<Rightarrow> nat \<Rightarrow> NTSTATUS \<times> USHORT option \<times> ULONG" where
  "RtlGetControlSecurityDescriptor m Sd =
     (if Sd_Revision m Sd \<noteq> SECURITY_DESCRIPTOR_REVISION then (STATUS_UNKNOWN_REVISION, None, ucast (Sd_Revision m Sd))
      else (STATUS_SUCCESS, Some (Sd_Control m Sd), ucast (Sd_Revision m Sd)))"

definition RtlSetControlSecurityDescriptor :: "mem \<Rightarrow> nat \<Rightarrow> USHORT \<Rightarrow> USHORT \<Rightarrow> NTSTATUS \<times> mem" where
  "RtlSetControlSecurityDescriptor m Sd ControlBitsOfInterest ControlBitsToSet =
     (if ControlBitsOfInterest AND NOT SD_ATTRIBUTES \<noteq> 0 \<or> ControlBitsToSet AND NOT ControlBitsOfInterest \<noteq> 0
      then (STATUS_INVALID_PARAMETER, m)
      else
        let m = wr16 m (Sd + 2) (Sd_Control m Sd AND NOT ControlBitsOfInterest);
            m = wr16 m (Sd + 2) (Sd_Control m Sd OR (ControlBitsToSet AND ControlBitsOfInterest))
        in (STATUS_SUCCESS, m))"

definition RtlGetSecurityDescriptorRMControl :: "mem \<Rightarrow> nat \<Rightarrow> bool \<times> UCHAR" where
  "RtlGetSecurityDescriptorRMControl m Sd =
     (if Sd_Control m Sd AND SE_RM_CONTROL_VALID = 0 then (False, 0) else (True, Sd_Sbz1 m Sd))"

definition RtlSetSecurityDescriptorRMControl :: "mem \<Rightarrow> nat \<Rightarrow> UCHAR option \<Rightarrow> mem" where
  "RtlSetSecurityDescriptorRMControl m Sd RMControl =
     (case RMControl of
        None \<Rightarrow> wr8 (wr16 m (Sd + 2) (Sd_Control m Sd AND NOT SE_RM_CONTROL_VALID)) (Sd + 1) 0
      | Some c \<Rightarrow> wr8 (wr16 m (Sd + 2) (Sd_Control m Sd OR SE_RM_CONTROL_VALID)) (Sd + 1) c)"

definition RtlSetAttributesSecurityDescriptor :: "mem \<Rightarrow> nat \<Rightarrow> USHORT \<Rightarrow> NTSTATUS \<times> mem \<times> ULONG" where
  "RtlSetAttributesSecurityDescriptor m Sd Control =
     (if Sd_Revision m Sd \<noteq> SECURITY_DESCRIPTOR_REVISION then (STATUS_UNKNOWN_REVISION, m, ucast (Sd_Revision m Sd))
      else
        let Control = Control AND SD_ATTRIBUTES
        in case RtlSetControlSecurityDescriptor m Sd Control Control of
             (Status, m') \<Rightarrow> (Status, m', ucast (Sd_Revision m Sd)))"

section \<open>Copying and converting\<close>

text \<open>\<open>NewSd\<close> is the block that the heap returns, 0 when it has none.\<close>

definition RtlCopySecurityDescriptor :: "mem \<Rightarrow> nat \<Rightarrow> nat \<Rightarrow> NTSTATUS \<times> mem \<times> nat" where
  "RtlCopySecurityDescriptor m Sd NewSd =
     (let q = RtlpQuerySecurityDescriptor m Sd;
          TotalLength = 20 + OwnerSize q + GroupSize q + DaclSize q + SaclSize q
      in if NewSd = 0 then (STATUS_NO_MEMORY, m, NewSd)
         else (STATUS_SUCCESS, RtlCopyMemory m NewSd Sd (unat TotalLength), NewSd))"

definition put_component :: "nat \<Rightarrow> nat \<Rightarrow> nat \<Rightarrow> ULONG \<Rightarrow> mem \<times> nat \<Rightarrow> mem \<times> nat" where
  "put_component RelSd Offset Source Length st =
     (case st of (m, Current) \<Rightarrow>
        if Length \<noteq> 0
        then (wr32 (RtlCopyMemory m Current Source (unat Length)) (RelSd + Offset) (of_nat (Current - RelSd)),
              Current + unat Length)
        else (m, Current))"

definition RtlMakeSelfRelativeSD :: "mem \<Rightarrow> nat \<Rightarrow> nat \<Rightarrow> ULONG \<Rightarrow> NTSTATUS \<times> mem \<times> ULONG" where
  "RtlMakeSelfRelativeSD m Sd RelSd BufferLength =
     (let q = RtlpQuerySecurityDescriptor m Sd;
          TotalLength = 20 + OwnerSize q + GroupSize q + SaclSize q + DaclSize q
      in if BufferLength < TotalLength then (STATUS_BUFFER_TOO_SMALL, m, TotalLength)
         else
           let m = RtlZeroMemory m RelSd (unat TotalLength);
               m = RtlCopyMemory m RelSd Sd 4;
               st = (m, RelSd + 20);
               st = put_component RelSd 12 (pSacl q) (SaclSize q) st;
               st = put_component RelSd 16 (pDacl q) (DaclSize q) st;
               st = put_component RelSd 4 (pOwner q) (OwnerSize q) st;
               st = put_component RelSd 8 (pGroup q) (GroupSize q) st;
               m = fst st;
               m = wr16 m (RelSd + 2) (Sd_Control m RelSd OR SE_SELF_RELATIVE)
           in (STATUS_SUCCESS, m, BufferLength))"

definition RtlAbsoluteToSelfRelativeSD :: "mem \<Rightarrow> nat \<Rightarrow> nat \<Rightarrow> ULONG \<Rightarrow> NTSTATUS \<times> mem \<times> ULONG" where
  "RtlAbsoluteToSelfRelativeSD m Sd RelSd BufferLength =
     (if Sd_Control m Sd AND SE_SELF_RELATIVE \<noteq> 0 then (STATUS_BAD_DESCRIPTOR_FORMAT, m, BufferLength)
      else RtlMakeSelfRelativeSD m Sd RelSd BufferLength)"

text \<open>The caller's buffers of \<^verbatim>\<open>RtlSelfRelativeToAbsoluteSD\<close> and their sizes.\<close>

record ABSOLUTE_BUFFERS =
  AbsoluteSDSize :: ULONG
  Owner_buf :: nat
  Owner_len :: ULONG
  Group_buf :: nat
  Group_len :: ULONG
  Dacl_buf :: nat
  Dacl_len :: ULONG
  Sacl_buf :: nat
  Sacl_len :: ULONG

definition move_component :: "nat \<Rightarrow> nat \<Rightarrow> nat \<Rightarrow> nat \<Rightarrow> nat \<Rightarrow> mem \<Rightarrow> mem" where
  "move_component Sd Offset Buf Source Length m =
     (if Source \<noteq> 0 then wr32 (RtlMoveMemory m Buf Source Length) (Sd + Offset) (of_nat Buf) else m)"

definition RtlSelfRelativeToAbsoluteSD ::
  "mem \<Rightarrow> nat \<Rightarrow> nat \<Rightarrow> ABSOLUTE_BUFFERS \<Rightarrow> NTSTATUS \<times> mem \<times> ABSOLUTE_BUFFERS" where
  "RtlSelfRelativeToAbsoluteSD m RelSd Sd b =
     (if Sd_Control m RelSd AND SE_SELF_RELATIVE = 0 then (STATUS_BAD_DESCRIPTOR_FORMAT, m, b)
      else
        let q = RtlpQuerySecurityDescriptor m RelSd
        in if Sd = 0 \<or> 20 > AbsoluteSDSize b \<or> OwnerSize q > Owner_len b \<or> GroupSize q > Group_len b \<or>
              DaclSize q > Dacl_len b \<or> SaclSize q > Sacl_len b
           then (STATUS_BUFFER_TOO_SMALL, m,
                 b\<lparr>AbsoluteSDSize := 20, Owner_len := OwnerSize q, Group_len := GroupSize q,
                   Dacl_len := DaclSize q, Sacl_len := SaclSize q\<rparr>)
           else
             let m = RtlMoveMemory m Sd RelSd 20;
                 m = wr32 m (Sd + 4) 0;
                 m = wr32 m (Sd + 8) 0;
                 m = wr32 m (Sd + 12) 0;
                 m = wr32 m (Sd + 16) 0;
                 m = wr16 m (Sd + 2) (Sd_Control m Sd AND NOT SE_SELF_RELATIVE);
                 m = move_component Sd 4 (Owner_buf b) (pOwner q) (unat (RtlLengthSid m (pOwner q))) m;
                 m = move_component Sd 8 (Group_buf b) (pGroup q) (unat (RtlLengthSid m (pGroup q))) m;
                 m = move_component Sd 16 (Dacl_buf b) (pDacl q) (unat (AclSize m (pDacl q))) m;
                 m = move_component Sd 12 (Sacl_buf b) (pSacl q) (unat (AclSize m (pSacl q))) m
             in (STATUS_SUCCESS, m, b))"

text \<open>
  \<^verbatim>\<open>RtlSelfRelativeToAbsoluteSD2\<close> converts in place.  On a 32-bit build the two forms have the same
  size and the rest of the routine, which moves the data, is not reached.
\<close>

definition RtlSelfRelativeToAbsoluteSD2 :: "mem \<Rightarrow> nat \<Rightarrow> nat \<Rightarrow> NTSTATUS \<times> mem" where
  "RtlSelfRelativeToAbsoluteSD2 m Sd BufferSize =
     (if Sd = 0 then (STATUS_INVALID_PARAMETER_1, m)
      else if BufferSize = 0 then (STATUS_INVALID_PARAMETER_2, m)
      else if Sd_Control m Sd AND SE_SELF_RELATIVE = 0 then (STATUS_BAD_DESCRIPTOR_FORMAT, m)
      else
        let q = RtlpQuerySecurityDescriptor m Sd;
            m = wr16 m (Sd + 2) (Sd_Control m Sd AND NOT SE_SELF_RELATIVE);
            m = wr32 m (Sd + 4) (of_nat (pOwner q));
            m = wr32 m (Sd + 8) (of_nat (pGroup q));
            m = wr32 m (Sd + 12) (of_nat (pSacl q));
            m = wr32 m (Sd + 16) (of_nat (pDacl q))
        in (STATUS_SUCCESS, m))"

section \<open>Validation\<close>

definition RtlValidSecurityDescriptor :: "mem \<Rightarrow> nat \<Rightarrow> bool" where
  "RtlValidSecurityDescriptor m Sd =
     (let Owner = SepGetOwnerFromDescriptor m Sd;
          Group = SepGetGroupFromDescriptor m Sd;
          Dacl = SepGetDaclFromDescriptor m Sd;
          Sacl = SepGetSaclFromDescriptor m Sd
      in if Sd_Revision m Sd \<noteq> SECURITY_DESCRIPTOR_REVISION then False
         else if Owner \<noteq> 0 \<and> \<not> RtlValidSid m Owner then False
         else if Group \<noteq> 0 \<and> \<not> RtlValidSid m Group then False
         else if Dacl \<noteq> 0 \<and> \<not> RtlValidAcl m Dacl then False
         else if Sacl \<noteq> 0 \<and> \<not> RtlValidAcl m Sacl then False
         else True)"

text \<open>The same checks for the two SIDs and for the two ACLs of a self-relative descriptor.\<close>

definition valid_relative_sid :: "mem \<Rightarrow> nat \<Rightarrow> ULONG \<Rightarrow> ULONG \<Rightarrow> bool \<Rightarrow> bool" where
  "valid_relative_sid m Sd Length Offset Required =
     (if Offset \<noteq> 0 then
        (case RtlpValidateSDOffsetAndSize Offset Length 12 of (ok, MaxLength) \<Rightarrow>
           if \<not> ok then False
           else
             let Sid = unat Offset + Sd
             in if \<not> RtlValidSid m Sid \<or> MaxLength < RtlLengthSid m Sid then False else True)
      else if Required then False
      else True)"

definition valid_relative_acl :: "mem \<Rightarrow> nat \<Rightarrow> ULONG \<Rightarrow> ULONG \<Rightarrow> bool \<Rightarrow> bool" where
  "valid_relative_acl m Sd Length Offset Present =
     (if Present then
        (case RtlpValidateSDOffsetAndSize Offset Length 8 of (ok, MaxLength) \<Rightarrow>
           if \<not> ok then False
           else
             let Acl = unat Offset + Sd
             in if \<not> RtlValidAcl m Acl \<or> MaxLength < ucast (AclSize m Acl) then False else True)
      else True)"

definition RtlValidRelativeSecurityDescriptor :: "mem \<Rightarrow> nat \<Rightarrow> ULONG \<Rightarrow> ULONG \<Rightarrow> bool" where
  "RtlValidRelativeSecurityDescriptor m Sd SecurityDescriptorLength RequiredInformation =
     (if SecurityDescriptorLength < 20 \<or> Sd_Revision m Sd \<noteq> SECURITY_DESCRIPTOR_REVISION \<or>
         Sd_Control m Sd AND SE_SELF_RELATIVE = 0 then False
      else if \<not> valid_relative_sid m Sd SecurityDescriptorLength (Sd_Owner m Sd)
                (RequiredInformation AND OWNER_SECURITY_INFORMATION \<noteq> 0) then False
      else if \<not> valid_relative_sid m Sd SecurityDescriptorLength (Sd_Group m Sd)
                (RequiredInformation AND GROUP_SECURITY_INFORMATION \<noteq> 0) then False
      else if \<not> valid_relative_acl m Sd SecurityDescriptorLength (Sd_Dacl m Sd)
                (Sd_Control m Sd AND SE_DACL_PRESENT = SE_DACL_PRESENT) then False
      else if \<not> valid_relative_acl m Sd SecurityDescriptorLength (Sd_Sacl m Sd)
                (Sd_Control m Sd AND SE_SACL_PRESENT = SE_SACL_PRESENT) then False
      else True)"

end
