(* ===== verification/Rtl_Sd_Convert.thy ===== *)
theory Rtl_Sd_Convert
  imports Rtl_Sd Rtl_Acl_Edit
begin

text \<open>
  What the operations of \<^verbatim>\<open>sdk/lib/rtl/sd.c\<close> do to the contents of a security descriptor.  The header
  is read into a record, on which the setters are record updates and the getters are functions;
  the contents of a descriptor are its header bits and the byte strings of its owner, group,
  DACL and SACL, which the conversions between the absolute and the self-relative form keep.
\<close>

section \<open>Control bits\<close>

declare add_2_eq_Suc [simp del] add_2_eq_Suc' [simp del]

lemma and_flag_eq_iff: "k < LENGTH('a) \<Longrightarrow> (c AND 2 ^ k = (2 ^ k :: 'a::len word)) = bit c k"
proof
  assume "c AND 2 ^ k = 2 ^ k" "k < LENGTH('a)"
  then have "bit (c AND 2 ^ k) k = bit (2 ^ k :: 'a word) k" by simp
  then show "bit c k" using \<open>k < LENGTH('a)\<close> by (simp add: bit_and_iff bit_exp_iff)
next
  assume "bit c k" "k < LENGTH('a)"
  then show "c AND 2 ^ k = 2 ^ k" by (intro bit_word_eqI) (auto simp: bit_and_iff bit_exp_iff)
qed

lemma control_flags:
  fixes c :: USHORT
  shows "(c AND SE_OWNER_DEFAULTED = SE_OWNER_DEFAULTED) = bit c 0" "(c AND SE_GROUP_DEFAULTED = SE_GROUP_DEFAULTED) = bit c 1"
    "(c AND SE_DACL_PRESENT = SE_DACL_PRESENT) = bit c 2" "(c AND SE_DACL_DEFAULTED = SE_DACL_DEFAULTED) = bit c 3"
    "(c AND SE_SACL_PRESENT = SE_SACL_PRESENT) = bit c 4" "(c AND SE_SACL_DEFAULTED = SE_SACL_DEFAULTED) = bit c 5"
    "(c AND SE_DACL_PRESENT = 0) = (\<not> bit c 2)" "(c AND SE_SACL_PRESENT = 0) = (\<not> bit c 4)"
    "(c AND SE_SELF_RELATIVE = 0) = (\<not> bit c 15)"
  using and_flag_eq_iff [of 0 c] and_flag_eq_iff [of 1 c] and_flag_eq_iff [of 2 c] and_flag_eq_iff [of 3 c]
    and_flag_eq_iff [of 4 c] and_flag_eq_iff [of 5 c] and_exp_eq_0_iff_not_bit [of c 2] and_exp_eq_0_iff_not_bit [of c 4]
    and_exp_eq_0_iff_not_bit [of c 15]
  by (simp_all del: and_exp_eq_0_iff_not_bit)

section \<open>The header as a record\<close>

record SECURITY_DESCRIPTOR =
  sd_revision :: UCHAR
  sd_sbz1 :: UCHAR
  sd_control :: USHORT
  sd_owner :: ULONG
  sd_group :: ULONG
  sd_sacl :: ULONG
  sd_dacl :: ULONG

definition read_sd :: "mem \<Rightarrow> nat \<Rightarrow> SECURITY_DESCRIPTOR" where
  "read_sd m Sd = \<lparr>sd_revision = Sd_Revision m Sd, sd_sbz1 = Sd_Sbz1 m Sd, sd_control = Sd_Control m Sd,
     sd_owner = Sd_Owner m Sd, sd_group = Sd_Group m Sd, sd_sacl = Sd_Sacl m Sd, sd_dacl = Sd_Dacl m Sd\<rparr>"

lemmas sd_field_defs = Sd_Revision_def Sd_Sbz1_def Sd_Control_def Sd_Owner_def Sd_Group_def Sd_Sacl_def Sd_Dacl_def

lemma read_sd_sel [simp]:
  "sd_revision (read_sd m Sd) = Sd_Revision m Sd" "sd_sbz1 (read_sd m Sd) = Sd_Sbz1 m Sd"
  "sd_control (read_sd m Sd) = Sd_Control m Sd" "sd_owner (read_sd m Sd) = Sd_Owner m Sd"
  "sd_group (read_sd m Sd) = Sd_Group m Sd" "sd_sacl (read_sd m Sd) = Sd_Sacl m Sd" "sd_dacl (read_sd m Sd) = Sd_Dacl m Sd"
  by (simp_all add: read_sd_def)

lemma rd16_wr16_apart: "a + 2 \<le> b \<or> b + 2 \<le> a \<Longrightarrow> rd16 (wr16 m b v) a = rd16 m a"
  by (rule rd16_cong) (auto simp: wr16_apply)

lemma rd16_wr32_apart: "a + 2 \<le> b \<or> b + 4 \<le> a \<Longrightarrow> rd16 (wr32 m b v) a = rd16 m a"
  by (rule rd16_cong) (auto simp: wr32_apply)

lemma rd32_wr16_apart: "a + 4 \<le> b \<or> b + 2 \<le> a \<Longrightarrow> rd32 (wr16 m b v) a = rd32 m a"
  by (rule rd32_cong) (auto simp: wr16_apply)

lemma rd32_wr32_apart: "a + 4 \<le> b \<or> b + 4 \<le> a \<Longrightarrow> rd32 (wr32 m b v) a = rd32 m a"
  by (rule rd32_cong) (auto simp: wr32_apply)

lemma read_sd_write [simp]:
  "read_sd (wr16 m (Sd + 2) c) Sd = (read_sd m Sd)\<lparr>sd_control := c\<rparr>"
  "read_sd (wr32 m (Sd + 4) v) Sd = (read_sd m Sd)\<lparr>sd_owner := v\<rparr>"
  "read_sd (wr32 m (Sd + 8) v) Sd = (read_sd m Sd)\<lparr>sd_group := v\<rparr>"
  "read_sd (wr32 m (Sd + 12) v) Sd = (read_sd m Sd)\<lparr>sd_sacl := v\<rparr>"
  "read_sd (wr32 m (Sd + 16) v) Sd = (read_sd m Sd)\<lparr>sd_dacl := v\<rparr>"
  by (simp_all add: read_sd_def sd_field_defs rd16_wr32_apart rd32_wr16_apart rd32_wr32_apart)
     (simp_all add: wr16_apply wr32_apply)

lemma control_after [simp]:
  "Sd_Control (wr32 m (Sd + 16) v) Sd = Sd_Control m Sd" "Sd_Control (wr32 m (Sd + 12) v) Sd = Sd_Control m Sd"
  "Sd_Control (wr32 m (Sd + 4) v) Sd = Sd_Control m Sd" "Sd_Control (wr32 m (Sd + 8) v) Sd = Sd_Control m Sd"
  "Sd_Control (wr16 m (Sd + 2) c) Sd = c"
  by (simp_all add: Sd_Control_def rd16_wr32_apart)

lemma read_sd_set_defaulted [simp]:
  "read_sd (set_defaulted m Sd f b) Sd =
     (read_sd m Sd)\<lparr>sd_control := (if b then (Sd_Control m Sd AND NOT f) OR f else Sd_Control m Sd AND NOT f)\<rparr>"
  by (simp add: set_defaulted_def Let_def)

text \<open>The getters see a descriptor through its header only.\<close>

definition sd_ptr :: "nat \<Rightarrow> USHORT \<Rightarrow> ULONG \<Rightarrow> nat" where
  "sd_ptr Sd c v = (if bit c 15 then if v = 0 then 0 else Sd + unat v else unat v)"

definition sid_view :: "nat \<Rightarrow> SECURITY_DESCRIPTOR \<Rightarrow> ULONG \<Rightarrow> nat \<Rightarrow> NTSTATUS \<times> (nat \<times> bool) option" where
  "sid_view Sd r v k =
     (if sd_revision r \<noteq> 1 then (STATUS_UNKNOWN_REVISION, None)
      else (STATUS_SUCCESS, Some (sd_ptr Sd (sd_control r) v, bit (sd_control r) k)))"

definition acl_view ::
  "nat \<Rightarrow> SECURITY_DESCRIPTOR \<Rightarrow> ULONG \<Rightarrow> nat \<Rightarrow> NTSTATUS \<times> (bool \<times> (nat \<times> bool) option) option" where
  "acl_view Sd r v k =
     (if sd_revision r \<noteq> 1 then (STATUS_UNKNOWN_REVISION, None)
      else if bit (sd_control r) k
      then (STATUS_SUCCESS, Some (True, Some (sd_ptr Sd (sd_control r) v, bit (sd_control r) (Suc k))))
      else (STATUS_SUCCESS, Some (False, None)))"

lemma sd_components:
  "SepGetOwnerFromDescriptor m Sd = sd_ptr Sd (Sd_Control m Sd) (Sd_Owner m Sd)"
  "SepGetGroupFromDescriptor m Sd = sd_ptr Sd (Sd_Control m Sd) (Sd_Group m Sd)"
  "SepGetDaclFromDescriptor m Sd = (if bit (Sd_Control m Sd) 2 then sd_ptr Sd (Sd_Control m Sd) (Sd_Dacl m Sd) else 0)"
  "SepGetSaclFromDescriptor m Sd = (if bit (Sd_Control m Sd) 4 then sd_ptr Sd (Sd_Control m Sd) (Sd_Sacl m Sd) else 0)"
  by (simp_all add: SepGetOwnerFromDescriptor_def SepGetGroupFromDescriptor_def SepGetDaclFromDescriptor_def
      SepGetSaclFromDescriptor_def sd_ptr_def control_flags)

lemma sd_getters:
  "RtlGetOwnerSecurityDescriptor m Sd = sid_view Sd (read_sd m Sd) (sd_owner (read_sd m Sd)) 0"
  "RtlGetGroupSecurityDescriptor m Sd = sid_view Sd (read_sd m Sd) (sd_group (read_sd m Sd)) 1"
  "RtlGetDaclSecurityDescriptor m Sd = acl_view Sd (read_sd m Sd) (sd_dacl (read_sd m Sd)) 2"
  "RtlGetSaclSecurityDescriptor m Sd = acl_view Sd (read_sd m Sd) (sd_sacl (read_sd m Sd)) 4"
  by (simp_all add: RtlGetOwnerSecurityDescriptor_def RtlGetGroupSecurityDescriptor_def sid_view_def acl_view_def
      RtlGetDaclSecurityDescriptor_def RtlGetSaclSecurityDescriptor_def control_flags sd_components)

lemma sid_view_cong:
  "sd_revision r' = sd_revision r \<Longrightarrow> bit (sd_control r') 15 = bit (sd_control r) 15 \<Longrightarrow>
   bit (sd_control r') k = bit (sd_control r) k \<Longrightarrow> sid_view Sd r' v k = sid_view Sd r v k"
  by (simp add: sid_view_def sd_ptr_def)

lemma acl_view_cong:
  "sd_revision r' = sd_revision r \<Longrightarrow> bit (sd_control r') 15 = bit (sd_control r) 15 \<Longrightarrow>
   bit (sd_control r') k = bit (sd_control r) k \<Longrightarrow> bit (sd_control r') (Suc k) = bit (sd_control r) (Suc k) \<Longrightarrow>
   acl_view Sd r' v k = acl_view Sd r v k"
  by (simp add: acl_view_def sd_ptr_def)

text \<open>Each setter as an update of the header record.\<close>

definition put_flag :: "USHORT \<Rightarrow> USHORT \<Rightarrow> bool \<Rightarrow> USHORT" where
  "put_flag c f d = (if d then (c AND NOT f) OR f else c AND NOT f)"

lemma put_flag_True: "put_flag c f True = c OR f"
  by (rule bit_word_eqI) (auto simp: put_flag_def bit_or_iff bit_and_iff bit_not_iff)

lemma put_flag_bit:
  assumes "j < 16" "k < 16"
  shows "bit (put_flag c (2 ^ j) d) k = (if k = j then d else bit c k)"
  using assms by (auto simp: put_flag_def bit_or_iff bit_and_iff bit_not_iff bit_exp_iff)

lemma control_bits:
  assumes "k < 16"
  shows "bit (put_flag c 1 d) k = (if k = 0 then d else bit c k)" "bit (put_flag c 2 d) k = (if k = 1 then d else bit c k)"
    "bit (put_flag c 4 d) k = (if k = 2 then d else bit c k)" "bit (put_flag c 8 d) k = (if k = 3 then d else bit c k)"
    "bit (put_flag c 16 d) k = (if k = 4 then d else bit c k)" "bit (put_flag c 32 d) k = (if k = 5 then d else bit c k)"
    "bit (put_flag c 0x8000 d) k = (if k = 15 then d else bit c k)"
  using put_flag_bit [OF _ assms, of 0 c d] put_flag_bit [OF _ assms, of 1 c d] put_flag_bit [OF _ assms, of 2 c d]
    put_flag_bit [OF _ assms, of 3 c d] put_flag_bit [OF _ assms, of 4 c d] put_flag_bit [OF _ assms, of 5 c d]
    put_flag_bit [OF _ assms, of 15 c d]
  by simp_all

lemma sd_setters:
  assumes abs: "Sd_Revision m Sd = SECURITY_DESCRIPTOR_REVISION" "Sd_Control m Sd AND SE_SELF_RELATIVE = 0"
  shows "\<exists>m'. RtlSetOwnerSecurityDescriptor m Sd p d = (STATUS_SUCCESS, m') \<and> read_sd m' Sd =
      (read_sd m Sd)\<lparr>sd_owner := of_nat p, sd_control := put_flag (Sd_Control m Sd) 1 d\<rparr>"
    "\<exists>m'. RtlSetGroupSecurityDescriptor m Sd p d = (STATUS_SUCCESS, m') \<and> read_sd m' Sd =
      (read_sd m Sd)\<lparr>sd_group := of_nat p, sd_control := put_flag (Sd_Control m Sd) 2 d\<rparr>"
    "\<exists>m'. RtlSetDaclSecurityDescriptor m Sd present p d = (STATUS_SUCCESS, m') \<and> read_sd m' Sd =
      (if present then (read_sd m Sd)\<lparr>sd_dacl := of_nat p, sd_control := put_flag (put_flag (Sd_Control m Sd) 4 True) 8 d\<rparr>
       else (read_sd m Sd)\<lparr>sd_control := put_flag (Sd_Control m Sd) 4 False\<rparr>)"
    "\<exists>m'. RtlSetSaclSecurityDescriptor m Sd present p d = (STATUS_SUCCESS, m') \<and> read_sd m' Sd =
      (if present then (read_sd m Sd)\<lparr>sd_sacl := of_nat p, sd_control := put_flag (put_flag (Sd_Control m Sd) 16 True) 32 d\<rparr>
       else (read_sd m Sd)\<lparr>sd_control := put_flag (Sd_Control m Sd) 16 False\<rparr>)"
  using abs by (simp_all add: RtlSetOwnerSecurityDescriptor_def RtlSetGroupSecurityDescriptor_def
     RtlSetDaclSecurityDescriptor_def RtlSetSaclSecurityDescriptor_def Let_def put_flag_True put_flag_def [where d = False]
     put_flag_def [of _ _ d])

text \<open>
  On an absolute descriptor of the right revision each setter succeeds, the matching getter then
  returns the pointer and the defaulted flag that were set, and the other three getters return
  what they returned before.  Clearing a DACL makes the getter report that there is none.
\<close>

theorem sd_set_get:
  assumes abs: "Sd_Revision m Sd = SECURITY_DESCRIPTOR_REVISION" "Sd_Control m Sd AND SE_SELF_RELATIVE = 0"
    and p: "p < 2 ^ 32"
  shows "(\<exists>m'. RtlSetOwnerSecurityDescriptor m Sd p d = (STATUS_SUCCESS, m') \<and>
      RtlGetOwnerSecurityDescriptor m' Sd = (STATUS_SUCCESS, Some (p, d)) \<and>
      RtlGetGroupSecurityDescriptor m' Sd = RtlGetGroupSecurityDescriptor m Sd \<and>
      RtlGetDaclSecurityDescriptor m' Sd = RtlGetDaclSecurityDescriptor m Sd \<and>
      RtlGetSaclSecurityDescriptor m' Sd = RtlGetSaclSecurityDescriptor m Sd) \<and>
    (\<exists>m'. RtlSetGroupSecurityDescriptor m Sd p d = (STATUS_SUCCESS, m') \<and>
      RtlGetGroupSecurityDescriptor m' Sd = (STATUS_SUCCESS, Some (p, d)) \<and>
      RtlGetOwnerSecurityDescriptor m' Sd = RtlGetOwnerSecurityDescriptor m Sd \<and>
      RtlGetDaclSecurityDescriptor m' Sd = RtlGetDaclSecurityDescriptor m Sd \<and>
      RtlGetSaclSecurityDescriptor m' Sd = RtlGetSaclSecurityDescriptor m Sd) \<and>
    (\<exists>m'. RtlSetDaclSecurityDescriptor m Sd present p d = (STATUS_SUCCESS, m') \<and>
      RtlGetDaclSecurityDescriptor m' Sd = (STATUS_SUCCESS, Some (present, if present then Some (p, d) else None)) \<and>
      RtlGetOwnerSecurityDescriptor m' Sd = RtlGetOwnerSecurityDescriptor m Sd \<and>
      RtlGetGroupSecurityDescriptor m' Sd = RtlGetGroupSecurityDescriptor m Sd \<and>
      RtlGetSaclSecurityDescriptor m' Sd = RtlGetSaclSecurityDescriptor m Sd) \<and>
    (\<exists>m'. RtlSetSaclSecurityDescriptor m Sd present p d = (STATUS_SUCCESS, m') \<and>
      RtlGetSaclSecurityDescriptor m' Sd = (STATUS_SUCCESS, Some (present, if present then Some (p, d) else None)) \<and>
      RtlGetOwnerSecurityDescriptor m' Sd = RtlGetOwnerSecurityDescriptor m Sd \<and>
      RtlGetGroupSecurityDescriptor m' Sd = RtlGetGroupSecurityDescriptor m Sd \<and>
      RtlGetDaclSecurityDescriptor m' Sd = RtlGetDaclSecurityDescriptor m Sd)"
proof -
  have rel: "\<not> bit (Sd_Control m Sd) 15" using abs(2) by (simp add: control_flags)
  have ptr: "unat (of_nat p :: ULONG) = p" using p by (simp add: unat_of_nat_32)
  note set = sd_setters [OF abs, where p = p and d = d]
  note view = sd_getters sid_view_def acl_view_def sd_ptr_def control_bits rel ptr abs
  show ?thesis (is "?o \<and> ?g \<and> ?d \<and> ?s")
  proof (intro conjI)
    show ?o using set(1) by (elim exE conjE) (intro exI conjI, assumption, simp_all add: view)
    show ?g using set(2) by (elim exE conjE) (intro exI conjI, assumption, simp_all add: view)
    show ?d using set(3) [of present] by (elim exE conjE) (intro exI conjI, assumption, simp_all add: view)
    show ?s using set(4) [of present] by (elim exE conjE) (intro exI conjI, assumption, simp_all add: view)
  qed
qed


text \<open>An empty absolute descriptor at 500.\<close>

definition empty_sd_mem :: mem where
  "empty_sd_mem = (\<lambda>a. if a = 500 then 1 else 0)"

lemma empty_sd: "Sd_Revision empty_sd_mem 500 = 1" "Sd_Control empty_sd_mem 500 = 0"
  "Sd_Owner empty_sd_mem 500 = 0" "Sd_Group empty_sd_mem 500 = 0" "Sd_Dacl empty_sd_mem 500 = 0" "Sd_Sacl empty_sd_mem 500 = 0"
  by (simp_all add: sd_field_defs rd16_def rd32_def empty_sd_mem_def)

theorem sd_set_get_witness:
  "\<exists>m'. RtlSetDaclSecurityDescriptor empty_sd_mem 500 True 0x1000 False = (STATUS_SUCCESS, m') \<and>
     RtlGetDaclSecurityDescriptor m' 500 = (STATUS_SUCCESS, Some (True, Some (0x1000, False)))"
  using sd_set_get [of empty_sd_mem 500 "0x1000" False True] empty_sd by auto

section \<open>The size of a descriptor\<close>

lemma unat_ROUND_UP_4: "unat x < 0xFFFFFFF0 \<Longrightarrow> unat (ROUND_UP x 4) = 4 * ((unat x + 3) div 4)"
proof -
  assume *: "unat x < 0xFFFFFFF0"
  have "unat (3 + x) = unat x + 3" using * by (simp add: unat_word_ariths)
  then show ?thesis by (simp add: ROUND_UP_def unat_ROUND_DOWN_4)
qed

definition sid_room :: "mem \<Rightarrow> nat \<Rightarrow> nat" where
  "sid_room m p = (if p = 0 then 0 else sid_len m p)"

definition acl_room :: "mem \<Rightarrow> nat \<Rightarrow> nat" where
  "acl_room m p = (if p = 0 then 0 else 4 * ((unat (AclSize m p) + 3) div 4))"

lemma sid_len_small: "sid_len m p \<le> 1028" "4 dvd sid_len m p"
  using unat_less_8_16(1) [of "SubAuthorityCount m p"] by (simp_all add: sid_len_def)

lemma acl_room_small: "acl_room m p \<le> 65536"
  using unat_less_8_16(2) [of "AclSize m p"] div_le_mono [of "unat (AclSize m p) + 3" 65538 4] by (simp add: acl_room_def)

lemma unat_sid_size: "unat (sid_size m p) = sid_room m p"
  using sid_len_small [of m p] by (auto simp: sid_size_def sid_room_def unat_ROUND_UP_4 elim!: dvdE)

lemma unat_acl_size: "unat (acl_size m p) = acl_room m p"
  using unat_less_8_16(2) [of "AclSize m p"]
  by (simp add: acl_size_def acl_room_def unat_ROUND_UP_4)

definition sd_room :: "mem \<Rightarrow> nat \<Rightarrow> nat" where
  "sd_room m Sd = 20 + sid_room m (SepGetOwnerFromDescriptor m Sd) + sid_room m (SepGetGroupFromDescriptor m Sd) +
     acl_room m (SepGetSaclFromDescriptor m Sd) + acl_room m (SepGetDaclFromDescriptor m Sd)"

lemma unat_add_small: "unat (a::ULONG) + unat b < 2 ^ 32 \<Longrightarrow> unat (a + b) = unat a + unat b"
  by (simp add: unat_word_ariths)

lemma sid_room_small: "sid_room m p \<le> 1028"
  using sid_len_small by (simp add: sid_room_def)

lemma unat_sd_room:
  "unat (20 + sid_size m a + sid_size m b + acl_size m c + acl_size m d) =
     20 + sid_room m a + sid_room m b + acl_room m c + acl_room m d"
  "20 + sid_room m a + sid_room m b + acl_room m c + acl_room m d < 0x30000"
proof -
  note small = sid_room_small [of m a] sid_room_small [of m b] acl_room_small [of m c] acl_room_small [of m d]
  show "unat (20 + sid_size m a + sid_size m b + acl_size m c + acl_size m d) =
     20 + sid_room m a + sid_room m b + acl_room m c + acl_room m d"
    using small by (simp add: unat_add_small unat_sid_size unat_acl_size)
  show "20 + sid_room m a + sid_room m b + acl_room m c + acl_room m d < 0x30000" using small by simp
qed

section \<open>Making a descriptor self-relative\<close>

lemma put_component_apply:
  assumes "R + 20 \<le> c" "off + 4 \<le> 20" "st = put_component R off src len (m, c)"
  shows "snd st = c + unat len"
    and "\<And>x. fst st x =
      (if len \<noteq> 0 \<and> R + off \<le> x \<and> x < R + off + 4 then wr32 m (R + off) (of_nat (c - R)) x
       else if c \<le> x \<and> x < c + unat len then m (src + (x - c)) else m x)"
  using assms by (auto simp: put_component_def wr32_apply RtlMoveMemory_def)


lemma put_component_frame:
  assumes "R + 20 \<le> c" "off + 4 \<le> 20" "st = put_component R off src len (m, c)"
  shows "\<And>x. x < R \<or> c + unat len \<le> x \<Longrightarrow> fst st x = m x" "\<And>x. R + 20 \<le> x \<and> x < c \<Longrightarrow> fst st x = m x"
    and "\<And>x. R \<le> x \<and> x < R + off \<Longrightarrow> fst st x = m x"
    and "\<And>j. j < unat len \<Longrightarrow> fst st (c + j) = m (src + j)"
  using assms(1,2) by (auto simp: put_component_apply [OF assms])

lemma put_component_field:
  assumes "R + 20 \<le> c" "off + 4 \<le> 20" "st = put_component R off src len (m, c)"
  shows "rd32 (fst st) (R + off) = (if len = 0 then rd32 m (R + off) else of_nat (c - R))"
    and "\<And>off'. off' + 4 \<le> off \<or> off + 4 \<le> off' \<and> off' + 4 \<le> 20 \<Longrightarrow> rd32 (fst st) (R + off') = rd32 m (R + off')"
proof -
  note put = put_component_apply(2) [OF assms]
  have "len \<noteq> 0 \<Longrightarrow> rd32 (fst st) (R + off) = rd32 (wr32 m (R + off) (of_nat (c - R))) (R + off)"
    by (rule rd32_cong) (simp add: put)
  moreover have "len = 0 \<Longrightarrow> rd32 (fst st) (R + off) = rd32 m (R + off)"
    using assms(1,2) by (intro rd32_cong) (simp add: put)
  ultimately show "rd32 (fst st) (R + off) = (if len = 0 then rd32 m (R + off) else of_nat (c - R))" by simp
  show "rd32 (fst st) (R + off') = rd32 m (R + off')" if "off' + 4 \<le> off \<or> off + 4 \<le> off' \<and> off' + 4 \<le> 20" for off'
    using that assms(1,2) by (intro rd32_cong) (auto simp: put)
qed

text \<open>The four copies in sequence, from the memory \<open>m\<close> in which the new descriptor has been cleared.\<close>

lemma put_components:
  assumes st: "st1 = put_component R 12 pS lS (m, R + 20)" "st2 = put_component R 16 pD lD (fst st1, R + 20 + s)"
      "st3 = put_component R 4 pO lO (fst st2, R + 20 + s + d)" "st4 = put_component R 8 pG lG (fst st3, R + 20 + s + d + w)"
    and u: "unat lS = s" "unat lD = d" "unat lO = w" "unat lG = g"
    and ap: "apart pS s R T" "apart pD d R T" "apart pO w R T" "apart pG g R T" and T: "T = 20 + w + g + s + d"
  shows "\<And>x. x < R + 4 \<or> R + T \<le> x \<Longrightarrow> fst st4 x = m x"
    and "\<And>j. j < s \<Longrightarrow> fst st4 (R + 20 + j) = m (pS + j)" "\<And>j. j < d \<Longrightarrow> fst st4 (R + 20 + s + j) = m (pD + j)"
    and "\<And>j. j < w \<Longrightarrow> fst st4 (R + 20 + s + d + j) = m (pO + j)" "\<And>j. j < g \<Longrightarrow> fst st4 (R + 20 + s + d + w + j) = m (pG + j)"
    and "rd32 (fst st4) (R + 12) = (if s = 0 then rd32 m (R + 12) else 20)"
      "rd32 (fst st4) (R + 16) = (if d = 0 then rd32 m (R + 16) else of_nat (20 + s))"
      "rd32 (fst st4) (R + 4) = (if w = 0 then rd32 m (R + 4) else of_nat (20 + s + d))"
      "rd32 (fst st4) (R + 8) = (if g = 0 then rd32 m (R + 8) else of_nat (20 + s + d + w))"
proof -
  have z: "(lS = 0) = (s = 0)" "(lD = 0) = (d = 0)" "(lO = 0) = (w = 0)" "(lG = 0) = (g = 0)"
    using u by (metis unat_eq_zero)+
  note a1 = put_component_frame [OF _ _ st(1), unfolded u, simplified] and a2 = put_component_frame [OF _ _ st(2), unfolded u, simplified]
    and a3 = put_component_frame [OF _ _ st(3), unfolded u, simplified] and a4 = put_component_frame [OF _ _ st(4), unfolded u, simplified]
  note f1 = put_component_field [OF _ _ st(1)] and f2 = put_component_field [OF _ _ st(2)]
    and f3 = put_component_field [OF _ _ st(3)] and f4 = put_component_field [OF _ _ st(4)]
  have out1: "fst st1 x = m x" if "x < R \<or> R + T \<le> x" for x using that T a1(1) [of x] by auto
  have out2: "fst st2 x = m x" if "x < R \<or> R + T \<le> x" for x using that T out1 a2(1) [of x] by auto
  have out3: "fst st3 x = m x" if "x < R \<or> R + T \<le> x" for x using that T out2 a3(1) [of x] by auto
  show "fst st4 x = m x" if "x < R + 4 \<or> R + T \<le> x" for x
  proof (cases "R \<le> x \<and> x < R + 4")
    case True
    then show ?thesis using a4(3) [of x] a3(3) [of x] a2(3) [of x] a1(3) [of x] by simp
  next
    case False
    then show ?thesis using that T out3 [of x] a4(1) [of x] by auto
  qed
  show "fst st4 (R + 20 + j) = m (pS + j)" if "j < s" for j
    using that a4(2) [of "R + 20 + j"] a3(2) [of "R + 20 + j"] a2(2) [of "R + 20 + j"] a1(4) [of j] by auto
  show "fst st4 (R + 20 + s + j) = m (pD + j)" if "j < d" for j
    using that ap(2) a4(2) [of "R + 20 + s + j"] a3(2) [of "R + 20 + s + j"] a2(4) [of j] out1 [of "pD + j"]
    by (auto simp: apart_def)
  show "fst st4 (R + 20 + s + d + j) = m (pO + j)" if "j < w" for j
    using that ap(3) a4(2) [of "R + 20 + s + d + j"] a3(4) [of j] out2 [of "pO + j"] by (auto simp: apart_def)
  show "fst st4 (R + 20 + s + d + w + j) = m (pG + j)" if "j < g" for j
    using that ap(4) a4(4) [of j] out3 [of "pG + j"] by (auto simp: apart_def)
  show "rd32 (fst st4) (R + 12) = (if s = 0 then rd32 m (R + 12) else 20)"
    using f1(1) f2(2) [of 12] f3(2) [of 12] f4(2) [of 12] by (simp add: z)
  show "rd32 (fst st4) (R + 16) = (if d = 0 then rd32 m (R + 16) else of_nat (20 + s))"
    using f2(1) f1(2) [of 16] f3(2) [of 16] f4(2) [of 16] by (simp add: z)
  show "rd32 (fst st4) (R + 4) = (if w = 0 then rd32 m (R + 4) else of_nat (20 + s + d))"
    using f3(1) f1(2) [of 4] f2(2) [of 4] f4(2) [of 4] by (simp add: z)
  show "rd32 (fst st4) (R + 8) = (if g = 0 then rd32 m (R + 8) else of_nat (20 + s + d + w))"
    using f4(1) f1(2) [of 8] f2(2) [of 8] f3(2) [of 8] by (simp add: z)
qed

lemma RtlMakeSelfRelativeSD_memory:
  assumes p: "pS = SepGetSaclFromDescriptor m Sd" "pD = SepGetDaclFromDescriptor m Sd"
      "pO = SepGetOwnerFromDescriptor m Sd" "pG = SepGetGroupFromDescriptor m Sd"
    and l: "s = acl_room m pS" "d = acl_room m pD" "w = sid_room m pO" "g = sid_room m pG"
    and T: "T = 20 + w + g + s + d" "T \<le> unat Len"
    and ap: "apart Sd 20 R T" "apart pS s R T" "apart pD d R T" "apart pO w R T" "apart pG g R T"
  obtains m' where "RtlMakeSelfRelativeSD m Sd R Len = (STATUS_SUCCESS, m', Len)"
    and "\<And>x. x < R \<or> R + T \<le> x \<Longrightarrow> m' x = m x"
    and "Sd_Revision m' R = Sd_Revision m Sd" "Sd_Sbz1 m' R = Sd_Sbz1 m Sd" "Sd_Control m' R = Sd_Control m Sd OR SE_SELF_RELATIVE"
    and "Sd_Sacl m' R = (if s = 0 then 0 else 20)" "Sd_Dacl m' R = (if d = 0 then 0 else of_nat (20 + s))"
    and "Sd_Owner m' R = (if w = 0 then 0 else of_nat (20 + s + d))" "Sd_Group m' R = (if g = 0 then 0 else of_nat (20 + s + d + w))"
    and "\<And>j. j < s \<Longrightarrow> m' (R + 20 + j) = m (pS + j)" "\<And>j. j < d \<Longrightarrow> m' (R + (20 + s) + j) = m (pD + j)"
    and "\<And>j. j < w \<Longrightarrow> m' (R + (20 + s + d) + j) = m (pO + j)" "\<And>j. j < g \<Longrightarrow> m' (R + (20 + s + d + w) + j) = m (pG + j)"
proof -
  define m0 where "m0 = RtlMoveMemory (RtlZeroMemory m R T) R Sd 4"
  define st1 where "st1 = put_component R 12 pS (acl_size m pS) (m0, R + 20)"
  define st2 where "st2 = put_component R 16 pD (acl_size m pD) (fst st1, R + 20 + s)"
  define st3 where "st3 = put_component R 4 pO (sid_size m pO) (fst st2, R + 20 + s + d)"
  define st4 where "st4 = put_component R 8 pG (sid_size m pG) (fst st3, R + 20 + s + d + w)"
  have u: "unat (acl_size m pS) = s" "unat (acl_size m pD) = d" "unat (sid_size m pO) = w" "unat (sid_size m pG) = g"
    by (simp_all add: l unat_acl_size unat_sid_size)
  note C = put_components [OF st1_def st2_def st3_def st4_def u ap(2-) T(1)]
  have m0: "m0 x = (if R \<le> x \<and> x < R + 4 then m (Sd + (x - R)) else if R \<le> x \<and> x < R + T then 0 else m x)" for x
    using ap(1) T(1) by (auto simp: m0_def RtlMoveMemory_def RtlZeroMemory_def apart_def)
  have src: "m0 (p + j) = m (p + j)" if "apart p n R T" "j < n" for p n j
    using that T(1) by (auto simp: m0 apart_def)
  have z0: "rd32 m0 (R + off) = 0" if "4 \<le> off" "off + 4 \<le> 20" for off
    using that T(1) by (simp add: rd32_def rd16_def m0)
  define m' where "m' = wr16 (fst st4) (R + 2) (Sd_Control (fst st4) R OR SE_SELF_RELATIVE)"
  have m': "m' x = fst st4 x" if "x \<noteq> R + 2" "x \<noteq> R + 3" for x using that by (simp add: m'_def wr16_apply)
  have ctl: "Sd_Control (fst st4) R = Sd_Control m Sd"
    using C(1) [of "R + 2"] C(1) [of "R + 3"] by (simp add: Sd_Control_def rd16_def m0 numeral_3_eq_3 numeral_2_eq_2)
  have total: "unat (20 + sid_size m pO + sid_size m pG + acl_size m pS + acl_size m pD) = T"
    using unat_sd_room(1) by (simp add: T(1) l)
  have nxt: "(fst st1, R + 20 + s) = st1" "(fst st2, R + 20 + s + d) = st2" "(fst st3, R + 20 + s + d + w) = st3"
    using put_component_apply(1) [OF _ _ st1_def] put_component_apply(1) [OF _ _ st2_def] put_component_apply(1) [OF _ _ st3_def]
    by (simp_all add: u prod_eq_iff)
  show thesis
  proof (rule that [of m'])
    have "\<not> Len < 20 + sid_size m pO + sid_size m pG + acl_size m pS + acl_size m pD"
      using T(2) total by (simp add: word_less_nat_alt)
    then show "RtlMakeSelfRelativeSD m Sd R Len = (STATUS_SUCCESS, m', Len)"
      by (simp add: RtlMakeSelfRelativeSD_def RtlpQuerySecurityDescriptor_def Let_def p [symmetric] total m0_def [symmetric]
          st1_def [symmetric] st2_def [unfolded nxt, symmetric] st3_def [unfolded nxt, symmetric]
          st4_def [unfolded nxt, symmetric] m'_def)
    show "m' x = m x" if "x < R \<or> R + T \<le> x" for x using that m' [of x] C(1) [of x] T(1) by (auto simp: m0)
    show "Sd_Revision m' R = Sd_Revision m Sd" "Sd_Sbz1 m' R = Sd_Sbz1 m Sd"
      using C(1) [of R] C(1) [of "R + 1"] by (simp_all add: Sd_Revision_def Sd_Sbz1_def m' m0)
    show "Sd_Control m' R = Sd_Control m Sd OR SE_SELF_RELATIVE" by (simp add: m'_def ctl)
    show "Sd_Sacl m' R = (if s = 0 then 0 else 20)" "Sd_Dacl m' R = (if d = 0 then 0 else of_nat (20 + s))"
      "Sd_Owner m' R = (if w = 0 then 0 else of_nat (20 + s + d))" "Sd_Group m' R = (if g = 0 then 0 else of_nat (20 + s + d + w))"
      using C(6-9) z0 by (simp_all add: m'_def sd_field_defs rd32_wr16_apart)
  qed (use C(2-5) src [OF ap(2)] src [OF ap(3)] src [OF ap(4)] src [OF ap(5)] in \<open>simp_all add: m' add.assoc\<close>)
qed


section \<open>Moving valid SIDs and ACLs\<close>

lemma RtlValidSid_move:
  assumes "RtlValidSid m p" "p \<noteq> 0" "\<And>j. j < sid_len m p \<Longrightarrow> m' (q + j) = m (p + j)"
  shows "RtlValidSid m' q" "sid_bytes m' q = sid_bytes m p" "sid_len m' q = sid_len m p"
proof -
  have "m' q = m p" "m' (q + 1) = m (p + 1)" using assms(3) [of 0] assms(3) [of 1] sid_len_ge [of m p] by simp_all
  then show "RtlValidSid m' q" "sid_len m' q = sid_len m p"
    using assms(1,2) by (auto simp: RtlValidSid_def Sid_Revision_def SubAuthorityCount_def sid_len_def split: if_splits)
  show "sid_bytes m' q = sid_bytes m p" using assms(3) sid_bytes_eq_iff [of m p m' q] by simp
qed

lemma valid_ace_move:
  assumes v: "valid_ace m Acl p" and a: "p = Acl + k"
    and eq: "\<And>j. j < unat (AclSize m Acl) \<Longrightarrow> m' (Acl' + j) = m (Acl + j)" and ge: "8 \<le> unat (AclSize m Acl)"
  shows "valid_ace m' Acl' (Acl' + k) \<and> AceSize m' (Acl' + k) = AceSize m p"
proof -
  define e where "e = unat (AclSize m Acl)"
  have hdr: "AclSize m' Acl' = AclSize m Acl" "AclRevision m' Acl' = AclRevision m Acl"
    using eq [of 0] eq [of 2] eq [of 3] ge by (simp_all add: AclSize_def AclRevision_def rd16_def numeral_3_eq_3 numeral_2_eq_2)
  have b: "k + 4 < e" "k + ace_len m p \<le> e" using v a by (auto simp: valid_ace_def e_def split: if_splits)
  have at: "m' (Acl' + k + j) = m (p + j)" if "k + j < e" for j
    using eq [of "k + j"] that by (simp add: a e_def add.assoc)
  have sz: "AceSize m' (Acl' + k) = AceSize m p" using at [of 2] at [of 3] b by (intro AceSize_shift) simp_all
  have ty: "AceType m' (Acl' + k) = AceType m p" using at [of 0] b by (simp add: AceType_def)
  have known: "valid_known_ace m' (Acl' + k)" if h: "valid_known_ace m p"
  proof -
    have "12 \<le> ace_len m p" using h sid_len_ge [of m "p + 8"] by (simp add: valid_known_ace_alt)
    then have "Sid_Revision m' (Acl' + k + 8) = Sid_Revision m (p + 8)"
      "SubAuthorityCount m' (Acl' + k + 8) = SubAuthorityCount m (p + 8)"
      using at [of 8] at [of 9] b by (simp_all add: Sid_Revision_def SubAuthorityCount_def add.assoc add.commute)
    then show ?thesis using h sz by (simp add: valid_known_ace_alt sid_len_def)
  qed
  have object: "valid_object_ace m' Acl' (Acl' + k)" if h: "valid_object_ace m Acl p"
  proof -
    define G where "G = guid_size (ObjectAceFlags m p)"
    note h' = h [unfolded valid_object_ace_alt, folded G_def]
    have fl: "ObjectAceFlags m' (Acl' + k) = ObjectAceFlags m p"
      unfolding ObjectAceFlags_def using h' at [of "8 + _"] b by (intro rd32_shift) (simp add: add.assoc)
    have "m' (Acl' + k + 12 + G) = m (p + 12 + G)" "m' (Acl' + k + 12 + G + 1) = m (p + 12 + G + 1)"
      using at [of "12 + G"] at [of "13 + G"] h' b sid_len_ge [of m "p + 12 + G"] by (simp_all add: algebra_simps)
    then have "Sid_Revision m' (Acl' + k + 12 + G) = Sid_Revision m (p + 12 + G)"
      "SubAuthorityCount m' (Acl' + k + 12 + G) = SubAuthorityCount m (p + 12 + G)"
      by (simp_all add: Sid_Revision_def SubAuthorityCount_def)
    with h' sz fl hdr show ?thesis
      unfolding valid_object_ace_alt fl G_def [symmetric] by (simp add: sid_len_def)
  qed
  show ?thesis
    using v known object sz unfolding valid_ace_def sz ty hdr a by (auto split: if_splits)
qed

lemma valid_aces_move:
  assumes "valid_aces m Acl n p" "p = Acl + k"
    and eq: "\<And>j. j < unat (AclSize m Acl) \<Longrightarrow> m' (Acl' + j) = m (Acl + j)" and ge: "8 \<le> unat (AclSize m Acl)"
  shows "valid_aces m' Acl' n (Acl' + k)"
  using assms(1,2)
proof (induction n arbitrary: p k)
  case (Suc n)
  then have "valid_ace m Acl p" "valid_aces m Acl n (p + ace_len m p)" by (auto split: if_splits)
  moreover from valid_ace_move [OF this(1) Suc.prems(2) eq ge]
  have "valid_ace m' Acl' (Acl' + k)" "AceSize m' (Acl' + k) = AceSize m p" by simp_all
  ultimately show ?case using Suc.IH [of "p + ace_len m p" "k + ace_len m p"] Suc.prems(2) by (simp add: add.assoc)
qed simp

lemma RtlValidAcl_move:
  assumes v: "RtlValidAcl m Acl" and eq: "\<And>j. j < unat (AclSize m Acl) \<Longrightarrow> m' (Acl' + j) = m (Acl + j)"
  shows "RtlValidAcl m' Acl'" "AclSize m' Acl' = AclSize m Acl"
proof -
  have ge: "8 \<le> unat (AclSize m Acl)" using RtlValidAcl_aces(2) [OF v] by (simp add: acl_end_def)
  then have hdr: "AclSize m' Acl' = AclSize m Acl" "AclRevision m' Acl' = AclRevision m Acl" "AceCount m' Acl' = AceCount m Acl"
    using eq [of 0] eq [of 2] eq [of "2 + 1"] eq [of 4] eq [of "4 + 1"]
    by (simp_all add: AclSize_def AclRevision_def AceCount_def rd16_def add.assoc del: One_nat_def)
  then show "AclSize m' Acl' = AclSize m Acl" by simp
  show "RtlValidAcl m' Acl'"
    using v valid_aces_move [OF RtlValidAcl_aces(1) [OF v] refl eq ge]
    unfolding RtlValidAcl_def hdr by (auto split: if_splits)
qed

section \<open>The contents of a descriptor\<close>

definition sid_part :: "mem \<Rightarrow> nat \<Rightarrow> UCHAR list option" where
  "sid_part m p = (if p = 0 then None else Some (sid_bytes m p))"

definition acl_part :: "mem \<Rightarrow> nat \<Rightarrow> UCHAR list option" where
  "acl_part m p = (if p = 0 then None else Some (bytes m p (unat (AclSize m p))))"

definition sd_contents :: "mem \<Rightarrow> nat \<Rightarrow>
    UCHAR \<times> UCHAR \<times> USHORT \<times> UCHAR list option \<times> UCHAR list option \<times> UCHAR list option \<times> UCHAR list option" where
  "sd_contents m Sd = (Sd_Revision m Sd, Sd_Sbz1 m Sd, Sd_Control m Sd AND NOT SE_SELF_RELATIVE,
     sid_part m (SepGetOwnerFromDescriptor m Sd), sid_part m (SepGetGroupFromDescriptor m Sd),
     acl_part m (SepGetDaclFromDescriptor m Sd), acl_part m (SepGetSaclFromDescriptor m Sd))"

definition sd_apart :: "mem \<Rightarrow> nat \<Rightarrow> nat \<Rightarrow> nat \<Rightarrow> bool" where
  "sd_apart m Sd R n \<longleftrightarrow> apart Sd 20 R n \<and>
     apart (SepGetSaclFromDescriptor m Sd) (acl_room m (SepGetSaclFromDescriptor m Sd)) R n \<and>
     apart (SepGetDaclFromDescriptor m Sd) (acl_room m (SepGetDaclFromDescriptor m Sd)) R n \<and>
     apart (SepGetOwnerFromDescriptor m Sd) (sid_room m (SepGetOwnerFromDescriptor m Sd)) R n \<and>
     apart (SepGetGroupFromDescriptor m Sd) (sid_room m (SepGetGroupFromDescriptor m Sd)) R n"

text \<open>What \<^verbatim>\<open>RtlValidRelativeSecurityDescriptor\<close> asks for beyond \<^verbatim>\<open>RtlValidSecurityDescriptor\<close>: no SID without
  sub-authorities and no present but null ACL.\<close>

definition sd_full :: "mem \<Rightarrow> nat \<Rightarrow> bool" where
  "sd_full m Sd \<longleftrightarrow>
     (SepGetOwnerFromDescriptor m Sd \<noteq> 0 \<longrightarrow> 12 \<le> sid_len m (SepGetOwnerFromDescriptor m Sd)) \<and>
     (SepGetGroupFromDescriptor m Sd \<noteq> 0 \<longrightarrow> 12 \<le> sid_len m (SepGetGroupFromDescriptor m Sd)) \<and>
     (Sd_Control m Sd AND SE_DACL_PRESENT \<noteq> 0 \<longrightarrow> SepGetDaclFromDescriptor m Sd \<noteq> 0) \<and>
     (Sd_Control m Sd AND SE_SACL_PRESENT \<noteq> 0 \<longrightarrow> SepGetSaclFromDescriptor m Sd \<noteq> 0)"

lemma validate_offset:
  assumes "20 \<le> off" "off + n \<le> T" "k \<le> n" "0 < n" "4 dvd off" "T < 0x30000"
  shows "RtlpValidateSDOffsetAndSize (of_nat off) (of_nat T) (of_nat k) = (True, of_nat (T - off))"
proof -
  have u: "unat (of_nat off :: ULONG) = off" "unat (of_nat T :: ULONG) = T" "unat (of_nat k :: ULONG) = k"
    using assms by (simp_all add: unat_of_nat_32)
  then have d: "(of_nat T - of_nat off :: ULONG) = of_nat (T - off)" using assms(2) by simp
  have ud: "unat (of_nat (T - off) :: ULONG) = T - off" using assms(6) by (subst unat_of_nat_32) simp_all
  have "ROUND_DOWN (of_nat off) 4 = (of_nat off :: ULONG)" using assms(5) u(1) by (intro ROUND_DOWN_multiple) (simp add: dvd_eq_mod_eq_0)
  moreover have "\<not> of_nat off < (20 :: ULONG)" "\<not> of_nat T \<le> (of_nat off :: ULONG)" "\<not> of_nat (T - off) < (of_nat k :: ULONG)"
    using assms u ud unfolding word_less_nat_alt word_le_nat_alt by simp_all
  ultimately show ?thesis unfolding RtlpValidateSDOffsetAndSize_def d by simp
qed

lemma valid_relative_parts:
  assumes "20 \<le> off" "4 dvd off" "T < 0x30000"
  shows "RtlValidSid m (R + off) \<Longrightarrow> 12 \<le> sid_len m (R + off) \<Longrightarrow> off + sid_len m (R + off) \<le> T \<Longrightarrow>
      valid_relative_sid m R (of_nat T) (of_nat off) b"
    and "RtlValidAcl m (R + off) \<Longrightarrow> off + unat (AclSize m (R + off)) \<le> T \<Longrightarrow>
      valid_relative_acl m R (of_nat T) (of_nat off) b"
proof -
  assume h: "RtlValidSid m (R + off)" "12 \<le> sid_len m (R + off)" "off + sid_len m (R + off) \<le> T"
  have "\<not> of_nat (T - off) < RtlLengthSid m (R + off)"
    using h assms(3) unfolding word_less_nat_alt by (simp add: unat_of_nat_32 of_nat_diff [symmetric] del: of_nat_diff)
  moreover have "of_nat off \<noteq> (0 :: ULONG)"
  proof
    assume "of_nat off = (0 :: ULONG)"
    then have "unat (of_nat off :: ULONG) = 0" by simp
    then show False using h assms by (simp add: unat_of_nat_32)
  qed
  ultimately show "valid_relative_sid m R (of_nat T) (of_nat off) b"
    using h assms validate_offset [of off "sid_len m (R + off)" T 12]
    by (simp add: valid_relative_sid_def Let_def unat_of_nat_32 add.commute)
next
  assume h: "RtlValidAcl m (R + off)" "off + unat (AclSize m (R + off)) \<le> T"
  have "8 \<le> unat (AclSize m (R + off))" using RtlValidAcl_aces(2) [OF h(1)] by (simp add: acl_end_def)
  moreover have "\<not> of_nat (T - off) < (ucast (AclSize m (R + off)) :: ULONG)"
    using h assms(3) unfolding word_less_nat_alt by (simp add: unat_of_nat_32 of_nat_diff [symmetric] del: of_nat_diff)
  ultimately show "valid_relative_acl m R (of_nat T) (of_nat off) b"
    using h assms validate_offset [of off "unat (AclSize m (R + off))" T 8]
    by (simp add: valid_relative_acl_def Let_def unat_of_nat_32 add.commute)
qed


text \<open>One component of the new descriptor: present exactly when it was, with the same bytes, and valid.\<close>

lemma sid_moved:
  assumes v: "p \<noteq> 0 \<Longrightarrow> RtlValidSid m p" and w: "w = sid_room m p" and eq: "\<And>j. j < w \<Longrightarrow> m' (R + off + j) = m (p + j)"
    and off: "20 \<le> off" "4 dvd off" "off + w \<le> T" "T < 0x30000"
  shows "(w = 0) = (p = 0)" "sid_part m' (if w = 0 then 0 else R + off) = sid_part m p"
    and "(p \<noteq> 0 \<longrightarrow> 12 \<le> sid_len m p) \<Longrightarrow> valid_relative_sid m' R (of_nat T) (if w = 0 then 0 else of_nat off) False"
proof -
  show z: "(w = 0) = (p = 0)" using sid_len_ge [of m p] by (simp add: w sid_room_def)
  have mv: "RtlValidSid m' (R + off)" "sid_bytes m' (R + off) = sid_bytes m p" "sid_len m' (R + off) = sid_len m p" if "p \<noteq> 0"
    using RtlValidSid_move [OF v that, of m' "R + off"] that eq by (simp_all add: w sid_room_def)
  then show "sid_part m' (if w = 0 then 0 else R + off) = sid_part m p" using z off by (simp add: sid_part_def)
  show "valid_relative_sid m' R (of_nat T) (if w = 0 then 0 else of_nat off) False" if "p \<noteq> 0 \<longrightarrow> 12 \<le> sid_len m p"
  proof (cases "p = 0")
    case True
    then show ?thesis using z by (simp add: valid_relative_sid_def)
  next
    case False
    then show ?thesis using z mv that off valid_relative_parts(1) [of off T m' R] by (simp add: w sid_room_def)
  qed
qed

lemma acl_moved:
  assumes v: "p \<noteq> 0 \<Longrightarrow> RtlValidAcl m p" and w: "w = acl_room m p" and eq: "\<And>j. j < w \<Longrightarrow> m' (R + off + j) = m (p + j)"
    and off: "20 \<le> off" "4 dvd off" "off + w \<le> T" "T < 0x30000"
  shows "(w = 0) = (p = 0)" "acl_part m' (if w = 0 then 0 else R + off) = acl_part m p"
    and "(b \<longrightarrow> p \<noteq> 0) \<Longrightarrow> valid_relative_acl m' R (of_nat T) (if w = 0 then 0 else of_nat off) b"
proof -
  have ge: "unat (AclSize m p) \<le> w \<and> 8 \<le> unat (AclSize m p)" if "p \<noteq> 0"
    using RtlValidAcl_aces(2) [OF v [OF that]] that by (simp add: w acl_room_def acl_end_def)
  then show z: "(w = 0) = (p = 0)" by (auto simp: w acl_room_def)
  have mv: "RtlValidAcl m' (R + off)" "AclSize m' (R + off) = AclSize m p" if "p \<noteq> 0"
    using RtlValidAcl_move [OF v [OF that], of m' "R + off"] eq ge [OF that] by simp_all
  then show "acl_part m' (if w = 0 then 0 else R + off) = acl_part m p"
    using z off ge eq by (auto simp: acl_part_def bytes_eq_iff)
  show "valid_relative_acl m' R (of_nat T) (if w = 0 then 0 else of_nat off) b" if "b \<longrightarrow> p \<noteq> 0"
  proof (cases "p = 0")
    case True
    then show ?thesis using that by (simp add: valid_relative_acl_def)
  next
    case False
    then show ?thesis using z mv ge off valid_relative_parts(2) [of off T m' R] by simp
  qed
qed

lemma or_and_not: "(c OR f) AND NOT f = c AND NOT (f :: 'a::len word)"
  by (rule bit_word_eqI) (auto simp: bit_and_iff bit_or_iff bit_not_iff)

lemma rel_ptr:
  assumes "bit c 15" "off < 2 ^ 32" "0 < off"
  shows "sd_ptr R c (if n = 0 then 0 else of_nat off) = (if n = (0::nat) then 0 else R + off)"
proof -
  have u: "unat (of_nat off :: ULONG) = off" using assms(2) by (simp add: unat_of_nat_32)
  then have "of_nat off \<noteq> (0 :: ULONG)" using assms(3) by (metis less_not_refl unat_0)
  then show ?thesis using assms(1) u by (simp add: sd_ptr_def)
qed

lemma relative_contents:
  assumes valid: "RtlValidSecurityDescriptor m Sd"
    and p: "pS = SepGetSaclFromDescriptor m Sd" "pD = SepGetDaclFromDescriptor m Sd"
      "pO = SepGetOwnerFromDescriptor m Sd" "pG = SepGetGroupFromDescriptor m Sd"
    and l: "s = acl_room m pS" "d = acl_room m pD" "w = sid_room m pO" "g = sid_room m pG"
    and T: "T = 20 + w + g + s + d" "T < 0x30000"
    and M: "Sd_Revision m' R = Sd_Revision m Sd" "Sd_Sbz1 m' R = Sd_Sbz1 m Sd" "Sd_Control m' R = Sd_Control m Sd OR SE_SELF_RELATIVE"
      "Sd_Sacl m' R = (if s = 0 then 0 else of_nat 20)" "Sd_Dacl m' R = (if d = 0 then 0 else of_nat (20 + s))"
      "Sd_Owner m' R = (if w = 0 then 0 else of_nat (20 + s + d))" "Sd_Group m' R = (if g = 0 then 0 else of_nat (20 + s + d + w))"
      "\<And>j. j < s \<Longrightarrow> m' (R + 20 + j) = m (pS + j)" "\<And>j. j < d \<Longrightarrow> m' (R + (20 + s) + j) = m (pD + j)"
      "\<And>j. j < w \<Longrightarrow> m' (R + (20 + s + d) + j) = m (pO + j)" "\<And>j. j < g \<Longrightarrow> m' (R + (20 + s + d + w) + j) = m (pG + j)"
  shows "sd_contents m' R = sd_contents m Sd" "Sd_Control m' R AND SE_SELF_RELATIVE \<noteq> 0"
    and "sd_full m Sd \<Longrightarrow> RtlValidRelativeSecurityDescriptor m' R (of_nat T) 0"
proof -
  have dv: "4 dvd s" "4 dvd d" "4 dvd w" using sid_len_small(2) by (simp_all add: l acl_room_def sid_room_def)
  have val: "pO \<noteq> 0 \<Longrightarrow> RtlValidSid m pO" "pG \<noteq> 0 \<Longrightarrow> RtlValidSid m pG" "pD \<noteq> 0 \<Longrightarrow> RtlValidAcl m pD" "pS \<noteq> 0 \<Longrightarrow> RtlValidAcl m pS"
    and rev: "Sd_Revision m Sd = 1"
    using valid by (auto simp: RtlValidSecurityDescriptor_def Let_def p split: if_splits)
  have off: "4 dvd (20::nat)" "4 dvd 20 + s" "4 dvd 20 + s + d" "4 dvd 20 + s + d + w" using dv by simp_all
  have le: "20 + s \<le> T" "20 + s + d \<le> T" "20 + s + d + w \<le> T" "20 + s + d + w + g \<le> T" by (simp_all add: T(1))
  note O = sid_moved [OF val(1) l(3) M(10) _ off(3) le(3) T(2), simplified]
    and G = sid_moved [OF val(2) l(4) M(11) _ off(4) le(4) T(2), simplified]
    and D = acl_moved [OF val(3) l(2) M(9) _ off(2) le(2) T(2), simplified]
    and S = acl_moved [OF val(4) l(1) M(8) _ off(1) le(1) T(2), simplified]
  have c: "Sd_Control m' R = put_flag (Sd_Control m Sd) 0x8000 True" using M(3) by (simp add: put_flag_True)
  then have bits: "bit (Sd_Control m' R) 15" "bit (Sd_Control m' R) 2 = bit (Sd_Control m Sd) 2"
    "bit (Sd_Control m' R) 4 = bit (Sd_Control m Sd) 4" by (simp_all add: control_bits)
  then show "Sd_Control m' R AND SE_SELF_RELATIVE \<noteq> 0" by (simp add: control_flags)
  note ptr = rel_ptr [OF bits(1)]
  have get: "SepGetOwnerFromDescriptor m' R = (if w = 0 then 0 else R + (20 + s + d))"
    "SepGetGroupFromDescriptor m' R = (if g = 0 then 0 else R + (20 + s + d + w))"
    unfolding sd_components M(6,7) by (rule ptr, use T le in simp, simp)+
  have "sd_ptr R (Sd_Control m' R) (Sd_Dacl m' R) = (if d = 0 then 0 else R + (20 + s))"
    "sd_ptr R (Sd_Control m' R) (Sd_Sacl m' R) = (if s = 0 then 0 else R + 20)"
    unfolding M(4,5) by (rule ptr, use T le in simp, simp)+
  moreover have "\<not> bit (Sd_Control m Sd) 2 \<Longrightarrow> d = 0" "\<not> bit (Sd_Control m Sd) 4 \<Longrightarrow> s = 0"
    using D(1) S(1) by (simp_all add: p sd_components)
  ultimately have get': "SepGetDaclFromDescriptor m' R = (if d = 0 then 0 else R + (20 + s))"
    "SepGetSaclFromDescriptor m' R = (if s = 0 then 0 else R + 20)"
    by (auto simp: sd_components(3,4) bits)
  have "Sd_Control m' R AND NOT SE_SELF_RELATIVE = Sd_Control m Sd AND NOT SE_SELF_RELATIVE"
    unfolding M(3) by (rule or_and_not)
  then show "sd_contents m' R = sd_contents m Sd"
    unfolding sd_contents_def get get' p [symmetric] using M(1,2) O(2) G(2) D(2) S(2) by simp
  show "RtlValidRelativeSecurityDescriptor m' R (of_nat T) 0" if "sd_full m Sd"
  proof -
    have f: "pO \<noteq> 0 \<longrightarrow> 12 \<le> sid_len m pO" "pG \<noteq> 0 \<longrightarrow> 12 \<le> sid_len m pG" "bit (Sd_Control m Sd) 2 \<longrightarrow> pD \<noteq> 0"
      "bit (Sd_Control m Sd) 4 \<longrightarrow> pS \<noteq> 0"
      using that unfolding sd_full_def p [symmetric] control_flags by simp_all
    have "\<not> of_nat T < (20 :: ULONG)" using T by (simp add: word_less_nat_alt unat_of_nat_32 del: of_nat_add)
    then show ?thesis
      unfolding RtlValidRelativeSecurityDescriptor_def control_flags bits M(4-7)
      using rev M(1) bits(1) O(3) G(3) D(3) S(3) f by simp
  qed
qed

text \<open>
  C11.  \<^verbatim>\<open>RtlMakeSelfRelativeSD\<close> of a valid descriptor into a buffer that is large enough and apart from the
  descriptor and its components makes a self-relative descriptor with the same contents, which
  \<^verbatim>\<open>RtlValidRelativeSecurityDescriptor\<close> accepts when no SID lacks sub-authorities and no ACL is
  present but null; no byte outside the buffer changes.  A smaller buffer is left alone and the
  size needed is reported.
\<close>

theorem RtlMakeSelfRelativeSD_correct:
  assumes valid: "RtlValidSecurityDescriptor m Sd" and ap: "sd_apart m Sd R (sd_room m Sd)"
  shows "if sd_room m Sd \<le> unat Len
    then \<exists>m'. RtlMakeSelfRelativeSD m Sd R Len = (STATUS_SUCCESS, m', Len) \<and>
      sd_contents m' R = sd_contents m Sd \<and> Sd_Control m' R AND SE_SELF_RELATIVE \<noteq> 0 \<and>
      (sd_full m Sd \<longrightarrow> RtlValidRelativeSecurityDescriptor m' R (of_nat (sd_room m Sd)) 0) \<and>
      (\<forall>x. x < R \<or> R + sd_room m Sd \<le> x \<longrightarrow> m' x = m x)
    else RtlMakeSelfRelativeSD m Sd R Len = (STATUS_BUFFER_TOO_SMALL, m, of_nat (sd_room m Sd))"
proof (cases "sd_room m Sd \<le> unat Len")
  case False
  define t where "t = 20 + sid_size m (SepGetOwnerFromDescriptor m Sd) + sid_size m (SepGetGroupFromDescriptor m Sd) +
    acl_size m (SepGetSaclFromDescriptor m Sd) + acl_size m (SepGetDaclFromDescriptor m Sd)"
  have "unat t = sd_room m Sd" using unat_sd_room(1) by (simp add: t_def sd_room_def)
  then have "Len < t" "of_nat (unat t) = (of_nat (sd_room m Sd) :: ULONG)" using False by (simp_all add: word_less_nat_alt)
  then show ?thesis
    using False by (simp add: RtlMakeSelfRelativeSD_def RtlpQuerySecurityDescriptor_def Let_def t_def [symmetric])
next
  case True
  define pS pD pO pG where "pS = SepGetSaclFromDescriptor m Sd" and "pD = SepGetDaclFromDescriptor m Sd"
    and "pO = SepGetOwnerFromDescriptor m Sd" and "pG = SepGetGroupFromDescriptor m Sd"
  define s d w g where "s = acl_room m pS" and "d = acl_room m pD" and "w = sid_room m pO" and "g = sid_room m pG"
  define T where "T = 20 + w + g + s + d"
  note defs = pS_def pD_def pO_def pG_def
  have room: "sd_room m Sd = T" by (simp add: sd_room_def T_def s_def d_def w_def g_def defs)
  have T: "T \<le> unat Len" "T < 0x30000" using True room unat_sd_room(2) by (simp_all add: T_def s_def d_def w_def g_def)
  have ap': "apart Sd 20 R T" "apart pS s R T" "apart pD d R T" "apart pO w R T" "apart pG g R T"
    using ap unfolding room sd_apart_def s_def d_def w_def g_def defs by simp_all
  obtain m' where M: "RtlMakeSelfRelativeSD m Sd R Len = (STATUS_SUCCESS, m', Len)"
    "\<And>x. x < R \<or> R + T \<le> x \<Longrightarrow> m' x = m x"
    "Sd_Revision m' R = Sd_Revision m Sd" "Sd_Sbz1 m' R = Sd_Sbz1 m Sd" "Sd_Control m' R = Sd_Control m Sd OR SE_SELF_RELATIVE"
    "Sd_Sacl m' R = (if s = 0 then 0 else 20)" "Sd_Dacl m' R = (if d = 0 then 0 else of_nat (20 + s))"
    "Sd_Owner m' R = (if w = 0 then 0 else of_nat (20 + s + d))" "Sd_Group m' R = (if g = 0 then 0 else of_nat (20 + s + d + w))"
    "\<And>j. j < s \<Longrightarrow> m' (R + 20 + j) = m (pS + j)" "\<And>j. j < d \<Longrightarrow> m' (R + (20 + s) + j) = m (pD + j)"
    "\<And>j. j < w \<Longrightarrow> m' (R + (20 + s + d) + j) = m (pO + j)" "\<And>j. j < g \<Longrightarrow> m' (R + (20 + s + d + w) + j) = m (pG + j)"
    using RtlMakeSelfRelativeSD_memory [OF defs s_def d_def w_def g_def T_def T(1) ap'] by blast
  show ?thesis
    using True M(1,2) relative_contents [OF valid defs s_def d_def w_def g_def T_def T(2) M(3-5) _ M(7-13)] M(6)
    by (simp add: room)
qed

text \<open>An absolute descriptor at 500 with the SID at 10 as owner and the ACL at 100 as DACL.\<close>

definition sample_sd_mem :: mem where
  "sample_sd_mem = (\<lambda>a. if a = 500 then 1 else if a = 502 then 4 else if a = 504 then 10 else if a = 516 then 100
     else sample_mem a)"

lemma sample_sd:
  "Sd_Revision sample_sd_mem 500 = 1" "Sd_Control sample_sd_mem 500 = 4" "Sd_Owner sample_sd_mem 500 = 10"
  "Sd_Group sample_sd_mem 500 = 0" "Sd_Dacl sample_sd_mem 500 = 100" "Sd_Sacl sample_sd_mem 500 = 0"
  "RtlValidSid sample_sd_mem 10" "sid_len sample_sd_mem 10 = 12" "AclSize sample_sd_mem 100 = 64" "RtlValidAcl sample_sd_mem 100"
  by (simp_all add: sd_field_defs rd16_def rd32_def sample_sd_mem_def sample_mem_def RtlValidSid_def Sid_Revision_def
      SubAuthorityCount_def sid_len_def AclSize_def RtlValidAcl_def AclRevision_def AceCount_def ROUND_DOWN_def)

lemma sample_sd_parts:
  "SepGetOwnerFromDescriptor sample_sd_mem 500 = 10" "SepGetGroupFromDescriptor sample_sd_mem 500 = 0"
  "SepGetDaclFromDescriptor sample_sd_mem 500 = 100" "SepGetSaclFromDescriptor sample_sd_mem 500 = 0"
  by (simp_all add: SepGetOwnerFromDescriptor_def SepGetGroupFromDescriptor_def SepGetDaclFromDescriptor_def
      SepGetSaclFromDescriptor_def sample_sd)

theorem RtlMakeSelfRelativeSD_correct_witness:
  "\<exists>m'. RtlMakeSelfRelativeSD sample_sd_mem 500 600 200 = (STATUS_SUCCESS, m', 200) \<and>
     sd_contents m' 600 = sd_contents sample_sd_mem 500 \<and> RtlValidRelativeSecurityDescriptor m' 600 96 0"
proof -
  have "RtlValidSecurityDescriptor sample_sd_mem 500"
    by (simp add: RtlValidSecurityDescriptor_def sample_sd sample_sd_parts)
  moreover have "sd_room sample_sd_mem 500 = 96" "sd_full sample_sd_mem 500" "sd_apart sample_sd_mem 500 600 96"
    by (simp_all add: sd_room_def sd_full_def sd_apart_def apart_def sid_room_def acl_room_def sample_sd sample_sd_parts)
  ultimately show ?thesis using RtlMakeSelfRelativeSD_correct [of sample_sd_mem 500 600 200] by auto
qed

end
