(* ===== verification/Rtl_Sd_Valid.thy ===== *)
theory Rtl_Sd_Valid
  imports Rtl_Sd_Convert
begin

text \<open>
  What \<^verbatim>\<open>RtlValidRelativeSecurityDescriptor\<close> of \<^verbatim>\<open>sdk/lib/rtl/sd.c\<close> promises about a buffer, and the conversion
  of such a buffer to an absolute descriptor in place.
\<close>

section \<open>What a valid self-relative descriptor promises\<close>

lemma validate_offset_ok:
  assumes "RtlpValidateSDOffsetAndSize Offset Length MinLength = (True, Mx)"
  shows "20 \<le> unat Offset" "unat Offset < unat Length" "unat Mx = unat Length - unat Offset"
  using assms by (auto simp: RtlpValidateSDOffsetAndSize_def word_less_nat_alt word_le_nat_alt unat_sub split: if_splits)

lemma valid_relative_sidD:
  assumes "valid_relative_sid m Sd Length Offset b" "Offset \<noteq> 0"
  shows "RtlValidSid m (Sd + unat Offset)" "20 \<le> unat Offset" "unat Offset + sid_len m (Sd + unat Offset) \<le> unat Length"
proof -
  obtain Mx where v: "RtlpValidateSDOffsetAndSize Offset Length 12 = (True, Mx)"
    using assms by (auto simp: valid_relative_sid_def split: prod.splits if_splits)
  then have "RtlValidSid m (Sd + unat Offset)" "sid_len m (Sd + unat Offset) \<le> unat Mx"
    using assms by (auto simp: valid_relative_sid_def Let_def word_less_nat_alt add.commute split: if_splits)
  with validate_offset_ok [OF v] show "RtlValidSid m (Sd + unat Offset)" "20 \<le> unat Offset"
    "unat Offset + sid_len m (Sd + unat Offset) \<le> unat Length" by simp_all
qed

lemma valid_relative_aclD:
  assumes "valid_relative_acl m Sd Length Offset b" b
  shows "RtlValidAcl m (Sd + unat Offset)" "20 \<le> unat Offset" "unat Offset + unat (AclSize m (Sd + unat Offset)) \<le> unat Length"
proof -
  obtain Mx where v: "RtlpValidateSDOffsetAndSize Offset Length 8 = (True, Mx)"
    using assms by (auto simp: valid_relative_acl_def split: prod.splits if_splits)
  then have "RtlValidAcl m (Sd + unat Offset)" "unat (AclSize m (Sd + unat Offset)) \<le> unat Mx"
    using assms by (auto simp: valid_relative_acl_def Let_def word_less_nat_alt add.commute split: if_splits)
  with validate_offset_ok [OF v] show "RtlValidAcl m (Sd + unat Offset)" "20 \<le> unat Offset"
    "unat Offset + unat (AclSize m (Sd + unat Offset)) \<le> unat Length" by simp_all
qed

definition inside :: "nat \<Rightarrow> nat \<Rightarrow> nat \<Rightarrow> nat \<Rightarrow> bool" where
  "inside Sd n p k \<longleftrightarrow> Sd + 20 \<le> p \<and> p + k \<le> Sd + n"

lemma relative_parts:
  assumes "RtlValidRelativeSecurityDescriptor m Sd Length Required"
  defines "pO \<equiv> SepGetOwnerFromDescriptor m Sd" and "pG \<equiv> SepGetGroupFromDescriptor m Sd"
    and "pD \<equiv> SepGetDaclFromDescriptor m Sd" and "pS \<equiv> SepGetSaclFromDescriptor m Sd"
  shows "bit (Sd_Control m Sd) 15" "Sd_Revision m Sd = 1"
    and "pO \<noteq> 0 \<Longrightarrow> RtlValidSid m pO \<and> inside Sd (unat Length) pO (sid_len m pO)"
    and "pG \<noteq> 0 \<Longrightarrow> RtlValidSid m pG \<and> inside Sd (unat Length) pG (sid_len m pG)"
    and "pD \<noteq> 0 \<Longrightarrow> RtlValidAcl m pD \<and> inside Sd (unat Length) pD (unat (AclSize m pD))"
    and "pS \<noteq> 0 \<Longrightarrow> RtlValidAcl m pS \<and> inside Sd (unat Length) pS (unat (AclSize m pS))"
    and "pO = 0 \<Longrightarrow> Required AND OWNER_SECURITY_INFORMATION = 0" "pG = 0 \<Longrightarrow> Required AND GROUP_SECURITY_INFORMATION = 0"
proof -
  show b: "bit (Sd_Control m Sd) 15" and "Sd_Revision m Sd = 1"
    using assms(1) by (auto simp: RtlValidRelativeSecurityDescriptor_def control_flags split: if_splits)
  have v: "valid_relative_sid m Sd Length (Sd_Owner m Sd) (Required AND OWNER_SECURITY_INFORMATION \<noteq> 0)"
    "valid_relative_sid m Sd Length (Sd_Group m Sd) (Required AND GROUP_SECURITY_INFORMATION \<noteq> 0)"
    "valid_relative_acl m Sd Length (Sd_Dacl m Sd) (bit (Sd_Control m Sd) 2)"
    "valid_relative_acl m Sd Length (Sd_Sacl m Sd) (bit (Sd_Control m Sd) 4)"
    using assms(1) unfolding RtlValidRelativeSecurityDescriptor_def control_flags by (metis (full_types))+
  note p = pO_def pG_def pD_def pS_def sd_components sd_ptr_def b
  show "pO \<noteq> 0 \<Longrightarrow> RtlValidSid m pO \<and> inside Sd (unat Length) pO (sid_len m pO)"
    using valid_relative_sidD [OF v(1)] by (simp add: p inside_def split: if_splits)
  show "pG \<noteq> 0 \<Longrightarrow> RtlValidSid m pG \<and> inside Sd (unat Length) pG (sid_len m pG)"
    using valid_relative_sidD [OF v(2)] by (simp add: p inside_def split: if_splits)
  show "pD \<noteq> 0 \<Longrightarrow> RtlValidAcl m pD \<and> inside Sd (unat Length) pD (unat (AclSize m pD))"
    using valid_relative_aclD [OF v(3)] by (simp add: p inside_def split: if_splits)
  show "pS \<noteq> 0 \<Longrightarrow> RtlValidAcl m pS \<and> inside Sd (unat Length) pS (unat (AclSize m pS))"
    using valid_relative_aclD [OF v(4)] by (simp add: p inside_def split: if_splits)
  have "pO = 0 \<Longrightarrow> Sd_Owner m Sd = 0" "pG = 0 \<Longrightarrow> Sd_Group m Sd = 0" by (auto simp: p unat_eq_zero split: if_splits)
  then show "pO = 0 \<Longrightarrow> Required AND OWNER_SECURITY_INFORMATION = 0" "pG = 0 \<Longrightarrow> Required AND GROUP_SECURITY_INFORMATION = 0"
    using v(1,2) by (auto simp: valid_relative_sid_def split: if_splits)
qed

text \<open>
  C16.  When \<^verbatim>\<open>RtlValidRelativeSecurityDescriptor\<close> accepts a buffer, every component lies inside the buffer
  after the header, \<^verbatim>\<open>RtlValidSecurityDescriptor\<close> accepts the descriptor as well, and a required owner
  or group is there.
\<close>

theorem RtlValidRelativeSecurityDescriptor_sound:
  assumes "RtlValidRelativeSecurityDescriptor m Sd Length Required"
  shows "RtlValidSecurityDescriptor m Sd \<and>
    (let Owner = SepGetOwnerFromDescriptor m Sd; Group = SepGetGroupFromDescriptor m Sd;
         Dacl = SepGetDaclFromDescriptor m Sd; Sacl = SepGetSaclFromDescriptor m Sd
     in (if Owner = 0 then Required AND OWNER_SECURITY_INFORMATION = 0 else inside Sd (unat Length) Owner (sid_len m Owner)) \<and>
        (if Group = 0 then Required AND GROUP_SECURITY_INFORMATION = 0 else inside Sd (unat Length) Group (sid_len m Group)) \<and>
        (Dacl = 0 \<or> inside Sd (unat Length) Dacl (unat (AclSize m Dacl))) \<and>
        (Sacl = 0 \<or> inside Sd (unat Length) Sacl (unat (AclSize m Sacl))))"
proof -
  note r = relative_parts [OF assms]
  show ?thesis using r by (auto simp: RtlValidSecurityDescriptor_def Let_def)
qed

text \<open>Components outside the header are not affected by a change of the header.\<close>

lemma parts_kept:
  assumes eq: "\<And>x. x < Sd \<or> Sd + 20 \<le> x \<Longrightarrow> m' x = m x" and p: "Sd + 20 \<le> p"
  shows "RtlValidSid m p \<Longrightarrow> RtlValidSid m' p \<and> sid_part m' p = sid_part m p"
    and "RtlValidAcl m p \<Longrightarrow> RtlValidAcl m' p \<and> acl_part m' p = acl_part m p"
proof -
  assume "RtlValidSid m p"
  then show "RtlValidSid m' p \<and> sid_part m' p = sid_part m p"
    using RtlValidSid_move [of m p m' p] eq p by (simp add: sid_part_def)
next
  assume v: "RtlValidAcl m p"
  then have "RtlValidAcl m' p \<and> AclSize m' p = AclSize m p" using RtlValidAcl_move [OF v, of m' p] eq p by simp
  then show "RtlValidAcl m' p \<and> acl_part m' p = acl_part m p" using eq p by (auto simp: acl_part_def bytes_eq_iff)
qed

text \<open>
  C17.  \<^verbatim>\<open>RtlSelfRelativeToAbsoluteSD2\<close> converts a valid self-relative descriptor in place: on a 32-bit build
  it succeeds, keeps the contents, clears the self-relative flag and leaves a valid descriptor.
\<close>

theorem RtlSelfRelativeToAbsoluteSD2_correct:
  assumes "RtlValidRelativeSecurityDescriptor m Sd Length Required" "Sd \<noteq> 0" "Sd + unat Length \<le> 2 ^ 32" "BufferSize \<noteq> 0"
  shows "\<exists>m'. RtlSelfRelativeToAbsoluteSD2 m Sd BufferSize = (STATUS_SUCCESS, m') \<and> sd_contents m' Sd = sd_contents m Sd \<and>
    Sd_Control m' Sd AND SE_SELF_RELATIVE = 0 \<and> RtlValidSecurityDescriptor m' Sd"
proof -
  define pO pG pD pS where "pO = SepGetOwnerFromDescriptor m Sd" and "pG = SepGetGroupFromDescriptor m Sd"
    and "pD = SepGetDaclFromDescriptor m Sd" and "pS = SepGetSaclFromDescriptor m Sd"
  note r = relative_parts [OF assms(1), folded pO_def pG_def pD_def pS_def]
  define m' where "m' = snd (RtlSelfRelativeToAbsoluteSD2 m Sd BufferSize)"
  have c: "Sd_Control m Sd AND SE_SELF_RELATIVE \<noteq> 0" using r(1) by (simp add: control_flags)
  have ok: "RtlSelfRelativeToAbsoluteSD2 m Sd BufferSize = (STATUS_SUCCESS, m')"
    using assms(2,4) c by (simp add: RtlSelfRelativeToAbsoluteSD2_def m'_def Let_def)
  have rd: "read_sd m' Sd = (read_sd m Sd)\<lparr>sd_control := put_flag (Sd_Control m Sd) 0x8000 False, sd_owner := of_nat pO,
      sd_group := of_nat pG, sd_sacl := of_nat pS, sd_dacl := of_nat pD\<rparr>"
    using assms(2,4) c by (simp add: m'_def RtlSelfRelativeToAbsoluteSD2_def Let_def RtlpQuerySecurityDescriptor_def
        pO_def pG_def pD_def pS_def put_flag_def)
  have eq: "m' x = m x" if "x < Sd \<or> Sd + 20 \<le> x" for x
    using that assms(2,4) c by (auto simp: m'_def RtlSelfRelativeToAbsoluteSD2_def Let_def wr32_apply wr16_apply)
  have f: "Sd_Revision m' Sd = Sd_Revision m Sd" "Sd_Sbz1 m' Sd = Sd_Sbz1 m Sd" "Sd_Control m' Sd = put_flag (Sd_Control m Sd) 0x8000 False"
    "Sd_Owner m' Sd = of_nat pO" "Sd_Group m' Sd = of_nat pG" "Sd_Sacl m' Sd = of_nat pS" "Sd_Dacl m' Sd = of_nat pD"
    using rd by (simp_all add: read_sd_def)
  have ge: "8 \<le> unat (AclSize m p)" if "RtlValidAcl m p" for p
    using RtlValidAcl_aces(2) [OF that] by (simp add: acl_end_def)
  have lt: "p < 2 ^ 32" if "p = 0 \<or> inside Sd (unat Length) p k \<and> 8 \<le> k" for p k
    using that assms(3) by (auto simp: inside_def)
  have small: "pO < 2 ^ 32" "pG < 2 ^ 32" "pD < 2 ^ 32" "pS < 2 ^ 32"
    using lt [of pO "sid_len m pO"] lt [of pG "sid_len m pG"] lt [of pD "unat (AclSize m pD)"] lt [of pS "unat (AclSize m pS)"]
      r(3-6) ge [of pD] ge [of pS] sid_len_ge [of m pO] sid_len_ge [of m pG] by argo+
  have "bit (Sd_Control m Sd) 2 \<or> pD = 0" "bit (Sd_Control m Sd) 4 \<or> pS = 0" by (simp_all add: pD_def pS_def sd_components)
  then have get: "SepGetOwnerFromDescriptor m' Sd = pO" "SepGetGroupFromDescriptor m' Sd = pG"
    "SepGetDaclFromDescriptor m' Sd = pD" "SepGetSaclFromDescriptor m' Sd = pS"
    using small by (auto simp: sd_components sd_ptr_def f control_bits unat_of_nat_32)
  note kept = parts_kept [of Sd m' m, OF eq]
  have O: "pO \<noteq> 0 \<Longrightarrow> RtlValidSid m' pO" "sid_part m' pO = sid_part m pO"
    using r(3) kept(1) [of pO] by (auto simp: inside_def sid_part_def)
  have G: "pG \<noteq> 0 \<Longrightarrow> RtlValidSid m' pG" "sid_part m' pG = sid_part m pG"
    using r(4) kept(1) [of pG] by (auto simp: inside_def sid_part_def)
  have D: "pD \<noteq> 0 \<Longrightarrow> RtlValidAcl m' pD" "acl_part m' pD = acl_part m pD"
    using r(5) kept(2) [of pD] by (auto simp: inside_def acl_part_def)
  have S: "pS \<noteq> 0 \<Longrightarrow> RtlValidAcl m' pS" "acl_part m' pS = acl_part m pS"
    using r(6) kept(2) [of pS] by (auto simp: inside_def acl_part_def)
  have "put_flag k 0x8000 False AND NOT SE_SELF_RELATIVE = k AND NOT SE_SELF_RELATIVE" for k :: USHORT
    by (simp add: put_flag_def and.assoc)
  then have "sd_contents m' Sd = sd_contents m Sd"
    unfolding sd_contents_def get f O G D S by (simp add: pO_def pG_def pD_def pS_def)
  moreover have "Sd_Control m' Sd AND SE_SELF_RELATIVE = 0" by (simp add: f control_flags control_bits)
  moreover have "RtlValidSecurityDescriptor m' Sd"
    using O(1) G(1) D(1) S(1) r(2) by (auto simp: RtlValidSecurityDescriptor_def get f)
  ultimately show ?thesis using ok by blast
qed

text \<open>A self-relative descriptor of 32 bytes at 500 with an owner.\<close>

definition relative_sd_mem :: mem where
  "relative_sd_mem = (\<lambda>a. if a = 500 then 1 else if a = 503 then 0x80 else if a = 504 then 20 else if a = 520 then 1
     else if a = 521 then 1 else 0)"

lemma relative_sd: "RtlValidRelativeSecurityDescriptor relative_sd_mem 500 32 1"
proof -
  have f: "Sd_Revision relative_sd_mem 500 = 1" "Sd_Control relative_sd_mem 500 = 0x8000" "Sd_Owner relative_sd_mem 500 = 20"
    "Sd_Group relative_sd_mem 500 = 0" "RtlValidSid relative_sd_mem 520" "RtlLengthSid relative_sd_mem 520 = 12"
    by (simp_all add: sd_field_defs rd16_def rd32_def relative_sd_mem_def RtlValidSid_def Sid_Revision_def
        SubAuthorityCount_def RtlLengthSid_def)
  have "valid_relative_sid relative_sd_mem 500 32 20 True"
    by (simp add: valid_relative_sid_def RtlpValidateSDOffsetAndSize_def ROUND_DOWN_def f)
  then show ?thesis
    by (simp add: RtlValidRelativeSecurityDescriptor_def f valid_relative_acl_def)
       (simp add: valid_relative_sid_def)
qed

theorem RtlValidRelativeSecurityDescriptor_sound_witness: "RtlValidSecurityDescriptor relative_sd_mem 500"
  using RtlValidRelativeSecurityDescriptor_sound [OF relative_sd] by (simp only: simp_thms)

theorem RtlSelfRelativeToAbsoluteSD2_correct_witness:
  "\<exists>m'. RtlSelfRelativeToAbsoluteSD2 relative_sd_mem 500 400 = (STATUS_SUCCESS, m') \<and>
     sd_contents m' 500 = sd_contents relative_sd_mem 500"
  using RtlSelfRelativeToAbsoluteSD2_correct [OF relative_sd, of 400] by auto

end
