(* ===== verification/Rtl_Access.thy ===== *)
theory Rtl_Access
  imports Ros_Prelude
begin

text \<open>
  Access masks: \<^verbatim>\<open>sdk/lib/rtl/access.c\<close>, with the masks as 32-bit words and the generic mapping as a
  record.
\<close>

abbreviation (input) READ_CONTROL :: ACCESS_MASK where "READ_CONTROL \<equiv> 0x00020000"
abbreviation (input) WRITE_DAC :: ACCESS_MASK where "WRITE_DAC \<equiv> 0x00040000"
abbreviation (input) WRITE_OWNER :: ACCESS_MASK where "WRITE_OWNER \<equiv> 0x00080000"
abbreviation (input) ACCESS_SYSTEM_SECURITY :: ACCESS_MASK where "ACCESS_SYSTEM_SECURITY \<equiv> 0x01000000"
abbreviation (input) MAXIMUM_ALLOWED :: ACCESS_MASK where "MAXIMUM_ALLOWED \<equiv> 0x02000000"
abbreviation (input) GENERIC_ALL :: ACCESS_MASK where "GENERIC_ALL \<equiv> 0x10000000"
abbreviation (input) GENERIC_EXECUTE :: ACCESS_MASK where "GENERIC_EXECUTE \<equiv> 0x20000000"
abbreviation (input) GENERIC_WRITE :: ACCESS_MASK where "GENERIC_WRITE \<equiv> 0x40000000"
abbreviation (input) GENERIC_READ :: ACCESS_MASK where "GENERIC_READ \<equiv> 0x80000000"

text \<open>The four generic rights together.\<close>

abbreviation (input) GENERIC_ACCESS :: ACCESS_MASK where "GENERIC_ACCESS \<equiv> 0xF0000000"

record GENERIC_MAPPING =
  GenericRead :: ACCESS_MASK
  GenericWrite :: ACCESS_MASK
  GenericExecute :: ACCESS_MASK
  GenericAll :: ACCESS_MASK

definition RtlAreAllAccessesGranted :: "ACCESS_MASK \<Rightarrow> ACCESS_MASK \<Rightarrow> bool" where
  "RtlAreAllAccessesGranted GrantedAccess DesiredAccess = (NOT GrantedAccess AND DesiredAccess = 0)"

definition RtlAreAnyAccessesGranted :: "ACCESS_MASK \<Rightarrow> ACCESS_MASK \<Rightarrow> bool" where
  "RtlAreAnyAccessesGranted GrantedAccess DesiredAccess = (GrantedAccess AND DesiredAccess \<noteq> 0)"

definition RtlMapGenericMask :: "ACCESS_MASK \<Rightarrow> GENERIC_MAPPING \<Rightarrow> ACCESS_MASK" where
  "RtlMapGenericMask AccessMask GenericMapping =
     (let AccessMask = (if AccessMask AND GENERIC_READ \<noteq> 0 then AccessMask OR GenericRead GenericMapping else AccessMask);
          AccessMask = (if AccessMask AND GENERIC_WRITE \<noteq> 0 then AccessMask OR GenericWrite GenericMapping else AccessMask);
          AccessMask = (if AccessMask AND GENERIC_EXECUTE \<noteq> 0 then AccessMask OR GenericExecute GenericMapping else AccessMask);
          AccessMask = (if AccessMask AND GENERIC_ALL \<noteq> 0 then AccessMask OR GenericAll GenericMapping else AccessMask)
      in AccessMask AND NOT (GENERIC_READ OR GENERIC_WRITE OR GENERIC_EXECUTE OR GENERIC_ALL))"

section \<open>Masks bit by bit\<close>

lemma mask_eq_0_iff: "a = 0 \<longleftrightarrow> (\<forall>k. \<not> bit (a :: 'a::len word) k)"
  using bit_word_eqI [of a 0] by auto

lemma and_eq_0_iff: "a AND b = 0 \<longleftrightarrow> (\<forall>k. \<not> (bit (a :: 'a::len word) k \<and> bit b k))"
  by (simp add: mask_eq_0_iff bit_and_iff)

lemma and_power_eq_0_iff: "a AND 2 ^ k = 0 \<longleftrightarrow> \<not> bit (a :: 'a::len word) k"
  by (rule and_exp_eq_0_iff_not_bit)

lemma generic_flags:
  fixes a :: ACCESS_MASK
  shows "a AND GENERIC_ALL = 0 \<longleftrightarrow> \<not> bit a 28" "a AND GENERIC_EXECUTE = 0 \<longleftrightarrow> \<not> bit a 29"
    "a AND GENERIC_WRITE = 0 \<longleftrightarrow> \<not> bit a 30" "a AND GENERIC_READ = 0 \<longleftrightarrow> \<not> bit a 31"
    "a AND MAXIMUM_ALLOWED = 0 \<longleftrightarrow> \<not> bit a 25" "a AND ACCESS_SYSTEM_SECURITY = 0 \<longleftrightarrow> \<not> bit a 24"
    "a AND WRITE_OWNER = 0 \<longleftrightarrow> \<not> bit a 19"
  using and_power_eq_0_iff [of a 28] and_power_eq_0_iff [of a 29] and_power_eq_0_iff [of a 30] and_power_eq_0_iff [of a 31]
    and_power_eq_0_iff [of a 25] and_power_eq_0_iff [of a 24] and_power_eq_0_iff [of a 19]
  by simp_all

lemma bit_generic_access: "bit GENERIC_ACCESS k \<longleftrightarrow> 28 \<le> k \<and> k < 32"
proof -
  have "GENERIC_ACCESS = push_bit 28 (mask 4)" by (simp add: mask_eq_exp_minus_1 push_bit_eq_mult)
  then show ?thesis by (simp only: bit_push_bit_iff bit_mask_iff) auto
qed

lemma bit_not_generic: "bit (x AND NOT GENERIC_ACCESS) k \<longleftrightarrow> bit x k \<and> k < 28"
proof -
  have "bit x k \<Longrightarrow> k < 32" using bit_imp_le_length [of x k] by simp
  then show ?thesis unfolding bit_and_iff bit_not_iff bit_generic_access by auto
qed

lemma all_granted_iff: "RtlAreAllAccessesGranted g d \<longleftrightarrow> (\<forall>k. bit d k \<longrightarrow> bit g k)"
proof -
  have "bit d k \<Longrightarrow> k < 32" for k using bit_imp_le_length [of d k] by simp
  then show ?thesis by (auto simp: RtlAreAllAccessesGranted_def and_eq_0_iff bit_not_iff)
qed

lemma any_granted_iff: "RtlAreAnyAccessesGranted g d \<longleftrightarrow> (\<exists>k. bit g k \<and> bit d k)"
  by (auto simp: RtlAreAnyAccessesGranted_def and_eq_0_iff)

section \<open>Generic rights\<close>

text \<open>A mapping that maps to specific and standard rights only.\<close>

definition specific_mapping :: "GENERIC_MAPPING \<Rightarrow> bool" where
  "specific_mapping g \<longleftrightarrow> GenericRead g AND GENERIC_ACCESS = 0 \<and> GenericWrite g AND GENERIC_ACCESS = 0 \<and>
     GenericExecute g AND GENERIC_ACCESS = 0 \<and> GenericAll g AND GENERIC_ACCESS = 0"

lemma specific_mapping_bits:
  assumes "specific_mapping g" "28 \<le> k"
  shows "\<not> bit (GenericRead g) k" "\<not> bit (GenericWrite g) k" "\<not> bit (GenericExecute g) k" "\<not> bit (GenericAll g) k"
proof -
  have *: "\<not> bit a k" if "a AND GENERIC_ACCESS = 0" for a :: ACCESS_MASK
  proof
    assume b: "bit a k"
    then have "k < 32" using bit_imp_le_length [of a k] by simp
    then show False using that b assms(2) unfolding and_eq_0_iff bit_generic_access by blast
  qed
  show "\<not> bit (GenericRead g) k" "\<not> bit (GenericWrite g) k" "\<not> bit (GenericExecute g) k" "\<not> bit (GenericAll g) k"
    using assms(1) by (simp_all add: specific_mapping_def *)
qed

lemma generic_rights: "GENERIC_READ OR GENERIC_WRITE OR GENERIC_EXECUTE OR GENERIC_ALL = GENERIC_ACCESS"
  by simp

lemma RtlMapGenericMask_no_generic: "RtlMapGenericMask a g AND GENERIC_ACCESS = 0"
  unfolding RtlMapGenericMask_def generic_rights by (simp add: Let_def and.assoc)

lemma RtlMapGenericMask_bit:
  assumes "specific_mapping g"
  shows "bit (RtlMapGenericMask a g) k \<longleftrightarrow> k < 28 \<and> (bit a k \<or> bit a 31 \<and> bit (GenericRead g) k \<or>
    bit a 30 \<and> bit (GenericWrite g) k \<or> bit a 29 \<and> bit (GenericExecute g) k \<or> bit a 28 \<and> bit (GenericAll g) k)"
proof -
  note sp = specific_mapping_bits [OF assms]
  show ?thesis
    unfolding RtlMapGenericMask_def generic_rights Let_def bit_not_generic
    by (auto simp: generic_flags bit_or_iff sp)
qed

text \<open>
  \<^verbatim>\<open>RtlMapGenericMask\<close> leaves no generic right, and for a mapping to specific rights the result holds
  exactly the rights of the mask together with those that its generic rights stand for; mapping
  twice changes nothing more.
\<close>

theorem RtlMapGenericMask_correct:
  assumes "specific_mapping g"
  shows "RtlMapGenericMask a g AND GENERIC_ACCESS = 0 \<and> RtlMapGenericMask (RtlMapGenericMask a g) g = RtlMapGenericMask a g \<and>
    (\<forall>k < 28. bit (RtlMapGenericMask a g) k \<longleftrightarrow> bit a k \<or> bit a 31 \<and> bit (GenericRead g) k \<or>
       bit a 30 \<and> bit (GenericWrite g) k \<or> bit a 29 \<and> bit (GenericExecute g) k \<or> bit a 28 \<and> bit (GenericAll g) k)"
proof -
  have "RtlMapGenericMask (RtlMapGenericMask a g) g = RtlMapGenericMask a g"
    by (rule bit_word_eqI) (simp add: RtlMapGenericMask_bit [OF assms])
  then show ?thesis by (simp add: RtlMapGenericMask_no_generic RtlMapGenericMask_bit [OF assms])
qed

text \<open>The mapping of files, from \<^verbatim>\<open>ntoskrnl/io/iomgr/iomgr.c\<close>.\<close>

definition file_mapping :: GENERIC_MAPPING where
  "file_mapping = \<lparr>GenericRead = 0x120089, GenericWrite = 0x120116, GenericExecute = 0x1200A0, GenericAll = 0x1F01FF\<rparr>"

theorem RtlMapGenericMask_correct_witness:
  "RtlMapGenericMask (RtlMapGenericMask 0x80000000 file_mapping) file_mapping = RtlMapGenericMask 0x80000000 file_mapping"
  using RtlMapGenericMask_correct [of file_mapping "0x80000000"] by (simp add: specific_mapping_def file_mapping_def)

end
