(* ===== verification/Se_Token.thy ===== *)
theory Se_Token
  imports Rtl_Sd Rtl_Access
begin

text \<open>
  Tokens and the SIDs they hold: the parts of \<^verbatim>\<open>TOKEN\<close> (\<^verbatim>\<open>sdk/include/ndk/setypes.h\<close>) that access checks
  read, \<^verbatim>\<open>SepSidInTokenEx\<close> and \<^verbatim>\<open>SepGetSidFromAce\<close> of \<^verbatim>\<open>ntoskrnl/se/sid.c\<close>, and the predicates on tokens
  of \<^verbatim>\<open>ntoskrnl/se/token.c\<close>.  An array with its count is a list.  SIDs stay in memory, a token holds
  pointers to them.  The token lock is not modelled: every function here runs with the lock held
  for all of its reads.
\<close>

section \<open>Types\<close>

datatype KPROCESSOR_MODE = KernelMode | UserMode

datatype TOKEN_TYPE = TokenPrimary | TokenImpersonation

datatype SECURITY_IMPERSONATION_LEVEL =
  SecurityAnonymous | SecurityIdentification | SecurityImpersonation | SecurityDelegation

text \<open>The enumeration is ordered as its values are.\<close>

fun level_value :: "SECURITY_IMPERSONATION_LEVEL \<Rightarrow> nat" where
  "level_value SecurityAnonymous = 0"
| "level_value SecurityIdentification = 1"
| "level_value SecurityImpersonation = 2"
| "level_value SecurityDelegation = 3"

lemma level_value_inj: "level_value a = level_value b \<Longrightarrow> a = b"
  by (cases a; cases b) simp_all

instantiation SECURITY_IMPERSONATION_LEVEL :: linorder
begin

definition less_eq_SECURITY_IMPERSONATION_LEVEL ::
  "SECURITY_IMPERSONATION_LEVEL \<Rightarrow> SECURITY_IMPERSONATION_LEVEL \<Rightarrow> bool" where
  "less_eq_SECURITY_IMPERSONATION_LEVEL a b \<longleftrightarrow> level_value a \<le> level_value b"

definition less_SECURITY_IMPERSONATION_LEVEL ::
  "SECURITY_IMPERSONATION_LEVEL \<Rightarrow> SECURITY_IMPERSONATION_LEVEL \<Rightarrow> bool" where
  "less_SECURITY_IMPERSONATION_LEVEL a b \<longleftrightarrow> level_value a < level_value b"

instance
  by standard (auto simp: less_eq_SECURITY_IMPERSONATION_LEVEL_def less_SECURITY_IMPERSONATION_LEVEL_def level_value_inj)

end

record LUID =
  LowPart :: ULONG
  HighPart :: ULONG

record LUID_AND_ATTRIBUTES =
  Luid :: LUID
  Luid_Attributes :: ULONG

record TOKEN =
  UserAndGroups :: "SID_AND_ATTRIBUTES list"
  RestrictedSids :: "SID_AND_ATTRIBUTES list"
  Token_Privileges :: "LUID_AND_ATTRIBUTES list"
  TokenType :: TOKEN_TYPE
  ImpersonationLevel :: SECURITY_IMPERSONATION_LEVEL
  TokenFlags :: ULONG

record SECURITY_SUBJECT_CONTEXT =
  ClientToken :: "TOKEN option"
  Subject_ImpersonationLevel :: SECURITY_IMPERSONATION_LEVEL
  PrimaryToken :: TOKEN
  ProcessAuditId :: nat

text \<open>The well-known SIDs that the code refers to through global pointers.\<close>

record SE_SIDS =
  SePrincipalSelfSid :: nat
  SeWorldSid :: nat

abbreviation (input) SE_GROUP_ENABLED :: ULONG where "SE_GROUP_ENABLED \<equiv> 0x4"
abbreviation (input) SE_GROUP_USE_FOR_DENY_ONLY :: ULONG where "SE_GROUP_USE_FOR_DENY_ONLY \<equiv> 0x10"
abbreviation (input) TOKEN_HAS_ADMIN_GROUP :: ULONG where "TOKEN_HAS_ADMIN_GROUP \<equiv> 0x8"
abbreviation (input) TOKEN_IS_RESTRICTED :: ULONG where "TOKEN_IS_RESTRICTED \<equiv> 0x10"

section \<open>Operations\<close>

fun sid_in_token_loop ::
  "mem \<Rightarrow> nat \<Rightarrow> USHORT \<Rightarrow> nat \<Rightarrow> bool \<Rightarrow> bool \<Rightarrow> nat \<Rightarrow> SID_AND_ATTRIBUTES list \<Rightarrow> bool" where
  "sid_in_token_loop m Sid SidMetadata SidLength Deny Restricted SidIndex [] = False"
| "sid_in_token_loop m Sid SidMetadata SidLength Deny Restricted SidIndex (entry # entries) =
     (if rd16 m (sid_ptr entry) = SidMetadata \<and> RtlEqualMemory m Sid (sid_ptr entry) SidLength
      then (\<not> Restricted \<and> SidIndex = 0 \<and> sid_attributes entry AND SE_GROUP_USE_FOR_DENY_ONLY = 0) \<or>
           sid_attributes entry AND SE_GROUP_ENABLED \<noteq> 0 \<or>
           (Deny \<and> sid_attributes entry AND SE_GROUP_USE_FOR_DENY_ONLY \<noteq> 0)
      else sid_in_token_loop m Sid SidMetadata SidLength Deny Restricted (SidIndex + 1) entries)"

definition SepSidInTokenEx :: "mem \<Rightarrow> SE_SIDS \<Rightarrow> TOKEN \<Rightarrow> nat \<Rightarrow> nat \<Rightarrow> bool \<Rightarrow> bool \<Rightarrow> bool" where
  "SepSidInTokenEx m g Token PrincipalSelfSid Sid Deny Restricted =
     (let Sid = (if PrincipalSelfSid \<noteq> 0 \<and> RtlEqualSid m (SePrincipalSelfSid g) Sid then PrincipalSelfSid else Sid);
          SidAndAttributes = (if Restricted then RestrictedSids Token else UserAndGroups Token);
          SidLength = 8 + 4 * unat (SubAuthorityCount m Sid);
          SidMetadata = rd16 m Sid
      in sid_in_token_loop m Sid SidMetadata SidLength Deny Restricted 0 SidAndAttributes)"

definition SepSidInToken :: "mem \<Rightarrow> SE_SIDS \<Rightarrow> TOKEN \<Rightarrow> nat \<Rightarrow> bool" where
  "SepSidInToken m g Token Sid = SepSidInTokenEx m g Token 0 Sid False False"

text \<open>\<^verbatim>\<open>NULL\<close> for an unknown kind of ACE is 0.\<close>

definition SepGetSidFromAce :: "mem \<Rightarrow> nat \<Rightarrow> nat" where
  "SepGetSidFromAce m Ace =
     (if AceType m Ace = 1 \<or> AceType m Ace = 0 \<or> AceType m Ace = 2 \<or> AceType m Ace = 3 then Ace + 8
      else if AceType m Ace = ACCESS_DENIED_OBJECT_ACE_TYPE \<or> AceType m Ace = ACCESS_ALLOWED_OBJECT_ACE_TYPE
      then
        let Flags = ObjectAceFlags m Ace;
            GuidSize = 0;
            GuidSize = (if Flags AND ACE_OBJECT_TYPE_PRESENT \<noteq> 0 then GuidSize + sizeof_GUID else GuidSize);
            GuidSize = (if Flags AND ACE_INHERITED_OBJECT_TYPE_PRESENT \<noteq> 0 then GuidSize + sizeof_GUID else GuidSize)
        in Ace + 12 + GuidSize
      else 0)"

text \<open>A descriptor without an owner fails the assertion of the function.\<close>

definition SepTokenIsOwner :: "mem \<Rightarrow> SE_SIDS \<Rightarrow> TOKEN \<Rightarrow> nat \<Rightarrow> bool option" where
  "SepTokenIsOwner m g Token SecurityDescriptor =
     (let Sid = SepGetOwnerFromDescriptor m SecurityDescriptor
      in if Sid = 0 then None
         else
           let Result = SepSidInToken m g Token Sid
           in Some (if Result \<and> TokenFlags Token AND TOKEN_IS_RESTRICTED \<noteq> 0
                    then SepSidInTokenEx m g Token 0 Sid False True else Result))"

definition SeTokenIsAdmin :: "TOKEN \<Rightarrow> bool" where
  "SeTokenIsAdmin Token = (TokenFlags Token AND TOKEN_HAS_ADMIN_GROUP \<noteq> 0)"

definition SeTokenIsRestricted :: "TOKEN \<Rightarrow> bool" where
  "SeTokenIsRestricted Token = (TokenFlags Token AND TOKEN_IS_RESTRICTED \<noteq> 0)"

section \<open>Membership\<close>

text \<open>The two tests of the loop together are the equality of the SIDs.\<close>

lemma same_sid_iff:
  "rd16 m a = rd16 m b \<and> RtlEqualMemory m b a (8 + 4 * unat (SubAuthorityCount m b)) \<longleftrightarrow> sid_bytes m a = sid_bytes m b"
proof -
  have len: "8 + 4 * unat (SubAuthorityCount m b) = sid_len m b" by (simp add: sid_len_def)
  have "sid_bytes m a = sid_bytes m b \<longleftrightarrow> (\<forall>i < sid_len m b. m (a + i) = m (b + i))"
    using sid_bytes_eq_iff [of m b m a] by auto
  moreover have "rd16 m a = rd16 m b" if "\<forall>i < sid_len m b. m (a + i) = m (b + i)"
    using that [rule_format, of 0] that [rule_format, of 1] sid_len_ge [of m b] by (simp add: rd16_def)
  ultimately show ?thesis unfolding len by (auto simp: RtlEqualMemory_def bytes_eq_iff)
qed

definition usable_entry :: "bool \<Rightarrow> bool \<Rightarrow> nat \<Rightarrow> SID_AND_ATTRIBUTES \<Rightarrow> bool" where
  "usable_entry Deny Restricted i entry \<longleftrightarrow>
     (\<not> Restricted \<and> i = 0 \<and> sid_attributes entry AND SE_GROUP_USE_FOR_DENY_ONLY = 0) \<or>
     sid_attributes entry AND SE_GROUP_ENABLED \<noteq> 0 \<or> (Deny \<and> sid_attributes entry AND SE_GROUP_USE_FOR_DENY_ONLY \<noteq> 0)"

definition holds_sid :: "mem \<Rightarrow> SID_AND_ATTRIBUTES list \<Rightarrow> nat \<Rightarrow> UCHAR list \<Rightarrow> bool \<Rightarrow> bool \<Rightarrow> bool" where
  "holds_sid m entries k sid Deny Restricted \<longleftrightarrow>
     (\<exists>i < length entries. sid_bytes m (sid_ptr (entries ! i)) = sid \<and>
        (\<forall>j < i. sid_bytes m (sid_ptr (entries ! j)) \<noteq> sid) \<and> usable_entry Deny Restricted (k + i) (entries ! i))"

lemma holds_sid_Nil [simp]: "\<not> holds_sid m [] k sid Deny Restricted"
  by (simp add: holds_sid_def)

lemma holds_sid_Cons [simp]:
  "holds_sid m (e # es) k sid Deny Restricted \<longleftrightarrow>
     (if sid_bytes m (sid_ptr e) = sid then usable_entry Deny Restricted k e
      else holds_sid m es (Suc k) sid Deny Restricted)"
  unfolding holds_sid_def by (auto simp: Ex_less_Suc2 All_less_Suc2)

lemma sid_in_token_loop_eq:
  "sid_in_token_loop m Sid (rd16 m Sid) (8 + 4 * unat (SubAuthorityCount m Sid)) Deny Restricted k entries \<longleftrightarrow>
     holds_sid m entries k (sid_bytes m Sid) Deny Restricted"
  by (induction entries arbitrary: k) (simp_all add: same_sid_iff usable_entry_def)

text \<open>
  \<^verbatim>\<open>SepSidInTokenEx\<close> decides by the first entry of the token with the given SID, where the principal
  self SID stands for the principal: the user is usable unless it is for deny only, a group when
  it is enabled, and an entry for deny only counts for denying.
\<close>

theorem SepSidInTokenEx_iff:
  "SepSidInTokenEx m g Token Self Sid Deny Restricted \<longleftrightarrow>
     holds_sid m (if Restricted then RestrictedSids Token else UserAndGroups Token) 0
       (sid_bytes m (if Self \<noteq> 0 \<and> RtlEqualSid m (SePrincipalSelfSid g) Sid then Self else Sid)) Deny Restricted"
  by (simp add: SepSidInTokenEx_def Let_def sid_in_token_loop_eq)

text \<open>A token owns an object when it holds the owner, with its restricted SIDs as well when it has some.\<close>

definition token_owns :: "mem \<Rightarrow> TOKEN \<Rightarrow> nat \<Rightarrow> bool" where
  "token_owns m Token Sd \<longleftrightarrow>
     (let owner = sid_bytes m (SepGetOwnerFromDescriptor m Sd)
      in holds_sid m (UserAndGroups Token) 0 owner False False \<and>
         (SeTokenIsRestricted Token \<longrightarrow> holds_sid m (RestrictedSids Token) 0 owner False True))"

lemma SepTokenIsOwner_eq:
  "SepTokenIsOwner m g Token Sd = (if SepGetOwnerFromDescriptor m Sd = 0 then None else Some (token_owns m Token Sd))"
  by (auto simp: SepTokenIsOwner_def token_owns_def SepSidInToken_def SepSidInTokenEx_iff SeTokenIsRestricted_def Let_def)

end
