(* ===== verification/Se_Priv.thy ===== *)
theory Se_Priv
  imports Se_Token
begin

text \<open>
  Privileges: \<^verbatim>\<open>ntoskrnl/se/priv.c\<close>.  A privilege array with its count is a list, a check returns its
  result and the array with the entries it marked as used, or \<open>None\<close> when one of its assertions fails.  Audit alarms, the pool and the
  probes of user buffers are arguments: \<open>pool\<close> tells whether an allocation succeeds, \<open>probe\<close> is the
  exception code that a probe raises, if any.
\<close>

section \<open>Model\<close>

abbreviation (input) SE_PRIVILEGE_ENABLED :: ULONG where "SE_PRIVILEGE_ENABLED \<equiv> 0x2"
abbreviation (input) SE_PRIVILEGE_USED_FOR_ACCESS :: ULONG where "SE_PRIVILEGE_USED_FOR_ACCESS \<equiv> 0x80000000"
abbreviation (input) PRIVILEGE_SET_ALL_NECESSARY :: ULONG where "PRIVILEGE_SET_ALL_NECESSARY \<equiv> 1"
abbreviation (input) SE_MAXIMUM_PRIVILEGE_LIMIT :: ULONG where "SE_MAXIMUM_PRIVILEGE_LIMIT \<equiv> 0x3C"
abbreviation (input) INITIAL_PRIVILEGE_COUNT :: ULONG where "INITIAL_PRIVILEGE_COUNT \<equiv> 3"

definition SeTcbPrivilege :: LUID where "SeTcbPrivilege = \<lparr>LowPart = 7, HighPart = 0\<rparr>"
definition SeSecurityPrivilege :: LUID where "SeSecurityPrivilege = \<lparr>LowPart = 8, HighPart = 0\<rparr>"
definition SeTakeOwnershipPrivilege :: LUID where "SeTakeOwnershipPrivilege = \<lparr>LowPart = 9, HighPart = 0\<rparr>"
definition SeAuditPrivilege :: LUID where "SeAuditPrivilege = \<lparr>LowPart = 21, HighPart = 0\<rparr>"

record PRIVILEGE_SET =
  Control :: ULONG
  Privilege :: "LUID_AND_ATTRIBUTES list"

definition RtlEqualLuid :: "LUID \<Rightarrow> LUID \<Rightarrow> bool" where
  "RtlEqualLuid a b = (LowPart a = LowPart b \<and> HighPart a = HighPart b)"

text \<open>The inner loop: the entry of the token with the wanted LUID, if it has one.\<close>

fun find_privilege :: "LUID_AND_ATTRIBUTES list \<Rightarrow> LUID \<Rightarrow> LUID_AND_ATTRIBUTES option" where
  "find_privilege [] l = None"
| "find_privilege (p # ps) l = (if RtlEqualLuid (Luid p) l then Some p else find_privilege ps l)"

fun privilege_loop ::
  "LUID_AND_ATTRIBUTES list \<Rightarrow> ULONG \<Rightarrow> LUID_AND_ATTRIBUTES list \<Rightarrow> (bool \<times> LUID_AND_ATTRIBUTES list) option" where
  "privilege_loop held Required [] = (if Required > 0 then Some (False, []) else None)"
| "privilege_loop held Required (p # ps) =
     (case find_privilege held (Luid p) of
        Some q \<Rightarrow>
          if Luid_Attributes q AND SE_PRIVILEGE_ENABLED \<noteq> 0
          then
            let p' = p\<lparr>Luid_Attributes := Luid_Attributes p OR SE_PRIVILEGE_USED_FOR_ACCESS\<rparr>;
                Required = Required - 1
            in if Required = 0 then Some (True, p' # ps)
               else map_option (apsnd ((#) p')) (privilege_loop held Required ps)
          else map_option (apsnd ((#) p)) (privilege_loop held Required ps)
      | None \<Rightarrow> map_option (apsnd ((#) p)) (privilege_loop held Required ps))"

definition SepPrivilegeCheck ::
  "TOKEN \<Rightarrow> LUID_AND_ATTRIBUTES list \<Rightarrow> ULONG \<Rightarrow> KPROCESSOR_MODE \<Rightarrow> (bool \<times> LUID_AND_ATTRIBUTES list) option" where
  "SepPrivilegeCheck Token Privileges PrivilegeControl PreviousMode =
     (if PreviousMode = KernelMode then Some (True, Privileges)
      else
        let Required = (if PrivilegeControl AND PRIVILEGE_SET_ALL_NECESSARY \<noteq> 0 then of_nat (length Privileges) else 1)
        in privilege_loop (Token_Privileges Token) Required Privileges)"

definition SepSinglePrivilegeCheck :: "LUID \<Rightarrow> TOKEN \<Rightarrow> KPROCESSOR_MODE \<Rightarrow> bool option" where
  "SepSinglePrivilegeCheck PrivilegeValue Token PreviousMode =
     (if RtlEqualLuid PrivilegeValue SeTcbPrivilege then None
      else map_option fst (SepPrivilegeCheck Token [\<lparr>Luid = PrivilegeValue, Luid_Attributes = SE_PRIVILEGE_ENABLED\<rparr>]
             PRIVILEGE_SET_ALL_NECESSARY PreviousMode))"

text \<open>
  The result of \<^verbatim>\<open>SePrivilegePolicyCheck\<close>: the status, the two masks and what is stored through
  \<^verbatim>\<open>OutPrivilegeSet\<close>, where the outer \<open>None\<close> is a pointer that is not written.
\<close>

definition SePrivilegePolicyCheck ::
  "bool \<Rightarrow> ACCESS_MASK \<Rightarrow> ACCESS_MASK \<Rightarrow> SECURITY_SUBJECT_CONTEXT option \<Rightarrow> TOKEN \<Rightarrow> bool \<Rightarrow> KPROCESSOR_MODE \<Rightarrow>
     (NTSTATUS \<times> ACCESS_MASK \<times> ACCESS_MASK \<times> PRIVILEGE_SET option option) option" where
  "SePrivilegePolicyCheck pool DesiredAccess GrantedAccess SubjectContext Token WantPrivilegeSet PreviousMode =
     (let Token = (case SubjectContext of
                     Some s \<Rightarrow> (case ClientToken s of Some t \<Rightarrow> t | None \<Rightarrow> PrimaryToken s)
                   | None \<Rightarrow> Token);
          security = (DesiredAccess AND ACCESS_SYSTEM_SECURITY \<noteq> 0)
      in case (if security then SepSinglePrivilegeCheck SeSecurityPrivilege Token PreviousMode else Some True) of
           None \<Rightarrow> None
         | Some held \<Rightarrow>
           if \<not> held then Some (STATUS_PRIVILEGE_NOT_HELD, DesiredAccess, GrantedAccess, None)
           else
           (case (if DesiredAccess AND WRITE_OWNER \<noteq> 0
                  then SepSinglePrivilegeCheck SeTakeOwnershipPrivilege Token PreviousMode else Some False) of
              None \<Rightarrow> None
            | Some owner \<Rightarrow>
              let AccessMask = (if security then ACCESS_SYSTEM_SECURITY else 0);
                  PrivilegeCount = (if security then 1 else 0 :: nat);
                  AccessMask = (if owner then AccessMask OR WRITE_OWNER else AccessMask);
                  PrivilegeCount = (if owner then PrivilegeCount + 1 else PrivilegeCount);
                  GrantedAccess = GrantedAccess OR AccessMask;
                  DesiredAccess = DesiredAccess AND NOT AccessMask
              in if \<not> WantPrivilegeSet then Some (STATUS_SUCCESS, DesiredAccess, GrantedAccess, None)
                 else if PrivilegeCount > 0
                 then
                   if \<not> pool then Some (STATUS_INSUFFICIENT_RESOURCES, DesiredAccess, GrantedAccess, Some None)
                   else
                     let Privileges =
                           (if AccessMask AND WRITE_OWNER \<noteq> 0
                            then [\<lparr>Luid = SeTakeOwnershipPrivilege, Luid_Attributes = SE_PRIVILEGE_USED_FOR_ACCESS\<rparr>] else []) @
                           (if AccessMask AND ACCESS_SYSTEM_SECURITY \<noteq> 0
                            then [\<lparr>Luid = SeSecurityPrivilege, Luid_Attributes = SE_PRIVILEGE_USED_FOR_ACCESS\<rparr>] else [])
                     in Some (STATUS_SUCCESS, DesiredAccess, GrantedAccess, Some (Some \<lparr>Control = 0, Privilege = Privileges\<rparr>))
                 else Some (STATUS_SUCCESS, DesiredAccess, GrantedAccess, Some None)))"

definition SeCheckAuditPrivilege :: "SECURITY_SUBJECT_CONTEXT \<Rightarrow> KPROCESSOR_MODE \<Rightarrow> bool option" where
  "SeCheckAuditPrivilege SubjectContext PreviousMode =
     map_option fst (SepPrivilegeCheck (PrimaryToken SubjectContext) [\<lparr>Luid = SeAuditPrivilege, Luid_Attributes = 0\<rparr>]
            PRIVILEGE_SET_ALL_NECESSARY PreviousMode)"

definition SePrivilegeCheck ::
  "PRIVILEGE_SET \<Rightarrow> SECURITY_SUBJECT_CONTEXT \<Rightarrow> KPROCESSOR_MODE \<Rightarrow> (bool \<times> LUID_AND_ATTRIBUTES list) option" where
  "SePrivilegeCheck Privileges SubjectContext PreviousMode =
     (case ClientToken SubjectContext of
        None \<Rightarrow> SepPrivilegeCheck (PrimaryToken SubjectContext) (Privilege Privileges) (Control Privileges) PreviousMode
      | Some Token \<Rightarrow>
          if Subject_ImpersonationLevel SubjectContext < SecurityImpersonation then Some (False, Privilege Privileges)
          else SepPrivilegeCheck Token (Privilege Privileges) (Control Privileges) PreviousMode)"

text \<open>\<open>SubjectContext\<close> is what \<^verbatim>\<open>SeCaptureSubjectContext\<close> returns for the calling thread.\<close>

definition SeSinglePrivilegeCheck :: "SECURITY_SUBJECT_CONTEXT \<Rightarrow> LUID \<Rightarrow> KPROCESSOR_MODE \<Rightarrow> bool option" where
  "SeSinglePrivilegeCheck SubjectContext PrivilegeValue PreviousMode =
     map_option fst (SePrivilegeCheck \<lparr>Control = PRIVILEGE_SET_ALL_NECESSARY,
            Privilege = [\<lparr>Luid = PrivilegeValue, Luid_Attributes = SE_PRIVILEGE_ENABLED\<rparr>]\<rparr> SubjectContext PreviousMode)"

definition SeCheckPrivilegedObject :: "SECURITY_SUBJECT_CONTEXT \<Rightarrow> LUID \<Rightarrow> KPROCESSOR_MODE \<Rightarrow> bool option" where
  "SeCheckPrivilegedObject SubjectContext PrivilegeValue PreviousMode =
     map_option fst (SePrivilegeCheck \<lparr>Control = PRIVILEGE_SET_ALL_NECESSARY,
            Privilege = [\<lparr>Luid = PrivilegeValue, Luid_Attributes = SE_PRIVILEGE_ENABLED\<rparr>]\<rparr> SubjectContext PreviousMode)"

text \<open>
  What \<^verbatim>\<open>SeCaptureLuidAndAttributesArray\<close> leaves in \<^verbatim>\<open>*Dest\<close>: nothing, \<^verbatim>\<open>NULL\<close>, the caller's array, a
  copy, or a block that a fault left unfinished.  \<open>probe\<close> and \<open>fault\<close> are the exceptions of the probe
  and of the copy, and the last component is what is stored through \<^verbatim>\<open>Length\<close>.
\<close>

datatype CAPTURED_LUIDS =
  Dest_Unwritten | Dest_NULL | Dest_Src | Dest_Copy "LUID_AND_ATTRIBUTES list" | Dest_Partial

definition SeCaptureLuidAndAttributesArray ::
  "NTSTATUS option \<Rightarrow> NTSTATUS option \<Rightarrow> bool \<Rightarrow> (nat \<Rightarrow> LUID_AND_ATTRIBUTES) \<Rightarrow> ULONG \<Rightarrow> KPROCESSOR_MODE \<Rightarrow>
     ULONG option \<Rightarrow> bool \<Rightarrow> NTSTATUS \<times> CAPTURED_LUIDS \<times> ULONG option" where
  "SeCaptureLuidAndAttributesArray probe fault pool Src PrivilegeCount PreviousMode AllocatedLength CaptureIfKernel =
     (if PrivilegeCount = 0 then (STATUS_SUCCESS, Dest_NULL, Some 0)
      else if PrivilegeCount > SE_MAXIMUM_PRIVILEGE_LIMIT then (STATUS_INVALID_PARAMETER, Dest_Unwritten, None)
      else if PreviousMode = KernelMode \<and> \<not> CaptureIfKernel then (STATUS_SUCCESS, Dest_Src, None)
      else
        let BufferSize = PrivilegeCount * 12;
            Length = Some (ROUND_UP BufferSize 4);
            copy = (case fault of
                      Some code \<Rightarrow> (code, Dest_Partial, Length)
                    | None \<Rightarrow> (STATUS_SUCCESS, Dest_Copy (map Src [0..<unat PrivilegeCount]), Length))
        in case (if PreviousMode \<noteq> KernelMode then probe else None) of
             Some code \<Rightarrow> (code, Dest_Unwritten, Length)
           | None \<Rightarrow>
               (case AllocatedLength of
                  Some n \<Rightarrow> if n < BufferSize then (STATUS_BUFFER_TOO_SMALL, Dest_Unwritten, Length) else copy
                | None \<Rightarrow> if \<not> pool then (STATUS_INSUFFICIENT_RESOURCES, Dest_NULL, Length) else copy))"

text \<open>
  \<^verbatim>\<open>NtPrivilegeCheck\<close>: \<open>probe\<close> gives the exception of \<^verbatim>\<open>ProbeForWrite\<close> on the set by its size, \<open>probe_result\<close>
  that of the probe of \<^verbatim>\<open>Result\<close>, \<open>referenced\<close> what \<^verbatim>\<open>ObReferenceObjectByHandle\<close> returns, \<open>faults\<close> the
  exceptions of the probe and the copy of the capture and of the copy back.  The result has the
  array and the value of \<^verbatim>\<open>Result\<close> that are written back, if they are.
\<close>

definition NtPrivilegeCheck ::
  "KPROCESSOR_MODE \<Rightarrow> (ULONG \<Rightarrow> NTSTATUS option) \<Rightarrow> NTSTATUS option \<Rightarrow> (NTSTATUS + TOKEN) \<Rightarrow>
     NTSTATUS option \<times> NTSTATUS option \<times> NTSTATUS option \<Rightarrow> bool \<Rightarrow> ULONG \<Rightarrow> ULONG \<Rightarrow> (nat \<Rightarrow> LUID_AND_ATTRIBUTES) \<Rightarrow>
     (NTSTATUS \<times> (LUID_AND_ATTRIBUTES list \<times> bool) option) option" where
  "NtPrivilegeCheck PreviousMode probe probe_result referenced faults pool PrivilegeCount PrivilegeControl RequiredPrivileges =
     (let probed =
            (if PreviousMode \<noteq> KernelMode
             then (case probe 8 of
                     Some code \<Rightarrow> Some code
                   | None \<Rightarrow>
                       if (8 + PrivilegeCount * 12) div 12 \<noteq> PrivilegeCount then Some STATUS_INVALID_PARAMETER
                       else (case probe (8 + PrivilegeCount * 12) of Some code \<Rightarrow> Some code | None \<Rightarrow> probe_result))
             else None)
      in case probed of
           Some code \<Rightarrow> Some (code, None)
         | None \<Rightarrow>
             (case referenced of
                Inl Status \<Rightarrow> Some (Status, None)
              | Inr Token \<Rightarrow>
                  if TokenType Token = TokenImpersonation \<and> ImpersonationLevel Token < SecurityIdentification
                  then Some (STATUS_BAD_IMPERSONATION_LEVEL, None)
                  else
                    (case SeCaptureLuidAndAttributesArray (fst faults) (fst (snd faults)) pool RequiredPrivileges
                            PrivilegeCount PreviousMode None True of
                       (Status, Dest, _) \<Rightarrow>
                         if \<not> NT_SUCCESS Status then Some (Status, None)
                         else
                           let Privileges = (case Dest of Dest_Copy ps \<Rightarrow> ps | _ \<Rightarrow> [])
                           in case SepPrivilegeCheck Token Privileges PrivilegeControl PreviousMode of
                                None \<Rightarrow> None
                              | Some (CheckResult, Privileges) \<Rightarrow>
                                  (case snd (snd faults) of
                                     Some code \<Rightarrow> Some (code, None)
                                   | None \<Rightarrow> Some (STATUS_SUCCESS, Some (Privileges, CheckResult))))))"

section \<open>Which privileges a token holds\<close>

definition holds_privilege :: "TOKEN \<Rightarrow> LUID \<Rightarrow> bool" where
  "holds_privilege Token l \<longleftrightarrow>
     (\<exists>q. find_privilege (Token_Privileges Token) l = Some q \<and> Luid_Attributes q AND SE_PRIVILEGE_ENABLED \<noteq> 0)"

text \<open>What a privilege looks like after a check that used it.\<close>

definition mark_used :: "TOKEN \<Rightarrow> LUID_AND_ATTRIBUTES \<Rightarrow> LUID_AND_ATTRIBUTES" where
  "mark_used Token p =
     (if holds_privilege Token (Luid p) then p\<lparr>Luid_Attributes := Luid_Attributes p OR SE_PRIVILEGE_USED_FOR_ACCESS\<rparr> else p)"

definition held_count :: "TOKEN \<Rightarrow> LUID_AND_ATTRIBUTES list \<Rightarrow> nat" where
  "held_count Token ps = length (filter (\<lambda>p. holds_privilege Token (Luid p)) ps)"

lemma privilege_loop_Cons:
  "privilege_loop (Token_Privileges Token) Required (p # ps) =
     (if holds_privilege Token (Luid p) \<and> Required - 1 = 0 then Some (True, mark_used Token p # ps)
      else map_option (apsnd ((#) (mark_used Token p)))
        (privilege_loop (Token_Privileges Token) (if holds_privilege Token (Luid p) then Required - 1 else Required) ps))"
  by (auto simp: holds_privilege_def mark_used_def Let_def split: option.splits)

lemma held_count_simps [simp]:
  "held_count Token [] = 0"
  "held_count Token (p # ps) = (if holds_privilege Token (Luid p) then Suc (held_count Token ps) else held_count Token ps)"
  by (simp_all add: held_count_def)

lemma unat_minus_1_le: "w \<noteq> 0 \<Longrightarrow> unat (w - 1) \<le> k \<longleftrightarrow> unat w \<le> Suc k" for w :: ULONG
  using unat_minus_one [of w] by arith

lemma unat_eq_Suc_minus_1: "w \<noteq> 0 \<Longrightarrow> Suc (unat (w - 1)) = unat w" for w :: ULONG
  using unat_minus_one [of w] unat_gt_0 [of w] by arith

lemma privilege_loop_eq:
  "w \<noteq> 0 \<Longrightarrow>
   \<exists>k. privilege_loop (Token_Privileges Token) w ps =
      Some (unat w \<le> held_count Token ps, map (mark_used Token) (take k ps) @ drop k ps) \<and>
    (if unat w \<le> held_count Token ps then held_count Token (take k ps) = unat w else k = length ps)"
proof (induction ps arbitrary: w)
  case (Cons p ps)
  consider "holds_privilege Token (Luid p)" "w - 1 = 0" | "holds_privilege Token (Luid p)" "w - 1 \<noteq> 0"
    | "\<not> holds_privilege Token (Luid p)" by blast
  then show ?case
  proof cases
    case 1
    then show ?thesis
      by (intro exI [of _ 1]) (simp add: privilege_loop_Cons del: privilege_loop.simps)
  next
    case 2
    from Cons.IH [OF 2(2)] obtain k where "privilege_loop (Token_Privileges Token) (w - 1) ps =
        Some (unat (w - 1) \<le> held_count Token ps, map (mark_used Token) (take k ps) @ drop k ps)"
      "if unat (w - 1) \<le> held_count Token ps then held_count Token (take k ps) = unat (w - 1) else k = length ps"
      by blast
    with 2 Cons.prems show ?thesis
      by (intro exI [of _ "Suc k"])
         (simp add: privilege_loop_Cons unat_minus_1_le unat_eq_Suc_minus_1 del: privilege_loop.simps split: if_splits)
  next
    case 3
    from Cons.IH [OF Cons.prems] obtain k where "privilege_loop (Token_Privileges Token) w ps =
        Some (unat w \<le> held_count Token ps, map (mark_used Token) (take k ps) @ drop k ps)"
      "if unat w \<le> held_count Token ps then held_count Token (take k ps) = unat w else k = length ps" by blast
    with 3 show ?thesis
      by (intro exI [of _ "Suc k"]) (simp add: privilege_loop_Cons del: privilege_loop.simps split: if_splits)
  qed
qed (simp add: unat_eq_zero word_gt_0)

lemma held_count_le: "held_count Token ps \<le> length ps"
  by (simp add: held_count_def)

lemma held_count_all: "length ps \<le> held_count Token ps \<longleftrightarrow> (\<forall>p\<in>set ps. holds_privilege Token (Luid p))"
proof (induction ps)
  case (Cons p ps)
  then show ?case using held_count_le [of Token ps] by auto
qed simp

lemma held_count_any: "1 \<le> held_count Token ps \<longleftrightarrow> (\<exists>p\<in>set ps. holds_privilege Token (Luid p))"
  by (induction ps) auto

lemma SepPrivilegeCheck_user:
  assumes "length ps < 2 ^ 32"
  shows "if ctl AND PRIVILEGE_SET_ALL_NECESSARY \<noteq> 0 \<and> ps = [] then SepPrivilegeCheck Token ps ctl UserMode = None
    else \<exists>ok k. SepPrivilegeCheck Token ps ctl UserMode = Some (ok, map (mark_used Token) (take k ps) @ drop k ps) \<and>
      (ok \<longleftrightarrow> (if ctl AND PRIVILEGE_SET_ALL_NECESSARY \<noteq> 0 then \<forall>p\<in>set ps. holds_privilege Token (Luid p)
              else \<exists>p\<in>set ps. holds_privilege Token (Luid p))) \<and>
      (if ok then held_count Token (take k ps) = (if ctl AND PRIVILEGE_SET_ALL_NECESSARY \<noteq> 0 then length ps else 1)
       else k = length ps)"
proof (cases "ctl AND PRIVILEGE_SET_ALL_NECESSARY \<noteq> 0 \<and> ps = []")
  case True
  then show ?thesis by (simp add: SepPrivilegeCheck_def)
next
  case False
  define w :: ULONG where "w = (if ctl AND PRIVILEGE_SET_ALL_NECESSARY \<noteq> 0 then of_nat (length ps) else 1)"
  have eq: "SepPrivilegeCheck Token ps ctl UserMode = privilege_loop (Token_Privileges Token) w ps"
    by (simp add: SepPrivilegeCheck_def w_def)
  have u: "unat w = (if ctl AND PRIVILEGE_SET_ALL_NECESSARY \<noteq> 0 then length ps else 1)"
    using assms by (simp add: w_def unat_of_nat_32)
  have "w \<noteq> 0" using u False by (auto split: if_splits)
  then obtain k where k: "privilege_loop (Token_Privileges Token) w ps =
      Some (unat w \<le> held_count Token ps, map (mark_used Token) (take k ps) @ drop k ps)"
    "if unat w \<le> held_count Token ps then held_count Token (take k ps) = unat w else k = length ps"
    using privilege_loop_eq by blast
  have "unat w \<le> held_count Token ps \<longleftrightarrow>
      (if ctl AND PRIVILEGE_SET_ALL_NECESSARY \<noteq> 0 then \<forall>p\<in>set ps. holds_privilege Token (Luid p)
       else \<exists>p\<in>set ps. holds_privilege Token (Luid p))"
    unfolding u using held_count_all held_count_any by simp
  with k show ?thesis unfolding eq if_not_P [OF False] u
    by (intro exI [of _ "unat w \<le> held_count Token ps"] exI [of _ k]) (simp add: u)
qed

text \<open>Who may use a privilege: the kernel, and a token that holds it.\<close>

definition may_use :: "KPROCESSOR_MODE \<Rightarrow> TOKEN \<Rightarrow> LUID \<Rightarrow> bool" where
  "may_use mode Token l \<longleftrightarrow> mode = KernelMode \<or> holds_privilege Token l"

lemma SepSinglePrivilegeCheck_iff:
  "\<not> RtlEqualLuid l SeTcbPrivilege \<Longrightarrow> SepSinglePrivilegeCheck l Token mode = Some (may_use mode Token l)"
  using SepPrivilegeCheck_user [of "[\<lparr>Luid = l, Luid_Attributes = SE_PRIVILEGE_ENABLED\<rparr>]" 1 Token]
  by (cases mode) (auto simp: SepSinglePrivilegeCheck_def SepPrivilegeCheck_def [of _ _ _ KernelMode] may_use_def)

lemma policy_privileges:
  "SepSinglePrivilegeCheck SeSecurityPrivilege Token mode = Some (may_use mode Token SeSecurityPrivilege)"
  "SepSinglePrivilegeCheck SeTakeOwnershipPrivilege Token mode = Some (may_use mode Token SeTakeOwnershipPrivilege)"
  by (rule SepSinglePrivilegeCheck_iff,
      simp add: RtlEqualLuid_def SeTcbPrivilege_def SeSecurityPrivilege_def SeTakeOwnershipPrivilege_def)+

text \<open>The token of a subject: the client's when there is one.\<close>

definition subject_token :: "SECURITY_SUBJECT_CONTEXT option \<Rightarrow> TOKEN \<Rightarrow> TOKEN" where
  "subject_token ctx tok =
     (case ctx of Some s \<Rightarrow> (case ClientToken s of Some t \<Rightarrow> t | None \<Rightarrow> PrimaryToken s) | None \<Rightarrow> tok)"

text \<open>The rights that the policy check moves from the desired to the granted ones.\<close>

definition policy_mask :: "KPROCESSOR_MODE \<Rightarrow> TOKEN \<Rightarrow> ACCESS_MASK \<Rightarrow> ACCESS_MASK" where
  "policy_mask mode Token d =
     (if bit d 24 then ACCESS_SYSTEM_SECURITY else 0) OR
     (if bit d 19 \<and> may_use mode Token SeTakeOwnershipPrivilege then WRITE_OWNER else 0)"

lemma bit_policy_mask:
  "bit (policy_mask mode Token d) n \<longleftrightarrow>
     n = 24 \<and> bit d 24 \<or> n = 19 \<and> bit d 19 \<and> may_use mode Token SeTakeOwnershipPrivilege"
proof -
  have "bit ACCESS_SYSTEM_SECURITY n \<longleftrightarrow> n = 24" "bit WRITE_OWNER n \<longleftrightarrow> n = 19"
    using bit_exp_iff [of 24 n, where ?'a = "32 word"] bit_exp_iff [of 19 n, where ?'a = "32 word"] by auto
  then show ?thesis by (auto simp: policy_mask_def bit_or_iff)
qed

lemma SePrivilegePolicyCheck_Some: "\<exists>st d' g' out. SePrivilegePolicyCheck pool d g ctx tok want mode = Some (st, d', g', out)"
  by (auto simp: SePrivilegePolicyCheck_def Let_def policy_privileges split: if_split)

lemma SePrivilegePolicyCheck_masks:
  assumes "SePrivilegePolicyCheck pool d g ctx tok want mode = Some (st, d', g', out)"
    and T: "T = subject_token ctx tok"
  shows "st = STATUS_PRIVILEGE_NOT_HELD \<longleftrightarrow> bit d 24 \<and> \<not> may_use mode T SeSecurityPrivilege"
    and "st = STATUS_PRIVILEGE_NOT_HELD \<Longrightarrow> d' = d \<and> g' = g \<and> out = None"
    and "st \<noteq> STATUS_PRIVILEGE_NOT_HELD \<Longrightarrow> d' = d AND NOT (policy_mask mode T d) \<and> g' = g OR policy_mask mode T d \<and>
      st = (if want \<and> \<not> pool \<and> policy_mask mode T d \<noteq> 0 then STATUS_INSUFFICIENT_RESOURCES else STATUS_SUCCESS)"
proof -
  have f: "d AND ACCESS_SYSTEM_SECURITY \<noteq> 0 \<longleftrightarrow> bit d 24" "d AND WRITE_OWNER \<noteq> 0 \<longleftrightarrow> bit d 19" 
    using and_power_eq_0_iff [of d 24] and_power_eq_0_iff [of d 19] by simp_all
  note r = assms(1) [unfolded SePrivilegePolicyCheck_def Let_def policy_privileges if_distrib [of Some, symmetric] option.case option.inject f, folded subject_token_def [of ctx tok], folded T]
  show "st = STATUS_PRIVILEGE_NOT_HELD \<longleftrightarrow> bit d 24 \<and> \<not> may_use mode T SeSecurityPrivilege"
    using r by (auto split: if_splits)
  show "st = STATUS_PRIVILEGE_NOT_HELD \<Longrightarrow> d' = d \<and> g' = g \<and> out = None"
    using r by (auto split: if_splits)
  show "st \<noteq> STATUS_PRIVILEGE_NOT_HELD \<Longrightarrow> d' = d AND NOT (policy_mask mode T d) \<and> g' = g OR policy_mask mode T d \<and>
      st = (if want \<and> \<not> pool \<and> policy_mask mode T d \<noteq> 0 then STATUS_INSUFFICIENT_RESOURCES else STATUS_SUCCESS)"
    using r by (auto simp: policy_mask_def split: if_splits)
qed

text \<open>The privileges that the check reports are those whose rights it granted, and all may be used.\<close>

lemma SePrivilegePolicyCheck_set:
  assumes "SePrivilegePolicyCheck pool d g ctx tok want mode = Some (st, d', g', Some (Some ps))"
    and T: "T = subject_token ctx tok"
  shows "Luid ` set (Privilege ps) = (if bit d 24 then {SeSecurityPrivilege} else {}) \<union>
      (if bit d 19 \<and> may_use mode T SeTakeOwnershipPrivilege then {SeTakeOwnershipPrivilege} else {})"
    and "\<forall>p\<in>set (Privilege ps). may_use mode T (Luid p) \<and> Luid_Attributes p = SE_PRIVILEGE_USED_FOR_ACCESS"
proof -
  have f: "d AND ACCESS_SYSTEM_SECURITY \<noteq> 0 \<longleftrightarrow> bit d 24" "d AND WRITE_OWNER \<noteq> 0 \<longleftrightarrow> bit d 19" 
    using and_power_eq_0_iff [of d 24] and_power_eq_0_iff [of d 19] by simp_all
  note r = assms(1) [unfolded SePrivilegePolicyCheck_def Let_def policy_privileges if_distrib [of Some, symmetric] option.case option.inject f, folded subject_token_def [of ctx tok], folded T]
  show "Luid ` set (Privilege ps) = (if bit d 24 then {SeSecurityPrivilege} else {}) \<union>
      (if bit d 19 \<and> may_use mode T SeTakeOwnershipPrivilege then {SeTakeOwnershipPrivilege} else {})"
    using r by (auto split: if_splits)
  show "\<forall>p\<in>set (Privilege ps). may_use mode T (Luid p) \<and> Luid_Attributes p = SE_PRIVILEGE_USED_FOR_ACCESS"
    using r by (auto split: if_splits)
qed

section \<open>Correctness of the checks\<close>

text \<open>
  C25.  In user mode \<^verbatim>\<open>SepPrivilegeCheck\<close> succeeds when the token holds every wanted privilege (with
  \<^verbatim>\<open>PRIVILEGE_SET_ALL_NECESSARY\<close>), or when it holds some of them.  It marks exactly the privileges that the
  token holds among those it looked at: all of them when the check fails, an initial part that decides
  the check otherwise.  When all of an empty list are wanted its assertion fails.  A kernel-mode caller
  passes unchecked.
\<close>

theorem SepPrivilegeCheck_correct:
  assumes "length ps < 2 ^ 32"
  shows "(if ctl AND PRIVILEGE_SET_ALL_NECESSARY \<noteq> 0 \<and> ps = [] then SepPrivilegeCheck Token ps ctl UserMode = None
    else \<exists>ok k. SepPrivilegeCheck Token ps ctl UserMode = Some (ok, map (mark_used Token) (take k ps) @ drop k ps) \<and>
      (ok \<longleftrightarrow> (if ctl AND PRIVILEGE_SET_ALL_NECESSARY \<noteq> 0 then \<forall>p\<in>set ps. holds_privilege Token (Luid p)
              else \<exists>p\<in>set ps. holds_privilege Token (Luid p))) \<and>
      (if ok then held_count Token (take k ps) = (if ctl AND PRIVILEGE_SET_ALL_NECESSARY \<noteq> 0 then length ps else 1)
       else k = length ps)) \<and>
    SepPrivilegeCheck Token ps ctl KernelMode = Some (True, ps)"
  by (rule conjI [OF SepPrivilegeCheck_user [OF assms]]) (simp add: SepPrivilegeCheck_def)

text \<open>A token with the security privilege enabled and the audit privilege disabled.\<close>

definition security_token :: TOKEN where
  "security_token = \<lparr>UserAndGroups = [], RestrictedSids = [],
     Token_Privileges = [\<lparr>Luid = SeAuditPrivilege, Luid_Attributes = 0\<rparr>, \<lparr>Luid = SeSecurityPrivilege, Luid_Attributes = 2\<rparr>],
     TokenType = TokenPrimary, ImpersonationLevel = SecurityAnonymous, TokenFlags = 0\<rparr>"

lemma security_token_holds [simp]:
  "holds_privilege security_token SeSecurityPrivilege" "\<not> holds_privilege security_token SeAuditPrivilege"
  "\<not> holds_privilege security_token SeTakeOwnershipPrivilege"
  by (simp_all add: holds_privilege_def security_token_def RtlEqualLuid_def SeSecurityPrivilege_def SeAuditPrivilege_def
      SeTakeOwnershipPrivilege_def)

theorem SepPrivilegeCheck_correct_witness:
  "\<exists>qs. SepPrivilegeCheck security_token
     [\<lparr>Luid = SeAuditPrivilege, Luid_Attributes = 0\<rparr>, \<lparr>Luid = SeSecurityPrivilege, Luid_Attributes = 0\<rparr>] 0 UserMode = Some (True, qs)"
  using SepPrivilegeCheck_correct [of "[\<lparr>Luid = SeAuditPrivilege, Luid_Attributes = 0\<rparr>, \<lparr>Luid = SeSecurityPrivilege, Luid_Attributes = 0\<rparr>]"
      0 security_token] by auto

text \<open>
  C18.  \<^verbatim>\<open>SePrivilegePolicyCheck\<close> only moves rights from the desired to the granted ones, and only the two
  rights that a privilege of the subject's token allows; when it succeeds, access to the system ACL
  is no longer among the desired rights.  The privileges it reports are those it used.
\<close>

theorem SePrivilegePolicyCheck_safe:
  "\<exists>st d' g' out. SePrivilegePolicyCheck pool d g ctx tok want mode = Some (st, d', g', out) \<and>
    d' OR g' = d OR g \<and>
    (bit g' n \<and> \<not> bit g n \<longrightarrow> bit d n \<and>
       (n = 24 \<and> may_use mode (subject_token ctx tok) SeSecurityPrivilege \<or>
        n = 19 \<and> may_use mode (subject_token ctx tok) SeTakeOwnershipPrivilege)) \<and>
    (NT_SUCCESS st \<longrightarrow> \<not> bit d' 24) \<and>
    (\<forall>ps. out = Some (Some ps) \<longrightarrow>
       SeSecurityPrivilege \<in> Luid ` set (Privilege ps) \<longleftrightarrow> bit (d AND NOT d') 24) \<and>
    (\<forall>ps. out = Some (Some ps) \<longrightarrow>
       SeTakeOwnershipPrivilege \<in> Luid ` set (Privilege ps) \<longleftrightarrow> bit (d AND NOT d') 19)"
proof -
  obtain st d' g' out where eq: "SePrivilegePolicyCheck pool d g ctx tok want mode = Some (st, d', g', out)"
    using SePrivilegePolicyCheck_Some by blast
  note m = SePrivilegePolicyCheck_masks [OF eq refl]
  have len: "bit d k \<Longrightarrow> k < 32" for k using bit_imp_le_length [of d k] by simp
  have ne: "SeSecurityPrivilege \<noteq> SeTakeOwnershipPrivilege" by (simp add: SeSecurityPrivilege_def SeTakeOwnershipPrivilege_def)
  show ?thesis
  proof (cases "st = STATUS_PRIVILEGE_NOT_HELD")
    case True
    with m(2) show ?thesis unfolding eq by (simp add: NT_SUCCESS_def)
  next
    case False
    with m(3) have e: "d' = d AND NOT (policy_mask mode (subject_token ctx tok) d)"
      "g' = g OR policy_mask mode (subject_token ctx tok) d" by blast+
    have "d' OR g' = d OR g"
      by (rule bit_word_eqI) (auto simp: e bit_or_iff bit_and_iff bit_not_iff bit_policy_mask)
    moreover have "d AND NOT d' = policy_mask mode (subject_token ctx tok) d"
      by (rule bit_word_eqI) (auto simp: e bit_or_iff bit_and_iff bit_not_iff bit_policy_mask)
    moreover have "\<not> bit d' 24" by (simp add: e bit_and_iff bit_not_iff bit_policy_mask)
    moreover have "bit d 24 \<Longrightarrow> may_use mode (subject_token ctx tok) SeSecurityPrivilege" using False m(1) by blast
    moreover have "Luid ` set (Privilege ps) = (if bit d 24 then {SeSecurityPrivilege} else {}) \<union>
        (if bit d 19 \<and> may_use mode (subject_token ctx tok) SeTakeOwnershipPrivilege then {SeTakeOwnershipPrivilege} else {})"
      if "out = Some (Some ps)" for ps
      using SePrivilegePolicyCheck_set(1) [OF eq [unfolded that] refl] .
    ultimately show ?thesis
      unfolding eq using ne by (auto simp: e(2) bit_or_iff bit_policy_mask)
  qed
qed

theorem SePrivilegePolicyCheck_safe_witness:
  "\<exists>st d' g' out. SePrivilegePolicyCheck True ACCESS_SYSTEM_SECURITY 0 None security_token True UserMode = Some (st, d', g', out) \<and>
     d' OR g' = ACCESS_SYSTEM_SECURITY"
  using SePrivilegePolicyCheck_safe [of True ACCESS_SYSTEM_SECURITY 0 None security_token True UserMode]
  by (metis or.right_neutral)

text \<open>
  \<^verbatim>\<open>NtPrivilegeCheck\<close> from user mode, with accessible buffers and a token that is not anonymous: every
  count above the limit is refused, also those for which the size of the set overflows; any other
  set is checked against the token and written back with the marks of the check.
\<close>

theorem NtPrivilegeCheck_user:
  assumes "TokenType Token = TokenPrimary \<or> SecurityIdentification \<le> ImpersonationLevel Token"
  shows "NtPrivilegeCheck UserMode (\<lambda>_. None) None (Inr Token) (None, None, None) True n ctl a =
    (if n > SE_MAXIMUM_PRIVILEGE_LIMIT then Some (STATUS_INVALID_PARAMETER, None)
     else map_option (\<lambda>r. (STATUS_SUCCESS, Some (prod.swap r))) (SepPrivilegeCheck Token (map a [0..<unat n]) ctl UserMode))"
proof -
  have "(8 + n * 12) div 12 = n" if "n \<le> SE_MAXIMUM_PRIVILEGE_LIMIT"
  proof -
    have n: "unat n \<le> 60" using that by (simp add: word_le_nat_alt)
    then have "unat (8 + n * 12) = 8 + unat n * 12" by (simp add: unat_word_ariths)
    then have "unat ((8 + n * 12) div 12) = unat n" by (simp add: unat_div)
    then show ?thesis by (rule unsigned_word_eqI)
  qed
  moreover have "\<not> (TokenType Token = TokenImpersonation \<and> ImpersonationLevel Token < SecurityIdentification)"
    using assms by auto
  ultimately show ?thesis
    by (cases "n \<le> SE_MAXIMUM_PRIVILEGE_LIMIT")
       (auto simp: NtPrivilegeCheck_def SeCaptureLuidAndAttributesArray_def Let_def NT_SUCCESS_def prod.swap_def
          not_le split: prod.splits option.splits)
qed

theorem NtPrivilegeCheck_user_witness:
  "NtPrivilegeCheck UserMode (\<lambda>_. None) None (Inr security_token) (None, None, None) True 0x15555555 1
     (\<lambda>_. \<lparr>Luid = SeSecurityPrivilege, Luid_Attributes = 0\<rparr>) = Some (STATUS_INVALID_PARAMETER, None)"
  using NtPrivilegeCheck_user [of security_token "0x15555555" 1 "\<lambda>_. \<lparr>Luid = SeSecurityPrivilege, Luid_Attributes = 0\<rparr>"]
  by (simp add: security_token_def)

text \<open>With a count of 0 and all privileges wanted, a user-mode caller makes the assertion of the check fail.\<close>

lemma NtPrivilegeCheck_empty_asserts:
  assumes "TokenType Token = TokenPrimary \<or> SecurityIdentification \<le> ImpersonationLevel Token"
  shows "NtPrivilegeCheck UserMode (\<lambda>_. None) None (Inr Token) (None, None, None) True 0 PRIVILEGE_SET_ALL_NECESSARY a = None"
  unfolding NtPrivilegeCheck_user [OF assms] by (simp add: SepPrivilegeCheck_def)

end
