(* ===== verification/Se_AccessState.thy ===== *)
theory Se_AccessState
  imports Se_Priv "HOL-Library.Multiset"
begin

text \<open>
  Access states: \<^verbatim>\<open>ntoskrnl/se/access.c\<close>, the capture of the subject (\<^verbatim>\<open>ntoskrnl/se/subject.c\<close>) and the
  privileges that are appended to a state (\<^verbatim>\<open>ntoskrnl/se/priv.c\<close>).  The tokens of the calling thread
  and process are arguments.  Privilege sets are in byte memory, the one inside an access state at its
  offset in the 32-bit layout; the pool maps the addresses of its blocks to their sizes.  \<open>None\<close> is a
  copy that runs over the block it writes to, or freeing what is not a block.  The references to the
  tokens that the context counts are left out.
\<close>

section \<open>Model\<close>

record AUX_ACCESS_DATA =
  PrivilegesUsed :: nat
  AuxGenericMapping :: GENERIC_MAPPING

record ACCESS_STATE =
  OperationID :: LUID
  PrivilegesAllocated :: bool
  State_Flags :: ULONG
  RemainingDesiredAccess :: ACCESS_MASK
  State_PreviouslyGrantedAccess :: ACCESS_MASK
  OriginalDesiredAccess :: ACCESS_MASK
  SubjectSecurityContext :: SECURITY_SUBJECT_CONTEXT
  State_SecurityDescriptor :: nat
  AuxData :: AUX_ACCESS_DATA
  ObjectName_Buffer :: nat
  ObjectTypeName_Buffer :: nat

abbreviation (input) TOKEN_HAS_TRAVERSE_PRIVILEGE :: ULONG where "TOKEN_HAS_TRAVERSE_PRIVILEGE \<equiv> 1"

definition SeQuerySubjectContextToken :: "SECURITY_SUBJECT_CONTEXT \<Rightarrow> TOKEN" where
  "SeQuerySubjectContextToken s = (case ClientToken s of Some t \<Rightarrow> t | None \<Rightarrow> PrimaryToken s)"

text \<open>
  A thread is \<open>None\<close> for \<^verbatim>\<open>NULL\<close>, otherwise it has the token that it impersonates with its level, if
  any; the level of the context is only written when there is one.
\<close>

type_synonym THREAD = "(TOKEN \<times> SECURITY_IMPERSONATION_LEVEL) option option"

record PROCESS =
  UniqueProcessId :: nat
  ProcessToken :: TOKEN

definition SeCaptureSubjectContextEx ::
  "THREAD \<Rightarrow> PROCESS \<Rightarrow> SECURITY_SUBJECT_CONTEXT \<Rightarrow> SECURITY_SUBJECT_CONTEXT" where
  "SeCaptureSubjectContextEx Thread Process SubjectContext =
     (let s = SubjectContext\<lparr>ProcessAuditId := UniqueProcessId Process\<rparr>;
          s = (case Thread of
                 None \<Rightarrow> s\<lparr>ClientToken := None\<rparr>
               | Some None \<Rightarrow> s\<lparr>ClientToken := None\<rparr>
               | Some (Some (t, level)) \<Rightarrow> s\<lparr>ClientToken := Some t, Subject_ImpersonationLevel := level\<rparr>)
      in s\<lparr>PrimaryToken := ProcessToken Process\<rparr>)"

definition SeCaptureSubjectContext ::
  "THREAD \<Rightarrow> PROCESS \<Rightarrow> SECURITY_SUBJECT_CONTEXT \<Rightarrow> SECURITY_SUBJECT_CONTEXT" where
  "SeCaptureSubjectContext CurrentThread CurrentProcess SubjectContext =
     SeCaptureSubjectContextEx CurrentThread CurrentProcess SubjectContext"

text \<open>The zeroed structures; \<open>t\<close> stands for the token that the capture replaces.\<close>

definition zero_context :: "TOKEN \<Rightarrow> SECURITY_SUBJECT_CONTEXT" where
  "zero_context t = \<lparr>ClientToken = None, Subject_ImpersonationLevel = SecurityAnonymous, PrimaryToken = t, ProcessAuditId = 0\<rparr>"

definition zero_state :: "TOKEN \<Rightarrow> ACCESS_STATE" where
  "zero_state t = \<lparr>OperationID = \<lparr>LowPart = 0, HighPart = 0\<rparr>, PrivilegesAllocated = False, State_Flags = 0,
     RemainingDesiredAccess = 0, State_PreviouslyGrantedAccess = 0, OriginalDesiredAccess = 0,
     SubjectSecurityContext = zero_context t, State_SecurityDescriptor = 0,
     AuxData = \<lparr>PrivilegesUsed = 0,
       AuxGenericMapping = \<lparr>GenericRead = 0, GenericWrite = 0, GenericExecute = 0, GenericAll = 0\<rparr>\<rparr>,
     ObjectName_Buffer = 0, ObjectTypeName_Buffer = 0\<rparr>"

text \<open>The size of the structure, and the place and the size of the privilege set inside.\<close>

abbreviation (input) sizeof_ACCESS_STATE :: nat where "sizeof_ACCESS_STATE \<equiv> 116"
abbreviation (input) offset_Privileges :: nat where "offset_Privileges \<equiv> 52"
abbreviation (input) sizeof_INITIAL_PRIVILEGE_SET :: nat where "sizeof_INITIAL_PRIVILEGE_SET \<equiv> 44"

text \<open>
  \<open>AccessState\<close> is the address of the structure, \<open>OperationId\<close> what \<^verbatim>\<open>ExAllocateLocallyUniqueId\<close> returns.
  The two assertions, that the zeroed structure has no descriptor and no allocated set, hold by
  \<^const>\<open>zero_state\<close>.
\<close>

definition SeCreateAccessStateEx ::
  "mem \<Rightarrow> nat \<Rightarrow> THREAD \<Rightarrow> PROCESS \<Rightarrow> LUID \<Rightarrow> ACCESS_MASK \<Rightarrow> GENERIC_MAPPING option \<Rightarrow> NTSTATUS \<times> mem \<times> ACCESS_STATE" where
  "SeCreateAccessStateEx m AccessState Thread Process OperationId Access GenericMapping =
     (let AccessMask = (case GenericMapping of
                          Some g \<Rightarrow> if Access AND GENERIC_ACCESS \<noteq> 0 then RtlMapGenericMask Access g else Access
                        | None \<Rightarrow> Access);
          m = RtlZeroMemory m AccessState sizeof_ACCESS_STATE;
          s = zero_state (ProcessToken Process);
          s = s\<lparr>SubjectSecurityContext := SeCaptureSubjectContextEx Thread Process (SubjectSecurityContext s)\<rparr>;
          s = s\<lparr>RemainingDesiredAccess := AccessMask, OriginalDesiredAccess := AccessMask, OperationID := OperationId\<rparr>;
          Token = SeQuerySubjectContextToken (SubjectSecurityContext s);
          s = (if TokenFlags Token AND TOKEN_HAS_TRAVERSE_PRIVILEGE \<noteq> 0
               then s\<lparr>State_Flags := TOKEN_HAS_TRAVERSE_PRIVILEGE\<rparr> else s);
          s = s\<lparr>AuxData := (AuxData s)\<lparr>PrivilegesUsed := AccessState + offset_Privileges\<rparr>\<rparr>;
          s = (case GenericMapping of
                 Some g \<Rightarrow> s\<lparr>AuxData := (AuxData s)\<lparr>AuxGenericMapping := g\<rparr>\<rparr>
               | None \<Rightarrow> s)
      in (STATUS_SUCCESS, m, s))"

definition SeCreateAccessState ::
  "mem \<Rightarrow> nat \<Rightarrow> THREAD \<Rightarrow> PROCESS \<Rightarrow> LUID \<Rightarrow> ACCESS_MASK \<Rightarrow> GENERIC_MAPPING option \<Rightarrow> NTSTATUS \<times> mem \<times> ACCESS_STATE" where
  "SeCreateAccessState m AccessState CurrentThread CurrentProcess OperationId Access GenericMapping =
     SeCreateAccessStateEx m AccessState CurrentThread CurrentProcess OperationId Access GenericMapping"

definition SeSetAccessStateGenericMapping :: "ACCESS_STATE \<Rightarrow> GENERIC_MAPPING \<Rightarrow> ACCESS_STATE" where
  "SeSetAccessStateGenericMapping s g = s\<lparr>AuxData := (AuxData s)\<lparr>AuxGenericMapping := g\<rparr>\<rparr>"

text \<open>The pool, and freeing one of its blocks as \<^verbatim>\<open>ExFreePoolWithTag\<close> is used.\<close>

type_synonym blocks = "nat \<Rightarrow> nat option"

definition free_block :: "blocks \<Rightarrow> nat \<Rightarrow> blocks option" where
  "free_block b p = (if b p = None then None else Some (b(p := None)))"

text \<open>A copy to the offset \<open>i\<close> of a block of \<open>room\<close> bytes.\<close>

definition copy_into :: "nat \<Rightarrow> nat \<Rightarrow> mem \<Rightarrow> nat \<Rightarrow> nat \<Rightarrow> nat \<Rightarrow> mem option" where
  "copy_into block room m i Source n = (if i + n \<le> room then Some (RtlCopyMemory m (block + i) Source n) else None)"

text \<open>\<open>Allocated\<close> is what \<^verbatim>\<open>ExAllocatePoolWithTag\<close> returns for the new set, 0 when it fails.\<close>

definition append_to_new ::
  "mem \<Rightarrow> blocks \<Rightarrow> nat \<Rightarrow> ULONG \<Rightarrow> ACCESS_STATE \<Rightarrow> nat \<Rightarrow> (NTSTATUS \<times> mem \<times> blocks \<times> ACCESS_STATE) option" where
  "append_to_new m b Allocated OldPrivilegeSetSize AccessState Privileges =
     (let Used = PrivilegesUsed (AuxData AccessState);
          NewPrivilegeSetSize = OldPrivilegeSetSize + rd32 m Privileges * 12
      in if Allocated = 0 then Some (STATUS_INSUFFICIENT_RESOURCES, m, b, AccessState)
      else let b = b(Allocated \<mapsto> unat NewPrivilegeSetSize)
      in case copy_into Allocated (unat NewPrivilegeSetSize) m 0 Used (unat OldPrivilegeSetSize) of None \<Rightarrow> None | Some m \<Rightarrow>
      case copy_into Allocated (unat NewPrivilegeSetSize) m (unat OldPrivilegeSetSize) (Privileges + 20 - 12)
             (unat (rd32 m Privileges * 12)) of None \<Rightarrow> None | Some m \<Rightarrow>
      let m = wr32 m Allocated (rd32 m Allocated + rd32 m Privileges)
      in case (if PrivilegesAllocated AccessState then free_block b Used else Some b) of None \<Rightarrow> None | Some b \<Rightarrow>
      Some (STATUS_SUCCESS, m, b, AccessState\<lparr>PrivilegesAllocated := True,
        AuxData := (AuxData AccessState)\<lparr>PrivilegesUsed := Allocated\<rparr>\<rparr>))"

definition append_in_place ::
  "mem \<Rightarrow> blocks \<Rightarrow> ULONG \<Rightarrow> ACCESS_STATE \<Rightarrow> nat \<Rightarrow> (NTSTATUS \<times> mem \<times> blocks \<times> ACCESS_STATE) option" where
  "append_in_place m b OldPrivilegeSetSize AccessState Privileges =
     (let Used = PrivilegesUsed (AuxData AccessState);
          room = (if PrivilegesAllocated AccessState then b Used else Some sizeof_INITIAL_PRIVILEGE_SET)
      in case room of None \<Rightarrow> None | Some room \<Rightarrow>
      case copy_into Used room m (unat OldPrivilegeSetSize) (Privileges + 20 - 12) (unat (rd32 m Privileges * 12)) of
        None \<Rightarrow> None
      | Some m \<Rightarrow> Some (STATUS_SUCCESS, wr32 m Used (rd32 m Used + rd32 m Privileges), b, AccessState))"

definition SeAppendPrivileges ::
  "mem \<Rightarrow> blocks \<Rightarrow> nat \<Rightarrow> ACCESS_STATE \<Rightarrow> nat \<Rightarrow> (NTSTATUS \<times> mem \<times> blocks \<times> ACCESS_STATE) option" where
  "SeAppendPrivileges m b Allocated AccessState Privileges =
     (let Used = PrivilegesUsed (AuxData AccessState);
          OldPrivilegeSetSize = 20 + (rd32 m Used - 1) * 12
      in if rd32 m Used + rd32 m Privileges > INITIAL_PRIVILEGE_COUNT
         then append_to_new m b Allocated OldPrivilegeSetSize AccessState Privileges
         else append_in_place m b OldPrivilegeSetSize AccessState Privileges)"

definition SeDeleteAccessState :: "blocks \<Rightarrow> ACCESS_STATE \<Rightarrow> blocks option" where
  "SeDeleteAccessState b AccessState =
     (case (if PrivilegesAllocated AccessState then free_block b (PrivilegesUsed (AuxData AccessState)) else Some b) of
        None \<Rightarrow> None | Some b \<Rightarrow>
      case (if ObjectName_Buffer AccessState \<noteq> 0 then free_block b (ObjectName_Buffer AccessState) else Some b) of
        None \<Rightarrow> None | Some b \<Rightarrow>
      if ObjectTypeName_Buffer AccessState \<noteq> 0 then free_block b (ObjectTypeName_Buffer AccessState) else Some b)"

section \<open>The privileges of a set in memory\<close>

definition privilege_at :: "mem \<Rightarrow> nat \<Rightarrow> LUID_AND_ATTRIBUTES" where
  "privilege_at m a = \<lparr>Luid = \<lparr>LowPart = rd32 m a, HighPart = rd32 m (a + 4)\<rparr>, Luid_Attributes = rd32 m (a + 8)\<rparr>"

definition privileges_at :: "mem \<Rightarrow> nat \<Rightarrow> LUID_AND_ATTRIBUTES list" where
  "privileges_at m p = map (\<lambda>i. privilege_at m (p + 8 + 12 * i)) [0..<unat (rd32 m p)]"

text \<open>The bytes of a set.\<close>

definition set_bytes :: "mem \<Rightarrow> nat \<Rightarrow> nat set" where
  "set_bytes m p = {p..<p + 8 + 12 * unat (rd32 m p)}"

lemma privileges_at_length [simp]: "length (privileges_at m p) = unat (rd32 m p)"
  by (simp add: privileges_at_def)

lemma privilege_at_shift:
  assumes "\<And>i. i < 12 \<Longrightarrow> m' (b + i) = m (a + i)"
  shows "privilege_at m' b = privilege_at m a"
proof -
  have "rd32 m' (b + k) = rd32 m (a + k)" if "k \<le> 8" for k
    by (rule rd32_shift) (use assms [of "k + i" for i] that in \<open>auto simp: add.assoc\<close>)
  from this [of 0] this [of 4] this [of 8] show ?thesis by (simp add: privilege_at_def)
qed

lemma privileges_at_cong:
  assumes "\<And>a. a \<in> set_bytes m p \<Longrightarrow> m' a = m a"
  shows "privileges_at m' p = privileges_at m p" "rd32 m' p = rd32 m p"
proof -
  show count: "rd32 m' p = rd32 m p" by (rule rd32_cong) (use assms in \<open>auto simp: set_bytes_def\<close>)
  show "privileges_at m' p = privileges_at m p"
    unfolding privileges_at_def count
  proof (rule map_cong [OF refl])
    fix i assume "i \<in> set [0..<unat (rd32 m p)]"
    then show "privilege_at m' (p + 8 + 12 * i) = privilege_at m (p + 8 + 12 * i)"
      by (intro privilege_at_shift assms) (auto simp: set_bytes_def)
  qed
qed

lemma privileges_at_append:
  assumes "unat (rd32 m' d) = unat (rd32 m u) + unat (rd32 m q)"
    and "\<And>i. i < 12 * unat (rd32 m u) \<Longrightarrow> m' (d + 8 + i) = m (u + 8 + i)"
    and "\<And>i. i < 12 * unat (rd32 m q) \<Longrightarrow> m' (d + 8 + 12 * unat (rd32 m u) + i) = m (q + 8 + i)"
  shows "privileges_at m' d = privileges_at m u @ privileges_at m q"
proof (rule nth_equalityI)
  fix i assume "i < length (privileges_at m' d)"
  then have i: "i < unat (rd32 m u) + unat (rd32 m q)" using assms(1) by simp
  show "privileges_at m' d ! i = (privileges_at m u @ privileges_at m q) ! i"
  proof (cases "i < unat (rd32 m u)")
    case True
    have "privilege_at m' (d + 8 + 12 * i) = privilege_at m (u + 8 + 12 * i)"
      by (rule privilege_at_shift) (use assms(2) [of "12 * i + j" for j] True in \<open>simp add: add.assoc\<close>)
    with True i assms(1) show ?thesis by (simp add: privileges_at_def nth_append)
  next
    case False
    then obtain k where k: "i = unat (rd32 m u) + k" "k < unat (rd32 m q)" using i by (metis add_less_cancel_left le_Suc_ex not_less)
    have "privilege_at m' (d + 8 + 12 * i) = privilege_at m (q + 8 + 12 * k)"
      by (rule privilege_at_shift)
         (use assms(3) [of "12 * k + j" for j] k in \<open>simp add: add.assoc distrib_left\<close>)
    with k i assms(1) show ?thesis by (simp add: privileges_at_def nth_append)
  qed
qed (simp add: assms(1))

section \<open>Appending\<close>

text \<open>
  A call that appends the set at \<open>q\<close>: the sizes stay below \<open>2 ^ 32\<close>, and the set lies apart from the set
  inside the state and, like the privileges of the state, from the new block.
\<close>

definition good_call :: "mem \<Rightarrow> blocks \<Rightarrow> nat \<Rightarrow> ACCESS_STATE \<Rightarrow> nat \<Rightarrow> bool" where
  "good_call m b Allocated s q \<longleftrightarrow>
     (let U = PrivilegesUsed (AuxData s); n = 8 + 12 * (unat (rd32 m U) + unat (rd32 m q))
      in n < 2 ^ 32 \<and> set_bytes m q \<inter> {U..<U + sizeof_INITIAL_PRIVILEGE_SET} = {} \<and>
         (Allocated \<noteq> 0 \<longrightarrow> b Allocated = None \<and> {Allocated..<Allocated + n} \<inter> (set_bytes m U \<union> set_bytes m q) = {}))"

lemma set_sizes:
  assumes "8 + 12 * (unat x + unat y) < 2 ^ 32"
  shows "unat (20 + (x - 1) * 12 :: ULONG) = 8 + 12 * unat x" "unat (y * 12) = 12 * unat y"
    "unat (20 + (x - 1) * 12 + y * 12 :: ULONG) = 8 + 12 * (unat x + unat y)" "unat (x + y) = unat x + unat y"
    "x + y > INITIAL_PRIVILEGE_COUNT \<longleftrightarrow> 3 < unat x + unat y"
proof -
  have e: "20 + (x - 1) * 12 = 8 + x * 12" "20 + (x - 1) * 12 + y * 12 = 8 + (x + y) * 12" by (simp_all add: algebra_simps)
  have m: "unat (8 + z * 12) = 8 + 12 * unat z" if "8 + 12 * unat z < 2 ^ 32" for z :: ULONG
    using that by (simp add: unat_word_ariths)
  show s: "unat (x + y) = unat x + unat y" using assms by (simp add: unat_word_ariths)
  show "unat (20 + (x - 1) * 12 :: ULONG) = 8 + 12 * unat x" "unat (y * 12) = 12 * unat y"
    unfolding e using assms m [of x] by (simp_all add: unat_word_ariths)
  show "unat (20 + (x - 1) * 12 + y * 12 :: ULONG) = 8 + 12 * (unat x + unat y)"
    unfolding e(2) using assms m [of "x + y"] unfolding s by blast
  show "x + y > INITIAL_PRIVILEGE_COUNT \<longleftrightarrow> 3 < unat x + unat y" unfolding word_less_nat_alt s by simp
qed

lemma rd32_outside: "rd32 (RtlMoveMemory m d s n) a = rd32 m a" if "{a..<a + 4} \<inter> {d..<d + n} = {}"
proof (rule rd32_cong)
  fix i :: nat assume "i < 4"
  with that have "a + i \<notin> {d..<d + n}" by (metis IntI add_strict_left_mono atLeastLessThan_iff empty_iff le_add1)
  then show "RtlMoveMemory m d s n (a + i) = m (a + i)" by (auto simp: RtlMoveMemory_def)
qed

lemma append_in_place_eq:
  assumes "good_call m b Allocated s q" "\<not> PrivilegesAllocated s" "U = PrivilegesUsed (AuxData s)"
    and "unat (rd32 m U) + unat (rd32 m q) \<le> 3"
  shows "\<exists>m'. SeAppendPrivileges m b Allocated s q = Some (STATUS_SUCCESS, m', b, s) \<and>
    privileges_at m' U = privileges_at m U @ privileges_at m q"
proof -
  define x y where "x = unat (rd32 m U)" and "y = unat (rd32 m q)"
  have n: "8 + 12 * (unat (rd32 m U) + unat (rd32 m q)) < 2 ^ 32" and dis: "set_bytes m q \<inter> {U..<U + 44} = {}"
    using assms(1,3) by (simp_all add: good_call_def Let_def)
  note sz = set_sizes [OF n, folded x_def y_def]
  define m1 where "m1 = RtlCopyMemory m (U + (8 + 12 * x)) (8 + q) (12 * y)"
  have xy: "x + y \<le> 3" using assms(4) by (simp add: x_def y_def)
  have c: "rd32 m1 U = rd32 m U" unfolding m1_def by (rule rd32_outside) auto
  have cq: "rd32 m1 q = rd32 m q"
  proof -
    have "{q..<q + 4} \<subseteq> set_bytes m q" by (auto simp: set_bytes_def)
    moreover have "{U + (8 + 12 * x)..<U + (8 + 12 * x) + 12 * y} \<subseteq> {U..<U + 44}" using xy by auto
    ultimately show ?thesis unfolding m1_def using dis by (intro rd32_outside) blast
  qed
  define m' where "m' = wr32 m1 U (rd32 m U + rd32 m q)"
  have "SeAppendPrivileges m b Allocated s q = Some (STATUS_SUCCESS, m', b, s)"
    using assms(2) sz xy c cq unfolding SeAppendPrivileges_def append_in_place_def Let_def assms(3) [symmetric] m'_def m1_def
    by (simp add: copy_into_def)
  moreover have "privileges_at m' U = privileges_at m U @ privileges_at m q"
    by (rule privileges_at_append)
       (use sz(4) in \<open>auto simp: m'_def m1_def wr32_apply RtlMoveMemory_def x_def [symmetric] y_def [symmetric] ac_simps\<close>)
  ultimately show ?thesis by blast
qed

lemma append_to_new_eq:
  assumes "good_call m b Allocated s q" "Allocated \<noteq> 0" "U = PrivilegesUsed (AuxData s)"
    and "n = unat (rd32 m U) + unat (rd32 m q)" "3 < n" "PrivilegesAllocated s \<Longrightarrow> b U \<noteq> None"
  shows "\<exists>m'. SeAppendPrivileges m b Allocated s q = Some (STATUS_SUCCESS, m',
      (if PrivilegesAllocated s then b(Allocated \<mapsto> 8 + 12 * n, U := None) else b(Allocated \<mapsto> 8 + 12 * n)),
      s\<lparr>PrivilegesAllocated := True, AuxData := (AuxData s)\<lparr>PrivilegesUsed := Allocated\<rparr>\<rparr>) \<and>
    privileges_at m' Allocated = privileges_at m U @ privileges_at m q"
proof -
  define x y where "x = unat (rd32 m U)" and "y = unat (rd32 m q)"
  have n: "8 + 12 * (unat (rd32 m U) + unat (rd32 m q)) < 2 ^ 32"
    and dis: "{Allocated..<Allocated + (8 + 12 * n)} \<inter> (set_bytes m U \<union> set_bytes m q) = {}"
    using assms(1-4) by (simp_all add: good_call_def Let_def add.assoc)
  note sz = set_sizes [OF n, folded x_def y_def]
  have nxy: "n = x + y" using assms(4) by (simp add: x_def y_def)
  define m1 where "m1 = RtlCopyMemory m Allocated U (8 + 12 * x)"
  define m2 where "m2 = RtlCopyMemory m1 (Allocated + (8 + 12 * x)) (8 + q) (12 * y)"
  have qb: "{q..<q + 4} \<subseteq> set_bytes m q" by (auto simp: set_bytes_def)
  have in1: "{Allocated..<Allocated + (8 + 12 * x)} \<subseteq> {Allocated..<Allocated + (8 + 12 * n)}"
    and in2: "{Allocated + (8 + 12 * x)..<Allocated + (8 + 12 * x) + 12 * y} \<subseteq> {Allocated..<Allocated + (8 + 12 * n)}"
    by (auto simp: nxy)
  have cq1: "rd32 m1 q = rd32 m q" unfolding m1_def using dis qb in1 by (intro rd32_outside) blast
  have cq2: "rd32 m2 q = rd32 m q" unfolding m2_def cq1 [symmetric] using dis qb in2 by (intro rd32_outside) blast
  have ca: "rd32 m2 Allocated = rd32 m U"
    by (rule rd32_shift) (auto simp: m2_def m1_def RtlMoveMemory_def)
  have srcq: "m1 a = m a" if "a \<in> set_bytes m q" for a
  proof -
    have "a \<notin> {Allocated..<Allocated + (8 + 12 * x)}" using that dis in1 by blast
    then show ?thesis by (auto simp: m1_def RtlMoveMemory_def)
  qed
  define m' where "m' = wr32 m2 Allocated (rd32 m U + rd32 m q)"
  have UA: "U \<noteq> Allocated" 
  proof
    assume "U = Allocated"
    then have "Allocated \<in> {Allocated..<Allocated + (8 + 12 * n)} \<inter> set_bytes m U" by (simp add: set_bytes_def)
    with dis show False by blast
  qed
  have "SeAppendPrivileges m b Allocated s q = Some (STATUS_SUCCESS, m',
      (if PrivilegesAllocated s then b(Allocated \<mapsto> 8 + 12 * n, U := None) else b(Allocated \<mapsto> 8 + 12 * n)),
      s\<lparr>PrivilegesAllocated := True, AuxData := (AuxData s)\<lparr>PrivilegesUsed := Allocated\<rparr>\<rparr>)"
    using assms(2,5,6) sz nxy UA cq1 cq2 ca
    unfolding SeAppendPrivileges_def append_to_new_def Let_def assms(3) [symmetric] m'_def m2_def m1_def
    by (auto simp: copy_into_def free_block_def)
  moreover have "privileges_at m' Allocated = privileges_at m U @ privileges_at m q"
  proof (rule privileges_at_append)
    fix i assume "i < 12 * unat (rd32 m q)"
    then have i: "i < 12 * y" "q + 8 + i \<in> set_bytes m q" by (auto simp: set_bytes_def y_def)
    then show "m' (Allocated + 8 + 12 * unat (rd32 m U) + i) = m (q + 8 + i)"
      using srcq [OF i(2)] by (simp add: m'_def m2_def wr32_apply RtlMoveMemory_def x_def [symmetric] ac_simps)
  qed (use sz(4) in \<open>auto simp: m'_def m2_def m1_def wr32_apply RtlMoveMemory_def x_def [symmetric] y_def [symmetric] ac_simps\<close>)
  ultimately show ?thesis by blast
qed

section \<open>The life of an access state\<close>

text \<open>
  An access state at the address \<open>A\<close> is created, gets privileges appended, new mappings and buffers for its
  names, which the caller allocates; between the calls the rest of the memory may change.  The last
  component collects the privileges of the calls that succeeded.
\<close>

inductive access_state_run :: "nat \<Rightarrow> blocks \<Rightarrow> mem \<Rightarrow> blocks \<Rightarrow> ACCESS_STATE \<Rightarrow> LUID_AND_ATTRIBUTES list \<Rightarrow> bool" for A b0 where
  create: "SeCreateAccessState m A thread process luid access mapping = (STATUS_SUCCESS, m', s) \<Longrightarrow>
    access_state_run A b0 m' b0 s []"
| append: "access_state_run A b0 m b s ps \<Longrightarrow> good_call m b Allocated s q \<Longrightarrow>
    SeAppendPrivileges m b Allocated s q = Some (STATUS_SUCCESS, m', b', s') \<Longrightarrow>
    access_state_run A b0 m' b' s' (ps @ privileges_at m q)"
| append_fails: "access_state_run A b0 m b s ps \<Longrightarrow> good_call m b Allocated s q \<Longrightarrow>
    SeAppendPrivileges m b Allocated s q = Some (STATUS_INSUFFICIENT_RESOURCES, m', b', s') \<Longrightarrow>
    access_state_run A b0 m' b' s' ps"
| mapping: "access_state_run A b0 m b s ps \<Longrightarrow>
    access_state_run A b0 m b (SeSetAccessStateGenericMapping s g) ps"
| object_name: "access_state_run A b0 m b s ps \<Longrightarrow> ObjectName_Buffer s = 0 \<Longrightarrow> p \<noteq> 0 \<Longrightarrow> b p = None \<Longrightarrow>
    access_state_run A b0 m (b(p \<mapsto> n)) (s\<lparr>ObjectName_Buffer := p\<rparr>) ps"
| type_name: "access_state_run A b0 m b s ps \<Longrightarrow> ObjectTypeName_Buffer s = 0 \<Longrightarrow> p \<noteq> 0 \<Longrightarrow> b p = None \<Longrightarrow>
    access_state_run A b0 m (b(p \<mapsto> n)) (s\<lparr>ObjectTypeName_Buffer := p\<rparr>) ps"
| others: "access_state_run A b0 m b s ps \<Longrightarrow> (\<forall>a \<in> set_bytes m (PrivilegesUsed (AuxData s)). m' a = m a) \<Longrightarrow>
    access_state_run A b0 m' b s ps"

text \<open>The pool blocks that belong to a state.\<close>

definition owned :: "ACCESS_STATE \<Rightarrow> nat list" where
  "owned s = (if PrivilegesAllocated s then [PrivilegesUsed (AuxData s)] else []) @
     (if ObjectName_Buffer s \<noteq> 0 then [ObjectName_Buffer s] else []) @
     (if ObjectTypeName_Buffer s \<noteq> 0 then [ObjectTypeName_Buffer s] else [])"

definition pool_inv :: "blocks \<Rightarrow> blocks \<Rightarrow> nat list \<Rightarrow> bool" where
  "pool_inv b0 b ps \<longleftrightarrow> distinct ps \<and> (\<forall>p \<in> set ps. b p \<noteq> None \<and> b0 p = None) \<and> (\<forall>p. p \<notin> set ps \<longrightarrow> b p = b0 p)"

text \<open>
  The invariant: without an allocated set the privileges are in the three entries inside the state, and an
  allocated set, which has no spare room, holds more.
\<close>

definition state_inv :: "nat \<Rightarrow> blocks \<Rightarrow> mem \<Rightarrow> blocks \<Rightarrow> ACCESS_STATE \<Rightarrow> LUID_AND_ATTRIBUTES list \<Rightarrow> bool" where
  "state_inv A b0 m b s ps \<longleftrightarrow>
     (let U = PrivilegesUsed (AuxData s)
      in privileges_at m U = ps \<and> (PrivilegesAllocated s \<longleftrightarrow> 3 < length ps) \<and>
         (if PrivilegesAllocated s then b U = Some (8 + 12 * length ps) else U = A + offset_Privileges)) \<and>
     pool_inv b0 b (owned s)"

lemma pool_inv_add: "pool_inv b0 b ps \<Longrightarrow> b p = None \<Longrightarrow> mset qs = add_mset p (mset ps) \<Longrightarrow> pool_inv b0 (b(p \<mapsto> n)) qs"
proof -
  assume inv: "pool_inv b0 b ps" and p: "b p = None" and qs: "mset qs = add_mset p (mset ps)"
  have new: "p \<notin> set ps" using inv p unfolding pool_inv_def by metis
  have "set qs = insert p (set ps)" using arg_cong [OF qs, of set_mset] by simp
  moreover have "distinct qs"
    using inv new qs unfolding pool_inv_def distinct_count_atmost_1
    by (metis (no_types) distinct.simps(2) distinct_count_atmost_1 mset.simps(2) set_mset_mset)
  ultimately show ?thesis using inv p unfolding pool_inv_def by auto
qed

lemma pool_inv_free: "pool_inv b0 b (p # ps) \<Longrightarrow> free_block b p = Some (b(p := None)) \<and> pool_inv b0 (b(p := None)) ps"
  unfolding pool_inv_def free_block_def by (auto split: if_splits)

lemma SeDeleteAccessState_frees: "pool_inv b0 b (owned s) \<Longrightarrow> SeDeleteAccessState b s = Some b0"
proof -
  assume inv: "pool_inv b0 b (owned s)"
  have "pool_inv b0 b' [] \<Longrightarrow> b' = b0" for b' by (auto simp: pool_inv_def)
  then show ?thesis
    using inv unfolding owned_def SeDeleteAccessState_def
    by (auto dest!: pool_inv_free split: if_splits)
qed

lemma SeAppendPrivileges_inv:
  assumes "state_inv A b0 m b s ps" "good_call m b Allocated s q"
  shows "if 3 < length ps + length (privileges_at m q) \<and> Allocated = 0
    then SeAppendPrivileges m b Allocated s q = Some (STATUS_INSUFFICIENT_RESOURCES, m, b, s)
    else \<exists>m' b' s'. SeAppendPrivileges m b Allocated s q = Some (STATUS_SUCCESS, m', b', s') \<and>
      state_inv A b0 m' b' s' (ps @ privileges_at m q)"
proof -
  define U where "U = PrivilegesUsed (AuxData s)"
  have ps: "ps = privileges_at m U" "length ps = unat (rd32 m U)"
    using assms(1) by (auto simp: state_inv_def U_def Let_def)
  have lim: "8 + 12 * (unat (rd32 m U) + unat (rd32 m q)) < 2 ^ 32" using assms(2) by (simp add: good_call_def Let_def U_def)
  consider (place) "length ps + unat (rd32 m q) \<le> 3" | (fail) "3 < length ps + unat (rd32 m q)" "Allocated = 0"
    | (new) "3 < length ps + unat (rd32 m q)" "Allocated \<noteq> 0" by linarith
  then show ?thesis
  proof cases
    case place
    then have na: "\<not> PrivilegesAllocated s" using assms(1) by (auto simp: state_inv_def Let_def)
    from append_in_place_eq [OF assms(2) na U_def] place ps obtain m' where
      m': "SeAppendPrivileges m b Allocated s q = Some (STATUS_SUCCESS, m', b, s)" "privileges_at m' U = ps @ privileges_at m q"
      by auto
    then show ?thesis using assms(1) place na by (auto simp: state_inv_def Let_def U_def [symmetric])
  next
    case fail
    then show ?thesis
      using set_sizes(5) [OF lim] ps(2) by (simp add: SeAppendPrivileges_def append_to_new_def Let_def U_def [symmetric])
  next
    case new
    have old: "PrivilegesAllocated s \<Longrightarrow> b U \<noteq> None" using assms(1) by (auto simp: state_inv_def Let_def U_def split: if_splits)
    let ?s = "s\<lparr>PrivilegesAllocated := True, AuxData := (AuxData s)\<lparr>PrivilegesUsed := Allocated\<rparr>\<rparr>"
    let ?n = "length ps + unat (rd32 m q)"
    let ?b = "if PrivilegesAllocated s then b(Allocated \<mapsto> 8 + 12 * ?n, U := None) else b(Allocated \<mapsto> 8 + 12 * ?n)"
    from append_to_new_eq [OF assms(2) new(2) U_def _ _ old, of ?n] new(1) ps obtain m' where
      m': "SeAppendPrivileges m b Allocated s q = Some (STATUS_SUCCESS, m', ?b, ?s)" "privileges_at m' Allocated = ps @ privileges_at m q"
      by auto
    have free: "b Allocated = None" using assms(2) new(2) by (simp add: good_call_def Let_def)
    then have UA: "PrivilegesAllocated s \<Longrightarrow> U \<noteq> Allocated" using old by auto
    have inv: "pool_inv b0 b (owned s)" using assms(1) by (simp add: state_inv_def)
    have "pool_inv b0 ?b (owned ?s)"
    proof (cases "PrivilegesAllocated s")
      case True
      have o: "owned s = U # tl (owned s)" "owned ?s = Allocated # tl (owned s)" using True by (simp_all add: owned_def U_def)
      have "pool_inv b0 (b(U := None)) (tl (owned s))" using pool_inv_free inv o(1) by metis
      then have "pool_inv b0 (b(U := None, Allocated \<mapsto> 8 + 12 * ?n)) (owned ?s)"
        by (rule pool_inv_add) (use free o(2) in auto)
      then show ?thesis using True UA by (simp add: fun_upd_twist)
    next
      case False
      then show ?thesis using pool_inv_add [OF inv free] by (simp add: owned_def)
    qed
    with m' new UA show ?thesis by (auto simp: state_inv_def Let_def)
  qed
qed

lemma state_inv_names:
  assumes "state_inv A b0 m b s ps" "pool_inv b0 (b(p \<mapsto> n)) (owned s')" "b p = None"
    and "AuxData s' = AuxData s" "PrivilegesAllocated s' = PrivilegesAllocated s"
  shows "state_inv A b0 m (b(p \<mapsto> n)) s' ps"
proof -
  have "(b(p \<mapsto> n)) U = b U" if "b U \<noteq> None" for U using assms(3) that by auto
  with assms show ?thesis unfolding state_inv_def Let_def by (metis (full_types) option.distinct(1))
qed

lemma SeCreateAccessState_fresh:
  assumes "SeCreateAccessState m A thread process luid access mapping = (st, m', s)"
  shows "m' = RtlZeroMemory m A 116" "PrivilegesUsed (AuxData s) = A + 52" "owned s = []" "\<not> PrivilegesAllocated s"
proof -
  have "m' = fst (snd (SeCreateAccessState m A thread process luid access mapping))"
    "s = snd (snd (SeCreateAccessState m A thread process luid access mapping))" using assms by simp_all
  then show "m' = RtlZeroMemory m A 116" "PrivilegesUsed (AuxData s) = A + 52" "owned s = []" "\<not> PrivilegesAllocated s"
    by (simp_all add: SeCreateAccessState_def SeCreateAccessStateEx_def Let_def zero_state_def owned_def split: option.split)
qed

lemma access_state_run_inv: "access_state_run A b0 m b s ps \<Longrightarrow> state_inv A b0 m b s ps"
proof (induction rule: access_state_run.induct)
  case (create m thread process luid access mapping m' s)
  have "rd32 (RtlZeroMemory m A 116) (A + 52) = 0" by (simp add: rd32_def rd16_def RtlZeroMemory_def)
  with SeCreateAccessState_fresh [OF create] show ?case
    by (simp add: state_inv_def Let_def privileges_at_def pool_inv_def)
next
  case (append m b s ps Allocated q m' b' s')
  then show ?case using SeAppendPrivileges_inv [OF append.IH append.hyps(2)] by (auto split: if_splits)
next
  case (append_fails m b s ps Allocated q m' b' s')
  then show ?case using SeAppendPrivileges_inv [OF append_fails.IH append_fails.hyps(2)] by (auto split: if_splits)
next
  case (mapping m b s ps g)
  have "owned (SeSetAccessStateGenericMapping s g) = owned s" by (simp add: owned_def SeSetAccessStateGenericMapping_def)
  with mapping show ?case by (simp add: state_inv_def SeSetAccessStateGenericMapping_def)
next
  case (object_name m b s ps p n)
  have "pool_inv b0 (b(p \<mapsto> n)) (owned (s\<lparr>ObjectName_Buffer := p\<rparr>))"
    by (rule pool_inv_add [of _ _ "owned s"]) (use object_name in \<open>auto simp: state_inv_def owned_def\<close>)
  then show ?case using object_name by (intro state_inv_names) simp_all
next
  case (type_name m b s ps p n)
  have "pool_inv b0 (b(p \<mapsto> n)) (owned (s\<lparr>ObjectTypeName_Buffer := p\<rparr>))"
    by (rule pool_inv_add [of _ _ "owned s"]) (use type_name in \<open>auto simp: state_inv_def owned_def\<close>)
  then show ?case using type_name by (intro state_inv_names) simp_all
next
  case (others m b s ps m')
  then show ?case using privileges_at_cong(1) [of m "PrivilegesUsed (AuxData s)" m'] by (auto simp: state_inv_def Let_def)
qed

text \<open>
  C26.  Whatever is done with an access state, the set in memory that it points to holds the privileges that
  were appended to it, in order: inside the state as long as they are at most three, in an allocated
  block of just their size otherwise.  A further call with a set that lies apart and sizes below \<open>2 ^ 32\<close>
  runs over no block; it fails only when a new block is needed and cannot be allocated.  Deleting the
  state frees exactly the blocks that it holds: the allocated set and the buffers of the two names.
\<close>

theorem access_state_privileges:
  assumes "access_state_run A b0 m b s ps"
  shows "privileges_at m (PrivilegesUsed (AuxData s)) = ps \<and>
    (if length ps \<le> 3 then PrivilegesUsed (AuxData s) = A + 52
     else b (PrivilegesUsed (AuxData s)) = Some (8 + 12 * length ps)) \<and>
    SeDeleteAccessState b s = Some b0 \<and>
    (good_call m b Allocated s q \<longrightarrow>
      (if 3 < length ps + length (privileges_at m q) \<and> Allocated = 0
       then SeAppendPrivileges m b Allocated s q = Some (STATUS_INSUFFICIENT_RESOURCES, m, b, s)
       else \<exists>m' b' s'. SeAppendPrivileges m b Allocated s q = Some (STATUS_SUCCESS, m', b', s') \<and>
         privileges_at m' (PrivilegesUsed (AuxData s')) = ps @ privileges_at m q))"
proof -
  have inv: "state_inv A b0 m b s ps" using access_state_run_inv [OF assms] .
  have "SeDeleteAccessState b s = Some b0" using inv by (intro SeDeleteAccessState_frees) (simp add: state_inv_def)
  moreover have "good_call m b Allocated s q \<Longrightarrow>
      (if 3 < length ps + length (privileges_at m q) \<and> Allocated = 0
       then SeAppendPrivileges m b Allocated s q = Some (STATUS_INSUFFICIENT_RESOURCES, m, b, s)
       else \<exists>m' b' s'. SeAppendPrivileges m b Allocated s q = Some (STATUS_SUCCESS, m', b', s') \<and>
         privileges_at m' (PrivilegesUsed (AuxData s')) = ps @ privileges_at m q)"
    using SeAppendPrivileges_inv [OF inv, of Allocated q] unfolding state_inv_def Let_def by (auto split: if_splits)
  ultimately show ?thesis using inv by (auto simp: state_inv_def Let_def not_le)
qed

text \<open>A memory with a set of four privileges at 1000; the state is at 100 and the new block at 2000.\<close>

definition plain_process :: PROCESS where
  "plain_process = \<lparr>UniqueProcessId = 4, ProcessToken = security_token\<rparr>"

definition set_mem :: mem where
  "set_mem = (\<lambda>a. if a = 1000 then 4 else if a \<ge> 1008 then 7 else 0)"

definition fresh_state :: ACCESS_STATE where
  "fresh_state = snd (snd (SeCreateAccessState set_mem 100 None plain_process SeAuditPrivilege 0 None))"

lemma fresh_state_run: "access_state_run 100 b0 (RtlZeroMemory set_mem 100 116) b0 fresh_state []"
  by (rule create [of set_mem 100 None plain_process SeAuditPrivilege 0 None])
     (simp add: SeCreateAccessState_def SeCreateAccessStateEx_def Let_def fresh_state_def)

theorem access_state_privileges_witness:
  "\<exists>m' b' s'. SeAppendPrivileges (RtlZeroMemory set_mem 100 116) (\<lambda>_. None) 2000 fresh_state 1000 = Some (STATUS_SUCCESS, m', b', s') \<and>
     length (privileges_at m' (PrivilegesUsed (AuxData s'))) = 4"
proof -
  have c: "rd32 (RtlZeroMemory set_mem 100 116) 1000 = 4" "rd32 (RtlZeroMemory set_mem 100 116) 152 = 0"
    "PrivilegesUsed (AuxData fresh_state) = 152"
    by (simp_all add: rd32_def rd16_def RtlZeroMemory_def set_mem_def fresh_state_def SeCreateAccessState_def
        SeCreateAccessStateEx_def Let_def)
  then have "good_call (RtlZeroMemory set_mem 100 116) (\<lambda>_. None) 2000 fresh_state 1000"
    by (auto simp: good_call_def set_bytes_def)
  with access_state_privileges [OF fresh_state_run, of "\<lambda>_. None" 2000 1000] obtain m' b' s' where
    "SeAppendPrivileges (RtlZeroMemory set_mem 100 116) (\<lambda>_. None) 2000 fresh_state 1000 = Some (STATUS_SUCCESS, m', b', s')"
    "privileges_at m' (PrivilegesUsed (AuxData s')) = privileges_at (RtlZeroMemory set_mem 100 116) 1000" by auto
  moreover have "length (privileges_at (RtlZeroMemory set_mem 100 116) 1000) = 4" using c(1) by simp
  ultimately show ?thesis by metis
qed

end
