(* ===== verification/Se_ObjType.thy ===== *)
theory Se_ObjType
  imports Se_Token
begin

text \<open>
  Object type lists: \<^verbatim>\<open>ntoskrnl/se/objtype.c\<close> and the four routines of \<^verbatim>\<open>ntoskrnl/se/accesschk.c\<close> that
  record granted and denied rights in such a list.  The list that a caller passes is read from
  memory; the captured list is a list of records.  The probes of user memory are arguments that
  return the exception they raise, if any; sizes are 32 bits wide.
\<close>

section \<open>Model\<close>

type_synonym GUID = "UCHAR list"

record ACCESS_CHECK_RIGHTS =
  RemainingAccessRights :: ACCESS_MASK
  GrantedAccessRights :: ACCESS_MASK
  DeniedAccessRights :: ACCESS_MASK

record OBJECT_TYPE_LIST_INTERNAL =
  ObjectTypeGuid :: GUID
  Obj_Level :: USHORT
  ObjectAccessRights :: ACCESS_CHECK_RIGHTS

abbreviation (input) ACCESS_OBJECT_GUID :: USHORT where "ACCESS_OBJECT_GUID \<equiv> 0"
abbreviation (input) ACCESS_MAX_LEVEL :: USHORT where "ACCESS_MAX_LEVEL \<equiv> 4"

text \<open>The fields of the caller's list, whose entries have eight bytes.\<close>

definition Obj_ListLevel :: "mem \<Rightarrow> nat \<Rightarrow> nat \<Rightarrow> USHORT" where "Obj_ListLevel m List i = rd16 m (List + 8 * i)"
definition Obj_ListType :: "mem \<Rightarrow> nat \<Rightarrow> nat \<Rightarrow> nat" where "Obj_ListType m List i = unat (rd32 m (List + 8 * i + 4))"

text \<open>The loop over the entries from index \<open>i\<close> on, of which \<open>n\<close> are left.\<close>

fun validate_objects :: "mem \<Rightarrow> (nat \<Rightarrow> NTSTATUS option) \<Rightarrow> nat \<Rightarrow> nat \<Rightarrow> USHORT \<Rightarrow> nat \<Rightarrow> NTSTATUS" where
  "validate_objects m probe List i PrevLevel 0 = STATUS_SUCCESS"
| "validate_objects m probe List i PrevLevel (Suc n) =
     (let Level = Obj_ListLevel m List i
      in if Level > ACCESS_MAX_LEVEL then STATUS_INVALID_PARAMETER
         else if i \<noteq> 0 \<and> Level = ACCESS_OBJECT_GUID then STATUS_INVALID_PARAMETER
         else if i \<noteq> 0 \<and> unat Level > unat PrevLevel + 1 then STATUS_INVALID_PARAMETER
         else if i = 0 \<and> Level \<noteq> ACCESS_OBJECT_GUID then STATUS_INVALID_PARAMETER
         else (case probe (Obj_ListType m List i) of
                 Some code \<Rightarrow> code
               | None \<Rightarrow> validate_objects m probe List (i + 1) Level n))"

definition SepValidateObjectTypeList ::
  "mem \<Rightarrow> (ULONG \<Rightarrow> NTSTATUS option) \<Rightarrow> (nat \<Rightarrow> NTSTATUS option) \<Rightarrow> nat \<Rightarrow> ULONG \<Rightarrow> NTSTATUS" where
  "SepValidateObjectTypeList m probe_list probe_guid ObjectTypeList ObjectTypeListLength =
     (let Size = ObjectTypeListLength * 8
      in if Size = 0 then STATUS_INVALID_PARAMETER
         else (case probe_list Size of
                 Some code \<Rightarrow> code
               | None \<Rightarrow> validate_objects m probe_guid ObjectTypeList 0 0 (unat ObjectTypeListLength)))"

text \<open>\<^verbatim>\<open>RtlCompareMemory\<close> on two byte strings: the number of bytes before the first difference.\<close>

fun RtlCompareMemory :: "UCHAR list \<Rightarrow> UCHAR list \<Rightarrow> nat" where
  "RtlCompareMemory (x # xs) (y # ys) = (if x = y then Suc (RtlCompareMemory xs ys) else 0)"
| "RtlCompareMemory _ _ = 0"

definition SepIsEqualObjectTypeGuid :: "GUID \<Rightarrow> GUID \<Rightarrow> bool" where
  "SepIsEqualObjectTypeGuid Guid1 Guid2 = (RtlCompareMemory Guid1 Guid2 = sizeof_GUID)"

text \<open>Both kinds of object ACE have the GUID in the same place; the result is its address.\<close>

definition SepGetObjectTypeGuidFromAce :: "nat \<Rightarrow> bool \<Rightarrow> nat" where
  "SepGetObjectTypeGuidFromAce Ace IsAceDenied = (if IsAceDenied then Ace + 12 else Ace + 12)"

fun guid_in_list :: "nat \<Rightarrow> OBJECT_TYPE_LIST_INTERNAL list \<Rightarrow> GUID \<Rightarrow> nat option" where
  "guid_in_list i [] g = None"
| "guid_in_list i (x # xs) g = (if SepIsEqualObjectTypeGuid g (ObjectTypeGuid x) then Some i else guid_in_list (i + 1) xs g)"

definition SepObjectTypeGuidInList :: "OBJECT_TYPE_LIST_INTERNAL list \<Rightarrow> GUID \<Rightarrow> nat option" where
  "SepObjectTypeGuidInList ObjectTypeList g = guid_in_list 0 ObjectTypeList g"

text \<open>
  \<^verbatim>\<open>SeCaptureObjectTypeList\<close>: \<open>pool\<close> tells whether an allocation of a size succeeds, \<open>fault\<close> the
  exception of the copy.  The captured list comes with the size of its block; it is \<open>None\<close> when
  nothing is stored, and an empty list of no bytes stands for the stored \<^verbatim>\<open>NULL\<close>.
\<close>

definition capture_object :: "mem \<Rightarrow> nat \<Rightarrow> nat \<Rightarrow> OBJECT_TYPE_LIST_INTERNAL" where
  "capture_object m List i =
     \<lparr>ObjectTypeGuid = bytes m (Obj_ListType m List i) sizeof_GUID, Obj_Level = Obj_ListLevel m List i,
      ObjectAccessRights = \<lparr>RemainingAccessRights = 0, GrantedAccessRights = 0, DeniedAccessRights = 0\<rparr>\<rparr>"

definition SeCaptureObjectTypeList ::
  "mem \<Rightarrow> (ULONG \<Rightarrow> NTSTATUS option) \<Rightarrow> (nat \<Rightarrow> NTSTATUS option) \<Rightarrow> (ULONG \<Rightarrow> bool) \<Rightarrow> NTSTATUS option \<Rightarrow> nat \<Rightarrow> ULONG \<Rightarrow>
     KPROCESSOR_MODE \<Rightarrow> NTSTATUS \<times> (ULONG \<times> OBJECT_TYPE_LIST_INTERNAL list) option" where
  "SeCaptureObjectTypeList m probe_list probe_guid pool fault ObjectTypeList ObjectTypeListLength PreviousMode =
     (if PreviousMode = KernelMode then (STATUS_NOT_IMPLEMENTED, None)
      else if ObjectTypeListLength = 0 then (STATUS_SUCCESS, Some (0, []))
      else if ObjectTypeList = 0 then (STATUS_INVALID_PARAMETER, None)
      else
        let Status = SepValidateObjectTypeList m probe_list probe_guid ObjectTypeList ObjectTypeListLength
        in if \<not> NT_SUCCESS Status then (Status, None)
           else
             let Size = ObjectTypeListLength * 32
             in if \<not> pool Size then (STATUS_INSUFFICIENT_RESOURCES, None)
                else (case fault of
                        Some code \<Rightarrow> (code, None)
                      | None \<Rightarrow> (STATUS_SUCCESS,
                          Some (Size, map (capture_object m ObjectTypeList) [0..<unat ObjectTypeListLength]))))"

subsection \<open>Recording rights\<close>

definition deny_rights :: "ACCESS_MASK \<Rightarrow> OBJECT_TYPE_LIST_INTERNAL \<Rightarrow> OBJECT_TYPE_LIST_INTERNAL" where
  "deny_rights AccessMask x =
     (let r = ObjectAccessRights x
      in x\<lparr>ObjectAccessRights := r\<lparr>DeniedAccessRights := DeniedAccessRights r OR (AccessMask AND NOT (GrantedAccessRights r))\<rparr>\<rparr>)"

definition allow_rights :: "ACCESS_MASK \<Rightarrow> OBJECT_TYPE_LIST_INTERNAL \<Rightarrow> OBJECT_TYPE_LIST_INTERNAL" where
  "allow_rights AccessMask x =
     (let r = ObjectAccessRights x
      in x\<lparr>ObjectAccessRights := r\<lparr>GrantedAccessRights := GrantedAccessRights r OR (AccessMask AND NOT (DeniedAccessRights r))\<rparr>\<rparr>)"

text \<open>The loop over the children: the entries after the target up to one that is not below it.\<close>

fun update_children ::
  "(OBJECT_TYPE_LIST_INTERNAL \<Rightarrow> OBJECT_TYPE_LIST_INTERNAL) \<Rightarrow> USHORT \<Rightarrow> OBJECT_TYPE_LIST_INTERNAL list \<Rightarrow>
     OBJECT_TYPE_LIST_INTERNAL list" where
  "update_children f Level [] = []"
| "update_children f Level (x # xs) = (if Obj_Level x \<le> Level then x # xs else f x # update_children f Level xs)"

definition update_subtree ::
  "(OBJECT_TYPE_LIST_INTERNAL \<Rightarrow> OBJECT_TYPE_LIST_INTERNAL) \<Rightarrow> nat \<Rightarrow> OBJECT_TYPE_LIST_INTERNAL list \<Rightarrow>
     OBJECT_TYPE_LIST_INTERNAL list" where
  "update_subtree f i xs =
     (if i < length xs then take i xs @ f (xs ! i) # update_children f (Obj_Level (xs ! i)) (drop (Suc i) xs) else xs)"

text \<open>A missing GUID is \<open>None\<close>.\<close>

definition SepDenyAccessObjectTypeResultList ::
  "OBJECT_TYPE_LIST_INTERNAL list \<Rightarrow> ACCESS_MASK \<Rightarrow> GUID option \<Rightarrow> OBJECT_TYPE_LIST_INTERNAL list" where
  "SepDenyAccessObjectTypeResultList ObjectTypeList AccessMask Guid =
     (case Guid of
        None \<Rightarrow> update_subtree (deny_rights AccessMask) 0 ObjectTypeList
      | Some g \<Rightarrow> (case SepObjectTypeGuidInList ObjectTypeList g of
                    Some i \<Rightarrow> update_subtree (deny_rights AccessMask) i ObjectTypeList
                  | None \<Rightarrow> ObjectTypeList))"

definition SepAllowAccessObjectTypeResultList ::
  "OBJECT_TYPE_LIST_INTERNAL list \<Rightarrow> ACCESS_MASK \<Rightarrow> GUID option \<Rightarrow> OBJECT_TYPE_LIST_INTERNAL list" where
  "SepAllowAccessObjectTypeResultList ObjectTypeList AccessMask Guid =
     (case Guid of
        None \<Rightarrow> update_subtree (allow_rights AccessMask) 0 ObjectTypeList
      | Some g \<Rightarrow> (case SepObjectTypeGuidInList ObjectTypeList g of
                    Some i \<Rightarrow> update_subtree (allow_rights AccessMask) i ObjectTypeList
                  | None \<Rightarrow> ObjectTypeList))"

text \<open>The variants for the whole hierarchy update the target only; the first component is \<^verbatim>\<open>MustBreak\<close>.\<close>

definition SepDenyAccessObjectTypeList ::
  "OBJECT_TYPE_LIST_INTERNAL list \<Rightarrow> ACCESS_MASK \<Rightarrow> GUID option \<Rightarrow> bool \<times> OBJECT_TYPE_LIST_INTERNAL list" where
  "SepDenyAccessObjectTypeList ObjectTypeList AccessMask Guid =
     (case (case Guid of None \<Rightarrow> Some 0 | Some g \<Rightarrow> SepObjectTypeGuidInList ObjectTypeList g) of
        Some i \<Rightarrow>
          (RemainingAccessRights (ObjectAccessRights (ObjectTypeList ! i)) AND AccessMask \<noteq> 0,
           ObjectTypeList[i := deny_rights AccessMask (ObjectTypeList ! i)])
      | None \<Rightarrow> (False, ObjectTypeList))"

definition remove_remaining :: "ACCESS_MASK \<Rightarrow> OBJECT_TYPE_LIST_INTERNAL \<Rightarrow> OBJECT_TYPE_LIST_INTERNAL" where
  "remove_remaining AccessMask x =
     (let r = ObjectAccessRights x
      in x\<lparr>ObjectAccessRights := r\<lparr>RemainingAccessRights := RemainingAccessRights r AND NOT AccessMask\<rparr>\<rparr>)"

definition SepAllowAccessObjectTypeList ::
  "OBJECT_TYPE_LIST_INTERNAL list \<Rightarrow> ACCESS_MASK \<Rightarrow> bool \<Rightarrow> GUID option \<Rightarrow> OBJECT_TYPE_LIST_INTERNAL list" where
  "SepAllowAccessObjectTypeList ObjectTypeList AccessMask RemoveRemainingRights Guid =
     (case (case Guid of None \<Rightarrow> Some 0 | Some g \<Rightarrow> SepObjectTypeGuidInList ObjectTypeList g) of
        Some i \<Rightarrow>
          let x = ObjectTypeList ! i;
              x = (if RemoveRemainingRights then remove_remaining AccessMask x else x)
          in ObjectTypeList[i := allow_rights AccessMask x]
      | None \<Rightarrow> ObjectTypeList)"

end
