(* ===== verification/Se_AccessCheck.thy ===== *)
theory Se_AccessCheck
  imports Se_AccessState Se_ObjType
begin

text \<open>
  Access checks: \<^verbatim>\<open>ntoskrnl/se/accesschk.c\<close>.  The object type list is a list of records, where an empty
  list stands for \<^verbatim>\<open>NULL\<close> with length 0; the rights that are collected for the object itself and for
  the list are passed on together.  \<open>None\<close> is a failed assertion: no DACL, no descriptor or no owner where
  there has to be one, no right left to check, or a failed lookup of an ACE.  The SID of an ACE that is
  analysed lies behind its header, so that its assertion holds.  Locks are left out; what captures return is an argument.
\<close>

section \<open>Analysing a DACL\<close>

datatype ACCESS_CHECK_RIGHT_TYPE = AccessCheckMaximum | AccessCheckRegular

type_synonym rights_state = "ACCESS_CHECK_RIGHTS \<times> OBJECT_TYPE_LIST_INTERNAL list"

abbreviation (input) INHERIT_ONLY :: UCHAR where "INHERIT_ONLY \<equiv> 0x8"

definition Ace_AccessMask :: "mem \<Rightarrow> nat \<Rightarrow> ACCESS_MASK" where
  "Ace_AccessMask m Ace = rd32 m (Ace + 4)"

text \<open>The access right of an ACE, mapped when it has a generic one.\<close>

definition ace_access :: "mem \<Rightarrow> GENERIC_MAPPING \<Rightarrow> nat \<Rightarrow> ACCESS_MASK" where
  "ace_access m GenericMapping Ace =
     (let Access = Ace_AccessMask m Ace
      in if Access AND GENERIC_ACCESS \<noteq> 0 then RtlMapGenericMask Access GenericMapping else Access)"

definition deny_more :: "ACCESS_MASK \<Rightarrow> ACCESS_CHECK_RIGHTS \<Rightarrow> ACCESS_CHECK_RIGHTS" where
  "deny_more Access r = r\<lparr>DeniedAccessRights := DeniedAccessRights r OR (Access AND NOT (GrantedAccessRights r))\<rparr>"

definition grant_more :: "ACCESS_MASK \<Rightarrow> ACCESS_CHECK_RIGHTS \<Rightarrow> ACCESS_CHECK_RIGHTS" where
  "grant_more Access r = r\<lparr>GrantedAccessRights := GrantedAccessRights r OR (Access AND NOT (DeniedAccessRights r))\<rparr>"

text \<open>One round of the loop for \<^verbatim>\<open>AccessCheckMaximum\<close>.\<close>

definition maximum_step ::
  "mem \<Rightarrow> SE_SIDS \<Rightarrow> TOKEN \<Rightarrow> bool \<Rightarrow> nat \<Rightarrow> GENERIC_MAPPING \<Rightarrow> bool \<Rightarrow> nat \<Rightarrow> rights_state \<Rightarrow> rights_state" where
  "maximum_step m g AccessToken IsTokenRestricted PrincipalSelfSid GenericMapping UseResultList CurrentAce st =
     (case st of (rights, ObjectTypeList) \<Rightarrow>
        let Sid = SepGetSidFromAce m CurrentAce;
            Access = ace_access m GenericMapping CurrentAce;
            Type = AceType m CurrentAce
        in if AceFlags m CurrentAce AND INHERIT_ONLY \<noteq> 0 then st
           else if Type = ACCESS_DENIED_ACE_TYPE
           then
             if SepSidInTokenEx m g AccessToken PrincipalSelfSid Sid True IsTokenRestricted
             then (deny_more Access rights, ObjectTypeList) else st
           else if Type = ACCESS_ALLOWED_ACE_TYPE
           then
             if SepSidInTokenEx m g AccessToken PrincipalSelfSid Sid False IsTokenRestricted
             then (grant_more Access rights, ObjectTypeList) else st
           else if Type = ACCESS_DENIED_OBJECT_ACE_TYPE
           then
             let Guid = bytes m (SepGetObjectTypeGuidFromAce CurrentAce True) sizeof_GUID
             in if SepSidInTokenEx m g AccessToken PrincipalSelfSid Sid True IsTokenRestricted
                then
                  if ObjectTypeList = [] then (deny_more Access rights, ObjectTypeList)
                  else if \<not> UseResultList
                  then (rights, snd (SepDenyAccessObjectTypeList ObjectTypeList Access (Some Guid)))
                  else (rights, SepDenyAccessObjectTypeResultList ObjectTypeList Access (Some Guid))
                else st
           else if Type = ACCESS_ALLOWED_OBJECT_ACE_TYPE
           then
             let Guid = bytes m (SepGetObjectTypeGuidFromAce CurrentAce False) sizeof_GUID
             in if SepSidInTokenEx m g AccessToken PrincipalSelfSid Sid False IsTokenRestricted
                then
                  if ObjectTypeList = [] then (grant_more Access rights, ObjectTypeList)
                  else if \<not> UseResultList
                  then (rights, SepAllowAccessObjectTypeList ObjectTypeList Access False (Some Guid))
                  else (rights, SepAllowAccessObjectTypeResultList ObjectTypeList Access (Some Guid))
                else st
           else st)"

text \<open>One round for \<^verbatim>\<open>AccessCheckRegular\<close>; the first component tells that the loop is left.\<close>

definition refuse :: "ACCESS_MASK \<Rightarrow> ACCESS_CHECK_RIGHTS \<Rightarrow> bool \<times> ACCESS_CHECK_RIGHTS" where
  "refuse Access r =
     (if RemainingAccessRights r AND Access \<noteq> 0 then (True, r\<lparr>DeniedAccessRights := DeniedAccessRights r OR Access\<rparr>)
      else (False, r))"

definition accept :: "ACCESS_MASK \<Rightarrow> ACCESS_CHECK_RIGHTS \<Rightarrow> ACCESS_CHECK_RIGHTS" where
  "accept Access r =
     r\<lparr>RemainingAccessRights := RemainingAccessRights r AND NOT Access, GrantedAccessRights := GrantedAccessRights r OR Access\<rparr>"

definition regular_step ::
  "mem \<Rightarrow> SE_SIDS \<Rightarrow> TOKEN \<Rightarrow> bool \<Rightarrow> nat \<Rightarrow> GENERIC_MAPPING \<Rightarrow> nat \<Rightarrow> rights_state \<Rightarrow> bool \<times> rights_state" where
  "regular_step m g AccessToken IsTokenRestricted PrincipalSelfSid GenericMapping CurrentAce st =
     (case st of (rights, ObjectTypeList) \<Rightarrow>
        let Sid = SepGetSidFromAce m CurrentAce;
            Access = ace_access m GenericMapping CurrentAce;
            Type = AceType m CurrentAce
        in if AceFlags m CurrentAce AND INHERIT_ONLY \<noteq> 0 then (False, st)
           else if Type = ACCESS_DENIED_ACE_TYPE
           then
             if SepSidInTokenEx m g AccessToken PrincipalSelfSid Sid True IsTokenRestricted
             then (case refuse Access rights of (b, rights) \<Rightarrow> (b, rights, ObjectTypeList)) else (False, st)
           else if Type = ACCESS_ALLOWED_ACE_TYPE
           then
             if SepSidInTokenEx m g AccessToken PrincipalSelfSid Sid False IsTokenRestricted
             then (False, accept Access rights, ObjectTypeList) else (False, st)
           else if Type = ACCESS_DENIED_OBJECT_ACE_TYPE
           then
             let Guid = bytes m (SepGetObjectTypeGuidFromAce CurrentAce True) sizeof_GUID
             in if SepSidInTokenEx m g AccessToken PrincipalSelfSid Sid True IsTokenRestricted
                then
                  if ObjectTypeList = []
                  then (case refuse Access rights of (b, rights) \<Rightarrow> (b, rights, ObjectTypeList))
                  else (case SepDenyAccessObjectTypeList ObjectTypeList Access (Some Guid) of
                          (BreakOnDeny, ObjectTypeList) \<Rightarrow> (BreakOnDeny, rights, ObjectTypeList))
                else (False, st)
           else if Type = ACCESS_ALLOWED_OBJECT_ACE_TYPE
           then
             let Guid = bytes m (SepGetObjectTypeGuidFromAce CurrentAce False) sizeof_GUID
             in if SepSidInTokenEx m g AccessToken PrincipalSelfSid Sid False IsTokenRestricted
                then
                  if ObjectTypeList = [] then (False, accept Access rights, ObjectTypeList)
                  else (False, rights, SepAllowAccessObjectTypeList ObjectTypeList Access True (Some Guid))
                else (False, st)
           else (False, st))"

text \<open>The loops over the ACEs from \<open>AceIndex\<close> on, of which \<open>n\<close> are left.\<close>

fun maximum_loop ::
  "mem \<Rightarrow> (nat \<Rightarrow> rights_state \<Rightarrow> rights_state) \<Rightarrow> nat \<Rightarrow> ULONG \<Rightarrow> nat \<Rightarrow> rights_state \<Rightarrow> rights_state option" where
  "maximum_loop m step Dacl AceIndex 0 st = Some st"
| "maximum_loop m step Dacl AceIndex (Suc n) st =
     (case RtlGetAce m Dacl AceIndex of
        (Status, Some CurrentAce) \<Rightarrow>
          if \<not> NT_SUCCESS Status then None else maximum_loop m step Dacl (AceIndex + 1) n (step CurrentAce st)
      | (_, None) \<Rightarrow> None)"

fun regular_loop ::
  "mem \<Rightarrow> (nat \<Rightarrow> rights_state \<Rightarrow> bool \<times> rights_state) \<Rightarrow> nat \<Rightarrow> ULONG \<Rightarrow> nat \<Rightarrow> rights_state \<Rightarrow> rights_state option" where
  "regular_loop m step Dacl AceIndex 0 st = Some st"
| "regular_loop m step Dacl AceIndex (Suc n) st =
     (case RtlGetAce m Dacl AceIndex of
        (Status, Some CurrentAce) \<Rightarrow>
          if \<not> NT_SUCCESS Status then None
          else (case step CurrentAce st of
                  (True, st) \<Rightarrow> Some st
                | (False, st) \<Rightarrow> regular_loop m step Dacl (AceIndex + 1) n st)
      | (_, None) \<Rightarrow> None)"

definition set_remaining :: "ACCESS_MASK \<Rightarrow> OBJECT_TYPE_LIST_INTERNAL \<Rightarrow> OBJECT_TYPE_LIST_INTERNAL" where
  "set_remaining RemainingAccess x =
     x\<lparr>ObjectAccessRights := (ObjectAccessRights x)\<lparr>RemainingAccessRights := RemainingAccess\<rparr>\<rparr>"

definition SepAnalyzeAcesFromDacl ::
  "ACCESS_CHECK_RIGHT_TYPE \<Rightarrow> ACCESS_MASK \<Rightarrow> mem \<Rightarrow> nat \<Rightarrow> SE_SIDS \<Rightarrow> TOKEN \<Rightarrow> bool \<Rightarrow> nat \<Rightarrow> GENERIC_MAPPING \<Rightarrow> bool \<Rightarrow>
     rights_state \<Rightarrow> rights_state option" where
  "SepAnalyzeAcesFromDacl ActionType RemainingAccess m Dacl g AccessToken IsTokenRestricted PrincipalSelfSid
     GenericMapping UseResultList st =
     (if Dacl = 0 then None
      else case ActionType of
        AccessCheckMaximum \<Rightarrow>
          maximum_loop m (maximum_step m g AccessToken IsTokenRestricted PrincipalSelfSid GenericMapping UseResultList)
            Dacl 0 (unat (AceCount m Dacl)) st
      | AccessCheckRegular \<Rightarrow>
          (case st of (rights, ObjectTypeList) \<Rightarrow>
             if RemainingAccess = 0 then None
             else regular_loop m (regular_step m g AccessToken IsTokenRestricted PrincipalSelfSid GenericMapping)
               Dacl 0 (unat (AceCount m Dacl))
               (rights\<lparr>RemainingAccessRights := RemainingAccess\<rparr>, map (set_remaining RemainingAccess) ObjectTypeList)))"

section \<open>The worker\<close>

text \<open>
  The caller's arrays \<^verbatim>\<open>GrantedAccessList\<close> and \<^verbatim>\<open>AccessStatusList\<close> are lists; the worker returns them with
  the entries it wrote.  Its three parts return the common status and the granted rights.
\<close>

record ACCESS_RESULT =
  CommonStatus :: NTSTATUS
  CommonGranted :: ACCESS_MASK
  GrantedAccessList :: "ACCESS_MASK list"
  AccessStatusList :: "NTSTATUS list"

definition result_entry ::
  "ACCESS_MASK \<Rightarrow> ACCESS_MASK \<Rightarrow> ACCESS_MASK \<Rightarrow> OBJECT_TYPE_LIST_INTERNAL \<Rightarrow> ACCESS_MASK \<times> NTSTATUS" where
  "result_entry MaskDesired WantedRights PreviouslyGrantedAccess x =
     (let GrantedRights = (GrantedAccessRights (ObjectAccessRights x) OR PreviouslyGrantedAccess) AND MaskDesired
      in if GrantedRights \<noteq> 0
         then
           let RemainingAccess = NOT GrantedRights AND WantedRights
           in (GrantedRights, if RemainingAccess \<noteq> 0 then STATUS_ACCESS_DENIED else STATUS_SUCCESS)
         else (GrantedRights, STATUS_ACCESS_DENIED))"

text \<open>The end of the check for the maximum, when the rights \<open>GrantedRights\<close> have been collected.\<close>

definition maximum_result :: "ACCESS_MASK \<Rightarrow> ACCESS_MASK \<Rightarrow> ACCESS_MASK \<Rightarrow> NTSTATUS \<times> ACCESS_MASK" where
  "maximum_result RemainingAccess PreviouslyGrantedAccess GrantedRights =
     (let RemainingAccess = RemainingAccess AND NOT (MAXIMUM_ALLOWED OR GrantedRights)
      in if RemainingAccess \<noteq> 0 then (STATUS_ACCESS_DENIED, 0)
         else
           let PreviouslyGrantedAccess = PreviouslyGrantedAccess OR GrantedRights
           in if PreviouslyGrantedAccess \<noteq> 0 then (STATUS_SUCCESS, PreviouslyGrantedAccess)
              else (STATUS_ACCESS_DENIED, PreviouslyGrantedAccess))"

definition worker_maximum ::
  "mem \<Rightarrow> SE_SIDS \<Rightarrow> nat \<Rightarrow> TOKEN \<Rightarrow> nat \<Rightarrow> GENERIC_MAPPING \<Rightarrow> bool \<Rightarrow> ACCESS_MASK \<Rightarrow> ACCESS_MASK \<Rightarrow> ACCESS_MASK \<Rightarrow> ACCESS_MASK \<Rightarrow>
     OBJECT_TYPE_LIST_INTERNAL list \<Rightarrow> ACCESS_MASK list \<Rightarrow> NTSTATUS list \<Rightarrow> ACCESS_RESULT option" where
  "worker_maximum m g Dacl Token PrincipalSelfSid GenericMapping UseResultList RemainingAccess PreviouslyGrantedAccess
     WantedRights MaskDesired ObjectTypeList GrantedList StatusList =
     (let rights = \<lparr>RemainingAccessRights = 0, GrantedAccessRights = 0, DeniedAccessRights = 0\<rparr>;
          first = SepAnalyzeAcesFromDacl AccessCheckMaximum 0 m Dacl g Token False PrincipalSelfSid GenericMapping
                    UseResultList (rights, ObjectTypeList);
          both = (case first of
                    None \<Rightarrow> None
                  | Some st \<Rightarrow>
                      if SeTokenIsRestricted Token
                      then SepAnalyzeAcesFromDacl AccessCheckMaximum 0 m Dacl g Token True PrincipalSelfSid GenericMapping
                             UseResultList st
                      else Some st)
      in case both of
           None \<Rightarrow> None
         | Some (rights, ObjectTypeList) \<Rightarrow>
             if ObjectTypeList = []
             then (case maximum_result RemainingAccess PreviouslyGrantedAccess (GrantedAccessRights rights) of
                     (Status, Granted) \<Rightarrow> Some \<lparr>CommonStatus = Status, CommonGranted = Granted,
                       GrantedAccessList = GrantedList, AccessStatusList = StatusList\<rparr>)
             else if \<not> UseResultList
             then
               let GrantedRights = foldl (\<lambda>r x. if GrantedAccessRights (ObjectAccessRights x) \<noteq> 0
                     then r OR GrantedAccessRights (ObjectAccessRights x) else r) 0 ObjectTypeList
               in (case maximum_result RemainingAccess PreviouslyGrantedAccess GrantedRights of
                     (Status, Granted) \<Rightarrow> Some \<lparr>CommonStatus = Status, CommonGranted = Granted,
                       GrantedAccessList = GrantedList, AccessStatusList = StatusList\<rparr>)
             else
               let entries = map (result_entry MaskDesired WantedRights PreviouslyGrantedAccess) ObjectTypeList;
                   Status = (if STATUS_ACCESS_DENIED \<in> set (map snd entries) then STATUS_ACCESS_DENIED else STATUS_SUCCESS)
               in Some \<lparr>CommonStatus = Status, CommonGranted = PreviouslyGrantedAccess,
                    GrantedAccessList = map fst entries @ drop (length entries) GrantedList,
                    AccessStatusList = map snd entries @ drop (length entries) StatusList\<rparr>)"

text \<open>Whether the regular check has granted what was asked for.\<close>

definition regular_granted :: "rights_state \<Rightarrow> bool" where
  "regular_granted st =
     (case st of (rights, ObjectTypeList) \<Rightarrow>
        if ObjectTypeList = [] then RemainingAccessRights rights = 0
        else \<exists>x\<in>set ObjectTypeList. RemainingAccessRights (ObjectAccessRights x) = 0)"

definition worker_regular ::
  "mem \<Rightarrow> SE_SIDS \<Rightarrow> nat \<Rightarrow> TOKEN \<Rightarrow> nat \<Rightarrow> GENERIC_MAPPING \<Rightarrow> bool \<Rightarrow> ACCESS_MASK \<Rightarrow> ACCESS_MASK \<Rightarrow> ACCESS_MASK \<Rightarrow>
     OBJECT_TYPE_LIST_INTERNAL list \<Rightarrow> (NTSTATUS \<times> ACCESS_MASK) option" where
  "worker_regular m g Dacl Token PrincipalSelfSid GenericMapping UseResultList RemainingAccess PreviouslyGrantedAccess
     DesiredAccess ObjectTypeList =
     (let rights = \<lparr>RemainingAccessRights = 0, GrantedAccessRights = 0, DeniedAccessRights = 0\<rparr>;
          Granted = PreviouslyGrantedAccess OR DesiredAccess;
          finished = (if Granted = 0 then (STATUS_ACCESS_DENIED, Granted) else (STATUS_SUCCESS, Granted))
      in case SepAnalyzeAcesFromDacl AccessCheckRegular RemainingAccess m Dacl g Token False PrincipalSelfSid
                GenericMapping UseResultList (rights, ObjectTypeList) of
           None \<Rightarrow> None
         | Some st \<Rightarrow>
             if \<not> regular_granted st then Some (STATUS_ACCESS_DENIED, 0)
             else if SeTokenIsRestricted Token
             then (case SepAnalyzeAcesFromDacl AccessCheckRegular RemainingAccess m Dacl g Token True PrincipalSelfSid
                          GenericMapping UseResultList st of
                     None \<Rightarrow> None
                   | Some st \<Rightarrow> if \<not> regular_granted st then Some (STATUS_ACCESS_DENIED, 0) else Some finished)
             else Some finished)"

text \<open>
  The whole worker: \<open>pool\<close> is the pool of the policy check, \<open>WantPrivilegeSet\<close> tells whether the caller
  passes a pointer for the privileges, and the second component is what is stored there.  When nothing
  is desired the code stores through this pointer without a test.
\<close>

definition SepAccessCheckWorker ::
  "mem \<Rightarrow> SE_SIDS \<Rightarrow> bool \<Rightarrow> nat \<Rightarrow> TOKEN option \<Rightarrow> TOKEN \<Rightarrow> nat \<Rightarrow> ACCESS_MASK \<Rightarrow> OBJECT_TYPE_LIST_INTERNAL list \<Rightarrow>
     ACCESS_MASK \<Rightarrow> GENERIC_MAPPING \<Rightarrow> KPROCESSOR_MODE \<Rightarrow> bool \<Rightarrow> bool \<Rightarrow> ACCESS_MASK list \<Rightarrow> NTSTATUS list \<Rightarrow>
     (bool \<times> PRIVILEGE_SET option option \<times> ACCESS_MASK list \<times> NTSTATUS list) option" where
  "SepAccessCheckWorker m g pool SecurityDescriptor ClientAccessToken PrimaryAccessToken PrincipalSelfSid DesiredAccess
     ObjectTypeList PreviouslyGrantedAccess GenericMapping AccessMode UseResultList WantPrivilegeSet GrantedList StatusList =
     (let ReturnCommonStatus = (\<lambda>Privileges r.
            Some (NT_SUCCESS (CommonStatus r), Privileges,
                  (if UseResultList then GrantedAccessList r else (GrantedAccessList r)[0 := CommonGranted r]),
                  (if UseResultList then AccessStatusList r else (AccessStatusList r)[0 := CommonStatus r])));
          common = (\<lambda>Privileges Status Granted. ReturnCommonStatus Privileges
            \<lparr>CommonStatus = Status, CommonGranted = Granted, GrantedAccessList = GrantedList, AccessStatusList = StatusList\<rparr>)
      in if SecurityDescriptor = 0 then None
         else if DesiredAccess = 0
         then
           if PreviouslyGrantedAccess = 0 then common None STATUS_ACCESS_DENIED PreviouslyGrantedAccess
           else if \<not> WantPrivilegeSet then None
           else common (Some None) STATUS_SUCCESS PreviouslyGrantedAccess
         else
           let DesiredAccess = RtlMapGenericMask DesiredAccess GenericMapping;
               PreviouslyGrantedAccess = (if PreviouslyGrantedAccess \<noteq> 0
                 then RtlMapGenericMask PreviouslyGrantedAccess GenericMapping else PreviouslyGrantedAccess);
               RemainingAccess = DesiredAccess;
               WantedRights = (if DesiredAccess AND MAXIMUM_ALLOWED \<noteq> 0
                 then (DesiredAccess OR PreviouslyGrantedAccess) AND NOT MAXIMUM_ALLOWED
                 else DesiredAccess OR PreviouslyGrantedAccess);
               MaskDesired = (if DesiredAccess AND MAXIMUM_ALLOWED \<noteq> 0 then NOT MAXIMUM_ALLOWED
                 else DesiredAccess OR PreviouslyGrantedAccess);
               Token = (case ClientAccessToken of Some t \<Rightarrow> t | None \<Rightarrow> PrimaryAccessToken)
           in case SePrivilegePolicyCheck pool RemainingAccess PreviouslyGrantedAccess None Token WantPrivilegeSet AccessMode of
                None \<Rightarrow> None
              | Some (Status, RemainingAccess, PreviouslyGrantedAccess, Privileges) \<Rightarrow>
                  if \<not> NT_SUCCESS Status then common Privileges Status PreviouslyGrantedAccess
                  else if RemainingAccess = 0 then common Privileges STATUS_SUCCESS PreviouslyGrantedAccess
                  else if GenericRead GenericMapping = 0 \<and> GenericWrite GenericMapping = 0 \<and>
                          GenericExecute GenericMapping = 0 \<and> GenericAll GenericMapping = 0
                  then
                    if SeTokenIsAdmin Token
                    then common Privileges STATUS_SUCCESS (PreviouslyGrantedAccess OR RemainingAccess)
                    else common Privileges STATUS_ACCESS_DENIED 0
                  else
                    (case RtlGetDaclSecurityDescriptor m SecurityDescriptor of
                       (Status, None) \<Rightarrow> common Privileges Status PreviouslyGrantedAccess
                     | (Status, Some (Present, DaclInfo)) \<Rightarrow>
                         let Dacl = (case DaclInfo of Some (Dacl, _) \<Rightarrow> Dacl | None \<Rightarrow> 0)
                         in if \<not> Present \<or> Dacl = 0
                            then
                              let Granted = PreviouslyGrantedAccess OR RemainingAccess;
                                  Granted = (if RemainingAccess AND MAXIMUM_ALLOWED \<noteq> 0
                                    then (Granted AND NOT MAXIMUM_ALLOWED) OR GenericAll GenericMapping else Granted)
                              in common Privileges STATUS_SUCCESS Granted
                            else if AceCount m Dacl = 0
                            then
                              if RemainingAccess = MAXIMUM_ALLOWED \<and> PreviouslyGrantedAccess \<noteq> 0
                              then common Privileges STATUS_SUCCESS PreviouslyGrantedAccess
                              else common Privileges STATUS_ACCESS_DENIED 0
                            else if DesiredAccess AND MAXIMUM_ALLOWED \<noteq> 0 \<or> UseResultList
                            then
                              (case worker_maximum m g Dacl Token PrincipalSelfSid GenericMapping UseResultList RemainingAccess
                                      PreviouslyGrantedAccess WantedRights MaskDesired ObjectTypeList GrantedList StatusList of
                                 None \<Rightarrow> None
                               | Some r \<Rightarrow> ReturnCommonStatus Privileges r)
                            else
                              (case worker_regular m g Dacl Token PrincipalSelfSid GenericMapping UseResultList RemainingAccess
                                      PreviouslyGrantedAccess DesiredAccess ObjectTypeList of
                                 None \<Rightarrow> None
                               | Some (Status, Granted) \<Rightarrow> common Privileges Status Granted)))"

section \<open>The kernel's check\<close>

text \<open>The owner of the object has two rights whatever the DACL says.\<close>

definition grant_owner ::
  "mem \<Rightarrow> SE_SIDS \<Rightarrow> TOKEN \<Rightarrow> nat \<Rightarrow> ACCESS_MASK \<Rightarrow> ACCESS_MASK \<Rightarrow> (ACCESS_MASK \<times> ACCESS_MASK) option" where
  "grant_owner m g Token SecurityDescriptor DesiredAccess PreviouslyGrantedAccess =
     (if DesiredAccess AND (WRITE_DAC OR READ_CONTROL OR MAXIMUM_ALLOWED) \<noteq> 0
      then
        case SepTokenIsOwner m g Token SecurityDescriptor of
          None \<Rightarrow> None
        | Some IsOwner \<Rightarrow>
            if IsOwner
            then
              Some (DesiredAccess AND NOT (WRITE_DAC OR READ_CONTROL),
                if DesiredAccess AND MAXIMUM_ALLOWED \<noteq> 0 then PreviouslyGrantedAccess OR (WRITE_DAC OR READ_CONTROL)
                else PreviouslyGrantedAccess OR (DesiredAccess AND (WRITE_DAC OR READ_CONTROL)))
            else Some (DesiredAccess, PreviouslyGrantedAccess)
      else Some (DesiredAccess, PreviouslyGrantedAccess))"

text \<open>
  The result of \<^verbatim>\<open>SeAccessCheck\<close>: the returned value, the privileges, the granted access (\<open>None\<close> when it
  is not written) and the status.
\<close>

definition SeAccessCheck ::
  "mem \<Rightarrow> SE_SIDS \<Rightarrow> bool \<Rightarrow> nat \<Rightarrow> SECURITY_SUBJECT_CONTEXT \<Rightarrow> ACCESS_MASK \<Rightarrow> ACCESS_MASK \<Rightarrow> GENERIC_MAPPING \<Rightarrow> KPROCESSOR_MODE \<Rightarrow>
     (bool \<times> PRIVILEGE_SET option option \<times> ACCESS_MASK option \<times> NTSTATUS) option" where
  "SeAccessCheck m g pool SecurityDescriptor SubjectContext DesiredAccess PreviouslyGrantedAccess GenericMapping AccessMode =
     (if AccessMode = KernelMode
      then
        Some (True, None,
          Some (if DesiredAccess AND MAXIMUM_ALLOWED \<noteq> 0
                then GenericAll GenericMapping OR (DesiredAccess AND NOT MAXIMUM_ALLOWED) OR PreviouslyGrantedAccess
                else DesiredAccess OR PreviouslyGrantedAccess),
          STATUS_SUCCESS)
      else if SecurityDescriptor = 0 then Some (False, None, None, STATUS_ACCESS_DENIED)
      else if ClientToken SubjectContext \<noteq> None \<and>
              Subject_ImpersonationLevel SubjectContext < SecurityImpersonation
      then Some (False, None, None, STATUS_BAD_IMPERSONATION_LEVEL)
      else
        let Token = (case ClientToken SubjectContext of Some t \<Rightarrow> t | None \<Rightarrow> PrimaryToken SubjectContext)
        in case grant_owner m g Token SecurityDescriptor DesiredAccess PreviouslyGrantedAccess of
             None \<Rightarrow> None
           | Some (DesiredAccess, PreviouslyGrantedAccess) \<Rightarrow>
               if DesiredAccess = 0
               then
                 if PreviouslyGrantedAccess = 0 then Some (False, None, Some PreviouslyGrantedAccess, STATUS_ACCESS_DENIED)
                 else Some (True, None, Some PreviouslyGrantedAccess, STATUS_SUCCESS)
               else
                 (case SepAccessCheckWorker m g pool SecurityDescriptor (ClientToken SubjectContext)
                         (PrimaryToken SubjectContext) 0 DesiredAccess [] PreviouslyGrantedAccess GenericMapping
                         AccessMode False True [0] [0] of
                    None \<Rightarrow> None
                  | Some (ret, Privileges, GrantedList, StatusList) \<Rightarrow>
                      Some (ret, Privileges, Some (hd GrantedList), hd StatusList)))"

text \<open>The loop of \<^verbatim>\<open>SeFastTraverseCheck\<close> over the \<open>n\<close> ACEs from \<open>Ace\<close> on.\<close>

fun traverse_loop :: "mem \<Rightarrow> SE_SIDS \<Rightarrow> ACCESS_MASK \<Rightarrow> nat \<Rightarrow> nat \<Rightarrow> bool" where
  "traverse_loop m g DesiredAccess Ace 0 = False"
| "traverse_loop m g DesiredAccess Ace (Suc n) =
     (let Next = traverse_loop m g DesiredAccess (Ace + unat (AceSize m Ace)) n
      in if AceFlags m Ace AND INHERIT_ONLY \<noteq> 0 then Next
         else if AceType m Ace = ACCESS_ALLOWED_ACE_TYPE
         then
           if Ace_AccessMask m Ace AND DesiredAccess = 0 then Next
           else if RtlEqualSid m (SeWorldSid g) (Ace + 8) then True
           else Next
         else if AceType m Ace = ACCESS_DENIED_ACE_TYPE
         then if Ace_AccessMask m Ace AND DesiredAccess \<noteq> 0 then False else Next
         else Next)"

definition SeFastTraverseCheck :: "mem \<Rightarrow> SE_SIDS \<Rightarrow> nat \<Rightarrow> ACCESS_STATE \<Rightarrow> ACCESS_MASK \<Rightarrow> KPROCESSOR_MODE \<Rightarrow> bool option" where
  "SeFastTraverseCheck m g SecurityDescriptor AccessState DesiredAccess AccessMode =
     (if AccessMode = KernelMode then None
      else if SecurityDescriptor = 0 then Some False
      else
        let Dacl = SepGetDaclFromDescriptor m SecurityDescriptor
        in if Dacl = 0 then Some True
           else if AceCount m Dacl = 0 then Some False
           else if State_Flags AccessState AND TOKEN_IS_RESTRICTED \<noteq> 0 then Some False
           else Some (traverse_loop m g DesiredAccess (Dacl + 8) (unat (AceCount m Dacl))))"

section \<open>The system calls\<close>

definition SepGetPrivilegeSetLength :: "PRIVILEGE_SET option \<Rightarrow> ULONG" where
  "SepGetPrivilegeSetLength PrivilegeSet =
     (case PrivilegeSet of
        None \<Rightarrow> 0
      | Some ps \<Rightarrow> if of_nat (length (Privilege ps)) = (0 :: ULONG) then 8
                  else 20 + (of_nat (length (Privilege ps)) - 1) * 12)"

text \<open>
  What the system call gets from outside: the previous mode, the exceptions of the probes before
  and after the test for an empty list, the token behind the handle, what the capture of the
  object type list meets, the pool, the captured descriptor and principal, and the primary token.
\<close>

record ACCESS_CHECK_ENV =
  env_mode :: KPROCESSOR_MODE
  env_probe :: "NTSTATUS option"
  env_probe_lists :: "NTSTATUS option"
  env_token :: "NTSTATUS + TOKEN"
  env_probe_list :: "ULONG \<Rightarrow> NTSTATUS option"
  env_probe_guid :: "nat \<Rightarrow> NTSTATUS option"
  env_pool_list :: "ULONG \<Rightarrow> bool"
  env_fault :: "NTSTATUS option"
  env_pool :: bool
  env_captured_sd :: "NTSTATUS \<times> nat"
  env_captured_sid :: "NTSTATUS \<times> nat"
  env_primary :: TOKEN

text \<open>What the system call writes: the privileges, their length and the two arrays.\<close>

record ACCESS_CHECK_OUT =
  out_privileges :: "PRIVILEGE_SET option"
  out_length :: "ULONG option"
  out_granted :: "ACCESS_MASK list"
  out_access_status :: "NTSTATUS list"

definition fill_lists :: "bool \<Rightarrow> nat \<Rightarrow> NTSTATUS \<Rightarrow> ACCESS_MASK \<Rightarrow> ACCESS_CHECK_OUT \<Rightarrow> ACCESS_CHECK_OUT" where
  "fill_lists UseResultList n Status Access out =
     (if UseResultList
      then out\<lparr>out_access_status := replicate n Status @ drop n (out_access_status out),
               out_granted := replicate n Access @ drop n (out_granted out)\<rparr>
      else out\<lparr>out_access_status := (out_access_status out)[0 := Status], out_granted := (out_granted out)[0 := Access]\<rparr>)"

text \<open>The last part of \<^verbatim>\<open>SepAccessCheck\<close>, when everything has been captured.\<close>

definition access_check_captured ::
  "mem \<Rightarrow> SE_SIDS \<Rightarrow> ACCESS_CHECK_ENV \<Rightarrow> TOKEN \<Rightarrow> nat \<Rightarrow> nat \<Rightarrow> OBJECT_TYPE_LIST_INTERNAL list \<Rightarrow> ACCESS_MASK \<Rightarrow> ACCESS_MASK \<Rightarrow>
     GENERIC_MAPPING \<Rightarrow> bool \<Rightarrow> ACCESS_CHECK_OUT \<Rightarrow> (NTSTATUS \<times> ACCESS_CHECK_OUT) option" where
  "access_check_captured m g env Token Sd PrincipalSelfSid ObjectTypeList DesiredAccess PreviouslyGrantedAccess GenericMapping
     UseResultList out =
     (case grant_owner m g Token Sd DesiredAccess PreviouslyGrantedAccess of
        None \<Rightarrow> None
      | Some (DesiredAccess, PreviouslyGrantedAccess) \<Rightarrow>
          if DesiredAccess = 0
          then Some (STATUS_SUCCESS, fill_lists UseResultList (length ObjectTypeList) STATUS_SUCCESS PreviouslyGrantedAccess out)
          else
            (case SepAccessCheckWorker m g (env_pool env) Sd (Some Token) (env_primary env) PrincipalSelfSid DesiredAccess
                    ObjectTypeList PreviouslyGrantedAccess GenericMapping (env_mode env) UseResultList False
                    (out_granted out) (out_access_status out) of
               None \<Rightarrow> None
             | Some (_, _, GrantedList, StatusList) \<Rightarrow>
                 Some (STATUS_SUCCESS, out\<lparr>out_granted := GrantedList, out_access_status := StatusList\<rparr>)))"

text \<open>The middle part: the privileges are returned, then the descriptor and the principal are captured.\<close>

definition access_check_privileges ::
  "mem \<Rightarrow> SE_SIDS \<Rightarrow> ACCESS_CHECK_ENV \<Rightarrow> TOKEN \<Rightarrow> nat \<Rightarrow> OBJECT_TYPE_LIST_INTERNAL list \<Rightarrow> PRIVILEGE_SET option \<Rightarrow> ACCESS_MASK \<Rightarrow>
     ACCESS_MASK \<Rightarrow> GENERIC_MAPPING \<Rightarrow> ULONG \<Rightarrow> bool \<Rightarrow> ACCESS_CHECK_OUT \<Rightarrow> (NTSTATUS \<times> ACCESS_CHECK_OUT) option" where
  "access_check_privileges m g env Token PrincipalSelfSid ObjectTypeList Privileges DesiredAccess PreviouslyGrantedAccess
     GenericMapping CapturedPrivilegeSetLength UseResultList out =
     (let Required = (case Privileges of Some ps \<Rightarrow> SepGetPrivilegeSetLength (Some ps) | None \<Rightarrow> 20)
      in if CapturedPrivilegeSetLength < Required then Some (STATUS_BUFFER_TOO_SMALL, out\<lparr>out_length := Some Required\<rparr>)
         else
           let out = out\<lparr>out_privileges := Some (case Privileges of Some ps \<Rightarrow> ps | None \<Rightarrow> \<lparr>Control = 0, Privilege = []\<rparr>)\<rparr>;
               (Status, Sd) = env_captured_sd env
           in if \<not> NT_SUCCESS Status then Some (Status, out)
              else if Sd = 0 then Some (STATUS_INVALID_SECURITY_DESCR, out)
              else if SepGetOwnerFromDescriptor m Sd = 0 \<or> SepGetGroupFromDescriptor m Sd = 0
              then Some (STATUS_INVALID_SECURITY_DESCR, out)
              else if PrincipalSelfSid \<noteq> 0 \<and> \<not> NT_SUCCESS (fst (env_captured_sid env))
              then Some (fst (env_captured_sid env), out)
              else access_check_captured m g env Token Sd (if PrincipalSelfSid \<noteq> 0 then snd (env_captured_sid env) else 0)
                     ObjectTypeList DesiredAccess PreviouslyGrantedAccess GenericMapping UseResultList out)"

definition SepAccessCheck ::
  "mem \<Rightarrow> SE_SIDS \<Rightarrow> ACCESS_CHECK_ENV \<Rightarrow> nat \<Rightarrow> ACCESS_MASK \<Rightarrow> GENERIC_MAPPING \<Rightarrow> ULONG \<Rightarrow> nat \<Rightarrow> ULONG \<Rightarrow> bool \<Rightarrow>
     ACCESS_CHECK_OUT \<Rightarrow> (NTSTATUS \<times> ACCESS_CHECK_OUT) option" where
  "SepAccessCheck m g env PrincipalSelfSid DesiredAccess GenericMapping PrivilegeSetLength ObjectTypeList
     ObjectTypeListLength UseResultList out =
     (if env_mode env = KernelMode
      then
        let Access = (if DesiredAccess AND MAXIMUM_ALLOWED \<noteq> 0
              then GenericAll GenericMapping OR (DesiredAccess AND NOT MAXIMUM_ALLOWED) else DesiredAccess)
        in Some (STATUS_SUCCESS, fill_lists False 0 STATUS_SUCCESS Access out)
      else
        case env_probe env of Some code \<Rightarrow> Some (code, out) | None \<Rightarrow>
        if UseResultList \<and> ObjectTypeListLength = 0 then Some (STATUS_INVALID_PARAMETER, out)
        else
        case env_probe_lists env of Some code \<Rightarrow> Some (code, out) | None \<Rightarrow>
        if DesiredAccess AND GENERIC_ACCESS \<noteq> 0 then Some (STATUS_GENERIC_NOT_MAPPED, out)
        else
        case env_token env of Inl Status \<Rightarrow> Some (Status, out) | Inr Token \<Rightarrow>
        if TokenType Token \<noteq> TokenImpersonation then Some (STATUS_NO_IMPERSONATION_TOKEN, out)
        else if ImpersonationLevel Token < SecurityIdentification then Some (STATUS_BAD_IMPERSONATION_LEVEL, out)
        else
        case SeCaptureObjectTypeList m (env_probe_list env) (env_probe_guid env) (env_pool_list env) (env_fault env)
               ObjectTypeList ObjectTypeListLength (env_mode env) of
          (Status, None) \<Rightarrow> Some (Status, out)
        | (_, Some (_, CapturedObjectTypeList)) \<Rightarrow>
            (case SePrivilegePolicyCheck (env_pool env) DesiredAccess 0 None Token True (env_mode env) of
               None \<Rightarrow> None
             | Some (Status, DesiredAccess, PreviouslyGrantedAccess, Privileges) \<Rightarrow>
                 if \<not> NT_SUCCESS Status
                 then Some (STATUS_SUCCESS, fill_lists UseResultList (unat ObjectTypeListLength) Status 0 out)
                 else
                   access_check_privileges m g env Token PrincipalSelfSid CapturedObjectTypeList
                     (case Privileges of Some p \<Rightarrow> p | None \<Rightarrow> None) DesiredAccess PreviouslyGrantedAccess GenericMapping
                     PrivilegeSetLength UseResultList out))"

definition NtAccessCheck ::
  "mem \<Rightarrow> SE_SIDS \<Rightarrow> ACCESS_CHECK_ENV \<Rightarrow> ACCESS_MASK \<Rightarrow> GENERIC_MAPPING \<Rightarrow> ULONG \<Rightarrow> ACCESS_CHECK_OUT \<Rightarrow>
     (NTSTATUS \<times> ACCESS_CHECK_OUT) option" where
  "NtAccessCheck m g env DesiredAccess GenericMapping PrivilegeSetLength out =
     SepAccessCheck m g env 0 DesiredAccess GenericMapping PrivilegeSetLength 0 0 False out"

definition NtAccessCheckByType ::
  "mem \<Rightarrow> SE_SIDS \<Rightarrow> ACCESS_CHECK_ENV \<Rightarrow> nat \<Rightarrow> ACCESS_MASK \<Rightarrow> nat \<Rightarrow> ULONG \<Rightarrow> GENERIC_MAPPING \<Rightarrow> ULONG \<Rightarrow> ACCESS_CHECK_OUT \<Rightarrow>
     (NTSTATUS \<times> ACCESS_CHECK_OUT) option" where
  "NtAccessCheckByType m g env PrincipalSelfSid DesiredAccess ObjectTypeList ObjectTypeListLength GenericMapping
     PrivilegeSetLength out =
     SepAccessCheck m g env PrincipalSelfSid DesiredAccess GenericMapping PrivilegeSetLength ObjectTypeList
       ObjectTypeListLength False out"

definition NtAccessCheckByTypeResultList ::
  "mem \<Rightarrow> SE_SIDS \<Rightarrow> ACCESS_CHECK_ENV \<Rightarrow> nat \<Rightarrow> ACCESS_MASK \<Rightarrow> nat \<Rightarrow> ULONG \<Rightarrow> GENERIC_MAPPING \<Rightarrow> ULONG \<Rightarrow> ACCESS_CHECK_OUT \<Rightarrow>
     (NTSTATUS \<times> ACCESS_CHECK_OUT) option" where
  "NtAccessCheckByTypeResultList m g env PrincipalSelfSid DesiredAccess ObjectTypeList ObjectTypeListLength GenericMapping
     PrivilegeSetLength out =
     SepAccessCheck m g env PrincipalSelfSid DesiredAccess GenericMapping PrivilegeSetLength ObjectTypeList
       ObjectTypeListLength True out"

end
