(* ===== verification/Se_ObjTree.thy ===== *)
theory Se_ObjTree
  imports Se_ObjType
begin

text \<open>
  Object type lists as trees in preorder: what \<^verbatim>\<open>SepValidateObjectTypeList\<close> accepts, which entries the
  updates reach, and that granted and denied rights of an entry stay disjoint.
\<close>

section \<open>Trees given by levels\<close>

definition tree_levels :: "(nat \<Rightarrow> USHORT) \<Rightarrow> nat \<Rightarrow> bool" where
  "tree_levels lv n \<longleftrightarrow> lv 0 = 0 \<and>
     (\<forall>i. 0 < i \<and> i < n \<longrightarrow> lv i \<noteq> 0 \<and> lv i \<le> ACCESS_MAX_LEVEL \<and> unat (lv i) \<le> unat (lv (i - 1)) + 1)"

definition parent :: "(nat \<Rightarrow> USHORT) \<Rightarrow> nat \<Rightarrow> nat \<Rightarrow> bool" where
  "parent lv j i \<longleftrightarrow> j < i \<and> unat (lv i) = unat (lv j) + 1 \<and> (\<forall>k. j < k \<and> k < i \<longrightarrow> lv i \<le> lv k)"

definition in_subtree :: "(nat \<Rightarrow> USHORT) \<Rightarrow> nat \<Rightarrow> nat \<Rightarrow> bool" where
  "in_subtree lv i j \<longleftrightarrow> i \<le> j \<and> (\<forall>k. i < k \<and> k \<le> j \<longrightarrow> lv i < lv k)"

lemma parent_unique: "parent lv j i \<Longrightarrow> parent lv j' i \<Longrightarrow> j = j'"
  by (cases j j' rule: linorder_cases) (force simp: parent_def word_le_nat_alt)+

lemma tree_parent:
  assumes "tree_levels lv n" "0 < i" "i < n"
  shows "\<exists>j. parent lv j i"
proof -
  define S where "S = {j. j < i \<and> lv j < lv i}"
  have "0 \<in> S" using assms by (auto simp: S_def tree_levels_def word_neq_0_conv)
  moreover have fin: "finite S" by (simp add: S_def)
  ultimately have M: "Max S \<in> S" using Max_in by blast
  define j where "j = Max S"
  have j: "j < i" "lv j < lv i" using M by (simp_all add: S_def j_def)
  have above: "lv i \<le> lv k" if "j < k" "k < i" for k
  proof (rule ccontr)
    assume "\<not> lv i \<le> lv k"
    with that(2) have "k \<in> S" by (simp add: S_def)
    then show False using Max_ge [OF fin, of k] that(1) by (simp add: j_def)
  qed
  have "unat (lv (Suc j)) \<le> unat (lv j) + 1"
    using assms j(1) unfolding tree_levels_def by (metis Suc_lessI diff_Suc_1 less_trans zero_less_Suc)
  moreover have "lv i \<le> lv (Suc j)" using above [of "Suc j"] j(1) by (cases "Suc j = i") auto
  ultimately have "unat (lv i) = unat (lv j) + 1" using j(2) by (simp add: word_less_nat_alt word_le_nat_alt)
  with j above show ?thesis unfolding parent_def by blast
qed

lemma in_subtree_descendants:
  assumes "tree_levels lv n" "j < n"
  shows "in_subtree lv i j \<longleftrightarrow> (parent lv)\<^sup>*\<^sup>* i j"
proof
  assume "in_subtree lv i j"
  with assms(2) show "(parent lv)\<^sup>*\<^sup>* i j"
  proof (induction j rule: less_induct)
    case (less j)
    show ?case
    proof (cases "i = j")
      case False
      with less.prems have ij: "i < j" "lv i < lv j" by (auto simp: in_subtree_def)
      then obtain p where p: "parent lv p j" using tree_parent [OF assms(1), of j] less.prems(1) by auto
      have "i \<le> p" using p ij unfolding parent_def by (meson leD leI)
      moreover have "p < j" using p by (simp add: parent_def)
      ultimately have "in_subtree lv i p" using less.prems(2) by (auto simp: in_subtree_def)
      with less.IH [OF \<open>p < j\<close>] less.prems(1) \<open>p < j\<close> have "(parent lv)\<^sup>*\<^sup>* i p" by simp
      with p show ?thesis by simp
    qed simp
  qed
next
  assume "(parent lv)\<^sup>*\<^sup>* i j"
  then show "in_subtree lv i j"
  proof (induction rule: rtranclp_induct)
    case (step p j)
    have "lv i < lv k" if "i < k" "k \<le> j" for k
    proof (cases "k \<le> p")
      case True
      with step.IH that show ?thesis by (simp add: in_subtree_def)
    next
      case False
      then have "lv j \<le> lv k"
        using step.hyps(2) that(2) by (cases "k = j") (simp_all add: parent_def)
      then have "unat (lv p) < unat (lv k)"
        using step.hyps(2) by (simp add: parent_def word_le_nat_alt)
      moreover have "unat (lv i) \<le> unat (lv p)"
        using step.IH by (cases "i = p") (auto simp: in_subtree_def word_less_nat_alt less_imp_le)
      ultimately show ?thesis by (simp add: word_less_nat_alt)
    qed
    with step show ?case by (auto simp: in_subtree_def parent_def)
  qed (auto simp: in_subtree_def)
qed

section \<open>Validation\<close>

text \<open>An exception never carries a success code.\<close>

definition probe_codes :: "('a \<Rightarrow> NTSTATUS option) \<Rightarrow> bool" where
  "probe_codes probe \<longleftrightarrow> (\<forall>p c. probe p = Some c \<longrightarrow> \<not> NT_SUCCESS c)"

lemma probe_codesD: "probe_codes probe \<Longrightarrow> probe p = Some c \<Longrightarrow> \<not> NT_SUCCESS c"
  by (simp add: probe_codes_def)

definition good_object :: "mem \<Rightarrow> (nat \<Rightarrow> NTSTATUS option) \<Rightarrow> nat \<Rightarrow> nat \<Rightarrow> bool" where
  "good_object m probe List i \<longleftrightarrow> Obj_ListLevel m List i \<noteq> 0 \<and> Obj_ListLevel m List i \<le> ACCESS_MAX_LEVEL \<and>
     unat (Obj_ListLevel m List i) \<le> unat (Obj_ListLevel m List (i - 1)) + 1 \<and> probe (Obj_ListType m List i) = None"

lemma validate_objects_iff:
  assumes "probe_codes probe" "0 < i"
  shows "NT_SUCCESS (validate_objects m probe List i (Obj_ListLevel m List (i - 1)) n) \<longleftrightarrow>
    (\<forall>j\<in>{i..<i + n}. good_object m probe List j)"
  using assms(2)
proof (induction n arbitrary: i)
  case (Suc n)
  have all: "{i..<i + Suc n} = insert i {Suc i..<Suc i + n}" by auto
  show ?case
    using Suc.IH [of "Suc i"] Suc.prems probe_codesD [OF assms(1), of "Obj_ListType m List i"]
    unfolding all by (auto simp: good_object_def Let_def not_less split: option.split)
qed simp

lemma SepValidateObjectTypeList_iff:
  assumes "probe_codes probe_list" "probe_codes probe_guid"
  shows "NT_SUCCESS (SepValidateObjectTypeList m probe_list probe_guid List n) \<longleftrightarrow>
      n * 8 \<noteq> 0 \<and> probe_list (n * 8) = None \<and> tree_levels (Obj_ListLevel m List) (unat n) \<and>
      (\<forall>i<unat n. probe_guid (Obj_ListType m List i) = None)"
proof (cases "unat n")
  case 0
  then show ?thesis by (simp add: SepValidateObjectTypeList_def unat_eq_zero)
next
  case (Suc k)
  have range: "(\<forall>j\<in>{1..<1 + k}. good_object m probe_guid List j) \<longleftrightarrow>
      (\<forall>j. 0 < j \<and> j < Suc k \<longrightarrow> good_object m probe_guid List j)" by auto
  have first: "NT_SUCCESS (validate_objects m probe_guid List 0 0 (Suc k)) \<longleftrightarrow>
      Obj_ListLevel m List 0 = 0 \<and> probe_guid (Obj_ListType m List 0) = None \<and>
      (\<forall>j. 0 < j \<and> j < Suc k \<longrightarrow> good_object m probe_guid List j)"
    using validate_objects_iff [OF assms(2) zero_less_one, of m List k, unfolded range]
      probe_codesD [OF assms(2), of "Obj_ListType m List 0"]
    by (auto simp: Let_def split: option.split)
  have "(\<forall>i<Suc k. probe_guid (Obj_ListType m List i) = None) \<longleftrightarrow> probe_guid (Obj_ListType m List 0) = None \<and>
      (\<forall>i. 0 < i \<and> i < Suc k \<longrightarrow> probe_guid (Obj_ListType m List i) = None)"
    by (metis gr0I zero_less_Suc)
  with first have "NT_SUCCESS (validate_objects m probe_guid List 0 0 (Suc k)) \<longleftrightarrow>
      tree_levels (Obj_ListLevel m List) (Suc k) \<and> (\<forall>i<Suc k. probe_guid (Obj_ListType m List i) = None)"
    unfolding tree_levels_def good_object_def by blast
  then show ?thesis
    using probe_codesD [OF assms(1), of "n * 8"] unfolding SepValidateObjectTypeList_def Suc
    by (simp add: Let_def split: option.split del: validate_objects.simps)
qed

text \<open>
  C27.  \<^verbatim>\<open>SepValidateObjectTypeList\<close> accepts a list exactly when its size is not 0, the probes succeed and the
  levels describe a tree in preorder with the root in front; then every other entry has exactly
  one parent, the last entry before it that is one level higher.
\<close>

theorem SepValidateObjectTypeList_tree:
  assumes "probe_codes probe_list" "probe_codes probe_guid"
  shows "(NT_SUCCESS (SepValidateObjectTypeList m probe_list probe_guid List n) \<longleftrightarrow>
      n * 8 \<noteq> 0 \<and> probe_list (n * 8) = None \<and> tree_levels (Obj_ListLevel m List) (unat n) \<and>
      (\<forall>i<unat n. probe_guid (Obj_ListType m List i) = None)) \<and>
    (NT_SUCCESS (SepValidateObjectTypeList m probe_list probe_guid List n) \<longrightarrow>
      (\<forall>i. 0 < i \<and> i < unat n \<longrightarrow> (\<exists>!j. parent (Obj_ListLevel m List) j i)))"
  using SepValidateObjectTypeList_iff [OF assms] tree_parent parent_unique by blast

text \<open>A list of two entries at 100: the root and a property set, with the GUIDs at 200 and 300.\<close>

definition object_list_mem :: mem where
  "object_list_mem = (\<lambda>a. if a = 108 then 1 else if a = 104 then 200 else if a = 112 then 44 else if a = 113 then 1
     else if a = 300 then 7 else 0)"

lemma object_list_levels [simp]: "Obj_ListLevel object_list_mem 100 0 = 0" "Obj_ListLevel object_list_mem 100 (Suc 0) = 1"
  by (simp_all add: Obj_ListLevel_def rd16_def object_list_mem_def)

lemma object_list_tree: "tree_levels (Obj_ListLevel object_list_mem 100) 2"
  by (auto simp: tree_levels_def less_2_cases_iff word_le_nat_alt)

theorem SepValidateObjectTypeList_tree_witness:
  "NT_SUCCESS (SepValidateObjectTypeList object_list_mem (\<lambda>_. None) (\<lambda>_. None) 100 2)"
  using SepValidateObjectTypeList_tree [of "\<lambda>_. None" "\<lambda>_. None" object_list_mem 100 2] object_list_tree
  by (simp add: probe_codes_def)

section \<open>Capturing\<close>

text \<open>
  When \<^verbatim>\<open>SeCaptureObjectTypeList\<close> captures a list, it stores one entry for each of the caller's entries
  and the levels describe a tree.  The size of the block is computed in 32 bits and an entry takes
  32 bytes: the block holds the entries exactly when there are less than \<open>2 ^ 27\<close> of them, and for
  longer lists, which the validation does not exclude, it is too small.
\<close>

theorem SeCaptureObjectTypeList_size:
  assumes "probe_codes probe_list" "probe_codes probe_guid" "n \<noteq> 0"
    and "SeCaptureObjectTypeList m probe_list probe_guid pool fault List n UserMode = (STATUS_SUCCESS, Some (Size, xs))"
  shows "length xs = unat n \<and> tree_levels (\<lambda>i. Obj_Level (xs ! i)) (unat n) \<and>
    (32 * length xs \<le> unat Size \<longleftrightarrow> unat n < 2 ^ 27)"
proof -
  have v: "NT_SUCCESS (SepValidateObjectTypeList m probe_list probe_guid List n)"
    and xs: "xs = map (capture_object m List) [0..<unat n]" and Size: "Size = n * 32"
    using assms(3,4) by (auto simp: SeCaptureObjectTypeList_def Let_def split: if_splits option.splits)
  have "tree_levels (Obj_ListLevel m List) (unat n)"
    using v SepValidateObjectTypeList_iff [OF assms(1,2)] by blast
  moreover have "Obj_Level (xs ! i) = Obj_ListLevel m List i" if "i < unat n" for i
    using that by (simp add: xs capture_object_def)
  moreover have "0 < unat n" using assms(3) by (simp add: unat_gt_0)
  ultimately have "tree_levels (\<lambda>i. Obj_Level (xs ! i)) (unat n)"
    unfolding tree_levels_def by (metis diff_le_self le_less_trans)
  moreover have "32 * unat n \<le> unat Size \<longleftrightarrow> unat n < 2 ^ 27"
  proof (cases "unat n < 2 ^ 27")
    case True
    then have "unat Size = unat n * 32" by (simp add: Size unat_word_ariths)
    with True show ?thesis by simp
  next
    case False
    moreover have "unat Size < 2 ^ 32" using unsigned_less [of Size] by simp
    ultimately show ?thesis by simp
  qed
  ultimately show ?thesis by (simp add: xs)
qed

text \<open>A list of \<open>2 ^ 27 + 1\<close> entries at 100, all property sets under the root.\<close>

definition long_list_mem :: mem where
  "long_list_mem = (\<lambda>a. if a mod 8 = 4 \<and> a \<noteq> 100 then 1 else 0)"

lemma long_list_levels: "tree_levels (Obj_ListLevel long_list_mem 100) n"
proof -
  have "Obj_ListLevel long_list_mem 100 i = (if i = 0 then 0 else 1)" for i
  proof -
    have "(100 + 8 * i) mod 8 = 4" "(101 + 8 * i) mod 8 = 5" by presburger+
    then show ?thesis by (simp add: Obj_ListLevel_def rd16_def long_list_mem_def)
  qed
  then show ?thesis by (simp add: tree_levels_def word_le_nat_alt)
qed

theorem SeCaptureObjectTypeList_size_witness:
  "\<exists>Size xs. SeCaptureObjectTypeList long_list_mem (\<lambda>_. None) (\<lambda>_. None) (\<lambda>_. True) None 100 0x8000001 UserMode =
     (STATUS_SUCCESS, Some (Size, xs)) \<and> unat Size < 32 * length xs"
proof -
  have ok: "NT_SUCCESS (SepValidateObjectTypeList long_list_mem (\<lambda>_. None) (\<lambda>_. None) 100 0x8000001)"
    using SepValidateObjectTypeList_iff [of "\<lambda>_. None" "\<lambda>_. None" long_list_mem 100 "0x8000001"] long_list_levels
    by (simp add: probe_codes_def)
  then have "SeCaptureObjectTypeList long_list_mem (\<lambda>_. None) (\<lambda>_. None) (\<lambda>_. True) None 100 0x8000001 UserMode =
     (STATUS_SUCCESS, Some (0x8000001 * 32, map (capture_object long_list_mem 100) [0..<unat (0x8000001 :: ULONG)]))"
    (is "_ = (_, Some (?s, ?xs))")
    unfolding SeCaptureObjectTypeList_def Let_def by simp
  moreover from this have "\<not> 32 * length ?xs \<le> unat ?s"
    using SeCaptureObjectTypeList_size [of "\<lambda>_. None" "\<lambda>_. None" "0x8000001" long_list_mem "\<lambda>_. True" None 100 ?s ?xs]
    by (simp add: probe_codes_def del: upt_conv_Cons)
  ultimately show ?thesis by (metis not_le)
qed

section \<open>Recording rights\<close>

definition rights_disjoint :: "OBJECT_TYPE_LIST_INTERNAL \<Rightarrow> bool" where
  "rights_disjoint x \<longleftrightarrow> GrantedAccessRights (ObjectAccessRights x) AND DeniedAccessRights (ObjectAccessRights x) = 0"

text \<open>What the two ways of recording rights have in common.\<close>

locale object_update =
  fixes f :: "OBJECT_TYPE_LIST_INTERNAL \<Rightarrow> OBJECT_TYPE_LIST_INTERNAL"
  assumes keeps_level: "Obj_Level (f x) = Obj_Level x"
    and keeps_guid: "ObjectTypeGuid (f x) = ObjectTypeGuid x"
    and keeps_disjoint: "rights_disjoint x \<Longrightarrow> rights_disjoint (f x)"
begin

lemma children_nth:
  "j < length xs \<Longrightarrow> update_children f l xs ! j =
     (if \<forall>k\<le>j. l < Obj_Level (xs ! k) then f (xs ! j) else xs ! j)"
proof (induction xs arbitrary: j)
  case (Cons x xs)
  show ?case
  proof (cases j)
    case 0
    then show ?thesis by (auto simp: not_le)
  next
    case (Suc i)
    have "(\<forall>k\<le>Suc i. l < Obj_Level ((x # xs) ! k)) \<longleftrightarrow> l < Obj_Level x \<and> (\<forall>k\<le>i. l < Obj_Level (xs ! k))"
      by (metis Suc_le_mono le0 nth_Cons_0 nth_Cons_Suc not0_implies_Suc)
    with Cons Suc show ?thesis by (auto simp: not_le)
  qed
qed simp

lemma children_length [simp]: "length (update_children f l xs) = length xs"
  by (induction xs) auto

lemma subtree_length [simp]: "length (update_subtree f i xs) = length xs"
  by (auto simp: update_subtree_def)

lemma subtree_nth:
  assumes "i < length xs" "j < length xs"
  shows "update_subtree f i xs ! j = (if in_subtree (\<lambda>k. Obj_Level (xs ! k)) i j then f (xs ! j) else xs ! j)"
proof (cases i j rule: linorder_cases)
  case less
  define k where "k = j - Suc i"
  have j: "j = Suc (i + k)" using less by (simp add: k_def)
  have all: "(\<forall>a\<le>k. Obj_Level (xs ! i) < Obj_Level (drop (Suc i) xs ! a)) \<longleftrightarrow>
      (\<forall>a. i < a \<and> a \<le> j \<longrightarrow> Obj_Level (xs ! i) < Obj_Level (xs ! a))"
  proof safe
    fix a assume *: "\<forall>a\<le>k. Obj_Level (xs ! i) < Obj_Level (drop (Suc i) xs ! a)" "i < a" "a \<le> j"
    with *(1) [rule_format, of "a - Suc i"] assms show "Obj_Level (xs ! i) < Obj_Level (xs ! a)" by (simp add: j)
  next
    fix a assume "\<forall>a. i < a \<and> a \<le> j \<longrightarrow> Obj_Level (xs ! i) < Obj_Level (xs ! a)" "a \<le> k"
    then show "Obj_Level (xs ! i) < Obj_Level (drop (Suc i) xs ! a)" using assms by (simp add: j)
  qed
  have "update_subtree f i xs ! j = update_children f (Obj_Level (xs ! i)) (drop (Suc i) xs) ! k"
    using assms by (simp add: update_subtree_def j nth_append)
  also have "\<dots> = (if in_subtree (\<lambda>k. Obj_Level (xs ! k)) i j then f (xs ! j) else xs ! j)"
  proof -
    have k: "k < length (drop (Suc i) xs)" and d: "drop (Suc i) xs ! k = xs ! j" using assms by (simp_all add: j)
    have s: "in_subtree (\<lambda>k. Obj_Level (xs ! k)) i j \<longleftrightarrow>
        (\<forall>a. i < a \<and> a \<le> j \<longrightarrow> Obj_Level (xs ! i) < Obj_Level (xs ! a))" using less by (simp add: in_subtree_def)
    show ?thesis unfolding children_nth [OF k] all d s ..
  qed
  finally show ?thesis .
next
  case equal
  then show ?thesis using assms by (auto simp: update_subtree_def in_subtree_def nth_append)
next
  case greater
  then show ?thesis using assms by (auto simp: update_subtree_def in_subtree_def nth_append)
qed

lemma subtree_keeps:
  "map Obj_Level (update_subtree f i xs) = map Obj_Level xs"
  "map ObjectTypeGuid (update_subtree f i xs) = map ObjectTypeGuid xs"
  "\<forall>x\<in>set xs. rights_disjoint x \<Longrightarrow> \<forall>x\<in>set (update_subtree f i xs). rights_disjoint x"
proof -
  have nth: "update_subtree f i xs ! j = f (xs ! j) \<or> update_subtree f i xs ! j = xs ! j" if "j < length xs" for j
    using subtree_nth [of i xs j] that by (cases "i < length xs") (auto simp: update_subtree_def)
  show "map Obj_Level (update_subtree f i xs) = map Obj_Level xs"
    by (rule nth_equalityI) (use nth keeps_level in fastforce)+
  show "map ObjectTypeGuid (update_subtree f i xs) = map ObjectTypeGuid xs"
    by (rule nth_equalityI) (use nth keeps_guid in fastforce)+
  assume "\<forall>x\<in>set xs. rights_disjoint x"
  then show "\<forall>x\<in>set (update_subtree f i xs). rights_disjoint x"
    using nth keeps_disjoint by (simp add: all_set_conv_all_nth) (metis nth_mem)
qed

lemma entry_keeps:
  "map Obj_Level (xs[i := f (xs ! i)]) = map Obj_Level xs"
  "map ObjectTypeGuid (xs[i := f (xs ! i)]) = map ObjectTypeGuid xs"
  "\<forall>x\<in>set xs. rights_disjoint x \<Longrightarrow> \<forall>x\<in>set (xs[i := f (xs ! i)]). rights_disjoint x"
proof -
  have "xs[i := f (xs ! i)] ! j = f (xs ! j) \<or> xs[i := f (xs ! i)] ! j = xs ! j" if "j < length xs" for j
    using that by (cases "i = j") auto
  note nth = this
  show "map Obj_Level (xs[i := f (xs ! i)]) = map Obj_Level xs"
    by (rule nth_equalityI) (use nth keeps_level in fastforce)+
  show "map ObjectTypeGuid (xs[i := f (xs ! i)]) = map ObjectTypeGuid xs"
    by (rule nth_equalityI) (use nth keeps_guid in fastforce)+
  assume "\<forall>x\<in>set xs. rights_disjoint x"
  then show "\<forall>x\<in>set (xs[i := f (xs ! i)]). rights_disjoint x"
    using nth keeps_disjoint by (simp add: all_set_conv_all_nth) (metis nth_mem)
qed

end

interpretation deny: object_update "deny_rights A"
  by unfold_locales (auto simp: deny_rights_def Let_def rights_disjoint_def and_eq_0_iff bit_or_iff bit_and_iff bit_not_iff)

interpretation allow: object_update "allow_rights A"
  by unfold_locales (auto simp: allow_rights_def Let_def rights_disjoint_def and_eq_0_iff bit_or_iff bit_and_iff bit_not_iff)

interpretation allow_remaining: object_update "\<lambda>x. allow_rights A (remove_remaining A x)"
  by unfold_locales (auto simp: remove_remaining_def allow.keeps_level allow.keeps_guid Let_def rights_disjoint_def
      intro!: allow.keeps_disjoint [unfolded rights_disjoint_def])

lemma RtlCompareMemory_le: "RtlCompareMemory xs ys \<le> length xs"
  by (induction xs ys rule: RtlCompareMemory.induct) auto

lemma RtlCompareMemory_full: "length xs = length ys \<Longrightarrow> RtlCompareMemory xs ys = length xs \<longleftrightarrow> xs = ys"
proof (induction xs ys rule: RtlCompareMemory.induct)
  case (1 x xs y ys)
  then show ?case using RtlCompareMemory_le [of xs ys] by auto
qed auto

lemma guid_in_list_Some:
  "guid_in_list b xs g = Some i \<Longrightarrow> b \<le> i \<and> i - b < length xs \<and> SepIsEqualObjectTypeGuid g (ObjectTypeGuid (xs ! (i - b))) \<and>
     (\<forall>j<i - b. \<not> SepIsEqualObjectTypeGuid g (ObjectTypeGuid (xs ! j)))"
proof (induction xs arbitrary: b)
  case (Cons x xs)
  show ?case
  proof (cases "SepIsEqualObjectTypeGuid g (ObjectTypeGuid x)")
    case False
    with Cons.prems have IH: "Suc b \<le> i \<and> i - Suc b < length xs \<and> SepIsEqualObjectTypeGuid g (ObjectTypeGuid (xs ! (i - Suc b))) \<and>
       (\<forall>j<i - Suc b. \<not> SepIsEqualObjectTypeGuid g (ObjectTypeGuid (xs ! j)))" using Cons.IH [of "Suc b"] by simp
    then obtain k where "i = Suc b + k" using le_Suc_ex by blast
    with IH False show ?thesis by (auto simp: less_Suc_eq_0_disj)
  qed (use Cons.prems in auto)
qed simp

lemma guid_in_list_None: "guid_in_list b xs g = None \<longleftrightarrow> (\<forall>x\<in>set xs. \<not> SepIsEqualObjectTypeGuid g (ObjectTypeGuid x))"
  by (induction xs arbitrary: b) auto

lemma SepObjectTypeGuidInList_Some:
  assumes "SepObjectTypeGuidInList xs g = Some i" "length g = 16" "\<forall>x\<in>set xs. length (ObjectTypeGuid x) = 16"
  shows "i < length xs" "ObjectTypeGuid (xs ! i) = g" "j < i \<Longrightarrow> ObjectTypeGuid (xs ! j) \<noteq> g"
proof -
  note f = guid_in_list_Some [OF assms(1) [unfolded SepObjectTypeGuidInList_def]]
  have eq: "SepIsEqualObjectTypeGuid g (ObjectTypeGuid (xs ! k)) \<longleftrightarrow> g = ObjectTypeGuid (xs ! k)" if "k < length xs" for k
    using RtlCompareMemory_full [of g "ObjectTypeGuid (xs ! k)"] assms(2,3) that by (simp add: SepIsEqualObjectTypeGuid_def)
  show "i < length xs" using f by simp
  then show "ObjectTypeGuid (xs ! i) = g" using f eq [of i] by simp
  show "j < i \<Longrightarrow> ObjectTypeGuid (xs ! j) \<noteq> g" using f eq [of j] \<open>i < length xs\<close> by auto
qed

text \<open>
  C28.  The routines for a result list find the first entry with the GUID of the ACE and record the rights
  in this entry and exactly its descendants in the tree; without a GUID they record them in all
  entries.  A GUID that is not in the list changes nothing.
\<close>

theorem object_result_list_descendants:
  assumes tree: "tree_levels (\<lambda>i. Obj_Level (xs ! i)) (length xs)" and j: "j < length xs"
    and guids: "length g = 16" "\<forall>x\<in>set xs. length (ObjectTypeGuid x) = 16"
  shows "(case SepObjectTypeGuidInList xs g of
      None \<Rightarrow> (\<forall>x\<in>set xs. ObjectTypeGuid x \<noteq> g) \<and>
        SepDenyAccessObjectTypeResultList xs A (Some g) = xs \<and> SepAllowAccessObjectTypeResultList xs A (Some g) = xs
    | Some i \<Rightarrow> i < length xs \<and> ObjectTypeGuid (xs ! i) = g \<and> (\<forall>k<i. ObjectTypeGuid (xs ! k) \<noteq> g) \<and>
        SepDenyAccessObjectTypeResultList xs A (Some g) ! j =
          (if (parent (\<lambda>i. Obj_Level (xs ! i)))\<^sup>*\<^sup>* i j then deny_rights A (xs ! j) else xs ! j) \<and>
        SepAllowAccessObjectTypeResultList xs A (Some g) ! j =
          (if (parent (\<lambda>i. Obj_Level (xs ! i)))\<^sup>*\<^sup>* i j then allow_rights A (xs ! j) else xs ! j)) \<and>
    SepDenyAccessObjectTypeResultList xs A None ! j = deny_rights A (xs ! j) \<and>
    SepAllowAccessObjectTypeResultList xs A None ! j = allow_rights A (xs ! j)"
proof -
  note d = in_subtree_descendants [OF tree j]
  have root: "in_subtree (\<lambda>i. Obj_Level (xs ! i)) 0 j"
    using tree j by (auto simp: in_subtree_def tree_levels_def word_neq_0_conv)
  have none: "SepDenyAccessObjectTypeResultList xs A None ! j = deny_rights A (xs ! j)"
    "SepAllowAccessObjectTypeResultList xs A None ! j = allow_rights A (xs ! j)"
    using j root deny.subtree_nth [OF le_less_trans [OF le0 j] j, of A] allow.subtree_nth [OF le_less_trans [OF le0 j] j, of A]
    by (simp_all add: SepDenyAccessObjectTypeResultList_def SepAllowAccessObjectTypeResultList_def)
  show ?thesis
  proof (cases "SepObjectTypeGuidInList xs g")
    case None
    moreover have "SepIsEqualObjectTypeGuid g (ObjectTypeGuid x) \<longleftrightarrow> g = ObjectTypeGuid x" if "x \<in> set xs" for x
      using RtlCompareMemory_full [of g "ObjectTypeGuid x"] guids that by (simp add: SepIsEqualObjectTypeGuid_def)
    ultimately have "\<forall>x\<in>set xs. ObjectTypeGuid x \<noteq> g"
      by (auto simp: SepObjectTypeGuidInList_def guid_in_list_None)
    with None none show ?thesis
      by (simp add: SepDenyAccessObjectTypeResultList_def SepAllowAccessObjectTypeResultList_def)
  next
    case (Some i)
    note f = SepObjectTypeGuidInList_Some [OF Some guids]
    show ?thesis
      using Some none f deny.subtree_nth [OF f(1) j, of A] allow.subtree_nth [OF f(1) j, of A]
      unfolding d by (simp add: SepDenyAccessObjectTypeResultList_def SepAllowAccessObjectTypeResultList_def)
  qed
qed

definition object_list :: "OBJECT_TYPE_LIST_INTERNAL list" where
  "object_list = map (capture_object object_list_mem 100) [0, 1]"

lemma object_list_simps:
  "length object_list = 2" "Obj_Level (object_list ! 0) = 0" "Obj_Level (object_list ! Suc 0) = 1"
  "\<forall>x\<in>set object_list. length (ObjectTypeGuid x) = 16"
  by (simp_all add: object_list_def capture_object_def)

theorem object_result_list_descendants_witness:
  "SepAllowAccessObjectTypeResultList object_list 1 None ! 1 = allow_rights 1 (object_list ! 1)"
proof -
  have "tree_levels (\<lambda>i. Obj_Level (object_list ! i)) (length object_list)"
    by (auto simp: tree_levels_def less_2_cases_iff word_le_nat_alt object_list_simps)
  then show ?thesis
    using object_result_list_descendants [of object_list 1 "replicate 16 0" 1] object_list_simps(1,4) by simp
qed

text \<open>
  C29.  No routine makes a right both granted and denied for an entry, and none changes the GUIDs or the
  levels of the list.
\<close>

theorem object_rights_disjoint:
  assumes "\<forall>x\<in>set xs. rights_disjoint x" "xs \<noteq> []"
    and "ys \<in> {SepDenyAccessObjectTypeResultList xs A g, SepAllowAccessObjectTypeResultList xs A g,
      snd (SepDenyAccessObjectTypeList xs A g), SepAllowAccessObjectTypeList xs A r g}"
  shows "(\<forall>x\<in>set ys. rights_disjoint x) \<and> map ObjectTypeGuid ys = map ObjectTypeGuid xs \<and> map Obj_Level ys = map Obj_Level xs"
proof -
  have sub: "?thesis" if "ys = update_subtree f i xs" "object_update f" for f i
    using object_update.subtree_keeps [OF that(2)] assms(1) unfolding that(1) by blast
  have one: "?thesis" if "ys = xs[i := f (xs ! i)]" "object_update f" for f i
    using object_update.entry_keeps [OF that(2)] assms(1) unfolding that(1) by blast
  note ops = deny.object_update_axioms allow.object_update_axioms allow_remaining.object_update_axioms
  from assms(3) show ?thesis
    using assms(1) sub [of "deny_rights A"] sub [of "allow_rights A"] one [of _ "deny_rights A"] one [of _ "allow_rights A"]
      one [of _ "\<lambda>x. allow_rights A (remove_remaining A x)"] ops
    by (auto simp: SepDenyAccessObjectTypeResultList_def SepAllowAccessObjectTypeResultList_def SepDenyAccessObjectTypeList_def
        SepAllowAccessObjectTypeList_def Let_def split: option.splits if_splits)
qed

theorem object_rights_disjoint_witness:
  "list_all rights_disjoint (SepAllowAccessObjectTypeResultList object_list 1 None)"
proof -
  have "\<forall>x\<in>set object_list. rights_disjoint x"
    by (simp add: object_list_def capture_object_def rights_disjoint_def)
  moreover have "object_list \<noteq> []" by (simp add: object_list_def)
  ultimately show ?thesis
    using object_rights_disjoint [of object_list "SepAllowAccessObjectTypeResultList object_list 1 None" 1 None True]
    by (auto simp: list_all_iff)
qed

end
