(* ===== verification/Se_Decision.thy ===== *)
theory Se_Decision
  imports Se_AccessCheck Se_ObjTree
begin

text \<open>
  What an access check decides.  The DACL is read as an ordered list of rules: for one right, the
  first ACE that applies to the token and has this right tells whether it is granted or denied.
  Both analyses of \<^verbatim>\<open>SepAnalyzeAcesFromDacl\<close> implement this reading.
\<close>

section \<open>First match\<close>

fun first_verdict :: "('a \<Rightarrow> bool option) \<Rightarrow> 'a list \<Rightarrow> bool option" where
  "first_verdict v [] = None"
| "first_verdict v (x # xs) = (case v x of Some b \<Rightarrow> Some b | None \<Rightarrow> first_verdict v xs)"

text \<open>What one ACE says about the right \<open>n\<close>; the token is looked up as the code does.\<close>

definition ace_verdict ::
  "mem \<Rightarrow> SE_SIDS \<Rightarrow> TOKEN \<Rightarrow> bool \<Rightarrow> nat \<Rightarrow> GENERIC_MAPPING \<Rightarrow> nat \<Rightarrow> nat \<Rightarrow> bool option" where
  "ace_verdict m g Token Restricted Self Mapping n Ace =
     (if AceFlags m Ace AND INHERIT_ONLY \<noteq> 0 \<or> \<not> bit (ace_access m Mapping Ace) n then None
      else if AceType m Ace = ACCESS_DENIED_ACE_TYPE \<or> AceType m Ace = ACCESS_DENIED_OBJECT_ACE_TYPE
      then if SepSidInTokenEx m g Token Self (SepGetSidFromAce m Ace) True Restricted then Some False else None
      else if AceType m Ace = ACCESS_ALLOWED_ACE_TYPE \<or> AceType m Ace = ACCESS_ALLOWED_OBJECT_ACE_TYPE
      then if SepSidInTokenEx m g Token Self (SepGetSidFromAce m Ace) False Restricted then Some True else None
      else None)"

definition dacl_aces :: "mem \<Rightarrow> nat \<Rightarrow> nat list" where
  "dacl_aces m Dacl = map (ace_ptr m (Dacl + 8)) [0..<unat (AceCount m Dacl)]"

definition dacl_grants :: "mem \<Rightarrow> SE_SIDS \<Rightarrow> nat \<Rightarrow> TOKEN \<Rightarrow> bool \<Rightarrow> nat \<Rightarrow> GENERIC_MAPPING \<Rightarrow> nat \<Rightarrow> bool" where
  "dacl_grants m g Dacl Token Restricted Self Mapping n \<longleftrightarrow>
     first_verdict (ace_verdict m g Token Restricted Self Mapping n) (dacl_aces m Dacl) = Some True"

section \<open>The loops\<close>

lemma RtlGetAce_index:
  assumes "RtlValidAcl m Dacl" "i < unat (AceCount m Dacl)"
  shows "RtlGetAce m Dacl (of_nat i) = (STATUS_SUCCESS, Some (ace_ptr m (Dacl + 8) i))"
proof -
  note v = RtlValidAcl_aces [OF assms(1)]
  have rev: "\<not> (ucast (AclRevision m Dacl) :: ULONG) < 2" "\<not> (ucast (AclRevision m Dacl) :: ULONG) > 4"
    using v(3,4) by (simp_all add: word_less_nat_alt word_le_nat_alt)
  have i: "unat (of_nat i :: ULONG) = i" using assms(2) unat_less_8_16(2) [of "AceCount m Dacl"] by (simp add: unat_of_nat_32)
  show ?thesis
    using valid_aces_get [OF v(1) assms(2)] assms(2) rev i
    by (simp add: RtlGetAce_def acl_end_def word_le_nat_alt)
qed

fun run_until :: "('a \<Rightarrow> 's \<Rightarrow> bool \<times> 's) \<Rightarrow> 'a list \<Rightarrow> 's \<Rightarrow> 's" where
  "run_until step [] st = st"
| "run_until step (x # xs) st = (case step x st of (True, st) \<Rightarrow> st | (False, st) \<Rightarrow> run_until step xs st)"

lemma maximum_loop_fold:
  assumes "RtlValidAcl m Dacl" "i + n \<le> unat (AceCount m Dacl)"
  shows "maximum_loop m step Dacl (of_nat i) n st = Some (fold step (map (ace_ptr m (Dacl + 8)) [i..<i + n]) st)"
  using assms(2)
proof (induction n arbitrary: i st)
  case (Suc n)
  have "[i..<i + Suc n] = i # [Suc i..<Suc i + n]" by (simp add: upt_rec)
  then show ?case
    using Suc.IH [of "Suc i" "step (ace_ptr m (Dacl + 8) i) st"] Suc.prems RtlGetAce_index [OF assms(1), of i]
    by (simp add: add.commute NT_SUCCESS_def)
qed simp

lemma regular_loop_run:
  assumes "RtlValidAcl m Dacl" "i + n \<le> unat (AceCount m Dacl)"
  shows "regular_loop m step Dacl (of_nat i) n st = Some (run_until step (map (ace_ptr m (Dacl + 8)) [i..<i + n]) st)"
  using assms(2)
proof (induction n arbitrary: i st)
  case (Suc n)
  have "[i..<i + Suc n] = i # [Suc i..<Suc i + n]" by (simp add: upt_rec)
  then show ?case
    using Suc.IH [of "Suc i"] Suc.prems RtlGetAce_index [OF assms(1), of i]
    by (auto simp: add.commute NT_SUCCESS_def split: prod.split bool.split)
qed simp

lemma SepAnalyzeAcesFromDacl_Maximum:
  "RtlValidAcl m Dacl \<Longrightarrow> Dacl \<noteq> 0 \<Longrightarrow> SepAnalyzeAcesFromDacl AccessCheckMaximum Rem m Dacl g Token Restricted Self Mapping Use st =
     Some (fold (maximum_step m g Token Restricted Self Mapping Use) (dacl_aces m Dacl) st)"
  using maximum_loop_fold [of m Dacl 0 "unat (AceCount m Dacl)"] by (simp add: SepAnalyzeAcesFromDacl_def dacl_aces_def)

lemma SepAnalyzeAcesFromDacl_Regular:
  "RtlValidAcl m Dacl \<Longrightarrow> Dacl \<noteq> 0 \<Longrightarrow> Rem \<noteq> 0 \<Longrightarrow> SepAnalyzeAcesFromDacl AccessCheckRegular Rem m Dacl g Token Restricted Self Mapping Use (r, xs) =
     Some (run_until (regular_step m g Token Restricted Self Mapping) (dacl_aces m Dacl)
       (r\<lparr>RemainingAccessRights := Rem\<rparr>, map (set_remaining Rem) xs))"
  using regular_loop_run [of m Dacl 0 "unat (AceCount m Dacl)"] by (simp add: SepAnalyzeAcesFromDacl_def dacl_aces_def)

section \<open>The maximum\<close>

lemma maximum_step_bits:
  assumes "maximum_step m g Token Restricted Self Mapping Use Ace (r, []) = (r', xs)"
  shows "xs = []"
    and "bit (GrantedAccessRights r') n \<longleftrightarrow> bit (GrantedAccessRights r) n \<or>
      \<not> bit (DeniedAccessRights r) n \<and> ace_verdict m g Token Restricted Self Mapping n Ace = Some True"
    and "bit (DeniedAccessRights r') n \<longleftrightarrow> bit (DeniedAccessRights r) n \<or>
      \<not> bit (GrantedAccessRights r) n \<and> ace_verdict m g Token Restricted Self Mapping n Ace = Some False"
proof -
  have len: "bit x n \<Longrightarrow> n < 32" for x :: ACCESS_MASK using bit_imp_le_length [of x n] by simp
  show "xs = []"
    using assms by (auto simp: maximum_step_def Let_def split: if_splits)
  show "bit (GrantedAccessRights r') n \<longleftrightarrow> bit (GrantedAccessRights r) n \<or>
      \<not> bit (DeniedAccessRights r) n \<and> ace_verdict m g Token Restricted Self Mapping n Ace = Some True"
    using assms len by (auto simp: maximum_step_def ace_verdict_def grant_more_def deny_more_def Let_def bit_or_iff bit_and_iff
        bit_not_iff split: if_splits)
  show "bit (DeniedAccessRights r') n \<longleftrightarrow> bit (DeniedAccessRights r) n \<or>
      \<not> bit (GrantedAccessRights r) n \<and> ace_verdict m g Token Restricted Self Mapping n Ace = Some False"
    using assms len by (auto simp: maximum_step_def ace_verdict_def grant_more_def deny_more_def Let_def bit_or_iff bit_and_iff
        bit_not_iff split: if_splits)
qed

lemma maximum_fold:
  assumes "fold (maximum_step m g Token Restricted Self Mapping Use) aces (r, []) = (r', xs)"
    and "\<not> (bit (GrantedAccessRights r) n \<and> bit (DeniedAccessRights r) n)"
  shows "xs = [] \<and>
    (bit (GrantedAccessRights r') n \<longleftrightarrow> bit (GrantedAccessRights r) n \<or>
      \<not> bit (DeniedAccessRights r) n \<and> first_verdict (ace_verdict m g Token Restricted Self Mapping n) aces = Some True) \<and>
    (bit (DeniedAccessRights r') n \<longleftrightarrow> bit (DeniedAccessRights r) n \<or>
      \<not> bit (GrantedAccessRights r) n \<and> first_verdict (ace_verdict m g Token Restricted Self Mapping n) aces = Some False)"
  using assms
proof (induction aces arbitrary: r)
  case (Cons a aces)
  obtain r1 ys where step: "maximum_step m g Token Restricted Self Mapping Use a (r, []) = (r1, ys)" by fastforce
  note s = maximum_step_bits [OF step]
  have "fold (maximum_step m g Token Restricted Self Mapping Use) aces (r1, []) = (r', xs)"
    using Cons.prems(1) step s(1) by simp
  moreover have "\<not> (bit (GrantedAccessRights r1) n \<and> bit (DeniedAccessRights r1) n)"
    using s(2,3) [of n] Cons.prems(2) by auto
  ultimately show ?case
    using Cons.IH [of r1] s(2,3) [of n] Cons.prems(2) by (auto split: option.split)
qed simp

abbreviation (input) no_rights :: ACCESS_CHECK_RIGHTS where
  "no_rights \<equiv> \<lparr>RemainingAccessRights = 0, GrantedAccessRights = 0, DeniedAccessRights = 0\<rparr>"

section \<open>The regular check\<close>

lemma regular_step_bits:
  assumes "regular_step m g Token Restricted Self Mapping Ace (r, []) = (b, r', xs)"
  shows "xs = []"
    and "b \<Longrightarrow> \<exists>n. bit (RemainingAccessRights r) n \<and> ace_verdict m g Token Restricted Self Mapping n Ace = Some False"
    and "b \<Longrightarrow> RemainingAccessRights r' = RemainingAccessRights r"
    and "\<not> b \<Longrightarrow> bit (RemainingAccessRights r) n \<Longrightarrow> ace_verdict m g Token Restricted Self Mapping n Ace \<noteq> Some False"
    and "\<not> b \<Longrightarrow> bit (RemainingAccessRights r') n \<longleftrightarrow>
      bit (RemainingAccessRights r) n \<and> ace_verdict m g Token Restricted Self Mapping n Ace \<noteq> Some True"
proof -
  have len: "bit x n \<Longrightarrow> n < 32" for x :: ACCESS_MASK using bit_imp_le_length [of x n] by simp
  note defs = regular_step_def ace_verdict_def refuse_def accept_def Let_def and_eq_0_iff
  show "xs = []" using assms by (auto simp: defs split: if_splits)
  show "b \<Longrightarrow> \<exists>n. bit (RemainingAccessRights r) n \<and> ace_verdict m g Token Restricted Self Mapping n Ace = Some False"
    using assms by (auto simp: defs split: if_splits)
  show "b \<Longrightarrow> RemainingAccessRights r' = RemainingAccessRights r"
    using assms by (auto simp: defs split: if_splits)
  show "\<not> b \<Longrightarrow> bit (RemainingAccessRights r) n \<Longrightarrow> ace_verdict m g Token Restricted Self Mapping n Ace \<noteq> Some False"
    using assms by (auto simp: defs split: if_splits)
  show "\<not> b \<Longrightarrow> bit (RemainingAccessRights r') n \<longleftrightarrow>
      bit (RemainingAccessRights r) n \<and> ace_verdict m g Token Restricted Self Mapping n Ace \<noteq> Some True"
    using assms len by (auto simp: defs bit_and_iff bit_not_iff split: if_splits)
qed

lemma regular_run:
  assumes "run_until (regular_step m g Token Restricted Self Mapping) aces (r, []) = (r', xs)"
  shows "xs = [] \<and> (RemainingAccessRights r' = 0 \<longleftrightarrow>
    (\<forall>n. bit (RemainingAccessRights r) n \<longrightarrow> first_verdict (ace_verdict m g Token Restricted Self Mapping n) aces = Some True))"
  using assms
proof (induction aces arbitrary: r)
  case Nil
  then show ?case by (auto simp: mask_eq_0_iff)
next
  case (Cons a aces)
  obtain b r1 ys where step: "regular_step m g Token Restricted Self Mapping a (r, []) = (b, r1, ys)"
    by (metis prod_cases3)
  note s = regular_step_bits [OF step]
  show ?case
  proof (cases b)
    case True
    with s(2) obtain n where n: "bit (RemainingAccessRights r) n" "ace_verdict m g Token Restricted Self Mapping n a = Some False"
      by blast
    then have "RemainingAccessRights r \<noteq> 0" by auto
    with True n Cons.prems step s(1,3) show ?thesis by auto
  next
    case False
    then have "run_until (regular_step m g Token Restricted Self Mapping) aces (r1, []) = (r', xs)"
      using Cons.prems step s(1) by simp
    moreover have "(bit (RemainingAccessRights r1) n \<longrightarrow> first_verdict (ace_verdict m g Token Restricted Self Mapping n) aces = Some True) \<longleftrightarrow>
        (bit (RemainingAccessRights r) n \<longrightarrow> first_verdict (ace_verdict m g Token Restricted Self Mapping n) (a # aces) = Some True)" for n
      using False s(4,5) [of n] by (cases "ace_verdict m g Token Restricted Self Mapping n a") auto
    ultimately show ?thesis using Cons.IH [of r1] by simp
  qed
qed

text \<open>
  C2.  For a valid DACL and without an object type list both analyses read the DACL by first match: the
  maximum analysis grants exactly the rights whose first applicable ACE allows them, and the
  regular analysis, when some right is asked for, leaves no right open exactly when this holds for every
  right asked for.
\<close>

theorem SepAnalyzeAcesFromDacl_first_match:
  assumes "RtlValidAcl m Dacl" "Dacl \<noteq> 0" "Rem \<noteq> 0"
  shows "(\<exists>r. SepAnalyzeAcesFromDacl AccessCheckMaximum 0 m Dacl g Token Restricted Self Mapping Use (no_rights, []) = Some (r, []) \<and>
      (\<forall>n. bit (GrantedAccessRights r) n \<longleftrightarrow> dacl_grants m g Dacl Token Restricted Self Mapping n)) \<and>
    (\<exists>r. SepAnalyzeAcesFromDacl AccessCheckRegular Rem m Dacl g Token Restricted Self Mapping Use (no_rights, []) = Some (r, []) \<and>
      (RemainingAccessRights r = 0 \<longleftrightarrow> (\<forall>n. bit Rem n \<longrightarrow> dacl_grants m g Dacl Token Restricted Self Mapping n)))"
proof
  obtain r xs where f: "fold (maximum_step m g Token Restricted Self Mapping Use) (dacl_aces m Dacl) (no_rights, []) = (r, xs)"
    by fastforce
  show "\<exists>r. SepAnalyzeAcesFromDacl AccessCheckMaximum 0 m Dacl g Token Restricted Self Mapping Use (no_rights, []) = Some (r, []) \<and>
      (\<forall>n. bit (GrantedAccessRights r) n \<longleftrightarrow> dacl_grants m g Dacl Token Restricted Self Mapping n)"
    using maximum_fold [OF f] f by (auto simp: SepAnalyzeAcesFromDacl_Maximum [OF assms(1,2)] dacl_grants_def)
  obtain r xs where f: "run_until (regular_step m g Token Restricted Self Mapping) (dacl_aces m Dacl)
      (\<lparr>RemainingAccessRights = Rem, GrantedAccessRights = 0, DeniedAccessRights = 0\<rparr>, []) = (r, xs)"
    by fastforce
  show "\<exists>r. SepAnalyzeAcesFromDacl AccessCheckRegular Rem m Dacl g Token Restricted Self Mapping Use (no_rights, []) = Some (r, []) \<and>
      (RemainingAccessRights r = 0 \<longleftrightarrow> (\<forall>n. bit Rem n \<longrightarrow> dacl_grants m g Dacl Token Restricted Self Mapping n))"
    using regular_run [OF f] f by (auto simp: SepAnalyzeAcesFromDacl_Regular [OF assms] dacl_grants_def)
qed

section \<open>The worker without an object type list\<close>

text \<open>What the DACL grants a token, which must hold for its restricted SIDs as well when it has some.\<close>

definition token_grants :: "mem \<Rightarrow> SE_SIDS \<Rightarrow> nat \<Rightarrow> TOKEN \<Rightarrow> GENERIC_MAPPING \<Rightarrow> nat \<Rightarrow> bool" where
  "token_grants m g Dacl Token Mapping n \<longleftrightarrow> dacl_grants m g Dacl Token False 0 Mapping n \<and>
     (SeTokenIsRestricted Token \<longrightarrow> dacl_grants m g Dacl Token True 0 Mapping n)"

lemma worker_regular_eq:
  assumes "RtlValidAcl m Dacl" "Dacl \<noteq> 0" "Rem \<noteq> 0"
  shows "worker_regular m g Dacl Token 0 Mapping False Rem Prev Desired [] =
    Some (if (\<forall>n. bit Rem n \<longrightarrow> token_grants m g Dacl Token Mapping n) \<and> Prev OR Desired \<noteq> 0
          then (STATUS_SUCCESS, Prev OR Desired) else (STATUS_ACCESS_DENIED, 0))"
proof -
  have an: "\<exists>r'. SepAnalyzeAcesFromDacl AccessCheckRegular Rem m Dacl g Token Restricted 0 Mapping False (r, []) = Some (r', []) \<and>
      (RemainingAccessRights r' = 0 \<longleftrightarrow> (\<forall>n. bit Rem n \<longrightarrow> dacl_grants m g Dacl Token Restricted 0 Mapping n))" for Restricted r
  proof -
    obtain r' xs where f: "run_until (regular_step m g Token Restricted 0 Mapping) (dacl_aces m Dacl)
      (r\<lparr>RemainingAccessRights := Rem\<rparr>, []) = (r', xs)" by fastforce
    show ?thesis using regular_run [OF f] f by (auto simp: SepAnalyzeAcesFromDacl_Regular [OF assms] dacl_grants_def)
  qed
  obtain r1 where r1: "SepAnalyzeAcesFromDacl AccessCheckRegular Rem m Dacl g Token False 0 Mapping False (no_rights, []) = Some (r1, [])"
    "RemainingAccessRights r1 = 0 \<longleftrightarrow> (\<forall>n. bit Rem n \<longrightarrow> dacl_grants m g Dacl Token False 0 Mapping n)"
    using an by blast
  obtain r2 where r2: "SepAnalyzeAcesFromDacl AccessCheckRegular Rem m Dacl g Token True 0 Mapping False (r1, []) = Some (r2, [])"
    "RemainingAccessRights r2 = 0 \<longleftrightarrow> (\<forall>n. bit Rem n \<longrightarrow> dacl_grants m g Dacl Token True 0 Mapping n)"
    using an by blast
  show ?thesis
    using r1(2) r2(2) by (auto simp: worker_regular_def r1(1) r2(1) regular_granted_def token_grants_def Let_def)
qed

lemma worker_maximum_Some:
  assumes "RtlValidAcl m Dacl" "Dacl \<noteq> 0"
  shows "\<exists>r. worker_maximum m g Dacl Token 0 Mapping False Rem Prev Wanted Mask [] gl sl = Some r \<and>
    GrantedAccessList r = gl \<and> AccessStatusList r = sl"
proof -
  have an: "\<exists>r'. SepAnalyzeAcesFromDacl AccessCheckMaximum 0 m Dacl g Token Restricted 0 Mapping False (r, []) = Some (r', [])" for Restricted r
  proof -
    have "snd (fold (maximum_step m g Token Restricted 0 Mapping False) aces (r, [])) = []" for aces
      by (induction aces arbitrary: r) (auto simp: maximum_step_def Let_def)
    then show ?thesis by (metis SepAnalyzeAcesFromDacl_Maximum [OF assms] surjective_pairing)
  qed
  obtain r1 where "SepAnalyzeAcesFromDacl AccessCheckMaximum 0 m Dacl g Token False 0 Mapping False (no_rights, []) = Some (r1, [])"
    using an by blast
  moreover obtain r2 where "SepAnalyzeAcesFromDacl AccessCheckMaximum 0 m Dacl g Token True 0 Mapping False (r1, []) = Some (r2, [])"
    using an by blast
  ultimately show ?thesis by (simp add: worker_maximum_def Let_def split: prod.split)
qed

definition protected_by :: "mem \<Rightarrow> nat \<Rightarrow> nat \<Rightarrow> bool" where
  "protected_by m Sd Dacl \<longleftrightarrow> Sd_Revision m Sd = SECURITY_DESCRIPTOR_REVISION \<and> Sd_Control m Sd AND SE_DACL_PRESENT = SE_DACL_PRESENT \<and>
     SepGetDaclFromDescriptor m Sd = Dacl \<and> Dacl \<noteq> 0 \<and> RtlValidAcl m Dacl \<and> AceCount m Dacl \<noteq> 0"

definition some_mapping :: "GENERIC_MAPPING \<Rightarrow> bool" where
  "some_mapping G \<longleftrightarrow> \<not> (GenericRead G = 0 \<and> GenericWrite G = 0 \<and> GenericExecute G = 0 \<and> GenericAll G = 0)"

lemma RtlMapGenericMask_id: "a AND GENERIC_ACCESS = 0 \<Longrightarrow> RtlMapGenericMask a G = a"
proof -
  assume 0: "a AND GENERIC_ACCESS = 0"
  then have b: "\<not> (bit a k \<and> 28 \<le> k \<and> k < 32)" for k unfolding and_eq_0_iff bit_generic_access by blast
  have "bit a k \<Longrightarrow> k < 32" for k using bit_imp_le_length [of a k] by simp
  with b have "a AND NOT GENERIC_ACCESS = a"
    unfolding bit_eq_iff bit_not_generic by (meson not_less)
  moreover have "a AND GENERIC_ALL = 0" "a AND GENERIC_EXECUTE = 0" "a AND GENERIC_WRITE = 0" "a AND GENERIC_READ = 0"
    using b [of 28] b [of 29] b [of 30] b [of 31] by (simp_all add: generic_flags)
  ultimately show ?thesis by (simp add: RtlMapGenericMask_def Let_def)
qed

text \<open>The worker in user mode on an object with a DACL, when the caller can get a privilege set.\<close>

lemma worker_protected:
  assumes "d \<noteq> 0" "d AND GENERIC_ACCESS = 0" "prev AND GENERIC_ACCESS = 0" "protected_by m Sd Dacl" "some_mapping Mapping"
    and Sd: "Sd \<noteq> 0"
    and T: "T = (case C of Some t \<Rightarrow> t | None \<Rightarrow> P)"
  defines "pm \<equiv> policy_mask UserMode T d"
  shows "\<exists>privs st G. SepAccessCheckWorker m g True Sd C P 0 d [] prev Mapping UserMode False True [x] [y] =
      Some (NT_SUCCESS st, privs, [G], [st]) \<and>
    (if bit d 24 \<and> \<not> may_use UserMode T SeSecurityPrivilege then st = STATUS_PRIVILEGE_NOT_HELD \<and> G = prev
     else if d AND NOT pm = 0 then st = STATUS_SUCCESS \<and> G = prev OR pm
     else if bit d 25
     then \<exists>r. worker_maximum m g Dacl T 0 Mapping False (d AND NOT pm) (prev OR pm)
         ((d OR prev) AND NOT MAXIMUM_ALLOWED) (NOT MAXIMUM_ALLOWED) [] [x] [y] = Some r \<and> st = CommonStatus r \<and> G = CommonGranted r
     else worker_regular m g Dacl T 0 Mapping False (d AND NOT pm) (prev OR pm) d [] = Some (st, G))"
proof -
  have id: "RtlMapGenericMask d Mapping = d" "(if prev \<noteq> 0 then RtlMapGenericMask prev Mapping else prev) = prev"
    using assms(2,3) by (simp_all add: RtlMapGenericMask_id)
  have dacl: "RtlGetDaclSecurityDescriptor m Sd = (STATUS_SUCCESS, Some (True, Some (Dacl, Sd_Control m Sd AND SE_DACL_DEFAULTED = SE_DACL_DEFAULTED)))"
    "Dacl \<noteq> 0" "AceCount m Dacl \<noteq> 0" "RtlValidAcl m Dacl"
    using assms(4) by (simp_all add: protected_by_def RtlGetDaclSecurityDescriptor_def)
  have max: "d AND MAXIMUM_ALLOWED \<noteq> 0 \<longleftrightarrow> bit d 25" by (simp add: generic_flags)
  have map: "(GenericRead Mapping = 0 \<and> GenericWrite Mapping = 0 \<and> GenericExecute Mapping = 0 \<and> GenericAll Mapping = 0) = False"
    using assms(5) by (simp add: some_mapping_def)
  obtain st0 d0 g0 out where pol: "SePrivilegePolicyCheck True d prev None T True UserMode = Some (st0, d0, g0, out)"
    using SePrivilegePolicyCheck_Some by blast
  note m = SePrivilegePolicyCheck_masks [OF pol refl, unfolded subject_token_def option.case, folded pm_def]
  have W: "SepAccessCheckWorker m g True Sd C P 0 d [] prev Mapping UserMode False True [x] [y] =
    (let ReturnCommonStatus = (\<lambda>r. Some (NT_SUCCESS (CommonStatus r), out, (GrantedAccessList r)[0 := CommonGranted r], (AccessStatusList r)[0 := CommonStatus r]));
         common = (\<lambda>Status Granted. Some (NT_SUCCESS Status, out, [Granted], [Status]))
     in if \<not> NT_SUCCESS st0 then common st0 g0
        else if d0 = 0 then common STATUS_SUCCESS g0
        else if bit d 25 then
          (case worker_maximum m g Dacl T 0 Mapping False d0 g0
             ((d OR prev) AND NOT MAXIMUM_ALLOWED) (NOT MAXIMUM_ALLOWED) [] [x] [y] of
             None \<Rightarrow> None | Some r \<Rightarrow> ReturnCommonStatus r)
        else (case worker_regular m g Dacl T 0 Mapping False d0 g0 d [] of None \<Rightarrow> None | Some (Status, Granted) \<Rightarrow> common Status Granted))"
    using assms(1) dacl(2,3)
    unfolding SepAccessCheckWorker_def Let_def if_not_P [OF Sd] id T [symmetric] pol option.case prod.case map if_False max dacl(1)
    by (simp split: option.split prod.split)
  consider (held) "bit d 24 \<and> \<not> may_use UserMode T SeSecurityPrivilege" | (ok) "st0 = STATUS_SUCCESS" "d0 = d AND NOT pm" "g0 = prev OR pm"
    "\<not> (bit d 24 \<and> \<not> may_use UserMode T SeSecurityPrivilege)"
    using m by (cases "st0 = STATUS_PRIVILEGE_NOT_HELD") (simp_all add: subject_token_def)
  then show ?thesis
  proof cases
    case held
    then have "st0 = STATUS_PRIVILEGE_NOT_HELD" "g0 = prev" using m by blast+
    with held show ?thesis by (simp add: W)
  next
    case ok
    obtain r where "worker_maximum m g Dacl T 0 Mapping False d0 g0 ((d OR prev) AND NOT MAXIMUM_ALLOWED) (NOT MAXIMUM_ALLOWED) [] [x] [y] = Some r"
      "GrantedAccessList r = [x]" "AccessStatusList r = [y]" using worker_maximum_Some [OF dacl(4,2)] by blast
    moreover have "\<exists>s. worker_regular m g Dacl T 0 Mapping False d0 g0 d [] = Some s" if "d0 \<noteq> 0"
      using worker_regular_eq [OF dacl(4,2) that] by blast
    ultimately show ?thesis
      using ok(4) unfolding W Let_def ok(1-3) by (cases "d AND NOT pm = 0") auto
  qed
qed

section \<open>An example\<close>

text \<open>
  A memory with the SIDs \<^verbatim>\<open>S-1-0-0\<close> at 10 and \<^verbatim>\<open>S-1-0-7\<close> at 30, and an absolute security descriptor at 500
  that is owned by the second one and has a DACL at 100 with one ACE, which allows the right 0 to the
  first one.
\<close>

definition guarded_mem :: mem where
  "guarded_mem = (\<lambda>a. if a = 10 \<or> a = 11 \<or> a = 30 \<or> a = 31 then 1 else if a = 38 then 7
     else if a = 100 then 2 else if a = 102 then 64 else if a = 104 then 1
     else if a = 110 then 20 else if a = 112 then 1 else if a = 116 \<or> a = 117 then 1
     else if a = 500 then 1 else if a = 502 then 4 else if a = 504 then 30 else if a = 516 then 100 else 0)"

definition guarded_sids :: SE_SIDS where
  "guarded_sids = \<lparr>SePrincipalSelfSid = 30, SeWorldSid = 30\<rparr>"

definition user_token :: "SID_AND_ATTRIBUTES list \<Rightarrow> TOKEN" where
  "user_token restricted = \<lparr>UserAndGroups = [\<lparr>sid_ptr = 10, sid_attributes = 0\<rparr>], RestrictedSids = restricted, Token_Privileges = [],
     TokenType = TokenPrimary, ImpersonationLevel = SecurityAnonymous, TokenFlags = (if restricted = [] then 0 else TOKEN_IS_RESTRICTED)\<rparr>"

lemma guarded_acl: "RtlValidAcl guarded_mem 100" "dacl_aces guarded_mem 100 = [108]" "protected_by guarded_mem 500 100"
  "SepGetOwnerFromDescriptor guarded_mem 500 = 30"
  by (simp_all add: protected_by_def RtlValidAcl_def valid_known_ace_def valid_ace_def AclRevision_def AclSize_def AceCount_def AceSize_def AceType_def
      rd16_def rd32_def ROUND_DOWN_def ROUND_UP_def dacl_aces_def Sd_Revision_def Sd_Control_def Sd_Owner_def Sd_Dacl_def SepGetDaclFromDescriptor_def SepGetOwnerFromDescriptor_def
      RtlValidSid_def Sid_Revision_def SubAuthorityCount_def RtlLengthSid_def guarded_mem_def)

lemma guarded_grants:
  "dacl_grants guarded_mem g 100 (user_token xs) False 0 Mapping n \<longleftrightarrow> n = 0"
  "dacl_grants guarded_mem g 100 (user_token [\<lparr>sid_ptr = 30, sid_attributes = 7\<rparr>]) True 0 Mapping n \<longleftrightarrow> False"
proof -
  have sids: "SepGetSidFromAce guarded_mem 108 = 116" "rd16 guarded_mem 116 = 257" "rd16 guarded_mem 10 = 257" "rd16 guarded_mem 30 = 257"
    "SubAuthorityCount guarded_mem 116 = 1"
    by (simp_all add: SepGetSidFromAce_def AceType_def rd16_def SubAuthorityCount_def guarded_mem_def)
  have eq: "RtlEqualMemory guarded_mem 116 10 12" "\<not> RtlEqualMemory guarded_mem 116 30 12"
    by (simp_all add: RtlEqualMemory_def bytes_def guarded_mem_def upt_rec)
  have ace: "AceFlags guarded_mem 108 = 0" "AceType guarded_mem 108 = 0" "Ace_AccessMask guarded_mem 108 = 1"
    by (simp_all add: AceFlags_def AceType_def Ace_AccessMask_def rd32_def rd16_def guarded_mem_def)
  show "dacl_grants guarded_mem g 100 (user_token xs) False 0 Mapping n \<longleftrightarrow> n = 0"
    "dacl_grants guarded_mem g 100 (user_token [\<lparr>sid_ptr = 30, sid_attributes = 7\<rparr>]) True 0 Mapping n \<longleftrightarrow> False"
    by (auto simp: dacl_grants_def guarded_acl ace_verdict_def ace ace_access_def SepSidInTokenEx_def user_token_def sids eq bit_1_iff)
qed

theorem SepAnalyzeAcesFromDacl_first_match_witness:
  "\<exists>r. SepAnalyzeAcesFromDacl AccessCheckRegular 1 guarded_mem 100 guarded_sids (user_token []) False 0 file_mapping False (no_rights, []) = Some (r, []) \<and>
     RemainingAccessRights r = 0"
  using SepAnalyzeAcesFromDacl_first_match [OF guarded_acl(1), of 1 guarded_sids "user_token []" False 0 file_mapping False]
  by (auto simp: guarded_grants bit_1_iff)

end
