(* ===== verification/Se_Grant.thy ===== *)
theory Se_Grant
  imports Se_Decision
begin

text \<open>
  The access check of the kernel, \<^verbatim>\<open>SeAccessCheck\<close>: what it grants for a request of specific rights and
  for a request of the maximum, and how the two compare.
\<close>

section \<open>The kernel's access check\<close>

text \<open>
  Why a subject may have the right \<open>n\<close> on an object: by privilege, as the owner, or by the DACL.
  Access to the system ACL is only ever given by privilege.
\<close>

definition right_allowed :: "mem \<Rightarrow> SE_SIDS \<Rightarrow> nat \<Rightarrow> nat \<Rightarrow> TOKEN \<Rightarrow> GENERIC_MAPPING \<Rightarrow> nat \<Rightarrow> bool" where
  "right_allowed m g Sd Dacl Token Mapping n \<longleftrightarrow>
     (if n = 24 then may_use UserMode Token SeSecurityPrivilege
      else n = 19 \<and> may_use UserMode Token SeTakeOwnershipPrivilege \<or>
           (n = 17 \<or> n = 18) \<and> token_owns m Token Sd \<or> token_grants m g Dacl Token Mapping n)"

lemma bit_access_rights:
  "bit WRITE_DAC n \<longleftrightarrow> n = 18" "bit READ_CONTROL n \<longleftrightarrow> n = 17" "bit MAXIMUM_ALLOWED n \<longleftrightarrow> n = 25"
  using bit_exp_iff [of 18 n, where ?'a = "32 word"] bit_exp_iff [of 17 n, where ?'a = "32 word"]
    bit_exp_iff [of 25 n, where ?'a = "32 word"] by auto

lemma bit_owner_rights: "bit (WRITE_DAC OR READ_CONTROL) n \<longleftrightarrow> n = 17 \<or> n = 18"
  unfolding bit_or_iff bit_access_rights by blast

text \<open>The rights granted after the owner has got those that the owner always has.\<close>

definition owner_granted :: "mem \<Rightarrow> TOKEN \<Rightarrow> nat \<Rightarrow> ACCESS_MASK \<Rightarrow> ACCESS_MASK \<Rightarrow> ACCESS_MASK" where
  "owner_granted m Token Sd d prev =
     (if token_owns m Token Sd
      then prev OR (if bit d 25 then WRITE_DAC OR READ_CONTROL else d AND (WRITE_DAC OR READ_CONTROL)) else prev)"

lemma grant_owner_Some:
  assumes "SepGetOwnerFromDescriptor m Sd \<noteq> 0"
  shows "\<exists>d'. grant_owner m g T Sd d prev = Some (d', owner_granted m T Sd d prev) \<and>
    (\<forall>n. bit d' n \<longleftrightarrow> bit d n \<and> \<not> (token_owns m T Sd \<and> (n = 17 \<or> n = 18))) \<and>
    (\<forall>n. bit (owner_granted m T Sd d prev) n \<longleftrightarrow> bit prev n \<or> token_owns m T Sd \<and> (n = 17 \<or> n = 18) \<and> (bit d 25 \<or> bit d n))"
proof -
  have w: "d AND (WRITE_DAC OR READ_CONTROL OR MAXIMUM_ALLOWED) \<noteq> 0 \<longleftrightarrow> bit d 17 \<or> bit d 18 \<or> bit d 25"
    unfolding and_eq_0_iff bit_or_iff bit_access_rights by blast
  have mx: "d AND MAXIMUM_ALLOWED \<noteq> 0 \<longleftrightarrow> bit d 25" by (simp add: generic_flags)
  have len: "bit d n \<Longrightarrow> n < 32" for n using bit_imp_le_length [of d n] by simp
  obtain ow where ow: "ow = WRITE_DAC OR READ_CONTROL" by blast
  note b = bit_owner_rights [folded ow]
  have none: "d AND ow = 0" if "\<not> (bit d 17 \<or> bit d 18 \<or> bit d 25)" using that unfolding and_eq_0_iff b by blast
  have bits: "bit (d AND NOT ow) n \<longleftrightarrow> bit d n \<and> \<not> (n = 17 \<or> n = 18)"
    "bit (prev OR (if bit d 25 then ow else d AND ow)) n \<longleftrightarrow> bit prev n \<or> (n = 17 \<or> n = 18) \<and> (bit d 25 \<or> bit d n)" for n
    using len [of n] by (auto simp: bit_and_iff bit_not_iff bit_or_iff b)
  show ?thesis
    using assms none bits unfolding grant_owner_def owner_granted_def w mx ow [symmetric] SepTokenIsOwner_eq
    by (cases "bit d 17 \<or> bit d 18 \<or> bit d 25"; cases "token_owns m T Sd") auto
qed

lemma no_generic_bits: "a AND GENERIC_ACCESS = 0 \<longleftrightarrow> (\<forall>k. bit a k \<longrightarrow> k < 28)" for a :: ACCESS_MASK
proof -
  have "bit a k \<Longrightarrow> k < 32" for k using bit_imp_le_length [of a k] by simp
  then show ?thesis unfolding and_eq_0_iff bit_generic_access by (meson not_less)
qed

lemma SeAccessCheck_regular_eq:
  assumes "Sd \<noteq> 0" "ClientToken s = None \<or> SecurityImpersonation \<le> Subject_ImpersonationLevel s"
    and d: "d \<noteq> 0" "\<not> bit d 25" "d AND GENERIC_ACCESS = 0" "prev AND GENERIC_ACCESS = 0"
    and "protected_by m Sd Dacl" "some_mapping Mapping" "SepGetOwnerFromDescriptor m Sd \<noteq> 0" "T = SeQuerySubjectContextToken s"
  shows "\<exists>privs. SeAccessCheck m g True Sd s d prev Mapping UserMode =
    (if \<forall>n. bit d n \<longrightarrow> right_allowed m g Sd Dacl T Mapping n then Some (True, privs, Some (prev OR d), STATUS_SUCCESS)
     else if bit d 24 \<and> \<not> may_use UserMode T SeSecurityPrivilege
     then Some (False, privs, Some (owner_granted m T Sd d prev), STATUS_PRIVILEGE_NOT_HELD)
     else Some (False, privs, Some 0, STATUS_ACCESS_DENIED))"
proof -
  define prev' where "prev' = owner_granted m T Sd d prev"
  obtain d' where o: "grant_owner m g T Sd d prev = Some (d', prev')"
    "bit d' n \<longleftrightarrow> bit d n \<and> \<not> (token_owns m T Sd \<and> (n = 17 \<or> n = 18))"
    "bit prev' n \<longleftrightarrow> bit prev n \<or> token_owns m T Sd \<and> (n = 17 \<or> n = 18) \<and> (bit d 25 \<or> bit d n)" for n
    using grant_owner_Some [OF assms(9), of g T d prev] unfolding prev'_def by blast
  note b = o(2,3)
  have T: "T = (case ClientToken s of Some t \<Rightarrow> t | None \<Rightarrow> PrimaryToken s)"
    using assms(10) by (simp add: SeQuerySubjectContextToken_def)
  have gen: "d' AND GENERIC_ACCESS = 0" "prev' AND GENERIC_ACCESS = 0"
    using d(3,4) unfolding no_generic_bits b by auto
  have all: "prev' OR d' = prev OR d"
    by (rule bit_word_eqI) (use d(2) b in \<open>auto simp: bit_or_iff\<close>)
  have eq: "SeAccessCheck m g True Sd s d prev Mapping UserMode =
     (if d' = 0 then if prev' = 0 then Some (False, None, Some prev', STATUS_ACCESS_DENIED) else Some (True, None, Some prev', STATUS_SUCCESS)
      else (case SepAccessCheckWorker m g True Sd (ClientToken s) (PrimaryToken s) 0 d' [] prev' Mapping UserMode False True [0] [0] of
          None \<Rightarrow> None | Some (ret, Privileges, GrantedList, StatusList) \<Rightarrow> Some (ret, Privileges, Some (hd GrantedList), hd StatusList)))"
    using assms(1,2) o(1) unfolding SeAccessCheck_def T [symmetric] Let_def by auto
  show ?thesis
  proof (cases "d' = 0")
    case True
    then have "bit d n \<Longrightarrow> right_allowed m g Sd Dacl T Mapping n" for n using b(1) [of n] by (auto simp: right_allowed_def)
    moreover have "prev' = prev OR d" using all True by simp
    moreover have "prev OR d \<noteq> 0" using d(1) by (auto simp: or_eq_0_iff)
    ultimately show ?thesis using True by (simp add: eq)
  next
    case False
    define pm where "pm = policy_mask UserMode T d'"
    have bp: "bit pm n \<longleftrightarrow> n = 24 \<and> bit d 24 \<or> n = 19 \<and> bit d 19 \<and> may_use UserMode T SeTakeOwnershipPrivilege" for n
      by (auto simp: pm_def bit_policy_mask b)
    have rem: "bit (d' AND NOT pm) n \<longleftrightarrow> bit d' n \<and> \<not> bit pm n" for n
      using bit_imp_le_length [of d' n] by (auto simp: bit_and_iff bit_not_iff)
    have pm: "bit pm n \<Longrightarrow> bit d' n" for n using bp b(1) by auto
    have sub1: "prev' OR pm OR d' = prev OR d"
      unfolding all [symmetric] by (rule bit_word_eqI) (use pm in \<open>auto simp: bit_or_iff\<close>)
    have sub2: "prev' OR pm = prev OR d" if "d' AND NOT pm = 0"
      unfolding all [symmetric] by (rule bit_word_eqI) (use pm that rem in \<open>auto simp: bit_or_iff mask_eq_0_iff\<close>)
    have rights: "(\<forall>n. bit d n \<longrightarrow> right_allowed m g Sd Dacl T Mapping n) \<longleftrightarrow>
        (bit d 24 \<longrightarrow> may_use UserMode T SeSecurityPrivilege) \<and> (\<forall>n. bit (d' AND NOT pm) n \<longrightarrow> token_grants m g Dacl T Mapping n)"
    proof -
      have "(bit d n \<longrightarrow> right_allowed m g Sd Dacl T Mapping n) \<longleftrightarrow>
          (n = 24 \<longrightarrow> bit d 24 \<longrightarrow> may_use UserMode T SeSecurityPrivilege) \<and>
          (bit (d' AND NOT pm) n \<longrightarrow> token_grants m g Dacl T Mapping n)" for n
        unfolding rem right_allowed_def bp b(1) by (cases "n = 24"; cases "n = 19") auto
      then show ?thesis by blast
    qed
    obtain privs st G where w: "SepAccessCheckWorker m g True Sd (ClientToken s) (PrimaryToken s) 0 d' [] prev' Mapping UserMode False True [0] [0] =
        Some (NT_SUCCESS st, privs, [G], [st])"
      "if bit d 24 \<and> \<not> may_use UserMode T SeSecurityPrivilege then st = STATUS_PRIVILEGE_NOT_HELD \<and> G = prev'
       else if d' AND NOT pm = 0 then st = STATUS_SUCCESS \<and> G = prev' OR pm
       else worker_regular m g Dacl T 0 Mapping False (d' AND NOT pm) (prev' OR pm) d' [] = Some (st, G)"
      using worker_protected [OF False gen assms(7,8,1) T, of g 0 0, folded pm_def] d(2) b(1) by auto
    show ?thesis
    proof (cases "bit d 24 \<and> \<not> may_use UserMode T SeSecurityPrivilege")
      case True
      then show ?thesis using w False rights by (auto simp: eq prev'_def)
    next
      case held: False
      show ?thesis
      proof (cases "d' AND NOT pm = 0")
        case True
        then show ?thesis using w False held rights sub2 by (simp add: eq)
      next
        case rest: False
        have "prev OR d \<noteq> 0" using d(1) by (auto simp: or_eq_0_iff)
        then show ?thesis
          using w False held rest rights sub1 worker_regular_eq [of m Dacl "d' AND NOT pm" g T Mapping "prev' OR pm" d'] assms(7)
          by (auto simp: eq protected_by_def or.assoc split: if_splits)
      qed
    qed
  qed
qed

text \<open>
  The rights that the maximum analysis collects: for a restricted token the second pass adds to what
  the first pass has collected.
\<close>

definition maximum_grants :: "mem \<Rightarrow> SE_SIDS \<Rightarrow> nat \<Rightarrow> TOKEN \<Rightarrow> GENERIC_MAPPING \<Rightarrow> nat \<Rightarrow> bool" where
  "maximum_grants m g Dacl Token Mapping n \<longleftrightarrow> dacl_grants m g Dacl Token False 0 Mapping n \<or>
     SeTokenIsRestricted Token \<and> dacl_grants m g Dacl Token True 0 Mapping n \<and>
     first_verdict (ace_verdict m g Token False 0 Mapping n) (dacl_aces m Dacl) \<noteq> Some False"

lemma worker_maximum_eq:
  assumes "RtlValidAcl m Dacl" "Dacl \<noteq> 0"
  shows "\<exists>G. (\<forall>n. bit G n \<longleftrightarrow> maximum_grants m g Dacl Token Mapping n) \<and>
    worker_maximum m g Dacl Token 0 Mapping False Rem Prev Wanted Mask [] gl sl =
      Some \<lparr>CommonStatus = fst (maximum_result Rem Prev G), CommonGranted = snd (maximum_result Rem Prev G),
        GrantedAccessList = gl, AccessStatusList = sl\<rparr>"
proof -
  obtain r1 xs where f1: "fold (maximum_step m g Token False 0 Mapping False) (dacl_aces m Dacl) (no_rights, []) = (r1, xs)"
    by fastforce
  obtain r2 ys where f2: "fold (maximum_step m g Token True 0 Mapping False) (dacl_aces m Dacl) (r1, []) = (r2, ys)"
    by fastforce
  define r where "r = (if SeTokenIsRestricted Token then r2 else r1)"
  have b1: "xs = []" "bit (GrantedAccessRights r1) n \<longleftrightarrow> dacl_grants m g Dacl Token False 0 Mapping n"
    "bit (DeniedAccessRights r1) n \<longleftrightarrow> first_verdict (ace_verdict m g Token False 0 Mapping n) (dacl_aces m Dacl) = Some False" for n
    using maximum_fold [OF f1, of n] by (simp_all add: dacl_grants_def)
  have b2: "ys = []" "bit (GrantedAccessRights r2) n \<longleftrightarrow> dacl_grants m g Dacl Token False 0 Mapping n \<or>
      first_verdict (ace_verdict m g Token False 0 Mapping n) (dacl_aces m Dacl) \<noteq> Some False \<and> dacl_grants m g Dacl Token True 0 Mapping n" for n
    using maximum_fold [OF f2, of n] b1(2,3) [of n] by (auto simp: dacl_grants_def)
  have "worker_maximum m g Dacl Token 0 Mapping False Rem Prev Wanted Mask [] gl sl =
      Some \<lparr>CommonStatus = fst (maximum_result Rem Prev (GrantedAccessRights r)),
        CommonGranted = snd (maximum_result Rem Prev (GrantedAccessRights r)), GrantedAccessList = gl, AccessStatusList = sl\<rparr>"
    using f1 f2 b1(1) b2(1)
    by (simp add: worker_maximum_def SepAnalyzeAcesFromDacl_Maximum [OF assms] Let_def r_def split: prod.split)
  moreover have "bit (GrantedAccessRights r) n \<longleftrightarrow> maximum_grants m g Dacl Token Mapping n" for n
    using b1(2) [of n] b2(2) [of n] by (auto simp: maximum_grants_def r_def)
  ultimately show ?thesis by blast
qed

lemma maximum_result_eq:
  assumes "\<And>n. bit G n \<longleftrightarrow> P n" "\<And>n. bit G' n \<longleftrightarrow> bit Prev n \<or> P n"
  shows "maximum_result Rem Prev G =
    (if (\<forall>n. bit Rem n \<and> n \<noteq> 25 \<longrightarrow> P n) \<and> G' \<noteq> 0 then (STATUS_SUCCESS, G') else (STATUS_ACCESS_DENIED, 0))"
proof -
  have G': "Prev OR G = G'" by (rule bit_word_eqI) (simp add: bit_or_iff assms)
  have "Rem AND NOT (MAXIMUM_ALLOWED OR G) = 0 \<longleftrightarrow> (\<forall>n. bit Rem n \<and> n \<noteq> 25 \<longrightarrow> P n)"
  proof -
    have "bit (Rem AND NOT (MAXIMUM_ALLOWED OR G)) n \<longleftrightarrow> bit Rem n \<and> \<not> (n = 25 \<or> P n)" for n
      using bit_imp_le_length [of Rem n] unfolding bit_and_iff bit_not_iff bit_or_iff bit_access_rights assms(1) by auto
    then show ?thesis unfolding mask_eq_0_iff by blast
  qed
  then show ?thesis unfolding maximum_result_def Let_def G' by auto
qed

text \<open>
  C1.  \<^verbatim>\<open>SeAccessCheck\<close> from user mode, for an object with an owner and a valid DACL that has ACEs, a request for
  specific rights, a mapping that is not empty, a subject whose impersonation level suffices and with
  memory for a privilege set: access is granted exactly when every right asked for is
  allowed by a privilege, by ownership or by the first applicable ACE of the DACL, for a restricted
  token also with its restricted SIDs; then the rights asked for are granted besides those granted
  before.  Otherwise the status is \<^verbatim>\<open>STATUS_PRIVILEGE_NOT_HELD\<close> when the right to the system ACL is wanted
  without the privilege, and else \<^verbatim>\<open>STATUS_ACCESS_DENIED\<close> with no right granted.
\<close>

theorem SeAccessCheck_regular:
  assumes "Sd \<noteq> 0" "ClientToken s = None \<or> SecurityImpersonation \<le> Subject_ImpersonationLevel s"
    and d: "d \<noteq> 0" "\<not> bit d 25" "d AND GENERIC_ACCESS = 0" "prev AND GENERIC_ACCESS = 0"
    and "protected_by m Sd Dacl" "some_mapping Mapping" "SepGetOwnerFromDescriptor m Sd \<noteq> 0" "T = SeQuerySubjectContextToken s"
  shows "\<exists>privs. SeAccessCheck m g True Sd s d prev Mapping UserMode =
    (if \<forall>n. bit d n \<longrightarrow> right_allowed m g Sd Dacl T Mapping n then Some (True, privs, Some (prev OR d), STATUS_SUCCESS)
     else if bit d 24 \<and> \<not> may_use UserMode T SeSecurityPrivilege
     then Some (False, privs, Some (owner_granted m T Sd d prev), STATUS_PRIVILEGE_NOT_HELD)
     else Some (False, privs, Some 0, STATUS_ACCESS_DENIED))"
  using SeAccessCheck_regular_eq [OF assms] .

text \<open>Why a request for the maximum gets the right \<open>n\<close>.\<close>

definition maximum_right :: "mem \<Rightarrow> SE_SIDS \<Rightarrow> nat \<Rightarrow> nat \<Rightarrow> TOKEN \<Rightarrow> GENERIC_MAPPING \<Rightarrow> ACCESS_MASK \<Rightarrow> nat \<Rightarrow> bool" where
  "maximum_right m g Sd Dacl Token Mapping d n \<longleftrightarrow> n = 24 \<and> bit d 24 \<or>
     n = 19 \<and> bit d 19 \<and> may_use UserMode Token SeTakeOwnershipPrivilege \<or>
     (n = 17 \<or> n = 18) \<and> token_owns m Token Sd \<or> maximum_grants m g Dacl Token Mapping n"

lemma SeAccessCheck_maximum_eq:
  assumes "Sd \<noteq> 0" "ClientToken s = None \<or> SecurityImpersonation \<le> Subject_ImpersonationLevel s"
    and d: "bit d 25" "d AND GENERIC_ACCESS = 0" "prev AND GENERIC_ACCESS = 0"
    and "protected_by m Sd Dacl" "some_mapping Mapping" "SepGetOwnerFromDescriptor m Sd \<noteq> 0" "T = SeQuerySubjectContextToken s"
  shows "\<exists>privs G. (\<forall>n. bit G n \<longleftrightarrow> bit prev n \<or> maximum_right m g Sd Dacl T Mapping d n) \<and>
    SeAccessCheck m g True Sd s d prev Mapping UserMode =
    (if bit d 24 \<and> \<not> may_use UserMode T SeSecurityPrivilege
     then Some (False, privs, Some (owner_granted m T Sd d prev), STATUS_PRIVILEGE_NOT_HELD)
     else if (\<forall>n. bit d n \<and> n \<noteq> 25 \<longrightarrow> maximum_right m g Sd Dacl T Mapping d n) \<and> G \<noteq> 0
     then Some (True, privs, Some G, STATUS_SUCCESS)
     else Some (False, privs, Some 0, STATUS_ACCESS_DENIED))"
proof -
  define prev' where "prev' = owner_granted m T Sd d prev"
  obtain d' where o: "grant_owner m g T Sd d prev = Some (d', prev')"
    "bit d' n \<longleftrightarrow> bit d n \<and> \<not> (token_owns m T Sd \<and> (n = 17 \<or> n = 18))"
    "bit prev' n \<longleftrightarrow> bit prev n \<or> token_owns m T Sd \<and> (n = 17 \<or> n = 18) \<and> (bit d 25 \<or> bit d n)" for n
    using grant_owner_Some [OF assms(8), of g T d prev] unfolding prev'_def by blast
  note b = o(2,3)
  have T: "T = (case ClientToken s of Some t \<Rightarrow> t | None \<Rightarrow> PrimaryToken s)"
    using assms(9) by (simp add: SeQuerySubjectContextToken_def)
  have gen: "d' AND GENERIC_ACCESS = 0" "prev' AND GENERIC_ACCESS = 0"
    using d(2,3) unfolding no_generic_bits b by auto
  have d25: "bit d' 25" using d(1) b(1) by simp
  then have d': "d' \<noteq> 0" by auto
  define pm where "pm = policy_mask UserMode T d'"
  have bp: "bit pm n \<longleftrightarrow> n = 24 \<and> bit d 24 \<or> n = 19 \<and> bit d 19 \<and> may_use UserMode T SeTakeOwnershipPrivilege" for n
    by (auto simp: pm_def bit_policy_mask b)
  have rem: "bit (d' AND NOT pm) n \<longleftrightarrow> bit d' n \<and> \<not> bit pm n" for n
    using bit_imp_le_length [of d' n] by (auto simp: bit_and_iff bit_not_iff)
  have rem0: "d' AND NOT pm \<noteq> 0" using rem [of 25] d25 bp [of 25] by auto
  obtain privs st G0 where w: "SepAccessCheckWorker m g True Sd (ClientToken s) (PrimaryToken s) 0 d' [] prev' Mapping UserMode False True [0] [0] =
      Some (NT_SUCCESS st, privs, [G0], [st])"
    "if bit d 24 \<and> \<not> may_use UserMode T SeSecurityPrivilege then st = STATUS_PRIVILEGE_NOT_HELD \<and> G0 = prev'
     else \<exists>r. worker_maximum m g Dacl T 0 Mapping False (d' AND NOT pm) (prev' OR pm)
       ((d' OR prev') AND NOT MAXIMUM_ALLOWED) (NOT MAXIMUM_ALLOWED) [] [0] [0] = Some r \<and> st = CommonStatus r \<and> G0 = CommonGranted r"
    using worker_protected [OF d' gen assms(6,7,1) T, of g 0 0, folded pm_def] b(1) [of 24]
    unfolding if_P [OF d25] if_not_P [OF rem0] by auto
  obtain Gd where Gd: "\<And>n. bit Gd n \<longleftrightarrow> maximum_grants m g Dacl T Mapping n"
    "worker_maximum m g Dacl T 0 Mapping False (d' AND NOT pm) (prev' OR pm)
       ((d' OR prev') AND NOT MAXIMUM_ALLOWED) (NOT MAXIMUM_ALLOWED) [] [0] [0] =
      Some \<lparr>CommonStatus = fst (maximum_result (d' AND NOT pm) (prev' OR pm) Gd),
        CommonGranted = snd (maximum_result (d' AND NOT pm) (prev' OR pm) Gd), GrantedAccessList = [0], AccessStatusList = [0]\<rparr>"
    using worker_maximum_eq [of m Dacl g T Mapping] assms(6) unfolding protected_by_def by blast
  define G where "G = (prev' OR pm) OR Gd"
  have G: "bit G n \<longleftrightarrow> bit prev n \<or> maximum_right m g Sd Dacl T Mapping d n" for n
    unfolding G_def bit_or_iff bp b(2) Gd(1) maximum_right_def using d(1) by blast
  have res: "maximum_result (d' AND NOT pm) (prev' OR pm) Gd =
      (if (\<forall>n. bit (d' AND NOT pm) n \<and> n \<noteq> 25 \<longrightarrow> maximum_grants m g Dacl T Mapping n) \<and> G \<noteq> 0
       then (STATUS_SUCCESS, G) else (STATUS_ACCESS_DENIED, 0))"
    by (rule maximum_result_eq [OF Gd(1)]) (simp add: G_def bit_or_iff Gd(1))
  have "(bit (d' AND NOT pm) n \<and> n \<noteq> 25 \<longrightarrow> maximum_grants m g Dacl T Mapping n) \<longleftrightarrow>
      (bit d n \<and> n \<noteq> 25 \<longrightarrow> maximum_right m g Sd Dacl T Mapping d n)" for n
    unfolding rem bp b(1) maximum_right_def by (cases "n = 24"; cases "n = 19") auto
  then have rights: "(\<forall>n. bit (d' AND NOT pm) n \<and> n \<noteq> 25 \<longrightarrow> maximum_grants m g Dacl T Mapping n) \<longleftrightarrow>
      (\<forall>n. bit d n \<and> n \<noteq> 25 \<longrightarrow> maximum_right m g Sd Dacl T Mapping d n)" by blast
  have eq: "SeAccessCheck m g True Sd s d prev Mapping UserMode = Some (NT_SUCCESS st, privs, Some G0, st)"
    using assms(1,2) o(1) d' w(1) unfolding SeAccessCheck_def T [symmetric] Let_def by auto
  have st: "(st, G0) = (if bit d 24 \<and> \<not> may_use UserMode T SeSecurityPrivilege then (STATUS_PRIVILEGE_NOT_HELD, prev')
      else maximum_result (d' AND NOT pm) (prev' OR pm) Gd)"
    using w(2) Gd(2) by (cases "bit d 24 \<and> \<not> may_use UserMode T SeSecurityPrivilege") auto
  show ?thesis
    using G st unfolding res rights
    by (intro exI [of _ privs] exI [of _ G]) (auto simp: eq prev'_def split: if_splits)
qed

lemma SeAccessCheck_maximum_only:
  assumes "Sd \<noteq> 0" "ClientToken s = None \<or> SecurityImpersonation \<le> Subject_ImpersonationLevel s"
    and "protected_by m Sd Dacl" "some_mapping Mapping" "SepGetOwnerFromDescriptor m Sd \<noteq> 0" "T = SeQuerySubjectContextToken s"
  shows "\<exists>privs G. (\<forall>n. bit G n \<longleftrightarrow> maximum_right m g Sd Dacl T Mapping MAXIMUM_ALLOWED n) \<and>
    SeAccessCheck m g True Sd s MAXIMUM_ALLOWED 0 Mapping UserMode =
      (if G \<noteq> 0 then Some (True, privs, Some G, STATUS_SUCCESS) else Some (False, privs, Some 0, STATUS_ACCESS_DENIED))"
proof -
  have mx: "bit MAXIMUM_ALLOWED 25" "\<not> bit MAXIMUM_ALLOWED 24" "MAXIMUM_ALLOWED AND GENERIC_ACCESS = 0" "0 AND GENERIC_ACCESS = 0"
    by simp_all
  have one: "(\<forall>n. bit MAXIMUM_ALLOWED n \<and> n \<noteq> 25 \<longrightarrow> P n) \<longleftrightarrow> True" for P unfolding bit_access_rights by blast
  show ?thesis
    using SeAccessCheck_maximum_eq [OF assms(1,2) mx(1,3,4) assms(3-6), of g]
    unfolding one bit_0_eq bot_apply bot_bool_def using mx(2) by (simp only: simp_thms if_False)
qed

text \<open>
  C3.  A request for \<^verbatim>\<open>MAXIMUM_ALLOWED\<close> and a request for specific rights agree on a token that is not
  restricted, for an object with an owner and a DACL: specific rights other than \<^verbatim>\<open>WRITE_OWNER\<close> and access to the system ACL, which privileges
  may give, are granted exactly when the request for the maximum succeeds and its result holds all of
  them.
\<close>

theorem SeAccessCheck_maximum_consistent:
  assumes "Sd \<noteq> 0" "ClientToken s = None \<or> SecurityImpersonation \<le> Subject_ImpersonationLevel s"
    and "protected_by m Sd Dacl" "some_mapping Mapping" "SepGetOwnerFromDescriptor m Sd \<noteq> 0" "T = SeQuerySubjectContextToken s" "\<not> SeTokenIsRestricted T"
    and "d \<noteq> 0" "d AND GENERIC_ACCESS = 0" "\<not> bit d 19" "\<not> bit d 24" "\<not> bit d 25"
    and "SeAccessCheck m g True Sd s MAXIMUM_ALLOWED 0 Mapping UserMode = Some (ok, privs, Some G, st)"
  shows "(\<exists>privs. SeAccessCheck m g True Sd s d 0 Mapping UserMode = Some (True, privs, Some d, STATUS_SUCCESS)) \<longleftrightarrow>
    ok \<and> (\<forall>n. bit d n \<longrightarrow> bit G n)"
proof -
  have mx: "\<not> bit MAXIMUM_ALLOWED 24" "\<not> bit MAXIMUM_ALLOWED 19" by simp_all
  have eq: "maximum_right m g Sd Dacl T Mapping MAXIMUM_ALLOWED n \<longleftrightarrow> right_allowed m g Sd Dacl T Mapping n"
    if "n \<noteq> 19" "n \<noteq> 24" for n
    using that assms(7) by (simp add: maximum_right_def right_allowed_def maximum_grants_def token_grants_def)
  obtain privs' G' where G': "\<And>n. bit G' n \<longleftrightarrow> maximum_right m g Sd Dacl T Mapping MAXIMUM_ALLOWED n"
    "SeAccessCheck m g True Sd s MAXIMUM_ALLOWED 0 Mapping UserMode =
      (if G' \<noteq> 0 then Some (True, privs', Some G', STATUS_SUCCESS) else Some (False, privs', Some 0, STATUS_ACCESS_DENIED))"
    using SeAccessCheck_maximum_only [OF assms(1-6)] by blast
  have max: "ok \<longleftrightarrow> G' \<noteq> 0" "ok \<Longrightarrow> G = G'" "\<not> ok \<Longrightarrow> G = 0" using assms(13) G'(2) by (auto split: if_splits)
  have "(\<forall>n. bit d n \<longrightarrow> right_allowed m g Sd Dacl T Mapping n) \<longleftrightarrow> (\<forall>n. bit d n \<longrightarrow> bit G' n)"
    using eq G'(1) assms(10,11) by metis
  moreover have "\<exists>n. bit d n" using assms(8) mask_eq_0_iff by blast
  ultimately have "(\<forall>n. bit d n \<longrightarrow> right_allowed m g Sd Dacl T Mapping n) \<longleftrightarrow> ok \<and> (\<forall>n. bit d n \<longrightarrow> bit G n)"
    using max by (metis bit_0_eq bot_apply bot_bool_def)
  then show ?thesis
    using SeAccessCheck_regular_eq [OF assms(1,2,8,12,9) _ assms(3-6), of 0 g] by (auto split: if_splits)
qed

text \<open>
  C40.  For a restricted token, under the same conditions on object, mapping and subject, they disagree: a right that the DACL grants to the SIDs of the token but not
  to its restricted SIDs is part of the maximum, although a request for this right is denied.
\<close>

theorem SeAccessCheck_maximum_restricted:
  assumes "Sd \<noteq> 0" "ClientToken s = None \<or> SecurityImpersonation \<le> Subject_ImpersonationLevel s"
    and "protected_by m Sd Dacl" "some_mapping Mapping" "SepGetOwnerFromDescriptor m Sd \<noteq> 0" "T = SeQuerySubjectContextToken s" "SeTokenIsRestricted T"
    and "dacl_grants m g Dacl T False 0 Mapping n" "\<not> dacl_grants m g Dacl T True 0 Mapping n" "n < 17"
  shows "\<exists>privs G privs'. bit G n \<and>
    SeAccessCheck m g True Sd s MAXIMUM_ALLOWED 0 Mapping UserMode = Some (True, privs, Some G, STATUS_SUCCESS) \<and>
    SeAccessCheck m g True Sd s (2 ^ n) 0 Mapping UserMode = Some (False, privs', Some 0, STATUS_ACCESS_DENIED)"
proof -
  obtain privs G where G: "\<And>k. bit G k \<longleftrightarrow> maximum_right m g Sd Dacl T Mapping MAXIMUM_ALLOWED k"
    "SeAccessCheck m g True Sd s MAXIMUM_ALLOWED 0 Mapping UserMode =
      (if G \<noteq> 0 then Some (True, privs, Some G, STATUS_SUCCESS) else Some (False, privs, Some 0, STATUS_ACCESS_DENIED))"
    using SeAccessCheck_maximum_only [OF assms(1-6)] by blast
  have b: "bit (2 ^ n :: ACCESS_MASK) k \<longleftrightarrow> k = n" for k using assms(10) by (auto simp: bit_exp_iff)
  then have d: "2 ^ n \<noteq> (0 :: ACCESS_MASK)" "\<not> bit (2 ^ n :: ACCESS_MASK) 25" "\<not> bit (2 ^ n :: ACCESS_MASK) 24"
    using assms(10) by (auto simp: mask_eq_0_iff)
  have gen: "(2 ^ n :: ACCESS_MASK) AND GENERIC_ACCESS = 0"
    using assms(10) unfolding no_generic_bits b by simp
  have "bit G n" using G(1) [of n] assms(8) by (simp add: maximum_right_def maximum_grants_def)
  moreover have "\<not> right_allowed m g Sd Dacl T Mapping n"
    using assms(7,9,10) by (simp add: right_allowed_def token_grants_def)
  ultimately show ?thesis
    using G(2) SeAccessCheck_regular_eq [OF assms(1,2) d(1,2) gen _ assms(3-6), of 0 g] b d(3) by auto
qed

section \<open>Witnesses\<close>

definition user_subject :: "SID_AND_ATTRIBUTES list \<Rightarrow> SECURITY_SUBJECT_CONTEXT" where
  "user_subject restricted =
     \<lparr>ClientToken = None, Subject_ImpersonationLevel = SecurityAnonymous, PrimaryToken = user_token restricted, ProcessAuditId = 4\<rparr>"

lemma user_subject_token: "SeQuerySubjectContextToken (user_subject xs) = user_token xs" "ClientToken (user_subject xs) = None"
  by (simp_all add: SeQuerySubjectContextToken_def user_subject_def)

lemma some_file_mapping: "some_mapping file_mapping"
  by (simp add: some_mapping_def file_mapping_def)

lemma user_token_restricted: "SeTokenIsRestricted (user_token xs) \<longleftrightarrow> xs \<noteq> []"
  by (simp add: SeTokenIsRestricted_def user_token_def)

theorem SeAccessCheck_regular_witness:
  "\<exists>privs. SeAccessCheck guarded_mem guarded_sids True 500 (user_subject []) 1 0 file_mapping UserMode =
     Some (True, privs, Some 1, STATUS_SUCCESS)"
  using SeAccessCheck_regular [of 500 "user_subject []" 1 0 guarded_mem 100 file_mapping "user_token []" guarded_sids]
  by (simp add: user_subject_token guarded_acl some_file_mapping right_allowed_def token_grants_def guarded_grants
      user_token_restricted bit_1_iff)

theorem SeAccessCheck_maximum_consistent_witness:
  "\<exists>privs. SeAccessCheck guarded_mem guarded_sids True 500 (user_subject []) 1 0 file_mapping UserMode =
     Some (True, privs, Some 1, STATUS_SUCCESS)"
proof -
  obtain privs G where G: "\<And>n. bit G n \<longleftrightarrow> maximum_right guarded_mem guarded_sids 500 100 (user_token []) file_mapping MAXIMUM_ALLOWED n"
    "SeAccessCheck guarded_mem guarded_sids True 500 (user_subject []) MAXIMUM_ALLOWED 0 file_mapping UserMode =
      (if G \<noteq> 0 then Some (True, privs, Some G, STATUS_SUCCESS) else Some (False, privs, Some 0, STATUS_ACCESS_DENIED))"
    using SeAccessCheck_maximum_only [of 500 "user_subject []" guarded_mem 100 file_mapping "user_token []" guarded_sids]
    by (auto simp: user_subject_token guarded_acl some_file_mapping)
  have "bit G 0" using G(1) [of 0] by (simp add: maximum_right_def maximum_grants_def guarded_grants)
  then have "G \<noteq> 0" by auto
  then show ?thesis
    using SeAccessCheck_maximum_consistent [of 500 "user_subject []" guarded_mem 100 file_mapping "user_token []" 1 guarded_sids True privs G]
      G(2) \<open>bit G 0\<close>
    by (simp add: user_subject_token guarded_acl some_file_mapping user_token_restricted bit_1_iff)
qed

theorem SeAccessCheck_maximum_restricted_witness:
  "\<exists>privs G privs'. bit G 0 \<and>
    SeAccessCheck guarded_mem guarded_sids True 500 (user_subject [\<lparr>sid_ptr = 30, sid_attributes = 7\<rparr>]) MAXIMUM_ALLOWED 0 file_mapping UserMode =
      Some (True, privs, Some G, STATUS_SUCCESS) \<and>
    SeAccessCheck guarded_mem guarded_sids True 500 (user_subject [\<lparr>sid_ptr = 30, sid_attributes = 7\<rparr>]) 1 0 file_mapping UserMode =
      Some (False, privs', Some 0, STATUS_ACCESS_DENIED)"
  using SeAccessCheck_maximum_restricted [of 500 "user_subject [\<lparr>sid_ptr = 30, sid_attributes = 7\<rparr>]" guarded_mem 100 file_mapping
      "user_token [\<lparr>sid_ptr = 30, sid_attributes = 7\<rparr>]" guarded_sids 0]
  by (simp add: user_subject_token guarded_acl some_file_mapping guarded_grants user_token_restricted)

end
