(* ===== verification/Se_Traverse.thy ===== *)
theory Se_Traverse
  imports Se_Grant
begin

text \<open>
  \<^verbatim>\<open>SeFastTraverseCheck\<close>, the shortcut that looks for an ACE for everyone, against the full check.
\<close>

text \<open>A plain ACE allows or denies specific rights to a SID.\<close>

definition plain_ace :: "mem \<Rightarrow> nat \<Rightarrow> bool" where
  "plain_ace m Ace \<longleftrightarrow> (AceType m Ace = ACCESS_ALLOWED_ACE_TYPE \<or> AceType m Ace = ACCESS_DENIED_ACE_TYPE) \<and>
     Ace_AccessMask m Ace AND GENERIC_ACCESS = 0"

lemma ace_ptrs_Suc:
  "map (ace_ptr m Ace) [0..<Suc n] = Ace # map (ace_ptr m (Ace + unat (AceSize m Ace))) [0..<n]"
  by (simp add: upt_conv_Cons map_Suc_upt [symmetric] del: upt_Suc)

lemma traverse_loop_first_match:
  assumes "traverse_loop m g d Ace n" "\<And>k. bit d k \<longleftrightarrow> k = b"
    and "\<forall>Ace \<in> set (map (ace_ptr m Ace) [0..<n]). plain_ace m Ace" "SepSidInToken m g Token (SeWorldSid g)"
  shows "first_verdict (ace_verdict m g Token False 0 Mapping b) (map (ace_ptr m Ace) [0..<n]) = Some True"
  using assms(1,3)
proof (induction n arbitrary: Ace)
  case (Suc n)
  have and0: "x AND d = 0 \<longleftrightarrow> \<not> bit x b" for x :: ACCESS_MASK
    unfolding and_eq_0_iff assms(2) by blast
  have plain: "plain_ace m Ace" using Suc.prems(2) unfolding ace_ptrs_Suc by simp
  then have v: "ace_verdict m g Token False 0 Mapping b Ace =
      (if AceFlags m Ace AND INHERIT_ONLY \<noteq> 0 \<or> Ace_AccessMask m Ace AND d = 0 then None
       else if AceType m Ace = ACCESS_DENIED_ACE_TYPE
       then if SepSidInTokenEx m g Token 0 (Ace + 8) True False then Some False else None
       else if SepSidInTokenEx m g Token 0 (Ace + 8) False False then Some True else None)"
    unfolding and0 by (auto simp: ace_verdict_def plain_ace_def ace_access_def SepGetSidFromAce_def)
  have "unat (RtlLengthSid m (SeWorldSid g)) = 8 + 4 * unat (SubAuthorityCount m (SeWorldSid g))"
    by (simp add: unat_RtlLengthSid sid_len_def)
  then have world: "SepSidInTokenEx m g Token 0 (Ace + 8) False False" if "RtlEqualSid m (SeWorldSid g) (Ace + 8)"
    using that assms(4) same_sid_iff [of m "Ace + 8" "SeWorldSid g"]
    by (auto simp: SepSidInToken_def SepSidInTokenEx_def Let_def sid_in_token_loop_eq RtlEqualSid_def split: if_splits)
  show ?case
    using Suc.prems Suc.IH [of "Ace + unat (AceSize m Ace)"] world plain unfolding ace_ptrs_Suc
    by (auto simp: v Let_def plain_ace_def split: if_splits)
qed simp

text \<open>
  C39.  On an object with an owner and a DACL of plain ACEs, at least one, and for a single specific right,
  \<^verbatim>\<open>SeFastTraverseCheck\<close> is a sound shortcut: when it allows the access from user mode, for a token that is
  not restricted and belongs to everyone, the full check with a mapping that is not empty grants it as
  well.
\<close>

theorem SeFastTraverseCheck_sound:
  assumes "SeFastTraverseCheck m g Sd state (2 ^ n) UserMode = Some True" "n < 17" "protected_by m Sd Dacl" "some_mapping Mapping"
    and "SepGetOwnerFromDescriptor m Sd \<noteq> 0"
    and "\<forall>Ace \<in> set (dacl_aces m Dacl). plain_ace m Ace"
    and "ClientToken s = None \<or> SecurityImpersonation \<le> Subject_ImpersonationLevel s"
    and "T = SeQuerySubjectContextToken s" "SepSidInToken m g T (SeWorldSid g)" "\<not> SeTokenIsRestricted T"
  shows "\<exists>privs. SeAccessCheck m g True Sd s (2 ^ n) 0 Mapping UserMode = Some (True, privs, Some (2 ^ n), STATUS_SUCCESS)"
proof -
  have b: "bit (2 ^ n :: ACCESS_MASK) k \<longleftrightarrow> k = n" for k using assms(2) by (auto simp: bit_exp_iff)
  then have d: "2 ^ n \<noteq> (0 :: ACCESS_MASK)" "\<not> bit (2 ^ n :: ACCESS_MASK) 25"
    using assms(2) by (auto simp: mask_eq_0_iff)
  have gen: "(2 ^ n :: ACCESS_MASK) AND GENERIC_ACCESS = 0" using assms(2) unfolding no_generic_bits b by simp
  have Sd: "Sd \<noteq> 0" using assms(1) by (auto simp: SeFastTraverseCheck_def split: if_splits)
  have "traverse_loop m g (2 ^ n) (Dacl + 8) (unat (AceCount m Dacl))"
    using assms(1,3) by (auto simp: SeFastTraverseCheck_def protected_by_def Let_def split: if_splits)
  from traverse_loop_first_match [OF this b assms(6) [unfolded dacl_aces_def] assms(9)]
  have "right_allowed m g Sd Dacl T Mapping n"
    using assms(2,10) by (simp add: right_allowed_def token_grants_def dacl_grants_def dacl_aces_def)
  then show ?thesis
    using SeAccessCheck_regular_eq [OF Sd assms(7) d gen _ assms(3,4,5,8), of 0 g] b by auto
qed

text \<open>
  For several rights it is not: one of them is enough for the fast check.  Here the DACL allows the
  right 0 to everyone, and the rights 0 and 1 are asked for.
\<close>

definition everyone_sids :: SE_SIDS where
  "everyone_sids = \<lparr>SePrincipalSelfSid = 30, SeWorldSid = 10\<rparr>"

lemma fast_check_guarded:
  assumes "State_Flags state = 0" "bit d 0"
  shows "SeFastTraverseCheck guarded_mem everyone_sids 500 state d UserMode = Some True"
proof -
  have "AceSize guarded_mem 108 = 20" "AceFlags guarded_mem 108 = 0" "AceType guarded_mem 108 = 0" "Ace_AccessMask guarded_mem 108 = 1"
    "AceCount guarded_mem 100 = 1" "SepGetDaclFromDescriptor guarded_mem 500 = 100"
    by (simp_all add: AceSize_def AceFlags_def AceType_def Ace_AccessMask_def AceCount_def rd32_def rd16_def guarded_mem_def
        SepGetDaclFromDescriptor_def Sd_Control_def Sd_Dacl_def)
  moreover have "RtlEqualSid guarded_mem 10 116"
    by (simp add: RtlEqualSid_def RtlEqualMemory_def RtlLengthSid_def SubAuthorityCount_def rd16_def bytes_def guarded_mem_def upt_rec)
  moreover have "1 AND d \<noteq> 0" using assms(2) by (simp add: one_and_eq odd_iff_mod_2_eq_one [symmetric] bit_0)
  ultimately show ?thesis
    using assms(1) by (simp add: SeFastTraverseCheck_def everyone_sids_def)
qed

lemma SeFastTraverseCheck_any_right:
  assumes "State_Flags state = 0"
  shows "SeFastTraverseCheck guarded_mem everyone_sids 500 state 3 UserMode = Some True \<and>
    (\<exists>privs. SeAccessCheck guarded_mem everyone_sids True 500 (user_subject []) 3 0 file_mapping UserMode =
      Some (False, privs, Some 0, STATUS_ACCESS_DENIED))"
proof
  show "SeFastTraverseCheck guarded_mem everyone_sids 500 state 3 UserMode = Some True" using fast_check_guarded [OF assms] by simp
  have "\<not> right_allowed guarded_mem everyone_sids 500 100 (user_token []) file_mapping 1"
    by (simp add: right_allowed_def token_grants_def guarded_grants)
  moreover have "bit (3 :: ACCESS_MASK) 1" "\<not> bit (3 :: ACCESS_MASK) 25" "\<not> bit (3 :: ACCESS_MASK) 24" by simp_all
  ultimately show "\<exists>privs. SeAccessCheck guarded_mem everyone_sids True 500 (user_subject []) 3 0 file_mapping UserMode =
      Some (False, privs, Some 0, STATUS_ACCESS_DENIED)"
    using SeAccessCheck_regular_eq [of 500 "user_subject []" 3 0 guarded_mem 100 file_mapping "user_token []" everyone_sids]
    by (auto simp: user_subject_token guarded_acl some_file_mapping split: if_splits)
qed

theorem SeFastTraverseCheck_sound_witness:
  "\<exists>privs. SeAccessCheck guarded_mem everyone_sids True 500 (user_subject []) 1 0 file_mapping UserMode =
     Some (True, privs, Some 1, STATUS_SUCCESS)"
proof -
  have "SeFastTraverseCheck guarded_mem everyone_sids 500 (zero_state (user_token [])) (2 ^ 0) UserMode = Some True"
    by (rule fast_check_guarded) (simp_all add: zero_state_def bit_1_iff)
  moreover have "\<forall>Ace \<in> set (dacl_aces guarded_mem 100). plain_ace guarded_mem Ace"
    unfolding guarded_acl(2)
    by (simp add: plain_ace_def AceType_def Ace_AccessMask_def rd32_def rd16_def guarded_mem_def)
  moreover have "SepSidInToken guarded_mem everyone_sids (user_token []) (SeWorldSid everyone_sids)"
    by (simp add: SepSidInToken_def SepSidInTokenEx_def user_token_def RtlEqualMemory_def everyone_sids_def)
  moreover have "\<not> SeTokenIsRestricted (user_token [])" "(0 :: nat) < 17" by (simp_all add: user_token_restricted)
  ultimately show ?thesis
    using SeFastTraverseCheck_sound [OF _ _ guarded_acl(3) some_file_mapping _ _ _ user_subject_token(1) [symmetric], of everyone_sids _ 0]
      user_subject_token(2) guarded_acl(4)
    unfolding power_0 by fastforce
qed

end
