(* ===== verification/Rtl_Time.thy ===== *)
theory Rtl_Time
  imports Ros_Prelude "HOL-Library.Signed_Division"
begin

text \<open>
  Conversion between the time of the system, a count of 100 ns ticks since 1601, and calendar
  fields: \<^verbatim>\<open>sdk/lib/rtl/time.c\<close>.

  A \<^verbatim>\<open>LARGE_INTEGER\<close> is a word of 64 bits and a \<^verbatim>\<open>CSHORT\<close> one of 16 bits, read by \<open>sint\<close> where the code
  is signed.  Overflow of the 64-bit arithmetic wraps around.
\<close>

section \<open>Definitions\<close>

type_synonym CSHORT = "16 word"
type_synonym LARGE_INTEGER = "64 word"

abbreviation (input) TICKSPERSEC :: int where "TICKSPERSEC \<equiv> 10000000"
abbreviation (input) TICKSPERMSEC :: int where "TICKSPERMSEC \<equiv> 10000"
abbreviation (input) TICKSTO1970 :: LARGE_INTEGER where "TICKSTO1970 \<equiv> 0x019db1ded53e8000"
abbreviation (input) TICKSTO1980 :: LARGE_INTEGER where "TICKSTO1980 \<equiv> 0x01a8e79fe1d58000"

record TIME_FIELDS =
  Year :: CSHORT
  Month :: CSHORT
  Day :: CSHORT
  Hour :: CSHORT
  Minute :: CSHORT
  Second :: CSHORT
  Milliseconds :: CSHORT
  Weekday :: CSHORT

definition YearLengths :: "nat list" where
  "YearLengths = [365, 366]"

definition MonthLengths :: "nat list list" where
  "MonthLengths =
     [[31, 28, 31, 30, 31, 30, 31, 31, 30, 31, 30, 31],
      [31, 29, 31, 30, 31, 30, 31, 31, 30, 31, 30, 31]]"

definition IsLeapYear :: "int \<Rightarrow> nat" where
  "IsLeapYear y = (if y smod 4 = 0 \<and> (y smod 100 \<noteq> 0 \<or> y smod 400 = 0) then 1 else 0)"

definition DaysSinceEpoch :: "int \<Rightarrow> int" where
  "DaysSinceEpoch y =
     (let y = y - 1;
          Days = y * 365 + y sdiv 4 - y sdiv 100 + y sdiv 400
      in Days - ((1601 - 1) * 365 + (1601 - 1) sdiv 4 - (1601 - 1) sdiv 100 + (1601 - 1) sdiv 400))"

text \<open>\<open>None\<close> is the result \<^verbatim>\<open>FALSE\<close>; what the code then leaves in the output is not kept.\<close>

definition RtlTimeFieldsToTime :: "TIME_FIELDS \<Rightarrow> LARGE_INTEGER option" where
  "RtlTimeFieldsToTime TimeFields =
     (if sint (Milliseconds TimeFields) < 0 \<or> sint (Milliseconds TimeFields) > 999 \<or>
         sint (Second TimeFields) < 0 \<or> sint (Second TimeFields) > 59 \<or>
         sint (Minute TimeFields) < 0 \<or> sint (Minute TimeFields) > 59 \<or>
         sint (Hour TimeFields) < 0 \<or> sint (Hour TimeFields) > 23 \<or>
         sint (Month TimeFields) < 1 \<or> sint (Month TimeFields) > 12 \<or>
         sint (Day TimeFields) < 1 \<or>
         sint (Day TimeFields) >
           int (MonthLengths ! IsLeapYear (sint (Year TimeFields)) ! nat (sint (Month TimeFields) - 1)) \<or>
         sint (Year TimeFields) < 1601
      then None
      else
        let Time = word_of_int (DaysSinceEpoch (sint (Year TimeFields)));
            Time = foldl (\<lambda>Time CurMonth. Time + of_nat (MonthLengths ! IsLeapYear (sint (Year TimeFields)) ! (CurMonth - 1)))
                     Time [1..<nat (sint (Month TimeFields))];
            Time = Time + word_of_int (sint (Day TimeFields) - 1);
            Time = Time * 86400;
            Time = Time + word_of_int (sint (Hour TimeFields) * 3600 + sint (Minute TimeFields) * 60 + sint (Second TimeFields));
            Time = Time * word_of_int TICKSPERSEC;
            Time = Time + word_of_int (sint (Milliseconds TimeFields) * TICKSPERMSEC)
        in Some Time)"

text \<open>The weekday is not written.\<close>

definition RtlTimeToElapsedTimeFields :: "LARGE_INTEGER \<Rightarrow> TIME_FIELDS \<Rightarrow> TIME_FIELDS" where
  "RtlTimeToElapsedTimeFields Time TimeFields =
     (let ElapsedSeconds = Time div 10000000;
          SecondsInDay = ucast (ElapsedSeconds mod 86400) :: ULONG;
          SecondsInMinute = SecondsInDay mod 3600
      in TimeFields\<lparr>Milliseconds := word_of_int ((sint Time smod TICKSPERSEC) sdiv TICKSPERMSEC),
           Hour := ucast (SecondsInDay div 3600), Minute := ucast (SecondsInMinute div 60),
           Second := ucast (SecondsInMinute mod 60), Day := ucast (ElapsedSeconds div 86400), Month := 0, Year := 0\<rparr>)"

lemma year_length_pos: "365 \<le> YearLengths ! IsLeapYear y" "YearLengths ! IsLeapYear y \<le> 366"
  by (simp_all add: YearLengths_def IsLeapYear_def)

lemma unat_year_length: "unat (of_nat (YearLengths ! IsLeapYear y) :: ULONG) = YearLengths ! IsLeapYear y"
  using year_length_pos [of y] by (simp add: unat_of_nat_32)

text \<open>The loop that looks for the year.\<close>

function year_loop :: "ULONG \<Rightarrow> ULONG \<Rightarrow> ULONG \<times> ULONG" where
  "year_loop CurYear Days =
     (let YearLength = of_nat (YearLengths ! IsLeapYear (sint CurYear))
      in if Days < YearLength then (CurYear, Days)
         else year_loop (CurYear + 1) (Days - YearLength))"
  by auto

termination
proof (relation "measure (\<lambda>(CurYear, Days). unat Days)", goal_cases)
  case (2 CurYear Days l)
  then show ?case
    using year_length_pos(1) [of "sint CurYear"]
    by (auto simp: unat_year_length unat_sub word_le_nat_alt not_less)
qed simp

text \<open>The loop that looks for the month; \<open>None\<close> would be a read behind the table.\<close>

fun month_loop :: "nat list \<Rightarrow> ULONG \<Rightarrow> ULONG \<Rightarrow> (ULONG \<times> ULONG) option" where
  "month_loop [] CurMonth Days = None"
| "month_loop (Length # Months) CurMonth Days =
     (if Days \<ge> of_nat Length then month_loop Months (CurMonth + 1) (Days - of_nat Length) else Some (CurMonth, Days))"

definition RtlTimeToTimeFields :: "LARGE_INTEGER \<Rightarrow> TIME_FIELDS option" where
  "RtlTimeToTimeFields Time =
     (let IntTime = Time;
          ms = ucast ((IntTime mod 10000000) div 10000);
          IntTime = IntTime div 10000000;
          Days = ucast (IntTime div 86400) :: ULONG;
          SecondsInDay = ucast (IntTime mod 86400) :: ULONG;
          hour = ucast (SecondsInDay div 3600);
          SecondsInDay = SecondsInDay mod 3600;
          weekday = ucast ((1 + Days) mod 7);
          CurYear = 1601 + Days div 366;
          Days = Days - word_of_int (DaysSinceEpoch (sint CurYear));
          (CurYear, Days) = year_loop CurYear Days;
          LeapYear = IsLeapYear (sint CurYear)
      in case month_loop (MonthLengths ! LeapYear) 0 Days of
           None \<Rightarrow> None
         | Some (CurMonth, Days) \<Rightarrow>
             Some \<lparr>Year = ucast CurYear, Month = ucast (CurMonth + 1), Day = ucast (Days + 1), Hour = hour,
                   Minute = ucast (SecondsInDay div 60), Second = ucast (SecondsInDay mod 60),
                   Milliseconds = ms, Weekday = weekday\<rparr>)"

definition RtlTimeToSecondsSince1970 :: "LARGE_INTEGER \<Rightarrow> ULONG option" where
  "RtlTimeToSecondsSince1970 Time =
     (let IntTime = Time - TICKSTO1970;
          IntTime = word_of_int (sint IntTime sdiv TICKSPERSEC) :: LARGE_INTEGER
      in if drop_bit 32 IntTime \<noteq> 0 then None else Some (ucast IntTime))"

definition RtlTimeToSecondsSince1980 :: "LARGE_INTEGER \<Rightarrow> ULONG option" where
  "RtlTimeToSecondsSince1980 Time =
     (let IntTime = Time - TICKSTO1980;
          IntTime = word_of_int (sint IntTime sdiv TICKSPERSEC) :: LARGE_INTEGER
      in if drop_bit 32 IntTime \<noteq> 0 then None else Some (ucast IntTime))"

definition RtlSecondsSince1970ToTime :: "ULONG \<Rightarrow> LARGE_INTEGER" where
  "RtlSecondsSince1970ToTime SecondsSince1970 = ucast SecondsSince1970 * word_of_int TICKSPERSEC + TICKSTO1970"

definition RtlSecondsSince1980ToTime :: "ULONG \<Rightarrow> LARGE_INTEGER" where
  "RtlSecondsSince1980ToTime SecondsSince1980 = ucast SecondsSince1980 * word_of_int TICKSPERSEC + TICKSTO1980"

text \<open>The time zone bias is what \<^verbatim>\<open>ZwQuerySystemInformation\<close> returns, or its status when it fails.\<close>

definition RtlLocalTimeToSystemTime :: "NTSTATUS + LARGE_INTEGER \<Rightarrow> LARGE_INTEGER \<Rightarrow> NTSTATUS + LARGE_INTEGER" where
  "RtlLocalTimeToSystemTime bias LocalTime =
     (case bias of Inl Status \<Rightarrow> Inl Status | Inr TimeZoneBias \<Rightarrow> Inr (LocalTime + TimeZoneBias))"

definition RtlSystemTimeToLocalTime :: "NTSTATUS + LARGE_INTEGER \<Rightarrow> LARGE_INTEGER \<Rightarrow> NTSTATUS + LARGE_INTEGER" where
  "RtlSystemTimeToLocalTime bias SystemTime =
     (case bias of Inl Status \<Rightarrow> Inl Status | Inr TimeZoneBias \<Rightarrow> Inr (SystemTime - TimeZoneBias))"

text \<open>
  One round of the loop of \<^verbatim>\<open>RtlCutoverTimeToSystemTime\<close>: the cutover of the given year.  The result
  \<^verbatim>\<open>FALSE\<close> is \<open>None\<close>.
\<close>

definition cutover_of_year :: "TIME_FIELDS \<Rightarrow> CSHORT \<Rightarrow> LARGE_INTEGER option" where
  "cutover_of_year Cutover AdjustedYear =
     (let Adjusted = \<lparr>Year = AdjustedYear, Month = Month Cutover, Day = 1, Hour = Hour Cutover, Minute = Minute Cutover,
            Second = Second Cutover, Milliseconds = Milliseconds Cutover, Weekday = 0\<rparr>
      in case RtlTimeFieldsToTime Adjusted of
           None \<Rightarrow> None
         | Some CutoverSystemTime \<Rightarrow>
             (case RtlTimeToTimeFields CutoverSystemTime of
                None \<Rightarrow> None
              | Some Fields \<Rightarrow>
                  let first = (if Weekday Fields \<noteq> Weekday Cutover
                        then
                          Day Adjusted + word_of_int (if sint (Weekday Fields) < sint (Weekday Cutover)
                            then sint (Weekday Cutover) - sint (Weekday Fields)
                            else 7 - (sint (Weekday Fields) - sint (Weekday Cutover)))
                        else Day Adjusted);
                      AdjustedDay = (if sint (Day Cutover) > 1
                        then
                          let Days = word_of_int (7 * (sint (Day Cutover) - 1)) :: CSHORT;
                              MonthLength = MonthLengths ! IsLeapYear (sint (Year Adjusted)) ! nat (sint (Month Adjusted) - 1);
                              Days = (if sint first + sint Days > int MonthLength then Days - 7 else Days)
                          in first + Days
                        else first)
                  in RtlTimeFieldsToTime (Adjusted\<lparr>Day := AdjustedDay\<rparr>)))"

definition RtlCutoverTimeToSystemTime :: "TIME_FIELDS \<Rightarrow> LARGE_INTEGER \<Rightarrow> bool \<Rightarrow> LARGE_INTEGER option" where
  "RtlCutoverTimeToSystemTime Cutover CurrentTime ThisYearsCutoverOnly =
     (if Year Cutover \<noteq> 0
      then
        (case RtlTimeFieldsToTime Cutover of
           None \<Rightarrow> None
         | Some SystemTime \<Rightarrow> if sint SystemTime < sint CurrentTime then None else Some SystemTime)
      else if Day Cutover = 0 \<or> sint (Day Cutover) > 5 then None
      else
        (case RtlTimeToTimeFields CurrentTime of
           None \<Rightarrow> None
         | Some Current \<Rightarrow>
             (case cutover_of_year Cutover (Year Current) of
                None \<Rightarrow> None
              | Some CutoverSystemTime \<Rightarrow>
                  if ThisYearsCutoverOnly \<or> sint CutoverSystemTime \<ge> sint CurrentTime then Some CutoverSystemTime
                  else cutover_of_year Cutover (Year Current + 1))))"

end
