(* ===== verification/Rtl_Calendar.thy ===== *)
theory Rtl_Calendar
  imports Rtl_Time
begin

text \<open>
  The conversions of \<^verbatim>\<open>Rtl_Time\<close> against the calendar: days are counted by years, months and days in a
  unique way, which makes the conversions inverse to each other and decides recurring cutover times.
\<close>

section \<open>Years\<close>

lemma sdiv_nonneg: "0 \<le> y \<Longrightarrow> y sdiv numeral n = y div (numeral n :: int)"
  by (simp add: signed_divide_int_def sgn_if)

lemma smod_nonneg: "0 \<le> y \<Longrightarrow> y smod numeral n = y mod (numeral n :: int)"
  by (simp add: signed_modulo_int_def sgn_if)

lemma div_next: "(1 + int k) div numeral n = int k div numeral n + (if (1 + int k) mod numeral n = 0 then 1 else 0)"
proof -
  have "Suc k div numeral n = (if Suc k mod numeral n = 0 then Suc (k div numeral n) else k div numeral n)"
    by (rule div_Suc)
  then have "int (Suc k div numeral n) = int (k div numeral n) + (if Suc k mod numeral n = 0 then 1 else 0)" by simp
  moreover have "int (Suc k mod numeral n) = (1 + int k) mod numeral n" by (simp add: zmod_int)
  then have "Suc k mod numeral n = 0 \<longleftrightarrow> (1 + int k) mod numeral n = 0" by (metis of_nat_eq_0_iff)
  ultimately show ?thesis by (simp add: zdiv_int)
qed

lemma days_eq: "DaysSinceEpoch (1 + int j) = int j * 365 + int j div 4 - int j div 100 + int j div 400 - 584388"
  by (simp add: DaysSinceEpoch_def sdiv_nonneg Let_def)

lemma leap_year_eq:
  "0 \<le> y \<Longrightarrow> IsLeapYear y = (if y mod 4 = 0 \<and> (y mod 100 \<noteq> 0 \<or> y mod 400 = 0) then 1 else 0)"
  by (simp add: IsLeapYear_def smod_nonneg)

lemma days_next:
  assumes "1 \<le> y"
  shows "DaysSinceEpoch (y + 1) = DaysSinceEpoch y + int (YearLengths ! IsLeapYear y)"
proof -
  define k where "k = nat (y - 1)"
  have y: "y = 1 + int k" "y + 1 = 1 + int (Suc k)" "int (Suc k) = y" using assms by (simp_all add: k_def)
  have m: "y mod 400 = 0 \<Longrightarrow> y mod 100 = 0" "y mod 100 = 0 \<Longrightarrow> y mod 4 = 0"
    unfolding mod_eq_0_iff_dvd using dvd_trans [of 100 400 y] dvd_trans [of 4 100 y] by simp_all
  have d: "y div numeral n = int k div numeral n + (if y mod numeral n = 0 then 1 else 0)" for n
    unfolding y(1) by (rule div_next)
  have "int (YearLengths ! IsLeapYear y) = 365 + (if y mod 4 = 0 then 1 else 0) - (if y mod 100 = 0 then 1 else 0) + (if y mod 400 = 0 then 1 else 0)"
    using m assms by (auto simp: leap_year_eq YearLengths_def)
  moreover have "DaysSinceEpoch (y + 1) = y * 365 + y div 4 - y div 100 + y div 400 - 584388"
    using days_eq [of "Suc k"] unfolding y(3) add.commute [of 1 y] .
  moreover have "DaysSinceEpoch y = int k * 365 + int k div 4 - int k div 100 + int k div 400 - 584388"
    unfolding y(1) days_eq ..
  moreover have "y * 365 = int k * 365 + 365" using y(1) by simp
  ultimately show ?thesis using d [of "Num.Bit0 (Num.Bit0 Num.One)"] d [of "Num.Bit0 (Num.Bit0 (Num.Bit1 (Num.Bit0 (Num.Bit0 (Num.Bit1 Num.One)))))"]
     d [of "Num.Bit0 (Num.Bit0 (Num.Bit0 (Num.Bit0 (Num.Bit1 (Num.Bit0 (Num.Bit0 (Num.Bit1 Num.One)))))))"] by linarith
qed

lemma days_epoch [simp]: "DaysSinceEpoch 1601 = 0"
  by (simp add: DaysSinceEpoch_def)

lemma days_bounds: "365 * int k \<le> DaysSinceEpoch (1601 + int k)" "DaysSinceEpoch (1601 + int k) \<le> 366 * int k"
proof (induction k)
  case (Suc k)
  have "DaysSinceEpoch (1601 + int (Suc k)) = DaysSinceEpoch (1601 + int k) + int (YearLengths ! IsLeapYear (1601 + int k))"
    using days_next [of "1601 + int k"] by (simp add: algebra_simps)
  with Suc year_length_pos [of "1601 + int k"]
  show "365 * int (Suc k) \<le> DaysSinceEpoch (1601 + int (Suc k))" "DaysSinceEpoch (1601 + int (Suc k)) \<le> 366 * int (Suc k)"
    by simp_all
qed simp_all

lemma days_mono: "i \<le> j \<Longrightarrow> DaysSinceEpoch (1601 + int i) \<le> DaysSinceEpoch (1601 + int j)"
proof (induction rule: dec_induct)
  case (step n)
  then show ?case using days_next [of "1601 + int n"] by (simp add: algebra_simps)
qed simp

text \<open>The year \<open>1601 + k\<close> holds the day \<open>D\<close> after the epoch.\<close>

definition in_year :: "nat \<Rightarrow> nat \<Rightarrow> bool" where
  "in_year k D \<longleftrightarrow> DaysSinceEpoch (1601 + int k) \<le> int D \<and> int D < DaysSinceEpoch (1601 + int (Suc k))"

lemma in_year_unique: "in_year j D \<Longrightarrow> in_year k D \<Longrightarrow> j = k"
  using days_mono [of "Suc j" k] days_mono [of "Suc k" j] unfolding in_year_def
  by (cases j k rule: linorder_cases) simp_all

lemma in_year_bound: "in_year k D \<Longrightarrow> 365 * k \<le> D"
  using days_bounds(1) [of k] by (simp add: in_year_def)

lemma year_loop_eq:
  assumes "int D = DaysSinceEpoch (1601 + int k) + int r" "D < 300000000"
  shows "\<exists>k' r'. year_loop (of_nat (1601 + k)) (of_nat r) = (of_nat (1601 + k'), of_nat r') \<and> in_year k' D \<and>
     int D = DaysSinceEpoch (1601 + int k') + int r'"
  using assms(1)
proof (induction r arbitrary: k rule: less_induct)
  case (less r)
  define l where "l = YearLengths ! IsLeapYear (1601 + int k)"
  have nxt: "DaysSinceEpoch (1601 + int (Suc k)) = DaysSinceEpoch (1601 + int k) + int l"
    using days_next [of "1601 + int k"] by (simp add: l_def algebra_simps)
  have l: "365 \<le> l" "l \<le> 366" unfolding l_def by (rule year_length_pos)+
  have k: "365 * int k \<le> int D" "r \<le> D" using days_bounds(1) [of k] less.prems by simp_all
  have year: "sint (of_nat (1601 + k) :: ULONG) = 1601 + int k"
    using k assms(2) by (simp add: signed_of_nat signed_take_bit_int_eq_self del: of_nat_add)
  have cmp: "(of_nat r :: ULONG) < of_nat l \<longleftrightarrow> r < l"
    using k(2) l assms(2) by (simp add: word_less_nat_alt unat_of_nat_32)
  show ?case
  proof (cases "r < l")
    case True
    then have "year_loop (of_nat (1601 + k)) (of_nat r) = (of_nat (1601 + k), of_nat r)"
      using cmp unfolding year_loop.simps [of "of_nat (1601 + k)"] year Let_def l_def [symmetric] by simp
    moreover have "in_year k D" using True less.prems nxt by (simp add: in_year_def)
    ultimately show ?thesis using less.prems by blast
  next
    case False
    then have "year_loop (of_nat (1601 + k)) (of_nat r) = year_loop (of_nat (1601 + Suc k)) (of_nat (r - l))"
      using cmp unfolding year_loop.simps [of "of_nat (1601 + k)"] year Let_def l_def [symmetric] by (simp add: of_nat_diff add.commute)
    moreover have "int D = DaysSinceEpoch (1601 + int (Suc k)) + int (r - l)" using less.prems nxt False by simp
    ultimately show ?thesis using less.IH [of "r - l" "Suc k"] False l by simp
  qed
qed

section \<open>Months\<close>

lemma month_loop_eq:
  assumes "r < sum_list ms" "sum_list ms < 2 ^ 32"
  shows "\<exists>i. i < length ms \<and> sum_list (take i ms) \<le> r \<and> r < sum_list (take (Suc i) ms) \<and>
    month_loop ms c (of_nat r) = Some (c + of_nat i, of_nat (r - sum_list (take i ms)))"
  using assms
proof (induction ms arbitrary: c r)
  case (Cons l ms)
  have le: "of_nat l \<le> (of_nat r :: ULONG) \<longleftrightarrow> l \<le> r"
    using Cons.prems by (simp add: word_le_nat_alt unat_of_nat_32)
  show ?case
  proof (cases "l \<le> r")
    case True
    have "r - l < sum_list ms" "sum_list ms < 2 ^ 32" using True Cons.prems by auto
    from Cons.IH [OF this, of "c + 1"] obtain i where i: "i < length ms" "sum_list (take i ms) \<le> r - l"
      "r - l < sum_list (take (Suc i) ms)"
      "month_loop ms (c + 1) (of_nat (r - l)) = Some (c + 1 + of_nat i, of_nat (r - l - sum_list (take i ms)))"
      by blast
    have "(of_nat r - of_nat l :: ULONG) = of_nat (r - l)" using True by (simp add: of_nat_diff)
    with i True le show ?thesis
      by (intro exI [of _ "Suc i"]) (auto simp: add.assoc simp del: of_nat_diff)
  qed (use le in \<open>auto intro: exI [of _ 0]\<close>)
qed simp

lemma month_lengths_sum: "sum_list (MonthLengths ! IsLeapYear y) = YearLengths ! IsLeapYear y" "length (MonthLengths ! IsLeapYear y) = 12"
  by (simp_all add: MonthLengths_def YearLengths_def IsLeapYear_def)

lemma of_nat_casts:
  "ucast (of_nat n :: ULONG) = (of_nat n :: CSHORT)" "ucast (x :: LARGE_INTEGER) = (of_nat (unat x) :: ULONG)"
  "ucast (x :: LARGE_INTEGER) = (of_nat (unat x) :: CSHORT)" "ucast (z :: ULONG) = (of_nat (unat z) :: CSHORT)"
  by (simp_all add: unsigned_of_nat of_nat_unat unsigned_word_eqI)

section \<open>From ticks to fields\<close>

text \<open>What \<^verbatim>\<open>RtlTimeToTimeFields\<close> computes, with \<open>k\<close> years, \<open>i\<close> months and \<open>r\<close> days before the day.\<close>

definition fields_of :: "nat \<Rightarrow> nat \<Rightarrow> nat \<Rightarrow> nat \<Rightarrow> TIME_FIELDS" where
  "fields_of T k i r =
     (let s = T div 10000000 mod 86400
      in \<lparr>Year = of_nat (1601 + k), Month = of_nat (i + 1), Day = of_nat (r + 1), Hour = of_nat (s div 3600),
          Minute = of_nat (s mod 3600 div 60), Second = of_nat (s mod 3600 mod 60),
          Milliseconds = of_nat (T mod 10000000 div 10000), Weekday = of_nat ((1 + T div 10000000 div 86400) mod 7)\<rparr>)"

definition on_day :: "nat \<Rightarrow> nat \<Rightarrow> nat \<Rightarrow> nat \<Rightarrow> bool" where
  "on_day D k i r \<longleftrightarrow> i < 12 \<and> r < MonthLengths ! IsLeapYear (1601 + int k) ! i \<and>
     int D = DaysSinceEpoch (1601 + int k) + int (sum_list (take i (MonthLengths ! IsLeapYear (1601 + int k)))) + int r"

lemma RtlTimeToTimeFields_eq:
  "\<exists>k i r. on_day (unat t div 10000000 div 86400) k i r \<and> in_year k (unat t div 10000000 div 86400) \<and>
     RtlTimeToTimeFields t = Some (fields_of (unat t) k i r)"
proof -
  define T where "T = unat t"
  define D where "D = T div 10000000 div 86400"
  have "T < 2 ^ 64" using unsigned_less [of t] by (simp add: T_def)
  then have D: "D \<le> 21350398" by (simp add: D_def)
  have d: "unat (t div 10000000) = T div 10000000" by (simp add: unat_div T_def)
  have days: "ucast (t div 10000000 div 86400) = (of_nat D :: ULONG)" by (simp add: of_nat_casts unat_div T_def D_def)
  have secs: "ucast (t div 10000000 mod 86400) = (of_nat (T div 10000000 mod 86400) :: ULONG)"
    by (simp add: of_nat_casts unat_div unat_mod T_def)
  have s: "T div 10000000 mod 86400 < 86400" by simp
  define k0 where "k0 = D div 366"
  have cy: "1601 + (of_nat D :: ULONG) div 366 = of_nat (1601 + k0)"
    using D by (simp add: k0_def word_arith_nat_div unat_of_nat_32)
  have y0: "sint (of_nat (1601 + k0) :: ULONG) = 1601 + int k0"
    using D by (simp add: k0_def signed_of_nat signed_take_bit_int_eq_self del: of_nat_add)
  have "DaysSinceEpoch (1601 + int k0) \<le> int D" using days_bounds(2) [of k0] by (simp add: k0_def)
  then obtain r0 where r0: "int D = DaysSinceEpoch (1601 + int k0) + int r0" by (metis zle_iff_zadd)
  then have rem: "(of_nat D - word_of_int (DaysSinceEpoch (1601 + int k0)) :: ULONG) = of_nat r0"
    by (metis add_diff_cancel_left' of_int_add of_int_of_nat_eq)
  obtain k r1 where k: "year_loop (of_nat (1601 + k0)) (of_nat r0) = (of_nat (1601 + k), of_nat r1)" "in_year k D"
    "int D = DaysSinceEpoch (1601 + int k) + int r1"
    using year_loop_eq [OF r0] D by auto
  have y: "sint (of_nat (1601 + k) :: ULONG) = 1601 + int k"
    using in_year_bound [OF k(2)] D by (simp add: signed_of_nat signed_take_bit_int_eq_self del: of_nat_add)
  define ms where "ms = MonthLengths ! IsLeapYear (1601 + int k)"
  have "r1 < sum_list ms"
    using k(2,3) days_next [of "1601 + int k"] by (simp add: in_year_def ms_def month_lengths_sum algebra_simps)
  moreover have "sum_list ms < 2 ^ 32"
    using year_length_pos [of "1601 + int k"] by (simp add: ms_def month_lengths_sum)
  ultimately obtain i where i: "i < length ms" "sum_list (take i ms) \<le> r1" "r1 < sum_list (take (Suc i) ms)"
    "month_loop ms 0 (of_nat r1) = Some (of_nat i, of_nat (r1 - sum_list (take i ms)))"
    using month_loop_eq [of r1 ms 0] by auto
  define r where "r = r1 - sum_list (take i ms)"
  have "on_day D k i r"
    using i k(3) by (simp add: on_day_def ms_def [symmetric] r_def take_Suc_conv_app_nth) (simp add: ms_def month_lengths_sum)
  moreover have c: "ucast (of_nat a + 1 :: ULONG) = (of_nat (a + 1) :: CSHORT)" for a
    using of_nat_casts(1) [of "a + 1"] by (simp add: add.commute)
  have "RtlTimeToTimeFields t = Some (fields_of T k i r)"
    unfolding RtlTimeToTimeFields_def Let_def days cy y0 rem k(1) prod.case y ms_def [symmetric] i(4) option.case fields_of_def
      r_def [symmetric] secs D_def [symmetric] c of_nat_casts(1) [of "1601 + k"]
    using D s by (simp add: of_nat_casts unat_div unat_mod unat_of_nat_32 T_def unat_word_ariths)
  ultimately show ?thesis using k(2) unfolding D_def T_def by blast
qed

section \<open>From fields to ticks\<close>

lemma prefix_sum_mono: "i \<le> j \<Longrightarrow> sum_list (take i xs) \<le> sum_list (take j (xs :: nat list))"
  by (metis le_add1 min.absorb1 sum_list_append take_add take_take le_Suc_ex)

lemma prefix_sum_unique:
  assumes "sum_list (take i xs) + r = sum_list (take j xs) + r'" "i < length xs" "j < length xs" "r < xs ! i" "r' < xs ! j"
  shows "i = j \<and> r = (r' :: nat)"
proof -
  have "sum_list (take (Suc i) xs) = sum_list (take i xs) + xs ! i" "sum_list (take (Suc j) xs) = sum_list (take j xs) + xs ! j"
    using assms(2,3) by (simp_all add: take_Suc_conv_app_nth)
  with assms prefix_sum_mono [of "Suc i" j xs] prefix_sum_mono [of "Suc j" i xs] show ?thesis
    by (cases i j rule: linorder_cases) simp_all
qed

lemma on_day_in_year: "on_day D k i r \<Longrightarrow> in_year k D"
proof -
  assume d: "on_day D k i r"
  define ms where "ms = MonthLengths ! IsLeapYear (1601 + int k)"
  have "i < length ms" using d by (simp add: on_day_def ms_def month_lengths_sum)
  then have "sum_list (take (Suc i) ms) = sum_list (take i ms) + ms ! i" by (simp add: take_Suc_conv_app_nth)
  then have "sum_list (take i ms) + r < sum_list ms"
    using d prefix_sum_mono [of "Suc i" "length ms" ms] \<open>i < length ms\<close> by (simp add: on_day_def ms_def [symmetric])
  then show ?thesis
    using d days_next [of "1601 + int k"] by (simp add: in_year_def on_day_def ms_def month_lengths_sum algebra_simps)
qed

lemma on_day_unique:
  assumes "on_day D k i r" "on_day D k' i' r'"
  shows "k = k' \<and> i = i' \<and> r = r'"
proof -
  have k: "k = k'" using in_year_unique on_day_in_year assms by blast
  show ?thesis
    using assms prefix_sum_unique [of i "MonthLengths ! IsLeapYear (1601 + int k)" r i' r']
    unfolding on_day_def k by (auto simp: month_lengths_sum)
qed

lemma foldl_months:
  "n \<le> length ms \<Longrightarrow> foldl (\<lambda>Time CurMonth. Time + of_nat (ms ! (CurMonth - 1))) (T :: LARGE_INTEGER) [1..<Suc n] =
     T + of_nat (sum_list (take n ms))"
  by (induction n) (simp_all add: take_Suc_conv_app_nth)

lemma of_nat_sint: "sint w = int n \<Longrightarrow> w = of_nat n"
  by (metis of_int_of_nat_eq of_int_sint scast_id)

definition ticks_of :: "nat \<Rightarrow> nat \<Rightarrow> nat \<Rightarrow> nat \<Rightarrow> nat \<Rightarrow> nat" where
  "ticks_of D h m s ms = (D * 86400 + (h * 3600 + m * 60 + s)) * 10000000 + ms * 10000"

lemma RtlTimeFieldsToTime_Some:
  assumes "RtlTimeFieldsToTime f = Some t"
  shows "\<exists>D k i r h m s ms. on_day D k i r \<and> k \<le> 31166 \<and> h < 24 \<and> m < 60 \<and> s < 60 \<and> ms < 1000 \<and> unat t = ticks_of D h m s ms \<and>
    f = \<lparr>Year = of_nat (1601 + k), Month = of_nat (i + 1), Day = of_nat (r + 1), Hour = of_nat h, Minute = of_nat m, Second = of_nat s,
         Milliseconds = of_nat ms, Weekday = Weekday f\<rparr>"
proof -
  define k where "k = nat (sint (Year f) - 1601)"
  define i where "i = nat (sint (Month f) - 1)"
  define r where "r = nat (sint (Day f) - 1)"
  define ml where "ml = MonthLengths ! IsLeapYear (1601 + int k)"
  have ok: "1601 \<le> sint (Year f)" "1 \<le> sint (Month f)" "sint (Month f) \<le> 12" "1 \<le> sint (Day f)" "0 \<le> sint (Hour f)" "sint (Hour f) < 24"
    "0 \<le> sint (Minute f)" "sint (Minute f) < 60" "0 \<le> sint (Second f)" "sint (Second f) < 60" "0 \<le> sint (Milliseconds f)"
    "sint (Milliseconds f) < 1000" "sint (Day f) \<le> int (MonthLengths ! IsLeapYear (sint (Year f)) ! nat (sint (Month f) - 1))"
    using assms by (auto simp: RtlTimeFieldsToTime_def split: if_splits)
  have y: "sint (Year f) = 1601 + int k" and mo: "nat (sint (Month f)) = Suc i" and d: "sint (Day f) - 1 = int r"
    using ok by (simp_all add: k_def i_def r_def)
  have "sint (Year f) < 2 ^ 15" using sint_less [of "Year f"] by simp
  then have k: "k \<le> 31166" using y by simp
  have i: "i < 12" "r < ml ! i" "length ml = 12" using ok by (simp_all add: i_def r_def ml_def y month_lengths_sum)
  obtain D where D: "int D = DaysSinceEpoch (1601 + int k) + int (sum_list (take i ml)) + int r"
    using days_bounds(1) [of k] by (metis add_nonneg_nonneg nonneg_int_cases of_nat_0_le_iff order_trans zero_le_mult_iff zero_le_numeral)
  then have day: "on_day D k i r" using i by (simp add: on_day_def ml_def)
  define h where "h = nat (sint (Hour f))"
  define m where "m = nat (sint (Minute f))"
  define s where "s = nat (sint (Second f))"
  define ms where "ms = nat (sint (Milliseconds f))"
  have fields: "sint (Hour f) = int h" "sint (Minute f) = int m" "sint (Second f) = int s" "sint (Milliseconds f) = int ms"
    "sint (Month f) = int (i + 1)" "sint (Day f) = int (r + 1)" "sint (Year f) = int (1601 + k)"
    using ok mo d y by (simp_all add: h_def m_def s_def ms_def)
  note w = fields [THEN of_nat_sint]
  then have f: "f = \<lparr>Year = of_nat (1601 + k), Month = of_nat (i + 1), Day = of_nat (r + 1), Hour = of_nat h, Minute = of_nat m,
      Second = of_nat s, Milliseconds = of_nat ms, Weekday = Weekday f\<rparr>"
    by (cases f) simp
  have b: "h < 24" "m < 60" "s < 60" "ms < 1000" using ok fields by simp_all
  have D': "(word_of_int (DaysSinceEpoch (1601 + int k)) + of_nat (sum_list (take i ml)) + of_nat r :: LARGE_INTEGER) = of_nat D"
    using arg_cong [OF D, of "of_int :: int \<Rightarrow> LARGE_INTEGER"] by simp
  have months: "foldl (\<lambda>Time CurMonth. Time + of_nat (ml ! (CurMonth - 1))) (word_of_int (DaysSinceEpoch (1601 + int k)) :: LARGE_INTEGER)
      [1..<Suc i] = word_of_int (DaysSinceEpoch (1601 + int k)) + of_nat (sum_list (take i ml))"
    using foldl_months [of i ml] i by simp
  have "t = ((foldl (\<lambda>Time CurMonth. Time + of_nat (MonthLengths ! IsLeapYear (sint (Year f)) ! (CurMonth - 1)))
      (word_of_int (DaysSinceEpoch (sint (Year f)))) [1..<nat (sint (Month f))] + word_of_int (sint (Day f) - 1)) * 86400 +
      word_of_int (sint (Hour f) * 3600 + sint (Minute f) * 60 + sint (Second f))) * word_of_int TICKSPERSEC +
      word_of_int (sint (Milliseconds f) * TICKSPERMSEC)"
    using assms unfolding RtlTimeFieldsToTime_def Let_def by (simp split: if_splits)
  also have "\<dots> = (of_nat D * 86400 + word_of_int (int h * 3600 + int m * 60 + int s)) * word_of_int TICKSPERSEC + word_of_int (int ms * TICKSPERMSEC)"
    unfolding y mo d ml_def [symmetric] months fields(1-4) of_int_of_nat_eq D' ..
  finally have "t = of_nat (ticks_of D h m s ms)" by (simp add: ticks_of_def)
  moreover have "ticks_of D h m s ms < 2 ^ 64"
  proof -
    have "D < 366 * 31167"
      using on_day_in_year [OF day] days_bounds(2) [of "Suc k"] k by (simp add: in_year_def)
    then show ?thesis using b by (simp add: ticks_of_def)
  qed
  ultimately have "unat t = ticks_of D h m s ms" by (simp add: unsigned_of_nat take_bit_nat_eq_self)
  with day k b f show ?thesis by blast
qed

lemma sint_of_nat_16: "n < 32768 \<Longrightarrow> sint (of_nat n :: CSHORT) = int n"
  by (simp add: signed_of_nat signed_take_bit_int_eq_self)

lemma sint_of_nat_16_high: "32768 \<le> n \<Longrightarrow> n < 65536 \<Longrightarrow> sint (of_nat n :: CSHORT) = int n - 65536"
proof -
  assume n: "32768 \<le> n" "n < 65536"
  have "(of_nat n :: CSHORT) = of_int (int n - 65536)" by simp
  then show ?thesis using n by (simp only: signed_of_int) (simp add: signed_take_bit_int_eq_self)
qed

lemma of_nat_16_inj: "(of_nat a :: CSHORT) = of_nat b \<Longrightarrow> a < 32768 \<Longrightarrow> b < 32768 \<Longrightarrow> a = b"
  by (metis of_nat_eq_iff sint_of_nat_16)

lemma month_length_le: "i < 12 \<Longrightarrow> MonthLengths ! IsLeapYear y ! i \<le> 31"
proof -
  have "\<forall>i < 12. MonthLengths ! IsLeapYear y ! i \<le> 31"
    by (auto simp: MonthLengths_def IsLeapYear_def All_less_Suc numeral_eq_Suc)
  then show "i < 12 \<Longrightarrow> MonthLengths ! IsLeapYear y ! i \<le> 31" by blast
qed

lemma on_day_bounds: "on_day D k i r \<Longrightarrow> i < 12 \<and> r < 31 \<and> 365 * k \<le> D"
proof -
  assume d: "on_day D k i r"
  then show ?thesis
    using month_length_le in_year_bound [OF on_day_in_year [OF d]] unfolding on_day_def by (meson less_le_trans)
qed

lemma RtlTimeFieldsToTime_day:
  assumes "on_day D k i r" "k \<le> 31166" "h < 24" "m < 60" "s < 60" "ms < 1000"
  shows "RtlTimeFieldsToTime \<lparr>Year = of_nat (1601 + k), Month = of_nat (i + 1), Day = of_nat (r + 1), Hour = of_nat h, Minute = of_nat m,
    Second = of_nat s, Milliseconds = of_nat ms, Weekday = w\<rparr> = Some (of_nat (ticks_of D h m s ms))" (is "RtlTimeFieldsToTime ?f = _")
proof -
  note b = on_day_bounds [OF assms(1)]
  have f: "sint (Year ?f) = 1601 + int k" "sint (Month ?f) = int i + 1" "sint (Day ?f) = int r + 1" "sint (Hour ?f) = int h"
    "sint (Minute ?f) = int m" "sint (Second ?f) = int s" "sint (Milliseconds ?f) = int ms"
    using assms b sint_of_nat_16 [of "1601 + k"] sint_of_nat_16 [of "i + 1"] sint_of_nat_16 [of "r + 1"]
    by (simp_all add: sint_of_nat_16)
  have "RtlTimeFieldsToTime ?f \<noteq> None"
    using assms(1,3-6) b unfolding RtlTimeFieldsToTime_def f Let_def on_day_def by auto
  then obtain t where t: "RtlTimeFieldsToTime ?f = Some t" by blast
  then obtain D' k' i' r' h' m' s' ms' where e: "on_day D' k' i' r'" "k' \<le> 31166" "h' < 24" "m' < 60" "s' < 60" "ms' < 1000"
    "unat t = ticks_of D' h' m' s' ms'"
    "?f = \<lparr>Year = of_nat (1601 + k'), Month = of_nat (i' + 1), Day = of_nat (r' + 1), Hour = of_nat h', Minute = of_nat m',
       Second = of_nat s', Milliseconds = of_nat ms', Weekday = w\<rparr>"
    using RtlTimeFieldsToTime_Some [OF t] unfolding TIME_FIELDS.select_convs by blast
  note b' = on_day_bounds [OF e(1)]
  from e(8) have q: "(of_nat (1601 + k) :: CSHORT) = of_nat (1601 + k')" "(of_nat (i + 1) :: CSHORT) = of_nat (i' + 1)"
    "(of_nat (r + 1) :: CSHORT) = of_nat (r' + 1)" "(of_nat h :: CSHORT) = of_nat h'" "(of_nat m :: CSHORT) = of_nat m'"
    "(of_nat s :: CSHORT) = of_nat s'" "(of_nat ms :: CSHORT) = of_nat ms'"
    unfolding TIME_FIELDS.ext_inject by blast+
  have "k = k'" "i = i'" "r = r'" "h = h'" "m = m'" "s = s'" "ms = ms'"
    using q [THEN of_nat_16_inj] assms e b b' by auto
  moreover from this have "D = D'" using assms(1) e(1) unfolding on_day_def by simp
  ultimately have "t = of_nat (ticks_of D h m s ms)" using e(7) by (metis of_nat_unat scast_id ucast_id)
  with t show ?thesis by simp
qed

lemma div_mod_digits: "b < n \<Longrightarrow> (a * n + b) div n = a" "b < n \<Longrightarrow> (a * n + b) mod n = (b :: nat)"
  by simp_all

lemma put_together:
  "h + (m + s) = x \<Longrightarrow> A + x = B \<Longrightarrow> q' = q - r \<Longrightarrow> r \<le> q \<Longrightarrow> B * n + q = T \<Longrightarrow> (A + (h + m + s)) * n + q' = T - (r :: nat)"
  by (auto simp: add.assoc)

lemma ticks_of_split:
  assumes "s = T div 10000000 mod 86400"
  shows "ticks_of (T div 10000000 div 86400) (s div 3600) (s mod 3600 div 60) (s mod 3600 mod 60) (T mod 10000000 div 10000) = T - T mod 10000"
proof -
  define q where "q = T mod 10000000"
  have r: "q mod 10000 = T mod 10000" unfolding q_def by (rule mod_mod_cancel) simp
  have "s div 3600 * 3600 + (s mod 3600 div 60 * 60 + s mod 3600 mod 60) = s" by (simp only: div_mult_mod_eq)
  moreover have "T div 10000000 div 86400 * 86400 + s = T div 10000000" unfolding assms by (rule div_mult_mod_eq)
  moreover have "q div 10000 * 10000 = q - T mod 10000" unfolding r [symmetric] by (rule minus_mod_eq_div_mult [symmetric])
  moreover have "T mod 10000 \<le> q" unfolding r [symmetric] by simp
  moreover have "T div 10000000 * 10000000 + q = T" unfolding q_def by (rule div_mult_mod_eq)
  ultimately show ?thesis unfolding ticks_of_def q_def [symmetric] by (rule put_together)
qed

lemma ticks_of_day:
  assumes "h < 24" "m < 60" "s < 60" "ms < 1000"
  shows "ticks_of D h m s ms mod 10000000 = ms * 10000"
    "ticks_of D h m s ms div 10000000 div 86400 = D" "ticks_of D h m s ms div 10000000 mod 86400 = h * 3600 + (m * 60 + s)"
proof -
  have ms: "ms * 10000 < 10000000" and s: "h * 3600 + (m * 60 + s) < 86400" using assms by simp_all
  have *: "ticks_of D h m s ms div 10000000 = D * 86400 + (h * 3600 + (m * 60 + s))"
    unfolding ticks_of_def div_mod_digits(1) [OF ms] by simp
  show "ticks_of D h m s ms mod 10000000 = ms * 10000" unfolding ticks_of_def by (rule div_mod_digits(2) [OF ms])
  show "ticks_of D h m s ms div 10000000 div 86400 = D" "ticks_of D h m s ms div 10000000 mod 86400 = h * 3600 + (m * 60 + s)"
    unfolding * by (rule div_mod_digits [OF s])+
qed

lemma time_fields_back:
  assumes "RtlTimeFieldsToTime f = Some t"
  shows "RtlTimeToTimeFields t = Some (f\<lparr>Weekday := of_nat ((1 + unat t div 10000000 div 86400) mod 7)\<rparr>)"
proof -
  obtain D k i r h m s ms where e: "on_day D k i r" "k \<le> 31166" "h < 24" "m < 60" "s < 60" "ms < 1000" "unat t = ticks_of D h m s ms"
    "f = \<lparr>Year = of_nat (1601 + k), Month = of_nat (i + 1), Day = of_nat (r + 1), Hour = of_nat h, Minute = of_nat m, Second = of_nat s,
         Milliseconds = of_nat ms, Weekday = Weekday f\<rparr>"
    using RtlTimeFieldsToTime_Some [OF assms] by blast
  note d = ticks_of_day [OF e(3-6), of D]
  obtain k' i' r' where t: "on_day D k' i' r'" "RtlTimeToTimeFields t = Some (fields_of (ticks_of D h m s ms) k' i' r')"
    using RtlTimeToTimeFields_eq [of t] unfolding e(7) d(2) by blast
  have "k' = k" "i' = i" "r' = r" using on_day_unique [OF e(1) t(1)] by simp_all
  moreover have "(h * 3600 + (m * 60 + s)) div 3600 = h" "(h * 3600 + (m * 60 + s)) mod 3600 = m * 60 + s"
    by (rule div_mod_digits; use e(4,5) in simp)+
  moreover have "(m * 60 + s) div 60 = m" "(m * 60 + s) mod 60 = s" "ms * 10000 div 10000 = ms" using e(5) by simp_all
  ultimately show ?thesis
    unfolding t(2) fields_of_def Let_def d e(7) by (subst e(8)) simp
qed

text \<open>
  C30.  The fields that \<^verbatim>\<open>RtlTimeFieldsToTime\<close> accepts are what \<^verbatim>\<open>RtlTimeToTimeFields\<close> makes of the resulting time,
  with the weekday filled in.
\<close>

theorem time_fields_roundtrip:
  assumes "RtlTimeFieldsToTime f = Some t"
  shows "RtlTimeToTimeFields t = Some (f\<lparr>Weekday := of_nat ((1 + unat t div 10000000 div 86400) mod 7)\<rparr>)"
  using time_fields_back [OF assms] .

text \<open>
  \<^verbatim>\<open>RtlTimeToTimeFields\<close> is defined for every time, and while the year fits into its field converting
  the result back gives the time rounded down to milliseconds; a later year makes fields that
  \<^verbatim>\<open>RtlTimeFieldsToTime\<close> rejects.
\<close>

theorem time_ticks_roundtrip:
  "\<exists>f. RtlTimeToTimeFields t = Some f \<and>
     RtlTimeFieldsToTime f = (if int (unat t div 10000000 div 86400) < DaysSinceEpoch 32768 then Some (t - t mod 10000) else None)"
proof -
  define T where "T = unat t"
  define D where "D = T div 10000000 div 86400"
  define s where "s = T div 10000000 mod 86400"
  obtain k i r where e: "on_day D k i r" "in_year k D" "RtlTimeToTimeFields t = Some (fields_of T k i r)"
    using RtlTimeToTimeFields_eq [of t] unfolding T_def D_def by blast
  have "T < 2 ^ 64" using unsigned_less [of t] by (simp add: T_def)
  then have D: "D \<le> 21350398" by (simp add: D_def)
  have year: "int D < DaysSinceEpoch 32768 \<longleftrightarrow> k \<le> 31166"
    using days_mono [of "Suc k" 31167] days_mono [of 31167 k] e(2) by (cases "k \<le> 31166") (auto simp: in_year_def)
  show ?thesis
  proof (cases "k \<le> 31166")
    case True
    have "s < 86400" by (simp add: s_def)
    then have "RtlTimeFieldsToTime (fields_of T k i r) =
        Some (of_nat (ticks_of D (s div 3600) (s mod 3600 div 60) (s mod 3600 mod 60) (T mod 10000000 div 10000)))"
      unfolding fields_of_def Let_def s_def [symmetric]
      by (intro RtlTimeFieldsToTime_day [OF e(1) True]) (simp_all add: less_mult_imp_div_less)
    also have "\<dots> = Some (of_nat (T - T mod 10000))" unfolding D_def ticks_of_split [OF s_def] ..
    also have "of_nat (T - T mod 10000) = t - t mod 10000"
      by (simp add: T_def of_nat_diff word_arith_nat_mod)
    finally show ?thesis using True e(3) year unfolding D_def T_def by simp
  next
    case False
    have "k < 58500" using in_year_bound [OF e(2)] D by simp
    then have "sint (of_nat (1601 + k) :: CSHORT) < 0" using False by (simp add: sint_of_nat_16_high del: of_nat_add)
    then have "RtlTimeFieldsToTime (fields_of T k i r) = None" by (simp add: RtlTimeFieldsToTime_def fields_of_def Let_def)
    then show ?thesis using False e(3) year unfolding D_def T_def by simp
  qed
qed

section \<open>Recurring cutover times\<close>

text \<open>The day of the month, from 0 on, that a cutover on the \<open>n\<close>-th weekday \<open>wd\<close> falls on.\<close>

definition cutover_day :: "nat \<Rightarrow> nat \<Rightarrow> nat \<Rightarrow> nat \<Rightarrow> nat" where
  "cutover_day D wd n l =
     (let d = (wd + 7 - (1 + D) mod 7) mod 7; x = d + 7 * (n - 1) in if l \<le> x then x - 7 else x)"

lemma month_length_ge: "i < 12 \<Longrightarrow> 28 \<le> MonthLengths ! IsLeapYear y ! i"
proof -
  have "\<forall>i < 12. 28 \<le> MonthLengths ! IsLeapYear y ! i"
    by (auto simp: MonthLengths_def IsLeapYear_def All_less_Suc numeral_eq_Suc)
  then show "i < 12 \<Longrightarrow> 28 \<le> MonthLengths ! IsLeapYear y ! i" by blast
qed

lemma mod_7_shift: "a < 7 \<Longrightarrow> wd < 7 \<Longrightarrow> (wd + 7 - a) mod 7 = (if a \<le> wd then wd - a else wd + 7 - (a :: nat))"
  by (auto simp: mod_if)

lemma cutover_day_weekday:
  assumes "wd < 7" "28 \<le> l"
  shows "(1 + (D + cutover_day D wd n l)) mod 7 = wd"
proof -
  define a where "a = (1 + D) mod 7"
  define d where "d = (wd + 7 - a) mod 7"
  define x where "x = d + 7 * (n - 1)"
  have "a < 7" by (simp add: a_def)
  have "x mod 7 = d" by (simp add: x_def d_def)
  moreover have "(x - 7) mod 7 = x mod 7" if "28 \<le> x" using that le_mod_geq [of 7 x] by simp
  ultimately have cd: "cutover_day D wd n l mod 7 = d"
    using assms(2) unfolding cutover_day_def Let_def a_def [symmetric] d_def [symmetric] x_def [symmetric] by auto
  have "(1 + (D + cutover_day D wd n l)) mod 7 = (a + cutover_day D wd n l mod 7) mod 7"
    unfolding a_def by (simp add: mod_simps)
  also have "\<dots> = wd" unfolding cd d_def using \<open>a < 7\<close> assms(1) by (auto simp: mod_7_shift)
  finally show ?thesis .
qed

lemma cutover_day_less: "n \<le> 5 \<Longrightarrow> 28 \<le> l \<Longrightarrow> cutover_day D wd n l < l"
proof -
  assume "n \<le> 5" "28 \<le> l"
  moreover define d where "d = (wd + 7 - (1 + D) mod 7) mod 7"
  moreover have "d < 7" by (simp add: d_def)
  ultimately show ?thesis unfolding cutover_day_def Let_def d_def [symmetric] by auto
qed

lemma ticks_of_bound: "on_day D k i r \<Longrightarrow> k \<le> 31166 \<Longrightarrow> h < 24 \<Longrightarrow> m < 60 \<Longrightarrow> s < 60 \<Longrightarrow> ms < 1000 \<Longrightarrow> ticks_of D h m s ms < 2 ^ 64"
proof -
  assume day: "on_day D k i r" "k \<le> 31166" and b: "h < 24" "m < 60" "s < 60" "ms < 1000"
  have "D < 366 * 31167"
    using on_day_in_year [OF day(1)] days_bounds(2) [of "Suc k"] day(2) by (simp add: in_year_def)
  then show ?thesis using b by (simp add: ticks_of_def)
qed

lemma cutover_of_year_eq:
  assumes d: "on_day D k i 0" "k \<le> 31166" and b: "h < 24" "m < 60" "s < 60" "ms < 1000" and wd: "wd < 7" and n: "1 \<le> n" "n \<le> 5"
    and l: "l = MonthLengths ! IsLeapYear (1601 + int k) ! i"
  shows "cutover_of_year \<lparr>Year = y, Month = of_nat (i + 1), Day = of_nat n, Hour = of_nat h, Minute = of_nat m, Second = of_nat s,
      Milliseconds = of_nat ms, Weekday = of_nat wd\<rparr> (of_nat (1601 + k)) = Some (of_nat (ticks_of (D + cutover_day D wd n l) h m s ms))"
proof -
  define a where "a = (1 + D) mod 7"
  define f where "f = (wd + 7 - a) mod 7"
  have i: "i < 12" and l28: "28 \<le> l" using d(1) month_length_ge by (auto simp: on_day_def l)
  have a: "a < 7" "f < 7" by (simp_all add: a_def f_def)
  let ?A = "\<lparr>Year = of_nat (1601 + k), Month = of_nat (i + 1), Day = 1, Hour = of_nat h, Minute = of_nat m, Second = of_nat s,
      Milliseconds = of_nat ms, Weekday = 0\<rparr> :: TIME_FIELDS"
  have t0: "RtlTimeFieldsToTime ?A = Some (of_nat (ticks_of D h m s ms))"
    using RtlTimeFieldsToTime_day [OF d b, of 0] by simp
  have "unat (of_nat (ticks_of D h m s ms) :: LARGE_INTEGER) = ticks_of D h m s ms"
    using ticks_of_bound [OF d b] by (simp add: unsigned_of_nat take_bit_nat_eq_self)
  then have t1: "RtlTimeToTimeFields (of_nat (ticks_of D h m s ms)) = Some (?A\<lparr>Weekday := of_nat a\<rparr>)"
    using time_fields_back [OF t0] ticks_of_day(2) [OF b] by (simp add: a_def)
  have first: "(if (of_nat a :: CSHORT) \<noteq> of_nat wd then 1 + word_of_int (if int a < int wd then int wd - int a else 7 - (int a - int wd)) else 1) =
      (of_nat (f + 1) :: CSHORT)"
  proof (cases a wd rule: linorder_cases)
    case less
    then have "int wd - int a = int f" "a \<noteq> wd" using a wd by (simp_all add: f_def mod_7_shift)
    then show ?thesis using less of_nat_16_inj [of a wd] a wd by auto
  next
    case greater
    then have "7 - (int a - int wd) = int f" "a \<noteq> wd" using a wd by (simp_all add: f_def mod_7_shift)
    then show ?thesis using greater of_nat_16_inj [of a wd] a wd by auto
  qed (simp add: f_def)
  have days: "word_of_int (7 * (int n - 1)) = (of_nat (7 * (n - 1)) :: CSHORT)" using n by (simp add: of_nat_diff)
  define c where "c = cutover_day D wd n l"
  have c: "c = (if l \<le> f + 7 * (n - 1) then f + 7 * (n - 1) - 7 else f + 7 * (n - 1))"
    by (simp add: c_def cutover_day_def a_def f_def Let_def)
  have c7: "7 \<le> f + 7 * (n - 1)" "7 \<le> 7 * (n - 1)" if "l \<le> f + 7 * (n - 1)" using that l28 a by simp_all
  have day: "on_day (D + c) k i c"
    using d(1) cutover_day_less [OF n(2) l28, of D wd] by (simp add: on_day_def l c_def)
  have adjusted: "(if 1 < int n
      then let Days = (of_nat (7 * (n - 1)) :: CSHORT);
               Days = (if sint (of_nat (f + 1) :: CSHORT) + sint Days > int l then Days - 7 else Days)
           in of_nat (f + 1) + Days
      else of_nat (f + 1)) = (of_nat (c + 1) :: CSHORT)"
  proof (cases "n = 1")
    case False
    have "sint (of_nat (f + 1) :: CSHORT) + sint (of_nat (7 * (n - 1)) :: CSHORT) > int l \<longleftrightarrow> l \<le> f + 7 * (n - 1)"
      using sint_of_nat_16 [of "f + 1"] sint_of_nat_16 [of "7 * (n - 1)"] a n by auto
    then show ?thesis using False n c7 unfolding c Let_def by (auto simp: of_nat_diff)
  qed (use l28 a in \<open>simp add: c\<close>)
  have s16: "sint (of_nat a :: CSHORT) = int a" "sint (of_nat wd :: CSHORT) = int wd" "sint (of_nat n :: CSHORT) = int n"
    "sint (of_nat (1601 + k) :: CSHORT) = 1601 + int k" "nat (sint (of_nat (i + 1) :: CSHORT) - 1) = i"
    using a wd n d(2) i sint_of_nat_16 [of "1601 + k"] sint_of_nat_16 [of "i + 1"] by (simp_all add: sint_of_nat_16)
  have final: "RtlTimeFieldsToTime (?A\<lparr>Day := of_nat (c + 1)\<rparr>) = Some (of_nat (ticks_of (D + c) h m s ms))"
    using RtlTimeFieldsToTime_day [OF day d(2) b, of 0] by simp
  show ?thesis
    unfolding cutover_of_year_def TIME_FIELDS.select_convs Let_def t0 option.case t1 TIME_FIELDS.update_convs s16 l [symmetric] days
      first adjusted [unfolded Let_def] c_def [symmetric]
    by (rule final [unfolded TIME_FIELDS.update_convs])
qed

text \<open>The day \<open>d\<close> of the month is the \<open>n\<close>-th of its weekday, where 5 stands for the last one.\<close>

definition nth_weekday :: "CSHORT \<Rightarrow> CSHORT \<Rightarrow> int \<Rightarrow> bool" where
  "nth_weekday d n l \<longleftrightarrow> (if n = 5 then sint d \<le> l \<and> l < sint d + 7 else (sint d - 1) div 7 = sint n - 1)"

lemma nth_weekday_cutover:
  assumes "1 \<le> n" "n \<le> 5" "28 \<le> l" "l \<le> 31"
  shows "nth_weekday (of_nat (cutover_day D wd n l + 1)) (of_nat n) (int l)"
proof -
  define d where "d = (wd + 7 - (1 + D) mod 7) mod 7"
  define c where "c = cutover_day D wd n l"
  have d: "d < 7" by (simp add: d_def)
  have c: "c = (if l \<le> d + 7 * (n - 1) then d + 7 * (n - 1) - 7 else d + 7 * (n - 1))"
    unfolding c_def cutover_day_def Let_def d_def [symmetric] by simp
  have s: "sint (of_nat (c + 1) :: CSHORT) = int c + 1" "sint (of_nat n :: CSHORT) = int n"
    using cutover_day_less [of n l D wd] assms sint_of_nat_16 [of "c + 1"] by (simp_all add: c_def sint_of_nat_16)
  have five: "(of_nat n :: CSHORT) = 5 \<longleftrightarrow> n = 5" using of_nat_16_inj [of n 5] assms(2) by auto
  show ?thesis
  proof (cases "n = 5")
    case True
    then show ?thesis using d assms(3,4) unfolding nth_weekday_def c_def [symmetric] s five by (auto simp: c)
  next
    case False
    then have "c = (n - 1) * 7 + d" using d assms by (auto simp: c)
    then have "c div 7 = n - 1" using d by (simp only: div_mod_digits)
    then have "int c div 7 = int n - 1" using assms(1) by (metis of_nat_1 of_nat_diff of_nat_numeral zdiv_int)
    then show ?thesis using False unfolding nth_weekday_def c_def [symmetric] s five by simp
  qed
qed

lemma cutover_of_year_spec:
  assumes "k \<le> 31166" "i < 12" and b: "h < 24" "m < 60" "s < 60" "ms < 1000" and wd: "wd < 7" and n: "1 \<le> n" "n \<le> 5"
    and c: "c = \<lparr>Year = y, Month = of_nat (i + 1), Day = of_nat n, Hour = of_nat h, Minute = of_nat m, Second = of_nat s,
      Milliseconds = of_nat ms, Weekday = of_nat wd\<rparr>"
  shows "\<exists>t f. cutover_of_year c (of_nat (1601 + k)) = Some t \<and> RtlTimeToTimeFields t = Some f \<and> in_year k (unat t div 10000000 div 86400) \<and>
    f = c\<lparr>Year := of_nat (1601 + k), Day := Day f\<rparr> \<and> nth_weekday (Day f) (Day c) (int (MonthLengths ! IsLeapYear (1601 + int k) ! i))"
proof -
  define l where "l = MonthLengths ! IsLeapYear (1601 + int k) ! i"
  have l: "28 \<le> l" "l \<le> 31" using month_length_ge [OF assms(2)] month_length_le [OF assms(2)] by (simp_all add: l_def)
  define D where "D = nat (DaysSinceEpoch (1601 + int k)) + sum_list (take i (MonthLengths ! IsLeapYear (1601 + int k)))"
  have d: "on_day D k i 0" using days_bounds(1) [of k] assms(2) l by (simp add: on_day_def D_def l_def)
  define r where "r = cutover_day D wd n l"
  have dr: "on_day (D + r) k i r" using d cutover_day_less [OF n(2) l(1)] by (simp add: on_day_def r_def l_def)
  define t :: LARGE_INTEGER where "t = of_nat (ticks_of (D + r) h m s ms)"
  have ut: "unat t = ticks_of (D + r) h m s ms"
    using ticks_of_bound [OF dr assms(1) b] by (simp add: t_def unsigned_of_nat take_bit_nat_eq_self)
  have "cutover_of_year c (of_nat (1601 + k)) = Some t"
    using cutover_of_year_eq [OF d assms(1) b wd n l_def] by (simp only: c t_def r_def)
  moreover have w: "(1 + (D + r)) mod 7 = wd" using cutover_day_weekday [OF wd l(1)] by (simp only: r_def)
  have "RtlTimeToTimeFields t = Some \<lparr>Year = of_nat (1601 + k), Month = of_nat (i + 1), Day = of_nat (r + 1), Hour = of_nat h,
      Minute = of_nat m, Second = of_nat s, Milliseconds = of_nat ms, Weekday = of_nat wd\<rparr>"
    using time_fields_back [OF RtlTimeFieldsToTime_day [OF dr assms(1) b, of 0]]
    unfolding t_def [symmetric] ut ticks_of_day(2) [OF b] w by simp
  moreover have "in_year k (unat t div 10000000 div 86400)"
    unfolding ut ticks_of_day(2) [OF b] by (rule on_day_in_year [OF dr])
  ultimately show ?thesis
    using nth_weekday_cutover [OF n l, of D wd] unfolding c l_def [symmetric] r_def [symmetric]
    by (intro exI conjI) (assumption | simp)+
qed

lemma sint_before_30828:
  assumes "in_year k (unat t div 10000000 div 86400)" "k \<le> 29226"
  shows "sint t = int (unat (t :: LARGE_INTEGER))"
proof -
  have "DaysSinceEpoch (1601 + int (Suc k)) \<le> DaysSinceEpoch 30828" using days_mono [of "Suc k" 29227] assms(2) by simp
  moreover have "DaysSinceEpoch 30828 = 10674942" using days_eq [of 30827] by simp
  ultimately have "unat t div 10000000 div 86400 < 10674942" using assms(1) by (simp add: in_year_def)
  then have "unat t < 10674942 * 86400 * 10000000" by (simp add: div_less_iff_less_mult)
  then have "- (2 ^ 63) \<le> int (unat t)" "int (unat t) < 2 ^ 63" by (simp_all del: of_nat_unat)
  then have "signed_take_bit 63 (int (unat t)) = int (unat t)" by (rule signed_take_bit_int_eq_self)
  then show ?thesis by (simp add: sint_uint)
qed

text \<open>
  The time \<open>t\<close> is the cutover of the year \<open>y\<close>: it has the month, the time of day and the weekday of
  the recurring cutover time \<open>c\<close>, and its day is the wanted one of its weekday.
\<close>

definition cutover_in :: "TIME_FIELDS \<Rightarrow> CSHORT \<Rightarrow> LARGE_INTEGER \<Rightarrow> bool" where
  "cutover_in c y t \<longleftrightarrow> (\<exists>d. RtlTimeToTimeFields t = Some (c\<lparr>Year := y, Day := d\<rparr>) \<and>
     nth_weekday d (Day c) (int (MonthLengths ! IsLeapYear (sint y) ! nat (sint (Month c) - 1))))"

text \<open>
  C31.  A recurring cutover time: for a current time of the years 1601 to 30826 and a valid month, time of
  day, weekday and number of the week (5 for the last one), \<^verbatim>\<open>RtlCutoverTimeToSystemTime\<close> succeeds.
  The result is the cutover of the current year when only this year's cutover is asked for or
  when that one is not before the current time, and otherwise the cutover of the next year, which is
  not before the current time.
\<close>

theorem RtlCutoverTimeToSystemTime_recurring:
  assumes "Year c = 0" "RtlTimeFieldsToTime (c\<lparr>Year := 2000, Day := 1\<rparr>) \<noteq> None" "1 \<le> sint (Day c)" "sint (Day c) \<le> 5"
    and "0 \<le> sint (Weekday c)" "sint (Weekday c) < 7"
    and "RtlTimeToTimeFields now = Some cur" "1601 \<le> sint (Year cur)" "sint (Year cur) < 30827"
  shows "\<exists>t1 t2. cutover_in c (Year cur) t1 \<and> cutover_in c (Year cur + 1) t2 \<and> sint now \<le> sint t2 \<and>
    RtlCutoverTimeToSystemTime c now only = Some (if only \<or> sint now \<le> sint t1 then t1 else t2)"
proof -
  obtain k where k: "in_year k (unat now div 10000000 div 86400)" "Year cur = of_nat (1601 + k)"
    using RtlTimeToTimeFields_eq [of now] assms(7) by (auto simp: fields_of_def Let_def)
  have "unat now < 2 ^ 64" using unsigned_less [of now] by simp
  then have "unat now div 10000000 div 86400 \<le> 21350398" by simp
  then have "1601 + k < 65536" using in_year_bound [OF k(1)] by linarith
  then have "1601 + k < 32768" using assms(8) sint_of_nat_16_high [of "1601 + k"] unfolding k(2) by linarith
  then have y: "sint (of_nat (1601 + k) :: CSHORT) = int (1601 + k)" by (rule sint_of_nat_16)
  then have k': "k \<le> 29225" using assms(9) unfolding k(2) by simp
  obtain i h m s ms where f: "i < 12" "h < 24" "m < 60" "s < 60" "ms < 1000"
    "Month c = of_nat (i + 1)" "Hour c = of_nat h" "Minute c = of_nat m" "Second c = of_nat s" "Milliseconds c = of_nat ms"
  proof -
    obtain t0 where "RtlTimeFieldsToTime (c\<lparr>Year := 2000, Day := 1\<rparr>) = Some t0" using assms(2) by blast
    from RtlTimeFieldsToTime_Some [OF this] that show thesis
      by (cases c) (auto simp: on_day_def)
  qed
  define n where "n = nat (sint (Day c))"
  define wd where "wd = nat (sint (Weekday c))"
  have n: "1 \<le> n" "n \<le> 5" "Day c = of_nat n" and wd: "wd < 7" "Weekday c = of_nat wd"
    using assms(3-6) by (auto simp: n_def wd_def intro: of_nat_sint)
  have c: "c = \<lparr>Year = 0, Month = of_nat (i + 1), Day = of_nat n, Hour = of_nat h, Minute = of_nat m, Second = of_nat s,
      Milliseconds = of_nat ms, Weekday = of_nat wd\<rparr>"
    using assms(1) f n wd by (cases c) simp
  note spec = cutover_of_year_spec [OF _ f(1-5) wd(1) n(1,2) c]
  obtain t1 f1 where s1: "cutover_of_year c (Year cur) = Some t1" "RtlTimeToTimeFields t1 = Some f1"
    "in_year k (unat t1 div 10000000 div 86400)" "f1 = c\<lparr>Year := Year cur, Day := Day f1\<rparr>"
    "nth_weekday (Day f1) (Day c) (int (MonthLengths ! IsLeapYear (1601 + int k) ! i))"
    using spec [of k] k' unfolding k(2) by auto
  have next_year: "Year cur + 1 = of_nat (1601 + Suc k)" unfolding k(2) by simp
  obtain t2 f2 where s2: "cutover_of_year c (Year cur + 1) = Some t2" "RtlTimeToTimeFields t2 = Some f2"
    "in_year (Suc k) (unat t2 div 10000000 div 86400)" "f2 = c\<lparr>Year := Year cur + 1, Day := Day f2\<rparr>"
    "nth_weekday (Day f2) (Day c) (int (MonthLengths ! IsLeapYear (1601 + int (Suc k)) ! i))"
    using spec [of "Suc k"] k' unfolding next_year by auto
  have "unat now div 10000000 div 86400 < unat t2 div 10000000 div 86400"
    using k(1) s2(3) by (simp add: in_year_def)
  then have "unat now \<le> unat t2" by (meson div_le_mono leD le_cases)
  then have later: "sint now \<le> sint t2"
    using sint_before_30828 [OF k(1)] sint_before_30828 [OF s2(3)] k' by (simp del: of_nat_unat)
  have month: "nat (sint (of_nat (i + 1) :: CSHORT) - 1) = i" using sint_of_nat_16 [of "i + 1"] f(1) by simp
  have years: "sint (Year cur) = 1601 + int k" "sint (Year cur + 1) = 1601 + int (Suc k)"
    using y k' sint_of_nat_16 [of "1601 + Suc k"] unfolding next_year k(2) by simp_all
  have first: "RtlCutoverTimeToSystemTime c now only = (if only \<or> sint t1 \<ge> sint now then Some t1 else Some t2)"
    using assms(1,7) n s1(1) s2(1) assms(3,4) by (auto simp: RtlCutoverTimeToSystemTime_def)
  have "cutover_in c (Year cur) t1" "cutover_in c (Year cur + 1) t2"
    unfolding cutover_in_def years f(6) month using s1(2,4,5) s2(2,4,5) by auto
  then show ?thesis using first later by (intro exI [of _ t1] exI [of _ t2]) simp
qed

section \<open>Seconds\<close>

lemma sdiv_ticks: "y sdiv TICKSPERSEC = (if 0 \<le> y then y div 10000000 else - (- y div 10000000))" for y :: int
  by (simp add: signed_divide_int_def sgn_if)

lemma div_ticks_less: "y div 10000000 < c \<longleftrightarrow> y < c * 10000000" for y c :: int
proof -
  define q where "q = y div 10000000"
  define r where "r = y mod 10000000"
  have "q * 10000000 + r = y" unfolding q_def r_def by (rule div_mult_mod_eq)
  moreover have "0 \<le> r" "r < 10000000" by (simp_all add: r_def)
  ultimately show ?thesis unfolding q_def [symmetric] by linarith
qed

lemma sdiv_ticks_range: "0 \<le> y sdiv TICKSPERSEC \<and> y sdiv TICKSPERSEC < 2 ^ 32 \<longleftrightarrow> - 10000000 < y \<and> y < 2 ^ 32 * 10000000" for y :: int
proof (cases "0 \<le> y")
  case True
  then show ?thesis unfolding sdiv_ticks if_P [OF True] by (simp add: div_ticks_less pos_imp_zdiv_nonneg_iff)
next
  case False
  have "0 \<le> - (- y div 10000000) \<longleftrightarrow> - y < 10000000"
    using False div_pos_pos_trivial [of "- y" 10000000] pos_imp_zdiv_pos_iff [of 10000000 "- y"] by force
  moreover have "- (- y div 10000000) < 2 ^ 32" using pos_imp_zdiv_nonneg_iff [of 10000000 "- y"] False by simp
  ultimately show ?thesis using False unfolding sdiv_ticks if_not_P [OF False] by auto
qed

lemma seconds_between:
  "(let x = word_of_int (sint (y :: LARGE_INTEGER) sdiv TICKSPERSEC) :: LARGE_INTEGER
    in if drop_bit 32 x \<noteq> 0 then None else Some (ucast x)) =
   (if - 10000000 < sint y \<and> sint y < 2 ^ 32 * 10000000 then Some (word_of_int (sint y sdiv TICKSPERSEC) :: ULONG) else None)"
proof -
  define v where "v = sint y sdiv TICKSPERSEC"
  define x :: LARGE_INTEGER where "x = word_of_int v"
  have "- (2 ^ 63) \<le> sint y" "sint y < 2 ^ 63" using sint_ge [of y] sint_less [of y] by simp_all
  then have v: "- (2 ^ 63) \<le> v" "v < 2 ^ 63" unfolding v_def sdiv_ticks by (auto simp: div_ticks_less)
  have u: "uint x = (if 0 \<le> v then v else v + 2 ^ 64)"
    using v mod_pos_pos_trivial [of v "2 ^ 64"] mod_pos_pos_trivial [of "v + 2 ^ 64" "2 ^ 64"]
    by (auto simp: x_def unsigned_of_int take_bit_eq_mod)
  have "drop_bit 32 x = 0 \<longleftrightarrow> uint (drop_bit 32 x) = 0" by (simp only: uint_0_iff)
  also have "\<dots> \<longleftrightarrow> uint x < 2 ^ 32"
    by (auto simp: drop_bit_eq_div uint_div zdiv_eq_0_iff)
  also have "\<dots> \<longleftrightarrow> 0 \<le> v \<and> v < 2 ^ 32" using v unfolding u by auto
  also have "\<dots> \<longleftrightarrow> - 10000000 < sint y \<and> sint y < 2 ^ 32 * 10000000" unfolding v_def by (rule sdiv_ticks_range)
  finally have "drop_bit 32 x = 0 \<longleftrightarrow> - 10000000 < sint y \<and> sint y < 2 ^ 32 * 10000000" .
  moreover have "(ucast x :: ULONG) = word_of_int v" by (simp add: x_def unsigned_of_int unsigned_word_eqI)
  ultimately show ?thesis unfolding v_def [symmetric] x_def [symmetric] Let_def by auto
qed

lemma seconds_ticks: "sint (ucast (s :: ULONG) * word_of_int TICKSPERSEC :: LARGE_INTEGER) = uint s * TICKSPERSEC"
proof -
  obtain u where u: "uint s = u" "0 \<le> u" "u < 2 ^ 32" using unsigned_less [of s] by simp
  have "(ucast s * word_of_int TICKSPERSEC :: LARGE_INTEGER) = of_int (u * TICKSPERSEC)" unfolding u(1) [symmetric] by simp
  then show ?thesis using u(2,3) unfolding u(1) by (simp only: signed_of_int) (simp add: signed_take_bit_int_eq_self)
qed

text \<open>
  A number of seconds since 1970 (1980) converted to a time and back is unchanged, and a time has such a
  number exactly when it lies less than one second before that year or before the end of the
  range of 32 bits; the number is then rounded towards zero.
\<close>

theorem seconds_roundtrip:
  "RtlTimeToSecondsSince1970 (RtlSecondsSince1970ToTime s) = Some s \<and>
   RtlTimeToSecondsSince1980 (RtlSecondsSince1980ToTime s) = Some s \<and>
   RtlTimeToSecondsSince1970 t =
     (if - 10000000 < sint (t - TICKSTO1970) \<and> sint (t - TICKSTO1970) < 2 ^ 32 * 10000000
      then Some (word_of_int (sint (t - TICKSTO1970) sdiv 10000000)) else None) \<and>
   RtlTimeToSecondsSince1980 t =
     (if - 10000000 < sint (t - TICKSTO1980) \<and> sint (t - TICKSTO1980) < 2 ^ 32 * 10000000
      then Some (word_of_int (sint (t - TICKSTO1980) sdiv 10000000)) else None)"
proof -
  obtain u where u: "uint s = u" "0 \<le> u" "u < 2 ^ 32" using unsigned_less [of s] by simp
  then have "uint s * TICKSPERSEC sdiv TICKSPERSEC = uint s" "- 10000000 < uint s * TICKSPERSEC" "uint s * TICKSPERSEC < 2 ^ 32 * 10000000"
    unfolding u(1) by (simp_all add: sdiv_ticks)
  then show ?thesis
    unfolding RtlTimeToSecondsSince1970_def RtlTimeToSecondsSince1980_def RtlSecondsSince1970ToTime_def RtlSecondsSince1980ToTime_def
      seconds_between unfolding Let_def add_diff_cancel_right' seconds_ticks by simp
qed

section \<open>Examples\<close>

definition leap_day :: TIME_FIELDS where
  "leap_day = \<lparr>Year = 2000, Month = 2, Day = 29, Hour = 12, Minute = 34, Second = 56, Milliseconds = 789, Weekday = 0\<rparr>"

lemma leap_day_time: "RtlTimeFieldsToTime leap_day = Some 125963012967890000"
  by (simp add: leap_day_def RtlTimeFieldsToTime_def MonthLengths_def IsLeapYear_def DaysSinceEpoch_def upt_rec)

theorem time_fields_roundtrip_witness: "RtlTimeToTimeFields 125963012967890000 = Some (leap_day\<lparr>Weekday := 2\<rparr>)"
  using time_fields_roundtrip [OF leap_day_time] by simp

text \<open>The last years of the field are accepted, but their time no longer fits into a signed 64-bit number.\<close>

lemma late_year_negative:
  "\<exists>t. RtlTimeFieldsToTime (leap_day\<lparr>Year := 32000\<rparr>) = Some t \<and> sint t < 0"
  by (simp add: leap_day_def RtlTimeFieldsToTime_def MonthLengths_def IsLeapYear_def DaysSinceEpoch_def upt_rec)

text \<open>Summer time begins on the last Sunday of March.\<close>

definition last_sunday_of_march :: TIME_FIELDS where
  "last_sunday_of_march = \<lparr>Year = 0, Month = 3, Day = 5, Hour = 2, Minute = 0, Second = 0, Milliseconds = 0, Weekday = 0\<rparr>"

theorem RtlCutoverTimeToSystemTime_recurring_witness:
  "\<exists>t d. RtlCutoverTimeToSystemTime last_sunday_of_march 125963012967890000 True = Some t \<and>
     RtlTimeToTimeFields t = Some (last_sunday_of_march\<lparr>Year := 2000, Day := d\<rparr>) \<and> nth_weekday d 5 31"
proof -
  have cur: "RtlTimeToTimeFields 125963012967890000 = Some (leap_day\<lparr>Weekday := 2\<rparr>)"
    using time_fields_back [OF leap_day_time] by simp
  have ok: "Year last_sunday_of_march = 0" "RtlTimeFieldsToTime (last_sunday_of_march\<lparr>Year := 2000, Day := 1\<rparr>) \<noteq> None"
    "1 \<le> sint (Day last_sunday_of_march)" "sint (Day last_sunday_of_march) \<le> 5" "0 \<le> sint (Weekday last_sunday_of_march)"
    "sint (Weekday last_sunday_of_march) < 7"
    by (simp_all add: last_sunday_of_march_def RtlTimeFieldsToTime_def MonthLengths_def IsLeapYear_def)
  show ?thesis
    using RtlCutoverTimeToSystemTime_recurring [OF ok cur, of True]
    by (auto simp: leap_day_def cutover_in_def last_sunday_of_march_def MonthLengths_def IsLeapYear_def)
qed

end
