(* ===== verification/Rtl_Range.thy ===== *)
theory Rtl_Range
  imports Ros_Prelude
begin

text \<open>
  Range lists, by which the kernel arbitrates resources: \<^verbatim>\<open>sdk/lib/rtl/rangelist.c\<close>.

  The doubly linked list of entries is a list of ranges, from \<^verbatim>\<open>ListHead.Flink\<close> on.  Allocations take
  their success from an argument.  \<^verbatim>\<open>None\<close> stands for undefined behaviour: a link that is read from
  an entry that no longer exists.
\<close>

section \<open>Data\<close>

record RTL_RANGE =
  Range_Start :: ULONGLONG
  Range_End :: ULONGLONG
  Range_UserData :: nat
  Range_Owner :: nat
  Range_Attributes :: UCHAR
  Range_Flags :: UCHAR

record RTL_RANGE_LIST =
  ListHead :: "RTL_RANGE list"
  List_Flags :: ULONG
  List_Count :: ULONG
  List_Stamp :: ULONG

text \<open>The current entry of an iterator is its position in the list.\<close>

record RTL_RANGE_LIST_ITERATOR =
  Iterator_Current :: "nat option"
  Iterator_Stamp :: ULONG

abbreviation (input) RTL_RANGE_LIST_ADD_SHARED :: ULONG where "RTL_RANGE_LIST_ADD_SHARED \<equiv> 2"
abbreviation (input) RTL_RANGE_SHARED :: UCHAR where "RTL_RANGE_SHARED \<equiv> 1"

section \<open>Operations\<close>

definition RtlInitializeRangeList :: RTL_RANGE_LIST where
  "RtlInitializeRangeList = \<lparr>ListHead = [], List_Flags = 0, List_Count = 0, List_Stamp = 0\<rparr>"

fun insert_range :: "RTL_RANGE \<Rightarrow> RTL_RANGE list \<Rightarrow> RTL_RANGE list" where
  "insert_range RangeEntry [] = [RangeEntry]"
| "insert_range RangeEntry (Current # rest) =
     (if Range_Start Current > Range_End RangeEntry then RangeEntry # Current # rest
      else Current # insert_range RangeEntry rest)"

definition RtlAddRange ::
  "bool \<Rightarrow> RTL_RANGE_LIST \<Rightarrow> ULONGLONG \<Rightarrow> ULONGLONG \<Rightarrow> UCHAR \<Rightarrow> ULONG \<Rightarrow> nat \<Rightarrow> nat \<Rightarrow> NTSTATUS \<times> RTL_RANGE_LIST" where
  "RtlAddRange pool RangeList Start End Attributes Flags UserData Owner =
     (if Start > End then (STATUS_INVALID_PARAMETER, RangeList)
      else if \<not> pool then (STATUS_INSUFFICIENT_RESOURCES, RangeList)
      else
        let RangeEntry = \<lparr>Range_Start = Start, Range_End = End, Range_UserData = UserData, Range_Owner = Owner,
              Range_Attributes = Attributes,
              Range_Flags = (if Flags AND RTL_RANGE_LIST_ADD_SHARED \<noteq> 0 then RTL_RANGE_SHARED else 0)\<rparr>
        in (STATUS_SUCCESS,
            RangeList\<lparr>ListHead := (if List_Count RangeList = 0 then ListHead RangeList @ [RangeEntry]
                                    else insert_range RangeEntry (ListHead RangeList)),
                      List_Count := List_Count RangeList + 1, List_Stamp := List_Stamp RangeList + 1\<rparr>))"

text \<open>The loop of \<^verbatim>\<open>RtlCopyRangeList\<close>; \<open>pool n\<close> tells whether the \<open>n\<close>-th allocation succeeds.\<close>

fun copy_ranges :: "(nat \<Rightarrow> bool) \<Rightarrow> nat \<Rightarrow> RTL_RANGE list \<Rightarrow> RTL_RANGE_LIST \<Rightarrow> NTSTATUS \<times> RTL_RANGE_LIST" where
  "copy_ranges pool n [] CopyRangeList = (STATUS_SUCCESS, CopyRangeList\<lparr>List_Stamp := List_Stamp CopyRangeList + 1\<rparr>)"
| "copy_ranges pool n (Current # rest) CopyRangeList =
     (if \<not> pool n then (STATUS_INSUFFICIENT_RESOURCES, CopyRangeList)
      else copy_ranges pool (n + 1) rest
             (CopyRangeList\<lparr>ListHead := ListHead CopyRangeList @ [Current], List_Count := List_Count CopyRangeList + 1\<rparr>))"

definition RtlCopyRangeList :: "(nat \<Rightarrow> bool) \<Rightarrow> RTL_RANGE_LIST \<Rightarrow> RTL_RANGE_LIST \<Rightarrow> NTSTATUS \<times> RTL_RANGE_LIST" where
  "RtlCopyRangeList pool CopyRangeList RangeList =
     copy_ranges pool 0 (ListHead RangeList) (CopyRangeList\<lparr>List_Flags := List_Flags RangeList\<rparr>)"

text \<open>
  The loop of \<^verbatim>\<open>RtlDeleteOwnersRanges\<close> over the entries that follow \<open>kept\<close>.  The entry is freed before its
  link is read: \<open>intact\<close> tells whether the freed block still holds it.
\<close>

fun delete_owners_loop ::
  "(RTL_RANGE \<Rightarrow> bool) \<Rightarrow> nat \<Rightarrow> RTL_RANGE list \<Rightarrow> RTL_RANGE list \<Rightarrow> RTL_RANGE_LIST \<Rightarrow> RTL_RANGE_LIST option" where
  "delete_owners_loop intact Owner kept [] RangeList = Some (RangeList\<lparr>ListHead := kept\<rparr>)"
| "delete_owners_loop intact Owner kept (Current # rest) RangeList =
     (if Range_Owner Current = Owner
      then
        if \<not> intact Current then None
        else delete_owners_loop intact Owner kept rest
               (RangeList\<lparr>List_Count := List_Count RangeList - 1, List_Stamp := List_Stamp RangeList + 1\<rparr>)
      else delete_owners_loop intact Owner (kept @ [Current]) rest RangeList)"

definition RtlDeleteOwnersRanges :: "(RTL_RANGE \<Rightarrow> bool) \<Rightarrow> RTL_RANGE_LIST \<Rightarrow> nat \<Rightarrow> (NTSTATUS \<times> RTL_RANGE_LIST) option" where
  "RtlDeleteOwnersRanges intact RangeList Owner =
     (case delete_owners_loop intact Owner [] (ListHead RangeList) RangeList of
        None \<Rightarrow> None | Some RangeList \<Rightarrow> Some (STATUS_SUCCESS, RangeList))"

fun delete_range_loop :: "ULONGLONG \<Rightarrow> ULONGLONG \<Rightarrow> nat \<Rightarrow> RTL_RANGE list \<Rightarrow> RTL_RANGE list option" where
  "delete_range_loop Start End Owner [] = None"
| "delete_range_loop Start End Owner (Current # rest) =
     (if Range_Start Current = Start \<and> Range_End Current = End \<and> Range_Owner Current = Owner then Some rest
      else map_option ((#) Current) (delete_range_loop Start End Owner rest))"

definition RtlDeleteRange :: "RTL_RANGE_LIST \<Rightarrow> ULONGLONG \<Rightarrow> ULONGLONG \<Rightarrow> nat \<Rightarrow> NTSTATUS \<times> RTL_RANGE_LIST" where
  "RtlDeleteRange RangeList Start End Owner =
     (case delete_range_loop Start End Owner (ListHead RangeList) of
        None \<Rightarrow> (STATUS_RANGE_NOT_FOUND, RangeList)
      | Some ranges \<Rightarrow> (STATUS_SUCCESS, RangeList\<lparr>ListHead := ranges, List_Count := List_Count RangeList - 1,
                                             List_Stamp := List_Stamp RangeList + 1\<rparr>))"

text \<open>
  The highest aligned start below the following entry \<open>NextEntry\<close>, as \<^verbatim>\<open>RtlFindRange\<close> computes it;
  \<open>None\<close> is the return with \<^verbatim>\<open>STATUS_RANGE_NOT_FOUND\<close>.
\<close>

definition range_candidate ::
  "ULONGLONG \<Rightarrow> ULONGLONG \<Rightarrow> ULONG \<Rightarrow> ULONG \<Rightarrow> RTL_RANGE option \<Rightarrow> ULONGLONG option" where
  "range_candidate Minimum Maximum Length Alignment NextEntry =
     (let RangeMax = (case NextEntry of Some r \<Rightarrow> Range_Start r - 1 | None \<Rightarrow> Maximum)
      in if RangeMax + ucast (Length - 1) < Minimum then None
         else
           let RangeMin = ucast (ROUND_DOWN (ucast (RangeMax - ucast (Length - 1))) Alignment)
           in if RangeMin < Minimum \<or> RangeMax - RangeMin < ucast (Length - 1) then None else Some RangeMin)"

text \<open>The loop runs backwards: over the reversed list.\<close>

fun find_range_loop ::
  "ULONGLONG \<Rightarrow> ULONGLONG \<Rightarrow> ULONG \<Rightarrow> ULONG \<Rightarrow> RTL_RANGE option \<Rightarrow> RTL_RANGE list \<Rightarrow> NTSTATUS \<times> ULONGLONG option" where
  "find_range_loop Minimum Maximum Length Alignment NextEntry [] =
     (case range_candidate Minimum Maximum Length Alignment NextEntry of
        None \<Rightarrow> (STATUS_RANGE_NOT_FOUND, None) | Some RangeMin \<Rightarrow> (STATUS_SUCCESS, Some RangeMin))"
| "find_range_loop Minimum Maximum Length Alignment NextEntry (CurrentEntry # rest) =
     (case range_candidate Minimum Maximum Length Alignment NextEntry of
        None \<Rightarrow> (STATUS_RANGE_NOT_FOUND, None)
      | Some RangeMin \<Rightarrow>
          if RangeMin > Range_End CurrentEntry then (STATUS_SUCCESS, Some RangeMin)
          else find_range_loop Minimum Maximum Length Alignment (Some CurrentEntry) rest)"

definition RtlFindRange ::
  "RTL_RANGE_LIST \<Rightarrow> ULONGLONG \<Rightarrow> ULONGLONG \<Rightarrow> ULONG \<Rightarrow> ULONG \<Rightarrow> NTSTATUS \<times> ULONGLONG option" where
  "RtlFindRange RangeList Minimum Maximum Length Alignment =
     (if Alignment = 0 \<or> Length = 0 then (STATUS_INVALID_PARAMETER, None)
      else if ListHead RangeList = []
      then (STATUS_SUCCESS, Some (ucast (ROUND_DOWN (ucast (Maximum - ucast (Length - 1))) Alignment)))
      else find_range_loop Minimum Maximum Length Alignment None (rev (ListHead RangeList)))"

definition RtlFreeRangeList :: "RTL_RANGE_LIST \<Rightarrow> RTL_RANGE_LIST" where
  "RtlFreeRangeList RangeList = RangeList\<lparr>ListHead := [], List_Flags := 0, List_Count := 0\<rparr>"

definition RtlGetFirstRange :: "RTL_RANGE_LIST \<Rightarrow> NTSTATUS \<times> RTL_RANGE_LIST_ITERATOR \<times> RTL_RANGE option" where
  "RtlGetFirstRange RangeList =
     (case ListHead RangeList of
        [] \<Rightarrow> (STATUS_NO_MORE_ENTRIES, \<lparr>Iterator_Current = None, Iterator_Stamp = List_Stamp RangeList\<rparr>, None)
      | r # _ \<Rightarrow> (STATUS_SUCCESS, \<lparr>Iterator_Current = Some 0, Iterator_Stamp = List_Stamp RangeList\<rparr>, Some r))"

text \<open>
  The result: the status, the iterator and the range, where the outer \<open>None\<close> of the range is a pointer
  that is not written.
\<close>

definition RtlGetNextRange ::
  "RTL_RANGE_LIST \<Rightarrow> RTL_RANGE_LIST_ITERATOR \<Rightarrow> bool \<Rightarrow> (NTSTATUS \<times> RTL_RANGE_LIST_ITERATOR \<times> RTL_RANGE option option) option" where
  "RtlGetNextRange RangeList Iterator MoveForwards =
     (if Iterator_Stamp Iterator \<noteq> List_Stamp RangeList then Some (STATUS_INVALID_PARAMETER, Iterator, None)
      else
        case Iterator_Current Iterator of
          None \<Rightarrow> Some (STATUS_NO_MORE_ENTRIES, Iterator, Some None)
        | Some i \<Rightarrow>
            if i \<ge> length (ListHead RangeList) then None
            else
              let Next = (if MoveForwards then (if i + 1 < length (ListHead RangeList) then Some (i + 1) else None)
                          else (if i = 0 then None else Some (i - 1)))
              in case Next of
                   None \<Rightarrow> Some (STATUS_NO_MORE_ENTRIES, Iterator\<lparr>Iterator_Current := None\<rparr>, Some None)
                 | Some j \<Rightarrow> Some (STATUS_SUCCESS, Iterator\<lparr>Iterator_Current := Some j\<rparr>, Some (Some (ListHead RangeList ! j))))"

text \<open>
  The loop of \<^verbatim>\<open>RtlInvertRangeList\<close>, with the previous entry and the number of the next allocation; the
  result has both at the end of the loop.
\<close>

fun invert_loop ::
  "(nat \<Rightarrow> bool) \<Rightarrow> nat \<Rightarrow> RTL_RANGE option \<Rightarrow> RTL_RANGE list \<Rightarrow> RTL_RANGE_LIST \<Rightarrow>
     NTSTATUS \<times> nat \<times> RTL_RANGE option \<times> RTL_RANGE_LIST" where
  "invert_loop pool n Previous [] Inverted = (STATUS_SUCCESS, n, Previous, Inverted)"
| "invert_loop pool n Previous (Current # rest) Inverted =
     (let gap = (case Previous of
                   None \<Rightarrow> if Range_Start Current \<noteq> 0 then Some (0, Range_Start Current - 1) else None
                 | Some p \<Rightarrow> if Range_End p + 1 \<noteq> Range_Start Current
                            then Some (Range_End p + 1, Range_Start Current - 1) else None)
      in case gap of
           None \<Rightarrow> invert_loop pool n (Some Current) rest Inverted
         | Some (a, b) \<Rightarrow>
             (case RtlAddRange (pool n) Inverted a b 0 0 0 0 of
                (Status, Inverted) \<Rightarrow>
                  if \<not> NT_SUCCESS Status then (Status, n, Previous, Inverted)
                  else invert_loop pool (n + 1) (Some Current) rest Inverted))"

definition RtlInvertRangeList :: "(nat \<Rightarrow> bool) \<Rightarrow> RTL_RANGE_LIST \<Rightarrow> RTL_RANGE_LIST \<Rightarrow> NTSTATUS \<times> RTL_RANGE_LIST" where
  "RtlInvertRangeList pool InvertedRangeList RangeList =
     (case invert_loop pool 0 None (ListHead RangeList) InvertedRangeList of
        (Status, n, Previous, Inverted) \<Rightarrow>
          if \<not> NT_SUCCESS Status then (Status, Inverted)
          else
            case Previous of
              None \<Rightarrow> (STATUS_SUCCESS, Inverted)
            | Some p \<Rightarrow>
                if Range_End p + 1 \<noteq> -1
                then
                  (case RtlAddRange (pool n) Inverted (Range_End p + 1) (-1) 0 0 0 0 of
                     (Status, Inverted) \<Rightarrow> if \<not> NT_SUCCESS Status then (Status, Inverted) else (STATUS_SUCCESS, Inverted))
                else (STATUS_SUCCESS, Inverted))"

text \<open>The callback is \<open>None\<close> for \<^verbatim>\<open>NULL\<close>; every entry that counts as a conflict sets the result anew.\<close>

fun available_loop ::
  "(RTL_RANGE \<Rightarrow> bool) option \<Rightarrow> ULONGLONG \<Rightarrow> ULONGLONG \<Rightarrow> ULONG \<Rightarrow> bool \<Rightarrow> RTL_RANGE list \<Rightarrow> bool" where
  "available_loop Callback Start End Flags Available [] = Available"
| "available_loop Callback Start End Flags Available (Current # rest) =
     available_loop Callback Start End Flags
       (if \<not> (Range_Start Current \<ge> End \<and> Range_End Current > End \<or>
              Range_Start Current \<le> Start \<and> Range_End Current < Start \<and>
              (Flags AND ucast RTL_RANGE_SHARED = 0 \<or> Range_Flags Current AND RTL_RANGE_SHARED = 0))
        then (case Callback of Some f \<Rightarrow> f Current | None \<Rightarrow> False)
        else Available)
       rest"

definition RtlIsRangeAvailable ::
  "RTL_RANGE_LIST \<Rightarrow> ULONGLONG \<Rightarrow> ULONGLONG \<Rightarrow> ULONG \<Rightarrow> UCHAR \<Rightarrow> nat \<Rightarrow>
     (nat \<Rightarrow> RTL_RANGE \<Rightarrow> bool) option \<Rightarrow> NTSTATUS \<times> bool" where
  "RtlIsRangeAvailable RangeList Start End Flags AttributeAvailableMask Context Callback =
     (STATUS_SUCCESS,
      available_loop (map_option (\<lambda>f. f Context) Callback) Start End Flags True (ListHead RangeList))"

text \<open>The loop of \<^verbatim>\<open>RtlMergeRangeLists\<close>; \<open>None\<close> also stands for a loop that does not end.\<close>

partial_function (option) merge_loop ::
  "(nat \<Rightarrow> bool) \<Rightarrow> nat \<Rightarrow> ULONG \<Rightarrow> RTL_RANGE_LIST \<Rightarrow> RTL_RANGE_LIST_ITERATOR \<Rightarrow> RTL_RANGE \<Rightarrow> RTL_RANGE_LIST \<Rightarrow>
     (NTSTATUS \<times> RTL_RANGE_LIST) option" where
  "merge_loop pool n Flags RangeList2 Iterator Entry Merged =
     (case RtlAddRange (pool n) Merged (Range_Start Entry) (Range_End Entry) (Range_Attributes Entry)
             (ucast (Range_Flags Entry) OR Flags) (Range_UserData Entry) (Range_Owner Entry) of
        (Status, Merged) \<Rightarrow>
          if \<not> NT_SUCCESS Status then Some (Status, Merged)
          else
            case RtlGetNextRange RangeList2 Iterator True of
              None \<Rightarrow> None
            | Some (Status, Iterator, r) \<Rightarrow>
                if \<not> NT_SUCCESS Status then Some (Status, Merged)
                else
                  (case r of
                     Some (Some Entry) \<Rightarrow> merge_loop pool (n + 1) Flags RangeList2 Iterator Entry Merged
                   | _ \<Rightarrow> None))"

definition RtlMergeRangeLists ::
  "(nat \<Rightarrow> bool) \<Rightarrow> RTL_RANGE_LIST \<Rightarrow> RTL_RANGE_LIST \<Rightarrow> RTL_RANGE_LIST \<Rightarrow> ULONG \<Rightarrow> (NTSTATUS \<times> RTL_RANGE_LIST) option" where
  "RtlMergeRangeLists pool MergedRangeList RangeList1 RangeList2 Flags =
     (case RtlCopyRangeList pool MergedRangeList RangeList1 of
        (Status, Merged) \<Rightarrow>
          if \<not> NT_SUCCESS Status then Some (Status, Merged)
          else
            case RtlGetFirstRange RangeList2 of
              (Status, Iterator, Entry) \<Rightarrow>
                if \<not> NT_SUCCESS Status then Some (if Status = STATUS_NO_MORE_ENTRIES then STATUS_SUCCESS else Status, Merged)
                else
                  (case Entry of
                     None \<Rightarrow> None
                   | Some r \<Rightarrow>
                       (case merge_loop pool (length (ListHead RangeList1)) Flags RangeList2 Iterator r Merged of
                          None \<Rightarrow> None
                        | Some (Status, Merged) \<Rightarrow>
                            Some (if Status = STATUS_NO_MORE_ENTRIES then STATUS_SUCCESS else Status, Merged))))"

end
