(* ===== verification/Rtl_Range_Spec.thy ===== *)
theory Rtl_Range_Spec
  imports Rtl_Range
begin

text \<open>
  Range lists as sets of addresses: what the operations of \<^verbatim>\<open>rangelist.c\<close> do to the set that a list
  covers, on lists whose ranges are in order and do not overlap.
\<close>

section \<open>The covered addresses\<close>

definition cells :: "RTL_RANGE \<Rightarrow> nat set" where
  "cells r = {unat (Range_Start r)..unat (Range_End r)}"

definition covered :: "RTL_RANGE list \<Rightarrow> nat set" where
  "covered rs = (\<Union>r \<in> set rs. cells r)"

definition ordered :: "RTL_RANGE list \<Rightarrow> bool" where
  "ordered rs \<longleftrightarrow> sorted_wrt (\<lambda>a b. Range_End a < Range_Start b) rs \<and> (\<forall>r \<in> set rs. Range_Start r \<le> Range_End r)"

definition range_list_ok :: "RTL_RANGE_LIST \<Rightarrow> bool" where
  "range_list_ok RangeList \<longleftrightarrow> ordered (ListHead RangeList) \<and> List_Count RangeList = of_nat (length (ListHead RangeList)) \<and>
     length (ListHead RangeList) < 2 ^ 32"

lemma covered_simps [simp]:
  "covered [] = {}" "covered (r # rs) = cells r \<union> covered rs" "covered (xs @ ys) = covered xs \<union> covered ys"
  by (auto simp: covered_def)

lemma ordered_Nil [simp]: "ordered []"
  by (simp add: ordered_def)

lemma ordered_Cons:
  "ordered (r # rs) \<longleftrightarrow> Range_Start r \<le> Range_End r \<and> (\<forall>x \<in> set rs. Range_End r < Range_Start x) \<and> ordered rs"
  by (auto simp: ordered_def)

lemma ordered_append:
  "ordered (xs @ ys) \<longleftrightarrow> ordered xs \<and> ordered ys \<and> (\<forall>x \<in> set xs. \<forall>y \<in> set ys. Range_End x < Range_Start y)"
  by (auto simp: ordered_def sorted_wrt_append)

lemma count_0_iff: "range_list_ok rl \<Longrightarrow> List_Count rl = 0 \<longleftrightarrow> ListHead rl = []"
  using unat_of_nat_32 [of "length (ListHead rl)"] by (auto simp: range_list_ok_def)

lemma range_list_ok_init: "range_list_ok RtlInitializeRangeList"
  by (simp add: range_list_ok_def RtlInitializeRangeList_def)

section \<open>Adding and deleting\<close>

lemma set_insert_range [simp]: "set (insert_range e rs) = insert e (set rs)" "length (insert_range e rs) = Suc (length rs)"
  by (induction rs) auto

lemma covered_insert_range [simp]: "covered (insert_range e rs) = cells e \<union> covered rs"
  by (simp add: covered_def)

lemma insert_range_last: "\<forall>r \<in> set rs. \<not> Range_End e < Range_Start r \<Longrightarrow> insert_range e rs = rs @ [e]"
  by (induction rs) auto

lemma cells_disjoint:
  assumes "Range_Start a \<le> Range_End a" "Range_Start b \<le> Range_End b"
  shows "cells a \<inter> cells b = {} \<longleftrightarrow> Range_End a < Range_Start b \<or> Range_End b < Range_Start a"
  using assms by (auto simp: cells_def word_le_nat_alt word_less_nat_alt not_less)

lemma ordered_insert_range:
  assumes "ordered rs" "Range_Start e \<le> Range_End e" "cells e \<inter> covered rs = {}"
  shows "ordered (insert_range e rs)"
  using assms
proof (induction rs)
  case (Cons r rs)
  have "cells e \<inter> cells r = {}" "cells e \<inter> covered rs = {}" using Cons.prems(3) by auto
  with Cons show ?case
    using cells_disjoint [of e r] by (force simp: ordered_Cons)
qed (simp add: ordered_Cons)

lemma RtlAddRange_free:
  assumes "range_list_ok rl" "length (ListHead rl) + 1 < 2 ^ 32" "{unat Start..unat End} \<inter> covered (ListHead rl) = {}"
    and "RtlAddRange pool rl Start End a f u ow = (st, rl')"
  shows "range_list_ok rl' \<and>
    covered (ListHead rl') = (if st = STATUS_SUCCESS then covered (ListHead rl) \<union> {unat Start..unat End} else covered (ListHead rl))"
proof (cases "Start > End \<or> \<not> pool")
  case True
  then have "rl' = rl" "st \<noteq> STATUS_SUCCESS" using assms(4) by (auto simp: RtlAddRange_def split: if_splits)
  then show ?thesis using assms(1) by simp
next
  case False
  define e where "e = \<lparr>Range_Start = Start, Range_End = End, Range_UserData = u, Range_Owner = ow, Range_Attributes = a,
      Range_Flags = (if f AND RTL_RANGE_LIST_ADD_SHARED \<noteq> 0 then RTL_RANGE_SHARED else 0)\<rparr>"
  have e: "Range_Start e = Start" "Range_End e = End" "st = STATUS_SUCCESS"
    "rl' = rl\<lparr>ListHead := (if List_Count rl = 0 then ListHead rl @ [e] else insert_range e (ListHead rl)),
        List_Count := List_Count rl + 1, List_Stamp := List_Stamp rl + 1\<rparr>"
    using assms(4) False by (auto simp: RtlAddRange_def Let_def e_def)
  have c: "cells e = {unat Start..unat End}" by (simp add: cells_def e)
  have "ListHead rl' = insert_range e (ListHead rl)" using count_0_iff [OF assms(1)] by (auto simp: e(4))
  then show ?thesis
    using assms(1-3) ordered_insert_range [of "ListHead rl" e] False
    by (auto simp: range_list_ok_def e c)
qed

lemma delete_range_loop_Some:
  "delete_range_loop s t ow rs = Some rs' \<Longrightarrow>
     \<exists>xs r ys. rs = xs @ r # ys \<and> rs' = xs @ ys \<and> Range_Start r = s \<and> Range_End r = t \<and> Range_Owner r = ow"
proof (induction rs arbitrary: rs')
  case (Cons r rs)
  show ?case
  proof (cases "Range_Start r = s \<and> Range_End r = t \<and> Range_Owner r = ow")
    case True
    then show ?thesis using Cons.prems by (intro exI [of _ "[]"]) auto
  next
    case False
    then obtain zs where z: "delete_range_loop s t ow rs = Some zs" "rs' = r # zs" using Cons.prems by auto
    then obtain xs q ys where "rs = xs @ q # ys" "zs = xs @ ys" "Range_Start q = s" "Range_End q = t" "Range_Owner q = ow"
      using Cons.IH by blast
    then show ?thesis using z by (intro exI [of _ "r # xs"] exI [of _ q] exI [of _ ys]) auto
  qed
qed simp

lemma delete_range_loop_None:
  "delete_range_loop s t ow rs = None \<longleftrightarrow> \<not> (\<exists>r \<in> set rs. Range_Start r = s \<and> Range_End r = t \<and> Range_Owner r = ow)"
  by (induction rs) auto

lemma ordered_le: "ordered rs \<Longrightarrow> r \<in> set rs \<Longrightarrow> Range_Start r \<le> Range_End r"
  by (simp add: ordered_def)

lemma ordered_remove:
  assumes "ordered (xs @ r # ys)"
  shows "ordered (xs @ ys)" "covered (xs @ ys) = covered (xs @ r # ys) - cells r"
proof -
  have "cells r \<inter> cells x = {}" if "x \<in> set (xs @ ys)" for x
    using that assms cells_disjoint [of r x] by (auto simp: ordered_append ordered_Cons dest: ordered_le)
  then show "covered (xs @ ys) = covered (xs @ r # ys) - cells r" by (auto simp: covered_def)
  show "ordered (xs @ ys)" using assms by (auto simp: ordered_append ordered_Cons)
qed

lemma RtlDeleteRange_ok:
  assumes "range_list_ok rl" "RtlDeleteRange rl s t ow = (st, rl')"
  shows "range_list_ok rl' \<and> covered (ListHead rl') = (if st = STATUS_SUCCESS then covered (ListHead rl) - {unat s..unat t} else covered (ListHead rl))"
proof (cases "delete_range_loop s t ow (ListHead rl)")
  case None
  then show ?thesis using assms by (simp add: RtlDeleteRange_def)
next
  case (Some rs')
  then obtain xs r ys where l: "ListHead rl = xs @ r # ys" "rs' = xs @ ys" "Range_Start r = s" "Range_End r = t"
    using delete_range_loop_Some by blast
  have "st = STATUS_SUCCESS" "ListHead rl' = xs @ ys" "List_Count rl' = List_Count rl - 1"
    using assms(2) Some l(2) by (auto simp: RtlDeleteRange_def)
  moreover have "ordered (xs @ r # ys)" "List_Count rl = of_nat (length (xs @ ys)) + 1" "length (xs @ ys) < 2 ^ 32"
    using assms(1) l(1) by (simp_all add: range_list_ok_def)
  ultimately show ?thesis
    using ordered_remove [of xs r ys] l unfolding range_list_ok_def cells_def by simp
qed

section \<open>Deleting the ranges of an owner\<close>

lemma delete_owners_loop_eq:
  "delete_owners_loop intact ow kept rs rl =
     (if \<forall>r \<in> set rs. Range_Owner r = ow \<longrightarrow> intact r
      then Some (rl\<lparr>ListHead := kept @ filter (\<lambda>r. Range_Owner r \<noteq> ow) rs,
             List_Count := List_Count rl - of_nat (length (filter (\<lambda>r. Range_Owner r = ow) rs)),
             List_Stamp := List_Stamp rl + of_nat (length (filter (\<lambda>r. Range_Owner r = ow) rs))\<rparr>)
      else None)"
proof (induction rs arbitrary: kept rl)
  case (Cons r rs)
  show ?case by (cases "Range_Owner r = ow") (auto simp: Cons.IH algebra_simps)
qed simp

lemma ordered_filter: "ordered rs \<Longrightarrow> ordered (filter P rs)"
  by (auto simp: ordered_def sorted_wrt_filter)

lemma covered_filter: "ordered rs \<Longrightarrow> covered (filter P rs) = covered rs - covered (filter (\<lambda>r. \<not> P r) rs)"
proof (induction rs)
  case (Cons r rs)
  have "cells r \<inter> cells x = {}" if "x \<in> set rs" for x
    using that Cons.prems cells_disjoint [of r x] by (auto simp: ordered_Cons dest: ordered_le)
  then have "cells r \<inter> covered (filter Q rs) = {}" for Q by (auto simp: covered_def)
  moreover have "covered (filter (\<lambda>r. \<not> P r) rs) \<subseteq> covered rs" by (auto simp: covered_def)
  ultimately show ?case using Cons by (auto simp: ordered_Cons)
qed simp

lemma RtlDeleteOwnersRanges_ok:
  assumes "range_list_ok rl" "RtlDeleteOwnersRanges intact rl ow = Some (st, rl')"
  shows "range_list_ok rl' \<and> covered (ListHead rl') = covered (ListHead rl) - covered (filter (\<lambda>r. Range_Owner r = ow) (ListHead rl))"
proof -
  define rs where "rs = ListHead rl"
  have n: "length rs = length (filter (\<lambda>r. Range_Owner r = ow) rs) + length (filter (\<lambda>r. Range_Owner r \<noteq> ow) rs)"
    by (rule sum_length_filter_compl [symmetric])
  have "ListHead rl' = filter (\<lambda>r. Range_Owner r \<noteq> ow) rs" "List_Count rl' = List_Count rl - of_nat (length (filter (\<lambda>r. Range_Owner r = ow) rs))"
    using assms(2) by (auto simp: RtlDeleteOwnersRanges_def delete_owners_loop_eq rs_def split: if_splits)
  moreover have "(of_nat (length rs) :: ULONG) = of_nat (length (filter (\<lambda>r. Range_Owner r = ow) rs)) + of_nat (length (filter (\<lambda>r. Range_Owner r \<noteq> ow) rs))"
    by (subst n) (rule of_nat_add)
  ultimately show ?thesis
    using assms(1) n covered_filter [of rs "\<lambda>r. Range_Owner r \<noteq> ow"]
    by (auto simp: range_list_ok_def rs_def ordered_filter)
qed

text \<open>When a freed block does not keep its contents, nothing can be deleted safely.\<close>

lemma RtlDeleteOwnersRanges_stale:
  "RtlDeleteOwnersRanges (\<lambda>_. False) rl ow = None \<longleftrightarrow> (\<exists>r \<in> set (ListHead rl). Range_Owner r = ow)"
  by (auto simp: RtlDeleteOwnersRanges_def delete_owners_loop_eq)

section \<open>Runs\<close>

text \<open>The uses of a range list, with the set of addresses that it should cover.\<close>

inductive range_run :: "RTL_RANGE_LIST \<Rightarrow> nat set \<Rightarrow> bool" where
  run_init: "range_run RtlInitializeRangeList {}"
| run_add: "range_run rl A \<Longrightarrow> length (ListHead rl) + 1 < 2 ^ 32 \<Longrightarrow> {unat Start..unat End} \<inter> A = {} \<Longrightarrow>
    RtlAddRange pool rl Start End a f u ow = (st, rl') \<Longrightarrow>
    range_run rl' (if st = STATUS_SUCCESS then A \<union> {unat Start..unat End} else A)"
| run_delete: "range_run rl A \<Longrightarrow> RtlDeleteRange rl Start End ow = (st, rl') \<Longrightarrow>
    range_run rl' (if st = STATUS_SUCCESS then A - {unat Start..unat End} else A)"
| run_delete_owner: "range_run rl A \<Longrightarrow> RtlDeleteOwnersRanges intact rl ow = Some (st, rl') \<Longrightarrow>
    range_run rl' (A - covered (filter (\<lambda>r. Range_Owner r = ow) (ListHead rl)))"
| run_free: "range_run rl A \<Longrightarrow> range_run (RtlFreeRangeList rl) {}"


end
