(* ===== verification/Rtl_Range_Find.thy ===== *)
theory Rtl_Range_Find
  imports Rtl_Range_Spec
begin

text \<open>
  The searches in a range list: \<^verbatim>\<open>RtlFindRange\<close> and \<^verbatim>\<open>RtlIsRangeAvailable\<close>.
\<close>

section \<open>Conversions\<close>

lemma unat_ucast_64: "unat (ucast (x :: ULONG) :: ULONGLONG) = unat x"
  using unat_32_less [of x] by (simp add: unsigned_ucast_eq take_bit_nat_eq_self)

lemma unat_ucast_32: "unat (y :: ULONGLONG) < 2 ^ 32 \<Longrightarrow> unat (ucast y :: ULONG) = unat y"
  by (simp add: unsigned_ucast_eq take_bit_nat_eq_self)

section \<open>Finding a range\<close>

text \<open>An aligned start at which \<open>L\<close> addresses are inside the bounds and free.\<close>

definition fits :: "nat \<Rightarrow> nat \<Rightarrow> nat \<Rightarrow> nat \<Rightarrow> nat set \<Rightarrow> nat \<Rightarrow> bool" where
  "fits lo hi L a A s \<longleftrightarrow> a dvd s \<and> lo \<le> s \<and> s + L \<le> hi + 1 \<and> {s..<s + L} \<inter> A = {}"

definition greatest_fit :: "nat \<Rightarrow> nat \<Rightarrow> nat \<Rightarrow> nat \<Rightarrow> nat set \<Rightarrow> NTSTATUS \<times> ULONGLONG option \<Rightarrow> bool" where
  "greatest_fit lo hi L a A r \<longleftrightarrow>
     (\<exists>s. r = (STATUS_SUCCESS, Some (of_nat s)) \<and> fits lo hi L a A s \<and> (\<forall>s'. fits lo hi L a A s' \<longrightarrow> s' \<le> s)) \<or>
     r = (STATUS_RANGE_NOT_FOUND, None) \<and> (\<forall>s. \<not> fits lo hi L a A s)"

definition range_bound :: "ULONGLONG \<Rightarrow> RTL_RANGE option \<Rightarrow> nat" where
  "range_bound Maximum NextEntry = (case NextEntry of Some r \<Rightarrow> unat (Range_Start r) - 1 | None \<Rightarrow> unat Maximum)"

lemma range_candidate_eq:
  assumes k: "k < 32" and L: "L \<noteq> 0" and M: "M = range_bound Maximum NextEntry" "unat L \<le> M + 1" "M < 2 ^ 32"
    and nz: "\<And>r. NextEntry = Some r \<Longrightarrow> Range_Start r \<noteq> 0"
    and m: "m = M + 1 - unat L - (M + 1 - unat L) mod 2 ^ k"
  shows "range_candidate Minimum Maximum L (2 ^ k) NextEntry = (if m < unat Minimum then None else Some (of_nat m))"
proof -
  define R where "R = (case NextEntry of Some r \<Rightarrow> Range_Start r - 1 | None \<Rightarrow> Maximum)"
  have R: "unat R = M"
    using nz by (auto simp: R_def M(1) range_bound_def unat_minus_one split: option.split)
  have L1: "unat (L - 1) = unat L - 1" "0 < unat L" using L by (simp_all add: unat_minus_one unat_gt_0)
  have u: "unat (ucast (L - 1) :: ULONGLONG) = unat L - 1" by (simp add: unat_ucast_64 L1)
  have le: "(ucast (L - 1) :: ULONGLONG) \<le> R" using M(2) u R by (simp add: word_le_nat_alt)
  have d: "unat (R - ucast (L - 1)) = M + 1 - unat L" using le u R L1(2) by (simp add: unat_sub)
  define m' :: ULONGLONG where "m' = ucast (ROUND_DOWN (ucast (R - ucast (L - 1))) (2 ^ k))"
  have "unat (ucast (R - ucast (L - 1)) :: ULONG) = M + 1 - unat L" using M(3) d L1(2) by (subst unat_ucast_32) simp_all
  then have m': "unat m' = m" by (simp add: m'_def unat_ucast_64 unat_ROUND_DOWN k m)
  have low: "m \<le> M + 1 - unat L" by (simp add: m)
  then have "m \<le> M" using L1(2) by linarith
  then have "unat (R - m') = M - m" using R m' by (simp add: unat_sub word_le_nat_alt)
  then have "\<not> R - m' < ucast (L - 1)" using u low M(2) by (simp add: word_less_nat_alt)
  moreover have "m' < Minimum \<longleftrightarrow> m < unat Minimum" by (simp add: word_less_nat_alt m')
  moreover have "m < unat Minimum" if "R + ucast (L - 1) < Minimum"
  proof -
    have "unat (R + ucast (L - 1)) = M + (unat L - 1)"
      using M(3) unat_32_less [of L] by (simp add: unat_word_ariths R u)
    then show ?thesis using that \<open>m \<le> M\<close> by (simp add: word_less_nat_alt)
  qed
  moreover have "m' = of_nat m" using m' by (metis of_nat_unat ucast_id)
  ultimately show ?thesis
    unfolding range_candidate_def R_def [symmetric] Let_def m'_def [symmetric] by auto
qed

text \<open>The rounded start is the highest aligned one.\<close>

lemma fits_le:
  assumes "fits lo M L a A s" "0 < L"
  shows "s \<le> M + 1 - L - (M + 1 - L) mod a"
proof -
  have "s \<le> M + 1 - L" "s mod a = 0" using assms by (auto simp: fits_def)
  then have "s div a \<le> (M + 1 - L) div a" by (simp add: div_le_mono)
  then have "s div a * a \<le> (M + 1 - L) div a * a" by (rule mult_le_mono1)
  moreover have "s div a * a = s" using div_mult_mod_eq [of s a] \<open>s mod a = 0\<close> by simp
  ultimately show ?thesis by (simp only: minus_mod_eq_div_mult)
qed

lemma highest_start: "L \<le> M + 1 \<Longrightarrow> a dvd (M + 1 - L - (M + 1 - L) mod a) \<and> M + 1 - L - (M + 1 - L) mod a + L \<le> M + (1 :: nat)"
  by (simp only: minus_mod_eq_div_mult) (metis add.commute diff_add div_times_less_eq_dividend dvd_triv_right nat_add_left_cancel_le le_add_diff_inverse)

lemma find_range_loop_greatest:
  assumes k: "k < 32" and L: "L \<noteq> 0"
    and "ordered (rev rs)" "\<And>r. r \<in> set rs \<Longrightarrow> unat (Range_End r) \<le> range_bound Maximum NextEntry \<and> unat L \<le> unat (Range_Start r)"
    and "unat L \<le> range_bound Maximum NextEntry + 1" "range_bound Maximum NextEntry < 2 ^ 32"
    and "\<And>r. NextEntry = Some r \<Longrightarrow> Range_Start r \<noteq> 0"
  shows "greatest_fit (unat Minimum) (range_bound Maximum NextEntry) (unat L) (2 ^ k) (covered rs)
     (find_range_loop Minimum Maximum L (2 ^ k) NextEntry rs)"
  using assms(3-)
proof (induction rs arbitrary: NextEntry)
  case Nil
  define M where "M = range_bound Maximum NextEntry"
  define m where "m = M + 1 - unat L - (M + 1 - unat L) mod 2 ^ k"
  have c: "range_candidate Minimum Maximum L (2 ^ k) NextEntry = (if m < unat Minimum then None else Some (of_nat m))"
    using Nil.prems by (intro range_candidate_eq [OF k L M_def _ _ _ m_def]) (simp_all add: M_def)
  have L0: "0 < unat L" using L by (simp add: unat_gt_0)
  have up: "s \<le> m" if "fits (unat Minimum) M (unat L) (2 ^ k) {} s" for s
    using fits_le [OF that L0] by (simp add: m_def)
  have "fits (unat Minimum) M (unat L) (2 ^ k) {} m" if "unat Minimum \<le> m"
    using that highest_start [of "unat L" M "2 ^ k"] Nil.prems(3) by (auto simp: fits_def m_def M_def)
  moreover have "\<not> fits (unat Minimum) M (unat L) (2 ^ k) {} s" if "m < unat Minimum" for s
    using up [of s] that by (auto simp: fits_def)
  ultimately show ?case
    using up by (auto simp: c greatest_fit_def M_def [symmetric] not_less)
next
  case (Cons r rs)
  define M where "M = range_bound Maximum NextEntry"
  define m where "m = M + 1 - unat L - (M + 1 - unat L) mod 2 ^ k"
  have c: "range_candidate Minimum Maximum L (2 ^ k) NextEntry = (if m < unat Minimum then None else Some (of_nat m))"
    using Cons.prems by (intro range_candidate_eq [OF k L M_def _ _ _ m_def]) (simp_all add: M_def)
  have L0: "0 < unat L" using L by (simp add: unat_gt_0)
  have up: "s \<le> m" if "fits (unat Minimum) M (unat L) (2 ^ k) A s" for s A
    using fits_le [OF that L0] by (simp add: m_def)
  have mM: "m < 2 ^ 64" using Cons.prems(4) by (simp add: m_def M_def)
  then have um: "unat (of_nat m :: ULONGLONG) = m" by (simp add: unsigned_of_nat take_bit_nat_eq_self)
  have r: "unat (Range_End r) \<le> M" "unat L \<le> unat (Range_Start r)" "Range_Start r \<le> Range_End r"
    and below: "\<And>x. x \<in> set rs \<Longrightarrow> Range_End x < Range_Start r"
    using Cons.prems(1,2) by (auto simp: M_def ordered_append ordered_Cons)
  consider (none) "m < unat Minimum" | (here) "unat Minimum \<le> m" "unat (Range_End r) < m" | (next_gap) "unat Minimum \<le> m" "m \<le> unat (Range_End r)"
    by linarith
  then show ?case
  proof cases
    case none
    then have "\<not> fits (unat Minimum) M (unat L) (2 ^ k) A s" for s A using up [of A s] by (auto simp: fits_def)
    with none show ?thesis by (simp add: c greatest_fit_def M_def [symmetric])
  next
    case here
    have "x < m" if "x \<in> covered (r # rs)" for x
      using that here(2) below r(3) by (fastforce simp: covered_def cells_def word_less_nat_alt word_le_nat_alt)
    then have "{m..<m + unat L} \<inter> covered (r # rs) = {}" by fastforce
    then have "fits (unat Minimum) M (unat L) (2 ^ k) (covered (r # rs)) m"
      using here(1) highest_start [of "unat L" M "2 ^ k"] Cons.prems(3) by (simp add: fits_def m_def M_def)
    with here up show ?thesis
      by (auto simp: c greatest_fit_def M_def [symmetric] word_less_nat_alt um)
  next
    case next_gap
    define b where "b = unat (Range_Start r)"
    have b: "0 < b" "b \<le> unat (Range_End r)" "range_bound Maximum (Some r) = b - 1"
      using r L0 by (simp_all add: b_def word_le_nat_alt range_bound_def)
    have "fits (unat Minimum) M (unat L) (2 ^ k) (covered (r # rs)) s \<longleftrightarrow> fits (unat Minimum) (b - 1) (unat L) (2 ^ k) (covered rs) s" for s
    proof
      assume f: "fits (unat Minimum) M (unat L) (2 ^ k) (covered (r # rs)) s"
      then have "s \<le> unat (Range_End r)" using up next_gap(2) by fastforce
      moreover have "{s..<s + unat L} \<inter> {b..unat (Range_End r)} = {}" using f by (auto simp: fits_def cells_def b_def)
      moreover have "s \<in> {s..<s + unat L}" "b \<in> {b..unat (Range_End r)}" using L0 b(2) by simp_all
      ultimately have "s \<notin> {b..unat (Range_End r)}" "b \<notin> {s..<s + unat L}" "s \<le> unat (Range_End r)" by blast+
      then have "s + unat L \<le> b" by auto
      with f b(1) show "fits (unat Minimum) (b - 1) (unat L) (2 ^ k) (covered rs) s" by (auto simp: fits_def)
    next
      assume f: "fits (unat Minimum) (b - 1) (unat L) (2 ^ k) (covered rs) s"
      then have "s + unat L \<le> b" using b(1) by (simp add: fits_def)
      with f b(2) r(1) show "fits (unat Minimum) M (unat L) (2 ^ k) (covered (r # rs)) s"
        by (auto simp: fits_def cells_def b_def)
    qed
    moreover have "greatest_fit (unat Minimum) (b - 1) (unat L) (2 ^ k) (covered rs) (find_range_loop Minimum Maximum L (2 ^ k) (Some r) rs)"
      unfolding b(3) [symmetric]
    proof (rule Cons.IH)
      show "ordered (rev rs)" using Cons.prems(1) by (simp add: ordered_append)
      show "unat (Range_End x) \<le> range_bound Maximum (Some r) \<and> unat L \<le> unat (Range_Start x)" if "x \<in> set rs" for x
        using below [OF that] Cons.prems(2) [of x] that unfolding b(3) by (auto simp: word_less_nat_alt b_def)
      show "unat L \<le> range_bound Maximum (Some r) + 1" "range_bound Maximum (Some r) < 2 ^ 32"
        using r(1,2) b Cons.prems(4) unfolding b(3) M_def b_def by linarith+
      show "Range_Start x \<noteq> 0" if "Some r = Some x" for x using that b(1) by (auto simp: b_def)
    qed
    ultimately show ?thesis
      using next_gap by (simp add: c greatest_fit_def M_def [symmetric] word_less_nat_alt um)
  qed
qed

text \<open>
  C35.  \<^verbatim>\<open>RtlFindRange\<close> on an ordered, non-empty list, for an alignment that is a power of 2 and a length that is
  not 0, when every range of the list starts high enough for the length and ends at the maximum
  at most, which is below 4 GB: it finds the highest aligned start inside the bounds at which
  all addresses are free, and fails exactly when there is none.
\<close>

theorem RtlFindRange_correct:
  assumes "ordered (ListHead rl)" "ListHead rl \<noteq> []" "k < 32" "L \<noteq> 0"
    and "\<forall>r \<in> set (ListHead rl). unat (Range_End r) \<le> unat Maximum \<and> unat L \<le> unat (Range_Start r)"
    and "unat L \<le> unat Maximum + 1" "unat Maximum < 2 ^ 32"
  shows "greatest_fit (unat Minimum) (unat Maximum) (unat L) (2 ^ k) (covered (ListHead rl)) (RtlFindRange rl Minimum Maximum L (2 ^ k))"
proof -
  have "covered (rev (ListHead rl)) = covered (ListHead rl)" by (simp add: covered_def)
  moreover have "(2 :: ULONG) ^ k \<noteq> 0" using assms(3) by (simp add: exp_eq_zero_iff)
  ultimately show ?thesis
    using find_range_loop_greatest [OF assms(3,4), of "rev (ListHead rl)" Maximum None Minimum] assms
    by (simp add: RtlFindRange_def range_bound_def)
qed

lemma ROUND_DOWN_1 [simp]: "ROUND_DOWN n 1 = n"
  by (simp add: ROUND_DOWN_def)

text \<open>
  Where the conditions fail \<^verbatim>\<open>RtlFindRange\<close> returns ranges that are not free: an empty list gives a start
  that may lie below the minimum, and a list with one range from 0 to the maximum, where nothing is
  free, gives a start above the maximum.
\<close>

theorem RtlFindRange_wraps:
  assumes "L \<noteq> 0" "unat L \<le> unat Maximum + 1" "unat Maximum + unat L < 2 ^ 32"
  shows "(ListHead rl = [] \<longrightarrow> RtlFindRange rl Minimum Maximum L 1 = (STATUS_SUCCESS, Some (Maximum - ucast (L - 1)))) \<and>
    (ListHead rl = [r] \<and> Range_Start r = 0 \<and> Range_End r = Maximum \<longrightarrow>
      (\<exists>s. RtlFindRange rl 0 Maximum L 1 = (STATUS_SUCCESS, Some s) \<and> Maximum < s))"
proof -
  have L: "unat (L - 1) = unat L - 1" "0 < unat L" using assms(1) by (simp_all add: unat_minus_one unat_gt_0)
  have u: "unat (ucast (L - 1) :: ULONGLONG) = unat L - 1" by (simp add: unat_ucast_64 L)
  have le: "(ucast (L - 1) :: ULONGLONG) \<le> Maximum" using assms(2) u by (simp add: word_le_nat_alt)
  have d: "unat (Maximum - ucast (L - 1)) = unat Maximum + 1 - unat L" using le u L(2) by (simp add: unat_sub)
  have t: "(ucast (ucast (Maximum - ucast (L - 1)) :: ULONG) :: ULONGLONG) = Maximum - ucast (L - 1)"
  proof -
    have "unat (ucast (Maximum - ucast (L - 1)) :: ULONG) = unat (Maximum - ucast (L - 1))"
      by (rule unat_ucast_32) (use d assms(3) L(2) in simp)
    then show ?thesis by (metis of_nat_unat ucast_id unat_ucast_64)
  qed
  have "RtlFindRange rl Minimum Maximum L 1 = (STATUS_SUCCESS, Some (Maximum - ucast (L - 1)))" if "ListHead rl = []"
    using that assms(1) t by (simp add: RtlFindRange_def)
  moreover have "\<exists>s. RtlFindRange rl 0 Maximum L 1 = (STATUS_SUCCESS, Some s) \<and> Maximum < s"
    if "ListHead rl = [r]" "Range_Start r = 0" "Range_End r = Maximum"
  proof -
    have c1: "range_candidate 0 Maximum L 1 None = Some (Maximum - ucast (L - 1))"
      by (simp add: range_candidate_def Let_def t)
    define s :: ULONGLONG where "s = ucast (ucast (- 1 - ucast (L - 1) :: ULONGLONG) :: ULONG)"
    have top: "unat (- 1 - w :: ULONGLONG) = 2 ^ 64 - 1 - unat w" for w by (simp add: unat_sub unsigned_minus_1_eq_mask mask_eq_exp_minus_1)
    have "unat s = (2 ^ 64 - unat L) mod 2 ^ 32"
      using L(2) by (simp add: s_def unat_ucast_64 unsigned_ucast_eq top u L(1) take_bit_eq_mod unat_mod)
    also have "2 ^ 64 - unat L = (2 ^ 32 - 1) * 2 ^ 32 + (2 ^ 32 - unat L)" using assms(3) by simp
    also have "\<dots> mod 2 ^ 32 = 2 ^ 32 - unat L" by (rule mod_mult_self3 [THEN trans]) (use L(2) in simp)
    finally have s: "unat s = 2 ^ 32 - unat L" .
    then have "Maximum < s" using assms(3) by (simp add: word_less_nat_alt)
    moreover have "\<not> - 1 - s < ucast (L - 1)" using s assms(3) by (simp add: word_less_nat_alt top u)
    then have "range_candidate 0 Maximum L 1 (Some r) = Some s"
      using that(2) by (simp add: range_candidate_def Let_def s_def [symmetric])
    moreover have "\<not> Maximum < Maximum - ucast (L - 1)" using d L(2) by (simp add: word_less_nat_alt)
    ultimately show ?thesis using that assms(1) c1 by (simp add: RtlFindRange_def)
  qed
  ultimately show ?thesis by blast
qed

section \<open>Availability\<close>

lemma available_loop_None:
  "available_loop None Start End Flags Available rs \<longleftrightarrow> Available \<and> (\<forall>r \<in> set rs. Range_Start r \<ge> End \<and> Range_End r > End \<or>
     Range_Start r \<le> Start \<and> Range_End r < Start \<and> (Flags AND ucast RTL_RANGE_SHARED = 0 \<or> Range_Flags r AND RTL_RANGE_SHARED = 0))"
  by (induction rs arbitrary: Available) auto

text \<open>
  C36.  \<^verbatim>\<open>RtlIsRangeAvailable\<close> without a callback and without the shared flag, for a wanted range whose start is
  not above its end and a list of such ranges: the wanted range is reported as available exactly when every range
  of the list is apart from it, or starts at its last address and goes beyond it.  The last case is an
  overlap that the code does not see.  The mask of attributes and the context have no influence on the
  result.  The kernel tests of range lists expect otherwise in both respects: an overlap at one end makes a range
  unavailable there, and a range of the list whose attributes are in the mask does not.
\<close>

theorem RtlIsRangeAvailable_iff:
  assumes "\<forall>r \<in> set (ListHead rl). Range_Start r \<le> Range_End r" "Start \<le> End" "Flags AND 1 = 0"
  shows "RtlIsRangeAvailable rl Start End Flags Mask Context None =
    (STATUS_SUCCESS, \<forall>r \<in> set (ListHead rl). cells r \<inter> {unat Start..unat End} = {} \<or> Range_Start r = End \<and> End < Range_End r)"
proof -
  have "(Range_Start r \<ge> End \<and> Range_End r > End \<or> Range_Start r \<le> Start \<and> Range_End r < Start) \<longleftrightarrow>
      cells r \<inter> {unat Start..unat End} = {} \<or> Range_Start r = End \<and> End < Range_End r" if "Range_Start r \<le> Range_End r" for r
    using that assms(2) cells_disjoint [of r "\<lparr>Range_Start = Start, Range_End = End, Range_UserData = 0, Range_Owner = 0, Range_Attributes = 0,
        Range_Flags = 0\<rparr>"] by (auto simp: cells_def)
  then show ?thesis using assms(1,3) by (simp add: RtlIsRangeAvailable_def available_loop_None)
qed

section \<open>Examples\<close>

text \<open>Two ranges, from 100 to 199 and from 300 to 399.\<close>

definition two_ranges :: RTL_RANGE_LIST where
  "two_ranges = \<lparr>ListHead =
     [\<lparr>Range_Start = 100, Range_End = 199, Range_UserData = 0, Range_Owner = 1, Range_Attributes = 0, Range_Flags = 0\<rparr>,
      \<lparr>Range_Start = 300, Range_End = 399, Range_UserData = 0, Range_Owner = 2, Range_Attributes = 0, Range_Flags = 0\<rparr>],
     List_Flags = 0, List_Count = 2, List_Stamp = 2\<rparr>"

theorem RtlFindRange_correct_witness:
  "greatest_fit 0 399 64 32 {x. 100 \<le> x \<and> x \<le> 199 \<or> 300 \<le> x \<and> x \<le> 399} (RtlFindRange two_ranges 0 399 64 32)"
proof -
  have "covered (ListHead two_ranges) = {x. 100 \<le> x \<and> x \<le> 199 \<or> 300 \<le> x \<and> x \<le> 399}"
    by (auto simp: two_ranges_def covered_def cells_def)
  moreover have "ordered (ListHead two_ranges)" by (simp add: two_ranges_def ordered_def)
  ultimately show ?thesis
    using RtlFindRange_correct [of two_ranges 5 64 399 0] by (simp add: two_ranges_def)
qed

theorem RtlFindRange_wraps_witness:
  "\<exists>s. RtlFindRange \<lparr>ListHead = [\<lparr>Range_Start = 0, Range_End = 99, Range_UserData = 0, Range_Owner = 0, Range_Attributes = 0,
      Range_Flags = 0\<rparr>], List_Flags = 0, List_Count = 1, List_Stamp = 1\<rparr> 0 99 10 1 = (STATUS_SUCCESS, Some s) \<and> 99 < s"
  using RtlFindRange_wraps [of 10 99 "\<lparr>ListHead = [\<lparr>Range_Start = 0, Range_End = 99, Range_UserData = 0, Range_Owner = 0,
      Range_Attributes = 0, Range_Flags = 0\<rparr>], List_Flags = 0, List_Count = 1, List_Stamp = 1\<rparr>"] by simp

theorem RtlIsRangeAvailable_iff_witness:
  "RtlIsRangeAvailable two_ranges 250 300 0 0 0 None = (STATUS_SUCCESS, True) \<and>
   RtlIsRangeAvailable two_ranges 250 301 0 0 0 None = (STATUS_SUCCESS, False)"
  using RtlIsRangeAvailable_iff [of two_ranges 250 300 0] RtlIsRangeAvailable_iff [of two_ranges 250 301 0]
  by (simp add: two_ranges_def cells_def)

end
