(* ===== verification/Rtl_Range_Merge.thy ===== *)
theory Rtl_Range_Merge
  imports Rtl_Range_Find
begin

text \<open>
  The operations on whole range lists: copying, merging and inverting.
\<close>

section \<open>Copying and merging\<close>

lemma copy_ranges_eq:
  "(\<And>i. pool i) \<Longrightarrow> copy_ranges pool n rs rl =
     (STATUS_SUCCESS, rl\<lparr>ListHead := ListHead rl @ rs, List_Count := List_Count rl + of_nat (length rs), List_Stamp := List_Stamp rl + 1\<rparr>)"
  by (induction rs arbitrary: n rl) (simp_all add: algebra_simps)

text \<open>The entry that the merge makes of a range; a shared range loses its flag.\<close>

definition merged_range :: "ULONG \<Rightarrow> RTL_RANGE \<Rightarrow> RTL_RANGE" where
  "merged_range Flags r = r\<lparr>Range_Flags := (if (ucast (Range_Flags r) OR Flags) AND RTL_RANGE_LIST_ADD_SHARED \<noteq> 0 then RTL_RANGE_SHARED else 0)\<rparr>"

definition add_merged :: "ULONG \<Rightarrow> RTL_RANGE \<Rightarrow> RTL_RANGE_LIST \<Rightarrow> RTL_RANGE_LIST" where
  "add_merged Flags r rl = rl\<lparr>ListHead := (if List_Count rl = 0 then ListHead rl @ [merged_range Flags r]
       else insert_range (merged_range Flags r) (ListHead rl)), List_Count := List_Count rl + 1, List_Stamp := List_Stamp rl + 1\<rparr>"

lemma merged_range_not_shared: "Range_Flags r = RTL_RANGE_SHARED \<Longrightarrow> Range_Flags (merged_range 0 r) = 0"
  by (simp add: merged_range_def)

lemma merge_loop_eq:
  assumes "\<And>i. pool i" "j < length rs2" "ListHead rl2 = rs2" "\<forall>r \<in> set rs2. Range_Start r \<le> Range_End r"
  shows "merge_loop pool n Flags rl2 \<lparr>Iterator_Current = Some j, Iterator_Stamp = List_Stamp rl2\<rparr> (rs2 ! j) Merged =
     Some (STATUS_NO_MORE_ENTRIES, fold (add_merged Flags) (drop j rs2) Merged)"
  using assms(2)
proof (induction "length rs2 - j" arbitrary: j n Merged)
  case (Suc d)
  have add: "RtlAddRange (pool n) Merged (Range_Start (rs2 ! j)) (Range_End (rs2 ! j)) (Range_Attributes (rs2 ! j))
      (ucast (Range_Flags (rs2 ! j)) OR Flags) (Range_UserData (rs2 ! j)) (Range_Owner (rs2 ! j)) =
      (STATUS_SUCCESS, add_merged Flags (rs2 ! j) Merged)"
  proof -
    have "merged_range Flags (rs2 ! j) = \<lparr>Range_Start = Range_Start (rs2 ! j), Range_End = Range_End (rs2 ! j),
        Range_UserData = Range_UserData (rs2 ! j), Range_Owner = Range_Owner (rs2 ! j), Range_Attributes = Range_Attributes (rs2 ! j),
        Range_Flags = (if (ucast (Range_Flags (rs2 ! j)) OR Flags) AND RTL_RANGE_LIST_ADD_SHARED \<noteq> 0 then RTL_RANGE_SHARED else 0)\<rparr>"
      by (simp add: merged_range_def)
    then show ?thesis
      using assms(1,4) Suc.prems nth_mem [OF Suc.prems] by (simp add: RtlAddRange_def add_merged_def Let_def not_less)
  qed
  have drop: "drop j rs2 = rs2 ! j # drop (Suc j) rs2" using Suc.prems by (simp add: Cons_nth_drop_Suc)
  show ?case
  proof (cases "Suc j < length rs2")
    case True
    have "merge_loop pool n Flags rl2 \<lparr>Iterator_Current = Some j, Iterator_Stamp = List_Stamp rl2\<rparr> (rs2 ! j) Merged =
        merge_loop pool (n + 1) Flags rl2 \<lparr>Iterator_Current = Some (Suc j), Iterator_Stamp = List_Stamp rl2\<rparr> (rs2 ! Suc j)
          (add_merged Flags (rs2 ! j) Merged)"
      using True assms(3) by (subst merge_loop.simps) (simp add: add RtlGetNextRange_def)
    then show ?thesis using Suc.hyps(1) [of "Suc j"] Suc.hyps(2) True by (simp add: drop)
  next
    case False
    then show ?thesis using Suc.prems assms(3) by (subst merge_loop.simps) (simp add: add drop RtlGetNextRange_def)
  qed
qed simp

lemma fold_add_merged:
  assumes "range_list_ok rl" "ordered rs" "covered rs \<inter> covered (ListHead rl) = {}" "length rs + length (ListHead rl) < 2 ^ 32"
  shows "range_list_ok (fold (add_merged Flags) rs rl) \<and>
    covered (ListHead (fold (add_merged Flags) rs rl)) = covered (ListHead rl) \<union> covered rs"
  using assms
proof (induction rs arbitrary: rl)
  case (Cons r rs)
  define rl' where "rl' = add_merged Flags r rl"
  have l: "ListHead rl' = insert_range (merged_range Flags r) (ListHead rl)" "List_Count rl' = List_Count rl + 1"
    using count_0_iff [OF Cons.prems(1)] by (auto simp: rl'_def add_merged_def)
  have c: "cells (merged_range Flags r) = cells r" "Range_Start (merged_range Flags r) \<le> Range_End (merged_range Flags r)"
    using Cons.prems(2) by (simp_all add: cells_def merged_range_def ordered_Cons)
  have "cells r \<inter> cells x = {}" if "x \<in> set rs" for x
    using that Cons.prems(2) cells_disjoint [of r x] by (auto simp: ordered_Cons dest: ordered_le)
  then have dis: "cells r \<inter> covered rs = {}" by (auto simp: covered_def)
  have "cells r \<inter> covered (ListHead rl) = {}" using Cons.prems(3) by auto
  then have ok: "range_list_ok rl'"
    using Cons.prems(1,4) c l ordered_insert_range [of "ListHead rl" "merged_range Flags r"] by (simp add: range_list_ok_def)
  have cov: "covered (ListHead rl') = cells r \<union> covered (ListHead rl)" by (simp add: l c)
  have "range_list_ok (fold (add_merged Flags) rs rl') \<and>
      covered (ListHead (fold (add_merged Flags) rs rl')) = covered (ListHead rl') \<union> covered rs"
    using Cons.prems ok cov dis l by (intro Cons.IH) (auto simp: ordered_Cons)
  then show ?case by (simp add: rl'_def [symmetric] cov) blast
qed simp

text \<open>
  C37.  Merging two ordered lists that cover different addresses into an empty list returns, and gives an
  ordered list that covers the addresses of both.
\<close>

theorem RtlMergeRangeLists_covers:
  assumes "\<And>i. pool i" "range_list_ok rl1" "range_list_ok rl2" "covered (ListHead rl1) \<inter> covered (ListHead rl2) = {}"
    and "length (ListHead rl1) + length (ListHead rl2) < 2 ^ 32"
  shows "\<exists>m. RtlMergeRangeLists pool RtlInitializeRangeList rl1 rl2 Flags = Some (STATUS_SUCCESS, m) \<and>
    range_list_ok m \<and> covered (ListHead m) = covered (ListHead rl1) \<union> covered (ListHead rl2)"
proof -
  obtain c where c: "RtlCopyRangeList pool RtlInitializeRangeList rl1 = (STATUS_SUCCESS, c)" "ListHead c = ListHead rl1" "List_Count c = List_Count rl1"
    using assms(2) copy_ranges_eq [OF assms(1)] by (auto simp: RtlCopyRangeList_def RtlInitializeRangeList_def range_list_ok_def)
  then have ok: "range_list_ok c" using assms(2) by (simp add: range_list_ok_def)
  show ?thesis
  proof (cases "ListHead rl2")
    case Nil
    then show ?thesis using c ok by (auto simp: RtlMergeRangeLists_def RtlGetFirstRange_def)
  next
    case (Cons r rs)
    define m where "m = fold (add_merged Flags) (r # rs) c"
    have "merge_loop pool (length (ListHead rl1)) Flags rl2 \<lparr>Iterator_Current = Some 0, Iterator_Stamp = List_Stamp rl2\<rparr> r c =
        Some (STATUS_NO_MORE_ENTRIES, m)"
      using merge_loop_eq [OF assms(1), of 0 "r # rs" rl2] Cons assms(3)
      by (simp add: m_def range_list_ok_def ordered_def)
    moreover have "range_list_ok m \<and> covered (ListHead m) = covered (ListHead c) \<union> covered (r # rs)"
      unfolding m_def using assms(3-5) Cons c ok by (intro fold_add_merged) (auto simp: range_list_ok_def)
    ultimately show ?thesis
      using c Cons by (simp add: RtlMergeRangeLists_def RtlGetFirstRange_def)
  qed
qed

section \<open>Inverting\<close>

lemma RtlAddRange_gap:
  assumes "range_list_ok rl" "length (ListHead rl) + 1 < 2 ^ 32" "a \<le> b" "{unat a..unat b} \<inter> covered (ListHead rl) = {}"
  shows "\<exists>rl'. RtlAddRange True rl a b 0 0 0 0 = (STATUS_SUCCESS, rl') \<and> range_list_ok rl' \<and>
    covered (ListHead rl') = covered (ListHead rl) \<union> {unat a..unat b} \<and> length (ListHead rl') = length (ListHead rl) + 1"
proof -
  obtain st rl' where r: "RtlAddRange True rl a b 0 0 0 0 = (st, rl')" by fastforce
  then have "st = STATUS_SUCCESS" "length (ListHead rl') = length (ListHead rl) + 1"
    using assms(3) by (auto simp: RtlAddRange_def Let_def not_less split: if_splits)
  then show ?thesis using r RtlAddRange_free [OF assms(1,2,4) r] by simp
qed

text \<open>The addresses below \<open>behind p\<close> are those up to the end of the entry \<open>p\<close>.\<close>

definition behind :: "RTL_RANGE option \<Rightarrow> nat" where
  "behind p = (case p of None \<Rightarrow> 0 | Some r \<Rightarrow> unat (Range_End r) + 1)"

lemma gap_eq:
  assumes "\<And>p. Previous = Some p \<Longrightarrow> Range_End p < Range_Start r"
  shows "(case Previous of None \<Rightarrow> if Range_Start r \<noteq> 0 then Some (0, Range_Start r - 1) else None
      | Some p \<Rightarrow> if Range_End p + 1 \<noteq> Range_Start r then Some (Range_End p + 1, Range_Start r - 1) else None) =
    (if behind Previous = unat (Range_Start r) then None else Some (of_nat (behind Previous), Range_Start r - 1))"
    and "behind Previous \<le> unat (Range_Start r)"
proof -
  have p: "unat (Range_End p + 1) = unat (Range_End p) + 1" "unat (Range_End p) + 1 \<le> unat (Range_Start r)" if "Previous = Some p" for p
    using assms [OF that] unsigned_less [of "Range_Start r", where ?'a = nat]
    by (auto simp: word_less_nat_alt unat_word_ariths)
  have "Range_End p + 1 \<noteq> Range_Start r \<longleftrightarrow> unat (Range_End p) + 1 \<noteq> unat (Range_Start r)" if "Previous = Some p" for p
    using p(1) [OF that] by (metis unsigned_word_eqI)
  then show "(case Previous of None \<Rightarrow> if Range_Start r \<noteq> 0 then Some (0, Range_Start r - 1) else None
      | Some p \<Rightarrow> if Range_End p + 1 \<noteq> Range_Start r then Some (Range_End p + 1, Range_Start r - 1) else None) =
    (if behind Previous = unat (Range_Start r) then None else Some (of_nat (behind Previous), Range_Start r - 1))"
    by (cases Previous) (auto simp: behind_def unat_eq_0 ac_simps)
  show "behind Previous \<le> unat (Range_Start r)" using p(2) by (cases Previous) (auto simp: behind_def)
qed

lemma invert_loop_spec:
  assumes "\<And>i. pool i" "ordered rs" "\<And>p r. Previous = Some p \<Longrightarrow> r \<in> set rs \<Longrightarrow> Range_End p < Range_Start r"
    and "range_list_ok rl" "\<And>x. x \<in> covered (ListHead rl) \<Longrightarrow> x < behind Previous" "length (ListHead rl) + length rs < 2 ^ 32"
  defines "Last \<equiv> (if rs = [] then Previous else Some (last rs))"
  shows "\<exists>n' rl'. invert_loop pool n Previous rs rl = (STATUS_SUCCESS, n', Last, rl') \<and> range_list_ok rl' \<and>
    covered (ListHead rl') = covered (ListHead rl) \<union> ({behind Previous..<behind Last} - covered rs) \<and> behind Previous \<le> behind Last \<and>
    length (ListHead rl') \<le> length (ListHead rl) + length rs"
  using assms(2-6) unfolding Last_def
proof (induction rs arbitrary: n Previous rl)
  case (Cons r rs)
  define b where "b = behind Previous"
  note g = gap_eq [of Previous r, folded b_def]
  have prev: "Range_End p < Range_Start r" if "Previous = Some p" for p using Cons.prems(2) that by simp
  have r: "Range_Start r \<le> Range_End r" "\<And>x. x \<in> set rs \<Longrightarrow> Range_End r < Range_Start x" "ordered rs"
    using Cons.prems(1) by (auto simp: ordered_Cons)
  have above: "unat (Range_End r) < x" if "x \<in> covered rs" for x
    using that r(2) by (fastforce simp: covered_def cells_def word_less_nat_alt)
  obtain m rl2 where step: "invert_loop pool n Previous (r # rs) rl = invert_loop pool m (Some r) rs rl2" "range_list_ok rl2"
    "covered (ListHead rl2) = covered (ListHead rl) \<union> {b..<unat (Range_Start r)}" "length (ListHead rl2) \<le> length (ListHead rl) + 1"
  proof (cases "b = unat (Range_Start r)")
    case True
    then show ?thesis using that [of n rl] g(1) [OF prev] Cons.prems(3) by simp
  next
    case False
    then have b: "b < unat (Range_Start r)" using g(2) [OF prev] by simp
    then have nz: "Range_Start r \<noteq> 0" by auto
    have ub: "unat (of_nat b :: ULONGLONG) = b"
      using b unsigned_less [of "Range_Start r", where ?'a = nat] by (simp add: unsigned_of_nat take_bit_nat_eq_self)
    have us: "unat (Range_Start r - 1) = unat (Range_Start r) - 1" using nz by (simp add: unat_minus_one)
    have "\<exists>rl'. RtlAddRange True rl (of_nat b) (Range_Start r - 1) 0 0 0 0 = (STATUS_SUCCESS, rl') \<and> range_list_ok rl' \<and>
        covered (ListHead rl') = covered (ListHead rl) \<union> {b..unat (Range_Start r) - 1} \<and> length (ListHead rl') = length (ListHead rl) + 1"
      using RtlAddRange_gap [of rl "of_nat b" "Range_Start r - 1"] Cons.prems(3,4,5) b unfolding ub us b_def [symmetric]
      by (fastforce simp: word_le_nat_alt ub us)
    then obtain rl' where a: "RtlAddRange (pool n) rl (of_nat b) (Range_Start r - 1) 0 0 0 0 = (STATUS_SUCCESS, rl')" "range_list_ok rl'"
        "covered (ListHead rl') = covered (ListHead rl) \<union> {b..unat (Range_Start r) - 1}" "length (ListHead rl') = length (ListHead rl) + 1"
      using assms(1) by auto
    moreover have "{b..unat (Range_Start r) - 1} = {b..<unat (Range_Start r)}" using b by auto
    ultimately show ?thesis using that [of "n + 1" rl'] g(1) [OF prev] False by simp
  qed
  have bs: "b \<le> unat (Range_Start r)" "unat (Range_Start r) \<le> unat (Range_End r)" "behind (Some r) = unat (Range_End r) + 1"
    using g(2) [OF prev] r(1) by (simp_all add: word_le_nat_alt behind_def)
  define q where "q = (if rs = [] then Some r else Some (last rs))"
  have low: "x < behind (Some r)" if "x \<in> covered (ListHead rl2)" for x
  proof -
    have "x < unat (Range_Start r) \<or> x < b" using that Cons.prems(4) [of x] unfolding step(3) b_def by auto
    then show ?thesis using bs by linarith
  qed
  obtain n' rl1 where ih: "invert_loop pool m (Some r) rs rl2 = (STATUS_SUCCESS, n', q, rl1)" "range_list_ok rl1"
    "covered (ListHead rl1) = covered (ListHead rl2) \<union> ({behind (Some r)..<behind q} - covered rs)" "behind (Some r) \<le> behind q"
    "length (ListHead rl1) \<le> length (ListHead rl2) + length rs"
    using Cons.IH [OF r(3) _ step(2) low, of m] r(2) Cons.prems(5) step(4) unfolding q_def by auto
  have "{b..<unat (Range_Start r)} \<union> ({behind (Some r)..<behind q} - covered rs) = {b..<behind q} - covered (r # rs)"
    using bs ih(4) above by (fastforce simp: cells_def)
  then have "covered (ListHead rl1) = covered (ListHead rl) \<union> ({b..<behind q} - covered (r # rs))"
    unfolding ih(3) step(3) by blast
  moreover have "b \<le> behind q" using bs ih(4) by linarith
  ultimately show ?case
    using ih(1,2,5) step(1,4) unfolding b_def [symmetric] by (auto simp: q_def)
qed simp

lemma covered_bound: "ordered rs \<Longrightarrow> rs \<noteq> [] \<Longrightarrow> x \<in> covered rs \<Longrightarrow> x \<le> unat (Range_End (last rs))"
proof (induction rs)
  case (Cons r rs)
  show ?case
  proof (cases "rs = []")
    case False
    then have "last rs \<in> set rs" by simp
    then have "Range_End r < Range_Start (last rs)" "Range_Start (last rs) \<le> Range_End (last rs)"
      using Cons.prems(1) by (auto simp: ordered_Cons dest: ordered_le)
    then have "unat (Range_End r) \<le> unat (Range_End (last rs))" by (simp add: word_less_nat_alt word_le_nat_alt)
    then show ?thesis using Cons False by (auto simp: cells_def ordered_Cons)
  qed (use Cons.prems in \<open>simp add: cells_def\<close>)
qed simp

text \<open>
  C38.  Inverting an ordered list that is not empty and whose last range ends before the last two addresses
  gives an ordered list that covers exactly the other addresses.
\<close>

theorem RtlInvertRangeList_complement:
  assumes "\<And>i. pool i" "range_list_ok rl" "ListHead rl \<noteq> []" "length (ListHead rl) + 1 < 2 ^ 32"
    and "unat (Range_End (last (ListHead rl))) < 2 ^ 64 - 2"
  shows "\<exists>v. RtlInvertRangeList pool RtlInitializeRangeList rl = (STATUS_SUCCESS, v) \<and> range_list_ok v \<and>
    covered (ListHead v) = {..<2 ^ 64} - covered (ListHead rl)"
proof -
  define rs where "rs = ListHead rl"
  define e where "e = Range_End (last rs)"
  have rs: "ordered rs" "rs \<noteq> []" using assms(2,3) by (simp_all add: rs_def range_list_ok_def)
  have init: "ListHead RtlInitializeRangeList = []" by (simp add: RtlInitializeRangeList_def)
  obtain n v where v: "invert_loop pool 0 None rs RtlInitializeRangeList = (STATUS_SUCCESS, n, Some (last rs), v)" "range_list_ok v"
    "covered (ListHead v) = {..<unat e + 1} - covered rs" "length (ListHead v) \<le> length rs"
    using invert_loop_spec [of pool rs None RtlInitializeRangeList 0, OF assms(1) rs(1) _ range_list_ok_init] rs(2) assms(4)
    by (auto simp: init behind_def e_def rs_def atLeast0LessThan)
  have ue: "unat (e + 1) = unat e + 1" using assms(5) by (simp add: e_def rs_def unat_word_ariths)
  have "\<exists>v'. RtlAddRange True v (e + 1) (- 1) 0 0 0 0 = (STATUS_SUCCESS, v') \<and> range_list_ok v' \<and>
      covered (ListHead v') = covered (ListHead v) \<union> {unat (e + 1)..unat (- 1 :: ULONGLONG)} \<and> length (ListHead v') = length (ListHead v) + 1"
  proof (rule RtlAddRange_gap [OF v(2)])
    show "length (ListHead v) + 1 < 2 ^ 32" using v(4) assms(4) by (simp add: rs_def)
    show "e + 1 \<le> - 1" by (rule word_order.extremum)
    show "{unat (e + 1)..unat (- 1 :: ULONGLONG)} \<inter> covered (ListHead v) = {}" unfolding v(3) ue by auto
  qed
  moreover have "{unat (e + 1)..unat (- 1 :: ULONGLONG)} = {unat e + 1..<2 ^ 64}"
    unfolding ue by (auto simp: unsigned_minus_1_eq_mask mask_eq_exp_minus_1)
  moreover have "{..<unat e + 1} - covered rs \<union> {unat e + 1..<2 ^ 64} = {..<2 ^ 64} - covered rs"
    using covered_bound [OF rs] assms(5) by (fastforce simp: e_def rs_def)
  moreover have "e + 1 \<noteq> - 1"
  proof
    assume "e + 1 = - 1"
    then have "unat e + 1 = unat (- 1 :: ULONGLONG)" unfolding ue [symmetric] by (rule arg_cong)
    then show False using assms(5) by (simp add: e_def rs_def unsigned_minus_1_eq_mask mask_eq_exp_minus_1)
  qed
  ultimately show ?thesis
    using v assms(1) by (auto simp: RtlInvertRangeList_def rs_def [symmetric] e_def [symmetric])
qed

text \<open>At the end of the address space it fails: the inverse of the whole space is the whole space.\<close>

lemma RtlInvertRangeList_whole:
  "RtlInvertRangeList (\<lambda>_. True) RtlInitializeRangeList (RtlInitializeRangeList\<lparr>ListHead := [\<lparr>Range_Start = 0, Range_End = - 1,
     Range_UserData = u, Range_Owner = ow, Range_Attributes = a, Range_Flags = f\<rparr>]\<rparr>) =
   (STATUS_SUCCESS, \<lparr>ListHead = [\<lparr>Range_Start = 0, Range_End = - 1, Range_UserData = 0, Range_Owner = 0, Range_Attributes = 0,
      Range_Flags = 0\<rparr>], List_Flags = 0, List_Count = 1, List_Stamp = 1\<rparr>)"
  by (simp add: RtlInvertRangeList_def RtlInitializeRangeList_def RtlAddRange_def)

section \<open>Examples\<close>

lemma two_ranges_ok: "range_list_ok two_ranges"
  by (simp add: range_list_ok_def two_ranges_def ordered_def)

definition gap_range :: RTL_RANGE_LIST where
  "gap_range = \<lparr>ListHead =
     [\<lparr>Range_Start = 220, Range_End = 250, Range_UserData = 0, Range_Owner = 3, Range_Attributes = 0, Range_Flags = 0\<rparr>],
     List_Flags = 0, List_Count = 1, List_Stamp = 1\<rparr>"

lemma gap_range_ok: "range_list_ok gap_range"
  by (simp add: range_list_ok_def gap_range_def ordered_def)

theorem RtlMergeRangeLists_covers_witness:
  "\<exists>m. RtlMergeRangeLists (\<lambda>_. True) RtlInitializeRangeList two_ranges gap_range 0 = Some (STATUS_SUCCESS, m) \<and>
     covered (ListHead m) = {100..199} \<union> {300..399} \<union> {220..250}"
proof -
  have cov: "covered (ListHead two_ranges) = {100..199} \<union> {300..399}" "covered (ListHead gap_range) = {220..250}"
    "length (ListHead two_ranges) = 2" "length (ListHead gap_range) = 1"
    by (auto simp: two_ranges_def gap_range_def cells_def)
  have "({100..199} \<union> {300..399}) \<inter> {220..250 :: nat} = {}" by auto
  then show ?thesis
    using RtlMergeRangeLists_covers [of "\<lambda>_. True" two_ranges gap_range 0] two_ranges_ok gap_range_ok by (auto simp: cov)
qed

theorem RtlInvertRangeList_complement_witness:
  "\<exists>v. RtlInvertRangeList (\<lambda>_. True) RtlInitializeRangeList two_ranges = (STATUS_SUCCESS, v) \<and>
     covered (ListHead v) = {..<2 ^ 64} - ({100..199} \<union> {300..399})"
  using RtlInvertRangeList_complement [of "\<lambda>_. True" two_ranges] two_ranges_ok
  by (auto simp: two_ranges_def cells_def)


end
