(* ===== verification/Ex_Rundown.thy ===== *)
theory Ex_Rundown
  imports Ros_Prelude
begin

text \<open>
  Rundown protection, \<^verbatim>\<open>ntoskrnl/ex/rundown.c\<close> and the inline functions of
  \<^verbatim>\<open>ntoskrnl/include/internal/ex.h\<close>, for 32-bit pointers.

  The routines run concurrently on one descriptor. Each is a function that makes its next access to
  shared memory: it takes the place the routine is at (with its locals) and the shared state, and
  gives the new shared state and the new place. \<open>None\<close> is a failed \<^verbatim>\<open>ASSERT\<close>
  or the use of a pointer that is not the address of the wait block. Any number of client threads call
  the acquiring and releasing routines; one thread, the owner, runs the descriptor down. The wait block
  lies on the stack of the owner, at the even address \<open>WaitBlock\<close>.
\<close>

unbundle bit_operations_syntax

type_synonym ULONG_PTR = "32 word"

section \<open>Shared state\<close>

abbreviation (input) EX_RUNDOWN_ACTIVE :: ULONG_PTR where "EX_RUNDOWN_ACTIVE \<equiv> 1"
abbreviation (input) EX_RUNDOWN_COUNT_SHIFT :: nat where "EX_RUNDOWN_COUNT_SHIFT \<equiv> 1"
abbreviation (input) EX_RUNDOWN_COUNT_INC :: ULONG_PTR where "EX_RUNDOWN_COUNT_INC \<equiv> 2"

text \<open>The count of the wait block and the state of its event are part of the shared state.\<close>

record EX_RUNDOWN_WAIT_BLOCK =
  Block_Count :: ULONG_PTR
  WakeEvent :: bool

record EX_RUNDOWN_REF =
  RunRef_Count :: ULONG_PTR
  Block :: EX_RUNDOWN_WAIT_BLOCK

text \<open>The compare-and-exchange: the value found, and the new state.\<close>

definition ExpChangeRundown :: "EX_RUNDOWN_REF \<Rightarrow> ULONG_PTR \<Rightarrow> ULONG_PTR \<Rightarrow> ULONG_PTR \<times> EX_RUNDOWN_REF" where
  "ExpChangeRundown RunRef New Old =
     (RunRef_Count RunRef, if RunRef_Count RunRef = Old then RunRef\<lparr>RunRef_Count := New\<rparr> else RunRef)"

definition ExpSetRundown :: "EX_RUNDOWN_REF \<Rightarrow> ULONG_PTR \<Rightarrow> EX_RUNDOWN_REF" where
  "ExpSetRundown RunRef New = RunRef\<lparr>RunRef_Count := New\<rparr>"

definition set_wake_event :: "EX_RUNDOWN_REF \<Rightarrow> EX_RUNDOWN_REF" where
  "set_wake_event RunRef = RunRef\<lparr>Block := (Block RunRef)\<lparr>WakeEvent := True\<rparr>\<rparr>"

definition ExfInitializeRundownProtection :: "EX_RUNDOWN_REF \<Rightarrow> EX_RUNDOWN_REF" where
  "ExfInitializeRundownProtection RunRef = RunRef\<lparr>RunRef_Count := 0\<rparr>"

definition ExfReInitializeRundownProtection :: "EX_RUNDOWN_REF \<Rightarrow> EX_RUNDOWN_REF option" where
  "ExfReInitializeRundownProtection RunRef =
     (if RunRef_Count RunRef AND EX_RUNDOWN_ACTIVE \<noteq> 0 then Some (ExpSetRundown RunRef 0) else None)"

definition ExfRundownCompleted :: "EX_RUNDOWN_REF \<Rightarrow> EX_RUNDOWN_REF option" where
  "ExfRundownCompleted RunRef =
     (if RunRef_Count RunRef AND EX_RUNDOWN_ACTIVE \<noteq> 0 then Some (ExpSetRundown RunRef EX_RUNDOWN_ACTIVE) else None)"

section \<open>Client threads\<close>

text \<open>
  Where a client thread is: between calls, inside of a routine (with the local \<^verbatim>\<open>Value\<close>
  once it has been read), about to signal the event, or at the return of an acquiring routine.
\<close>

datatype client_place =
  Idle
| Acquire "ULONG_PTR option"
| AcquireEx ULONG "ULONG_PTR option"
| FastAcquire "ULONG_PTR option"
| Acquired ULONG
| Refused
| Release "ULONG_PTR option"
| ReleaseEx ULONG "ULONG_PTR option"
| FastRelease "ULONG_PTR option"
| Signal

fun ExfAcquireRundownProtection :: "ULONG_PTR option \<Rightarrow> EX_RUNDOWN_REF \<Rightarrow> EX_RUNDOWN_REF \<times> client_place" where
  "ExfAcquireRundownProtection None RunRef = (RunRef, Acquire (Some (RunRef_Count RunRef)))"
| "ExfAcquireRundownProtection (Some Value) RunRef =
     (if Value AND EX_RUNDOWN_ACTIVE \<noteq> 0 then (RunRef, Refused)
      else
        let (NewValue, RunRef) = ExpChangeRundown RunRef (Value + EX_RUNDOWN_COUNT_INC) Value
        in if NewValue = Value then (RunRef, Acquired 1) else (RunRef, Acquire (Some NewValue)))"

fun ExfAcquireRundownProtectionEx :: "ULONG \<Rightarrow> ULONG_PTR option \<Rightarrow> EX_RUNDOWN_REF \<Rightarrow> EX_RUNDOWN_REF \<times> client_place" where
  "ExfAcquireRundownProtectionEx Count None RunRef = (RunRef, AcquireEx Count (Some (RunRef_Count RunRef)))"
| "ExfAcquireRundownProtectionEx Count (Some Value) RunRef =
     (if Value AND EX_RUNDOWN_ACTIVE \<noteq> 0 then (RunRef, Refused)
      else
        let (NewValue, RunRef) = ExpChangeRundown RunRef (Value + EX_RUNDOWN_COUNT_INC * Count) Value
        in if NewValue = Value then (RunRef, Acquired Count) else (RunRef, AcquireEx Count (Some NewValue)))"

text \<open>The inline function tries once without the active bit and falls back to the routine above.\<close>

fun ExAcquireRundownProtection :: "ULONG_PTR option \<Rightarrow> EX_RUNDOWN_REF \<Rightarrow> EX_RUNDOWN_REF \<times> client_place" where
  "ExAcquireRundownProtection None RunRef = (RunRef, FastAcquire (Some (RunRef_Count RunRef AND NOT EX_RUNDOWN_ACTIVE)))"
| "ExAcquireRundownProtection (Some Value) RunRef =
     (let (NewValue, RunRef) = ExpChangeRundown RunRef (Value + EX_RUNDOWN_COUNT_INC) Value
      in if NewValue \<noteq> Value then (RunRef, Acquire None) else (RunRef, Acquired 1))"

text \<open>The interlocked subtraction from the count of the wait block; the result tells that it became 0.\<close>

definition drop_references :: "ULONG_PTR \<Rightarrow> EX_RUNDOWN_REF \<Rightarrow> EX_RUNDOWN_REF \<times> client_place" where
  "drop_references Count RunRef =
     (RunRef\<lparr>Block := (Block RunRef)\<lparr>Block_Count := Block_Count (Block RunRef) - Count\<rparr>\<rparr>,
      if Block_Count (Block RunRef) = Count then Signal else Idle)"

fun ExfReleaseRundownProtection ::
  "nat \<Rightarrow> ULONG_PTR \<Rightarrow> ULONG_PTR option \<Rightarrow> EX_RUNDOWN_REF \<Rightarrow> (EX_RUNDOWN_REF \<times> client_place) option" where
  "ExfReleaseRundownProtection KeNumberProcessors WaitBlock None RunRef = Some (RunRef, Release (Some (RunRef_Count RunRef)))"
| "ExfReleaseRundownProtection KeNumberProcessors WaitBlock (Some Value) RunRef =
     (if Value AND EX_RUNDOWN_ACTIVE = 0
      then if \<not> (Value \<ge> EX_RUNDOWN_COUNT_INC \<or> KeNumberProcessors > 1) then None
           else
             let (NewValue, RunRef) = ExpChangeRundown RunRef (Value - EX_RUNDOWN_COUNT_INC) Value
             in Some (RunRef, if NewValue = Value then Idle else Release (Some NewValue))
      else if Value AND NOT EX_RUNDOWN_ACTIVE \<noteq> WaitBlock then None
      else if \<not> (Block_Count (Block RunRef) > 0 \<or> KeNumberProcessors > 1) then None
      else Some (drop_references 1 RunRef))"

fun ExfReleaseRundownProtectionEx ::
  "nat \<Rightarrow> ULONG_PTR \<Rightarrow> ULONG \<Rightarrow> ULONG_PTR option \<Rightarrow> EX_RUNDOWN_REF \<Rightarrow> (EX_RUNDOWN_REF \<times> client_place) option" where
  "ExfReleaseRundownProtectionEx KeNumberProcessors WaitBlock Count None RunRef =
     Some (RunRef, ReleaseEx Count (Some (RunRef_Count RunRef)))"
| "ExfReleaseRundownProtectionEx KeNumberProcessors WaitBlock Count (Some Value) RunRef =
     (if Value AND EX_RUNDOWN_ACTIVE = 0
      then if \<not> (Value \<ge> EX_RUNDOWN_COUNT_INC * Count \<or> KeNumberProcessors > 1) then None
           else
             let (NewValue, RunRef) = ExpChangeRundown RunRef (Value - EX_RUNDOWN_COUNT_INC * Count) Value
             in Some (RunRef, if NewValue = Value then Idle else ReleaseEx Count (Some NewValue))
      else if Value AND NOT EX_RUNDOWN_ACTIVE \<noteq> WaitBlock then None
      else if \<not> (Block_Count (Block RunRef) \<ge> Count \<or> KeNumberProcessors > 1) then None
      else Some (drop_references Count RunRef))"

fun ExReleaseRundownProtection ::
  "nat \<Rightarrow> ULONG_PTR option \<Rightarrow> EX_RUNDOWN_REF \<Rightarrow> (EX_RUNDOWN_REF \<times> client_place) option" where
  "ExReleaseRundownProtection KeNumberProcessors None RunRef =
     Some (RunRef, FastRelease (Some (RunRef_Count RunRef AND NOT EX_RUNDOWN_ACTIVE)))"
| "ExReleaseRundownProtection KeNumberProcessors (Some Value) RunRef =
     (let (NewValue, RunRef) = ExpChangeRundown RunRef (Value - EX_RUNDOWN_COUNT_INC) Value
      in if NewValue \<noteq> Value then Some (RunRef, Release None)
         else if \<not> (Value \<ge> EX_RUNDOWN_COUNT_INC \<or> KeNumberProcessors > 1) then None
         else Some (RunRef, Idle))"

section \<open>The owner\<close>

text \<open>
  Where the owner is: the descriptor is in use, at the compare-and-exchange of the inline function or of
  the routine, in the loop (with the pointer to the event and \<^verbatim>\<open>Value\<close>), waiting for the
  event, back from the wait, or past \<^verbatim>\<open>ExRundownCompleted\<close>.
\<close>

datatype owner_place = InUse | FastWait | Wait | WaitLoop bool ULONG_PTR | WaitEvent | RunDown | Completed

definition ExWaitForRundownProtectionRelease :: "EX_RUNDOWN_REF \<Rightarrow> EX_RUNDOWN_REF \<times> owner_place" where
  "ExWaitForRundownProtectionRelease RunRef =
     (let (Value, RunRef) = ExpChangeRundown RunRef EX_RUNDOWN_ACTIVE 0
      in (RunRef, if Value \<noteq> 0 \<and> Value \<noteq> EX_RUNDOWN_ACTIVE then Wait else RunDown))"

text \<open>The first statement of the routine.\<close>

definition wait_start :: "EX_RUNDOWN_REF \<Rightarrow> EX_RUNDOWN_REF \<times> owner_place" where
  "wait_start RunRef =
     (let (Value, RunRef) = ExpChangeRundown RunRef EX_RUNDOWN_ACTIVE 0
      in (RunRef, if Value = 0 \<or> Value = EX_RUNDOWN_ACTIVE then RunDown else WaitLoop False Value))"

text \<open>
  One pass through its loop: the event is initialised once, the count is set, and the pointer to the
  block is put in the place of the count.
\<close>

definition wait_loop :: "ULONG_PTR \<Rightarrow> bool \<Rightarrow> ULONG_PTR \<Rightarrow> EX_RUNDOWN_REF \<Rightarrow> (EX_RUNDOWN_REF \<times> owner_place) option" where
  "wait_loop WaitBlock Event Value RunRef =
     (let Count = drop_bit EX_RUNDOWN_COUNT_SHIFT Value;
          RunRef = (if Count \<noteq> 0 \<and> \<not> Event then RunRef\<lparr>Block := (Block RunRef)\<lparr>WakeEvent := False\<rparr>\<rparr> else RunRef);
          Event = (Count \<noteq> 0 \<or> Event);
          RunRef = RunRef\<lparr>Block := (Block RunRef)\<lparr>Block_Count := Count\<rparr>\<rparr>;
          (NewValue, RunRef) = ExpChangeRundown RunRef (WaitBlock OR EX_RUNDOWN_ACTIVE) Value
      in if NewValue = Value then Some (RunRef, if Count = 0 then RunDown else WaitEvent)
         else if NewValue AND EX_RUNDOWN_ACTIVE \<noteq> 0 then None
         else Some (RunRef, WaitLoop Event NewValue))"

text \<open>
  The return of \<^verbatim>\<open>KeWaitForSingleObject\<close>, which resets the synchronization event; the
  caller makes this step only when the event is signaled.
\<close>

definition wait_event :: "EX_RUNDOWN_REF \<Rightarrow> (EX_RUNDOWN_REF \<times> owner_place) option" where
  "wait_event RunRef =
     (if Block_Count (Block RunRef) = 0 then Some (RunRef\<lparr>Block := (Block RunRef)\<lparr>WakeEvent := False\<rparr>\<rparr>, RunDown) else None)"

section \<open>The whole system\<close>

text \<open>
  \<open>refs\<close> counts the references that a client thread may use. It is not part of the code: it grows
  when an acquiring routine returns \<^verbatim>\<open>TRUE\<close> and shrinks when the thread calls a
  releasing routine.
\<close>

record rundown_state =
  RunRef :: EX_RUNDOWN_REF
  clients :: "nat \<Rightarrow> client_place"
  refs :: "nat \<Rightarrow> nat"
  owner :: owner_place

fun client_step :: "nat \<Rightarrow> ULONG_PTR \<Rightarrow> client_place \<Rightarrow> EX_RUNDOWN_REF \<Rightarrow> (EX_RUNDOWN_REF \<times> client_place) option" where
  "client_step np WaitBlock Idle r = Some (r, Idle)"
| "client_step np WaitBlock (Acquire Value) r = Some (ExfAcquireRundownProtection Value r)"
| "client_step np WaitBlock (AcquireEx Count Value) r = Some (ExfAcquireRundownProtectionEx Count Value r)"
| "client_step np WaitBlock (FastAcquire Value) r = Some (ExAcquireRundownProtection Value r)"
| "client_step np WaitBlock (Acquired Count) r = Some (r, Idle)"
| "client_step np WaitBlock Refused r = Some (r, Idle)"
| "client_step np WaitBlock (Release Value) r = ExfReleaseRundownProtection np WaitBlock Value r"
| "client_step np WaitBlock (ReleaseEx Count Value) r = ExfReleaseRundownProtectionEx np WaitBlock Count Value r"
| "client_step np WaitBlock (FastRelease Value) r = ExReleaseRundownProtection np Value r"
| "client_step np WaitBlock Signal r = Some (set_wake_event r, Idle)"

fun owner_step :: "ULONG_PTR \<Rightarrow> owner_place \<Rightarrow> EX_RUNDOWN_REF \<Rightarrow> (EX_RUNDOWN_REF \<times> owner_place) option" where
  "owner_step WaitBlock InUse r = Some (r, InUse)"
| "owner_step WaitBlock FastWait r = Some (ExWaitForRundownProtectionRelease r)"
| "owner_step WaitBlock Wait r = Some (wait_start r)"
| "owner_step WaitBlock (WaitLoop Event Value) r = wait_loop WaitBlock Event Value r"
| "owner_step WaitBlock WaitEvent r = (if WakeEvent (Block r) then wait_event r else Some (r, WaitEvent))"
| "owner_step WaitBlock RunDown r = map_option (\<lambda>r. (r, Completed)) (ExfRundownCompleted r)"
| "owner_step WaitBlock Completed r = map_option (\<lambda>r. (r, InUse)) (ExfReInitializeRundownProtection r)"

text \<open>The references that a routine is about to hand to its thread, or has still to give back.\<close>

fun owed :: "client_place \<Rightarrow> nat" where
  "owed (Acquired Count) = unat Count"
| "owed (Release Value) = 1"
| "owed (ReleaseEx Count Value) = unat Count"
| "owed (FastRelease Value) = 1"
| "owed p = 0"

fun acquiring :: "client_place \<Rightarrow> bool" where
  "acquiring (Acquire None) = True"
| "acquiring (AcquireEx Count None) = True"
| "acquiring (FastAcquire None) = True"
| "acquiring p = False"

fun releasing :: "client_place \<Rightarrow> bool" where
  "releasing (Release None) = True"
| "releasing (ReleaseEx Count None) = (Count \<noteq> 0)"
| "releasing (FastRelease None) = True"
| "releasing p = False"

datatype actor = Client nat | Owner

text \<open>
  The moves of \<open>n\<close> clients and the owner: a thread between calls enters a routine (a releasing one
  only for references that it has), and a thread inside of a routine makes its next step. The owner may
  also complete the rundown and initialise the descriptor again.
\<close>

inductive moves :: "nat \<Rightarrow> nat \<Rightarrow> ULONG_PTR \<Rightarrow> actor \<Rightarrow> rundown_state \<Rightarrow> rundown_state \<Rightarrow> bool"
  for n np WaitBlock where
  call_acquire: "t < n \<Longrightarrow> clients s t = Idle \<Longrightarrow> acquiring p \<Longrightarrow>
    moves n np WaitBlock (Client t) s (s\<lparr>clients := (clients s)(t := p)\<rparr>)"
| call_release: "t < n \<Longrightarrow> clients s t = Idle \<Longrightarrow> releasing p \<Longrightarrow> owed p \<le> refs s t \<Longrightarrow>
    moves n np WaitBlock (Client t) s
      (s\<lparr>clients := (clients s)(t := p), refs := (refs s)(t := refs s t - owed p)\<rparr>)"
| return_acquired: "t < n \<Longrightarrow> clients s t = Acquired Count \<Longrightarrow>
    moves n np WaitBlock (Client t) s
      (s\<lparr>clients := (clients s)(t := Idle), refs := (refs s)(t := refs s t + unat Count)\<rparr>)"
| client_goes_on: "t < n \<Longrightarrow> clients s t \<noteq> Idle \<Longrightarrow> (\<forall>c. clients s t \<noteq> Acquired c) \<Longrightarrow>
    client_step np WaitBlock (clients s t) (RunRef s) = Some (r, p) \<Longrightarrow>
    moves n np WaitBlock (Client t) s (s\<lparr>RunRef := r, clients := (clients s)(t := p)\<rparr>)"
| call_wait: "owner s = InUse \<Longrightarrow> p = FastWait \<or> p = Wait \<Longrightarrow>
    moves n np WaitBlock Owner s (s\<lparr>owner := p\<rparr>)"
| owner_goes_on: "owner s \<noteq> InUse \<Longrightarrow> owner_step WaitBlock (owner s) (RunRef s) = Some (r, p) \<Longrightarrow>
    moves n np WaitBlock Owner s (s\<lparr>RunRef := r, owner := p\<rparr>)"
| reinitialize: "owner s = RunDown \<Longrightarrow> ExfReInitializeRundownProtection (RunRef s) = Some r \<Longrightarrow>
    moves n np WaitBlock Owner s (s\<lparr>RunRef := r, owner := InUse\<rparr>)"

definition outstanding :: "nat \<Rightarrow> rundown_state \<Rightarrow> nat" where
  "outstanding n s = (\<Sum>t < n. refs s t + owed (clients s t))"

definition fresh_rundown :: "EX_RUNDOWN_REF \<Rightarrow> rundown_state" where
  "fresh_rundown r = \<lparr>RunRef = ExfInitializeRundownProtection r, clients = (\<lambda>_. Idle), refs = (\<lambda>_. 0), owner = InUse\<rparr>"

text \<open>
  The reachable states, as long as the number of references fits the 31 bits of the count.
\<close>

inductive reachable :: "nat \<Rightarrow> nat \<Rightarrow> ULONG_PTR \<Rightarrow> rundown_state \<Rightarrow> bool" for n np WaitBlock where
  reach_fresh: "reachable n np WaitBlock (fresh_rundown r)"
| reach_moves: "reachable n np WaitBlock s \<Longrightarrow> moves n np WaitBlock a s s' \<Longrightarrow> outstanding n s' < 2 ^ 31 \<Longrightarrow>
    reachable n np WaitBlock s'"

end
