(* ===== verification/Ros_Fair.thy ===== *)
theory Ros_Fair
  imports Main
begin

text \<open>
  Infinite runs of several actors under weak fairness. At each point of a run one actor makes a move, or
  nothing happens; an actor that stays ready is scheduled at some time.
\<close>

text \<open>Sums over the threads, when one of them changes.\<close>

lemma sum_upd:
  fixes f :: "nat \<Rightarrow> nat"
  assumes "t < n" "\<And>u. u \<noteq> t \<Longrightarrow> g u = f u"
  shows "sum g {..<n} + f t = sum f {..<n} + g t"
proof -
  have "sum g ({..<n} - {t}) = sum f ({..<n} - {t})" by (rule sum.cong) (auto simp: assms(2))
  then show ?thesis using assms(1) by (simp add: sum.remove [of "{..<n}" t])
qed

definition fair_run ::
  "('a \<Rightarrow> 's \<Rightarrow> 's \<Rightarrow> bool) \<Rightarrow> ('a \<Rightarrow> 's \<Rightarrow> bool) \<Rightarrow> (nat \<Rightarrow> 's) \<Rightarrow> (nat \<Rightarrow> 'a option) \<Rightarrow> bool" where
  "fair_run moves ready run sched \<longleftrightarrow>
     (\<forall>i. case sched i of None \<Rightarrow> run (Suc i) = run i | Some a \<Rightarrow> moves a (run i) (run (Suc i))) \<and>
     (\<forall>a i. \<exists>j \<ge> i. sched j = Some a \<or> \<not> ready a (run j))"

lemma fair_run_step:
  assumes "fair_run moves ready run sched"
  obtains "run (Suc i) = run i" "sched i = None" | a where "sched i = Some a" "moves a (run i) (run (Suc i))"
proof -
  have "case sched i of None \<Rightarrow> run (Suc i) = run i | Some a \<Rightarrow> moves a (run i) (run (Suc i))"
    using assms by (simp add: fair_run_def)
  then show thesis using that by (cases "sched i") auto
qed

text \<open>
  The rule for one helpful actor: as long as \<open>P\<close> holds the helper is ready, every move keeps \<open>P\<close> or
  reaches \<open>Q\<close>, and a move of the helper lowers the rank.
\<close>

locale helpful =
  fixes moves :: "'a \<Rightarrow> 's \<Rightarrow> 's \<Rightarrow> bool" and ready :: "'a \<Rightarrow> 's \<Rightarrow> bool" and helper :: 'a
    and P Q :: "'s \<Rightarrow> bool" and rank :: "'s \<Rightarrow> nat"
  assumes helper_ready: "P s \<Longrightarrow> ready helper s"
    and kept: "P s \<Longrightarrow> moves a s s' \<Longrightarrow> a \<noteq> helper \<Longrightarrow> Q s' \<or> P s' \<and> rank s' \<le> rank s"
    and helps: "P s \<Longrightarrow> moves helper s s' \<Longrightarrow> Q s' \<or> P s' \<and> rank s' < rank s"
begin

lemma waits:
  assumes "fair_run moves ready run sched" "P (run i)"
  shows "(\<exists>j \<ge> i. j \<le> i + k \<and> Q (run j)) \<or> (\<exists>j \<ge> i. P (run j) \<and> rank (run j) < rank (run i)) \<or>
    P (run (i + k)) \<and> rank (run (i + k)) \<le> rank (run i) \<and> (\<forall>j. i \<le> j \<and> j < i + k \<longrightarrow> sched j \<noteq> Some helper)"
proof (induction k)
  case 0
  then show ?case using assms(2) by auto
next
  case (Suc k)
  then consider "(\<exists>j \<ge> i. j \<le> i + k \<and> Q (run j)) \<or> (\<exists>j \<ge> i. P (run j) \<and> rank (run j) < rank (run i))"
    | "P (run (i + k))" "rank (run (i + k)) \<le> rank (run i)" "\<forall>j. i \<le> j \<and> j < i + k \<longrightarrow> sched j \<noteq> Some helper" by blast
  then show ?case
  proof cases
    case 1
    then show ?thesis by (metis le_Suc_eq add_Suc_right)
  next
    case 2
    have next_P: "P (run (i + Suc k)) \<and> rank (run (i + Suc k)) \<le> rank (run i) \<and> sched (i + k) \<noteq> Some helper \<or>
        Q (run (i + Suc k)) \<or> P (run (i + Suc k)) \<and> rank (run (i + Suc k)) < rank (run i)"
      using assms(1)
    proof (cases rule: fair_run_step [of moves ready run sched "i + k"])
      case 1
      then show ?thesis using 2 by simp
    next
      case (2 a)
      then show ?thesis
        using kept [of "run (i + k)" a] helps [of "run (i + k)"] \<open>P (run (i + k))\<close> \<open>rank (run (i + k)) \<le> rank (run i)\<close>
        by (cases "a = helper") fastforce+
    qed
    moreover have "(\<forall>j. i \<le> j \<and> j < i + Suc k \<longrightarrow> sched j \<noteq> Some helper)" if "sched (i + k) \<noteq> Some helper"
      using that 2(3) less_Suc_eq by auto
    ultimately show ?thesis by (metis le_add1 order_refl)
  qed
qed

lemma leads_to:
  assumes "fair_run moves ready run sched" "P (run i)"
  shows "\<exists>j \<ge> i. Q (run j)"
  using assms(2)
proof (induction "rank (run i)" arbitrary: i rule: less_induct)
  case less
  obtain j where j: "i \<le> j" "sched j = Some helper \<or> \<not> ready helper (run j)"
    using assms(1) unfolding fair_run_def by blast
  have "(\<exists>j \<ge> i. Q (run j)) \<or> (\<exists>j \<ge> i. P (run j) \<and> rank (run j) < rank (run i)) \<or>
      P (run (Suc j)) \<and> rank (run (Suc j)) \<le> rank (run i) \<and> P (run j) \<and> sched j \<noteq> Some helper"
    using waits [OF assms(1) less.prems, of "Suc j - i"] waits [OF assms(1) less.prems, of "j - i"] j(1)
    by (auto simp: Suc_diff_le)
  then show ?case using less.hyps j helper_ready by (metis order.trans)
qed

end

end
