(* ===== verification/Ex_Rundown_Safe.thy ===== *)
theory Ex_Rundown_Safe
  imports Ex_Rundown Ros_Fair
begin

text \<open>
  The safety of rundown protection: the invariant of all reachable states, that no reference is held
  when the wait returns, and that no \<^verbatim>\<open>ASSERT\<close> fails.
\<close>

unbundle bit_operations_syntax

section \<open>The count and the active bit\<close>

lemma inactive_iff: "(v :: ULONG_PTR) AND 1 = 0 \<longleftrightarrow> even v"
  by (simp add: and_one_eq even_iff_mod_2_eq_zero)

lemma twice_inactive: "(2 * k :: ULONG_PTR) AND 1 = 0"
  unfolding inactive_iff by (rule dvd_triv_left)

lemma pointer_active: "(b OR 1 :: ULONG_PTR) AND 1 \<noteq> 0"
  unfolding inactive_iff by (simp add: even_or_iff)

lemma pointer_of: "b AND 1 = 0 \<Longrightarrow> (b OR 1 :: ULONG_PTR) AND - 2 = b"
proof -
  assume "b AND 1 = 0"
  then have "(b OR 1 :: ULONG_PTR) AND NOT 1 = b"
    by (intro bit_word_eqI) (auto simp: bit_simps and_one_eq even_iff_mod_2_eq_zero [symmetric] bit_0)
  then show ?thesis by simp
qed

lemma masked_inactive: "(v AND - 2 :: ULONG_PTR) AND 1 = 0"
  by (simp add: and.assoc)

section \<open>Sums over the clients\<close>

definition signals :: "nat \<Rightarrow> rundown_state \<Rightarrow> nat" where
  "signals n s = (\<Sum>t < n. if clients s t = Signal then 1 else 0)"

lemma outstanding_client:
  assumes "t < n" "\<And>u. u \<noteq> t \<Longrightarrow> clients s' u = clients s u \<and> refs s' u = refs s u"
  shows "outstanding n s' + (refs s t + owed (clients s t)) = outstanding n s + (refs s' t + owed (clients s' t))"
  unfolding outstanding_def using sum_upd [of t n "\<lambda>u. refs s' u + owed (clients s' u)" "\<lambda>u. refs s u + owed (clients s u)"] assms
  by simp

lemma signals_client:
  assumes "t < n" "\<And>u. u \<noteq> t \<Longrightarrow> clients s' u = clients s u"
  shows "signals n s' + (if clients s t = Signal then 1 else 0) = signals n s + (if clients s' t = Signal then 1 else 0)"
  unfolding signals_def
  using sum_upd [of t n "\<lambda>u. if clients s' u = Signal then 1 else 0" "\<lambda>u. if clients s u = Signal then 1 else 0"] assms
  by simp

lemma outstanding_ge: "t < n \<Longrightarrow> refs s t + owed (clients s t) \<le> outstanding n s"
  unfolding outstanding_def by (rule member_le_sum) auto

lemma outstanding_owner [simp]: "outstanding n (s\<lparr>RunRef := r\<rparr>) = outstanding n s" "outstanding n (s\<lparr>owner := p\<rparr>) = outstanding n s"
  by (simp_all add: outstanding_def)

lemma signals_owner [simp]:
  "signals n (s\<lparr>RunRef := r\<rparr>) = signals n s" "signals n (s\<lparr>owner := p\<rparr>) = signals n s"
  by (simp_all add: signals_def)

section \<open>The invariant\<close>

text \<open>
  A value that a releasing routine has read: the count, which includes the references that the
  routine gives back, or the pointer to the wait block, whose owner then waits for this reference.
\<close>

definition value_ok :: "ULONG_PTR \<Rightarrow> owner_place \<Rightarrow> nat \<Rightarrow> ULONG_PTR option \<Rightarrow> bool" where
  "value_ok WaitBlock ow k Value \<longleftrightarrow> (case Value of None \<Rightarrow> True
     | Some v \<Rightarrow> if v AND 1 = 0 then 2 * k \<le> unat v else v = WaitBlock OR 1 \<and> ow = WaitEvent)"

fun place_ok :: "ULONG_PTR \<Rightarrow> owner_place \<Rightarrow> client_place \<Rightarrow> bool" where
  "place_ok WaitBlock ow (Release Value) = value_ok WaitBlock ow 1 Value"
| "place_ok WaitBlock ow (ReleaseEx Count Value) = (Count \<noteq> 0 \<and> value_ok WaitBlock ow (unat Count) Value)"
| "place_ok WaitBlock ow (FastAcquire Value) = (\<forall>v. Value = Some v \<longrightarrow> v AND 1 = 0)"
| "place_ok WaitBlock ow (FastRelease Value) = (\<forall>v. Value = Some v \<longrightarrow> v AND 1 = 0)"
| "place_ok WaitBlock ow p = True"

definition counting :: "owner_place \<Rightarrow> bool" where
  "counting ow \<longleftrightarrow> ow = InUse \<or> ow = FastWait \<or> ow = Wait \<or> (\<exists>e v. ow = WaitLoop e v)"

definition owner_ok :: "ULONG_PTR \<Rightarrow> owner_place \<Rightarrow> EX_RUNDOWN_REF \<Rightarrow> nat \<Rightarrow> nat \<Rightarrow> bool" where
  "owner_ok WaitBlock ow r T S \<longleftrightarrow>
     (if counting ow then RunRef_Count r = 2 * of_nat T \<and> S = 0 \<and>
        (case ow of WaitLoop e v \<Rightarrow> v AND 1 = 0 \<and> (e \<longrightarrow> \<not> WakeEvent (Block r)) | _ \<Rightarrow> True)
      else if ow = WaitEvent then RunRef_Count r = WaitBlock OR 1 \<and> Block_Count (Block r) = of_nat T \<and>
        S + of_bool (WakeEvent (Block r)) = of_bool (T = 0)
      else RunRef_Count r AND 1 \<noteq> 0 \<and> T = 0 \<and> S = 0)"

definition rundown_inv :: "nat \<Rightarrow> ULONG_PTR \<Rightarrow> rundown_state \<Rightarrow> bool" where
  "rundown_inv n WaitBlock s \<longleftrightarrow> outstanding n s < 2 ^ 31 \<and>
     owner_ok WaitBlock (owner s) (RunRef s) (outstanding n s) (signals n s) \<and>
     (\<forall>t < n. place_ok WaitBlock (owner s) (clients s t))"

section \<open>Steps of the clients\<close>

lemma unat_twice: "n < 2 ^ 31 \<Longrightarrow> unat (2 * of_nat n :: ULONG_PTR) = 2 * n"
proof -
  assume "n < 2 ^ 31"
  moreover have "(2 * of_nat n :: ULONG_PTR) = of_nat (2 * n)" by simp
  ultimately show ?thesis unfolding \<open>2 * of_nat n = of_nat (2 * n)\<close> by (subst unat_of_nat_32) simp_all
qed

lemma twice_le: "2 * unat c \<le> unat v \<Longrightarrow> 2 * c \<le> v" for c v :: ULONG_PTR
  using unat_twice [of "unat c"] unat_32_less [of v] by (simp add: word_le_nat_alt)

lemma two_le: "2 \<le> unat v \<Longrightarrow> 2 \<le> v" for v :: ULONG_PTR
  using twice_le [of 1 v] by simp

lemma same_sum: "x + a = c \<Longrightarrow> k + a = c \<Longrightarrow> x = k" for x a c k :: ULONG_PTR
  by (metis add_right_imp_eq)

lemma count_moved: "x + 2 * a = 2 * T + 2 * b \<Longrightarrow> k + a = T + b \<Longrightarrow> x = 2 * k" for x a b k T :: ULONG_PTR
proof -
  assume "x + 2 * a = 2 * T + 2 * b" "k + a = T + b"
  then have "x + 2 * a = 2 * (k + a)" by simp
  then have "x + 2 * a = 2 * k + 2 * a" by (simp only: distrib_left)
  then show ?thesis by (simp only: add_right_cancel)
qed

text \<open>
  While the descriptor counts, a step moves references between the count and the routine, and it
  never touches the wait block.
\<close>

lemma client_step_counting:
  assumes "counting ow" "place_ok WaitBlock ow p" "p \<noteq> Signal" "\<And>c. p \<noteq> Acquired c"
    and "RunRef_Count r = 2 * of_nat T" "T < 2 ^ 31" "owed p \<le> T"
  obtains r' p' where "client_step np WaitBlock p r = Some (r', p')" "Block r' = Block r" "p' \<noteq> Signal"
    "place_ok WaitBlock ow p'" "RunRef_Count r' + 2 * of_nat (owed p) = RunRef_Count r + 2 * of_nat (owed p')"
proof -
  have big: "unat (RunRef_Count r) = 2 * T" using assms(5,6) by (simp add: unat_twice)
  have even: "RunRef_Count r AND 1 = 0" unfolding assms(5) by (rule twice_inactive)
  have "ow \<noteq> WaitEvent" using assms(1) by (auto simp: counting_def)
  have step: "\<exists>r' p'. client_step np WaitBlock p r = Some (r', p') \<and> Block r' = Block r \<and> p' \<noteq> Signal \<and>
    place_ok WaitBlock ow p' \<and> RunRef_Count r' + 2 * of_nat (owed p) = RunRef_Count r + 2 * of_nat (owed p')"
  proof (cases p)
    case (Acquire V) then show ?thesis by (cases V) (auto simp: ExpChangeRundown_def)
  next
    case (AcquireEx c V) then show ?thesis by (cases V) (auto simp: ExpChangeRundown_def)
  next
    case (FastAcquire V) then show ?thesis by (cases V) (auto simp: ExpChangeRundown_def value_ok_def masked_inactive)
  next
    case (Release V) then show ?thesis using assms(2,7) big even \<open>ow \<noteq> WaitEvent\<close>
      by (cases V) (auto simp: ExpChangeRundown_def value_ok_def two_le split: if_splits)
  next
    case (ReleaseEx c V) then show ?thesis using assms(2,7) big even \<open>ow \<noteq> WaitEvent\<close>
      by (cases V) (auto simp: ExpChangeRundown_def value_ok_def twice_le split: if_splits)
  next
    case (FastRelease V) then show ?thesis using assms(7) big
      by (cases V) (auto simp: ExpChangeRundown_def value_ok_def masked_inactive intro: two_le)
  qed (use assms(3,4) in auto)
  then show thesis using that by blast
qed

text \<open>
  Once the descriptor is active its count stays as it is. A reference that is given back is taken from
  the wait block, and the thread that takes the last one is about to signal the event.
\<close>

lemma client_step_active:
  assumes "RunRef_Count r AND 1 \<noteq> 0" "\<not> counting ow" "place_ok WaitBlock ow p" "p \<noteq> Signal" "\<And>c. p \<noteq> Acquired c"
    and "ow = WaitEvent \<Longrightarrow> RunRef_Count r = WaitBlock OR 1 \<and> Block_Count (Block r) = of_nat T"
    and "ow \<noteq> WaitEvent \<Longrightarrow> T = 0" "T < 2 ^ 31" "owed p \<le> T" "WaitBlock AND 1 = 0"
  obtains r' p' where "client_step np WaitBlock p r = Some (r', p')" "RunRef_Count r' = RunRef_Count r"
    "WakeEvent (Block r') = WakeEvent (Block r)" "place_ok WaitBlock ow p'" "owed p' \<le> owed p" "\<forall>c. p' \<noteq> Acquired c"
    "Block_Count (Block r') + of_nat (owed p) = Block_Count (Block r) + of_nat (owed p')"
    "p' = Signal \<longleftrightarrow> owed p' < owed p \<and> T = owed p"
proof -
  have eq: "(of_nat T = c) = (T = unat c)" for c :: ULONG_PTR
  proof -
    have "(of_nat T = c) = (unat (of_nat T :: ULONG_PTR) = unat c)" by (rule word_unat_eq_iff)
    then show ?thesis using assms(8) by (simp add: unat_of_nat_32)
  qed
  have le: "c \<le> of_nat T" if "unat c \<le> T" for c :: ULONG_PTR
    using that assms(8) by (simp add: word_le_nat_alt unat_of_nat_32)
  have pos: "0 < T \<Longrightarrow> 0 < (of_nat T :: ULONG_PTR)"
    using assms(8) by (simp add: word_less_nat_alt unat_of_nat_32)
  have step: "\<exists>r' p'. client_step np WaitBlock p r = Some (r', p') \<and> RunRef_Count r' = RunRef_Count r \<and>
    WakeEvent (Block r') = WakeEvent (Block r) \<and> place_ok WaitBlock ow p' \<and> owed p' \<le> owed p \<and> (\<forall>c. p' \<noteq> Acquired c) \<and>
    Block_Count (Block r') + of_nat (owed p) = Block_Count (Block r) + of_nat (owed p') \<and>
    (p' = Signal \<longleftrightarrow> owed p' < owed p \<and> T = owed p)"
  proof (cases p)
    case (Acquire V) then show ?thesis using assms(1) by (cases V) (auto simp: ExpChangeRundown_def)
  next
    case (AcquireEx c V) then show ?thesis using assms(1) by (cases V) (auto simp: ExpChangeRundown_def)
  next
    case (FastAcquire V) then show ?thesis using assms(1,3) by (cases V) (auto simp: ExpChangeRundown_def masked_inactive)
  next
    case (Release V) then show ?thesis using assms(1,3,6-10) eq [of 1] pos
      by (cases V) (auto simp: ExpChangeRundown_def drop_references_def value_ok_def pointer_of pointer_active two_le twice_le split: if_splits)
  next
    case (ReleaseEx c V)
    then have "c \<noteq> 0" "unat c \<le> T" using assms(3,9) by auto
    then have ow: "ow = WaitEvent" using assms(7) by (metis bot_nat_0.extremum_uniqueI unat_eq_zero)
    then have block: "RunRef_Count r = WaitBlock OR 1" "Block_Count (Block r) = c \<longleftrightarrow> T = unat c" "c \<le> Block_Count (Block r)"
      using assms(6) eq [of c] le [of c] \<open>unat c \<le> T\<close> by auto
    moreover have "v AND 1 = 0 \<Longrightarrow> v \<noteq> RunRef_Count r" "v AND 1 = 0 \<Longrightarrow> RunRef_Count r \<noteq> v" for v using assms(1) by metis+
    ultimately show ?thesis using ReleaseEx assms(3,10) ow \<open>c \<noteq> 0\<close>
      by (cases V) (auto simp: ExpChangeRundown_def drop_references_def value_ok_def pointer_of pointer_active twice_le unat_gt_0
          split: if_splits)
  next
    case (FastRelease V) then show ?thesis using assms(1,3) by (cases V) (auto simp: ExpChangeRundown_def value_ok_def masked_inactive)
  qed (use assms(4,5) in \<open>auto\<close>)
  then show thesis using that by blast
qed


section \<open>Every move keeps the invariant\<close>

lemma place_ok_owner:
  assumes "place_ok WaitBlock ow p" "ow = WaitEvent \<Longrightarrow> ow' = WaitEvent \<or> owed p = 0"
  shows "place_ok WaitBlock ow' p"
  using assms by (cases p) (auto simp: value_ok_def unat_eq_zero split: option.splits if_splits)

lemma inv_fresh: "rundown_inv n WaitBlock (fresh_rundown r)"
  by (simp add: rundown_inv_def owner_ok_def fresh_rundown_def outstanding_def signals_def counting_def ExfInitializeRundownProtection_def)

lemma inv_call:
  assumes "rundown_inv n WaitBlock s" "t < n" "clients s t = Idle \<or> (\<exists>c. clients s t = Acquired c)"
    "place_ok WaitBlock (owner s) p" "p \<noteq> Signal" "k + owed p = refs s t + owed (clients s t)"
  shows "rundown_inv n WaitBlock (s\<lparr>clients := (clients s)(t := p), refs := (refs s)(t := k)\<rparr>)" (is "rundown_inv n WaitBlock ?s")
proof -
  have "outstanding n ?s = outstanding n s" using outstanding_client [of t n ?s s] assms(2,6) by simp
  moreover have "signals n ?s = signals n s" using signals_client [of t n ?s s] assms(2,3,5) by auto
  ultimately show ?thesis using assms by (auto simp: rundown_inv_def)
qed


abbreviation (input) put_client :: "rundown_state \<Rightarrow> nat \<Rightarrow> EX_RUNDOWN_REF \<Rightarrow> client_place \<Rightarrow> rundown_state" where
  "put_client s t r p \<equiv> s\<lparr>RunRef := r, clients := (clients s)(t := p)\<rparr>"

lemma put_client_sums:
  assumes "t < n"
  shows "outstanding n (put_client s t r p) + owed (clients s t) = outstanding n s + owed p"
    "of_nat (outstanding n (put_client s t r p)) + of_nat (owed (clients s t)) =
       (of_nat (outstanding n s) + of_nat (owed p) :: ULONG_PTR)"
    "signals n (put_client s t r p) + of_bool (clients s t = Signal) = signals n s + of_bool (p = Signal)"
proof -
  show 1: "outstanding n (put_client s t r p) + owed (clients s t) = outstanding n s + owed p"
    using outstanding_client [of t n "put_client s t r p" s] assms by simp
  show "of_nat (outstanding n (put_client s t r p)) + of_nat (owed (clients s t)) =
       (of_nat (outstanding n s) + of_nat (owed p) :: ULONG_PTR)"
    using arg_cong [OF 1, of "of_nat :: nat \<Rightarrow> ULONG_PTR"] by simp
  show "signals n (put_client s t r p) + of_bool (clients s t = Signal) = signals n s + of_bool (p = Signal)"
    using signals_client [of t n "put_client s t r p" s] assms by (simp add: of_bool_def)
qed

lemma inv_signal:
  assumes inv: "rundown_inv n WaitBlock s" and t: "t < n" "clients s t = Signal"
  shows "rundown_inv n WaitBlock (put_client s t (set_wake_event (RunRef s)) Idle)"
proof -
  note sums = put_client_sums(1,3) [OF t(1), of s Idle "set_wake_event (RunRef s)", unfolded t(2), simplified]
  moreover have "owner s = WaitEvent" "outstanding n s = 0" "signals n s = 1" "\<not> WakeEvent (Block (RunRef s))"
    using inv sums(2) by (auto simp: rundown_inv_def owner_ok_def of_bool_def split: if_splits)
  ultimately show ?thesis
    using inv by (auto simp: rundown_inv_def owner_ok_def counting_def set_wake_event_def)
qed

lemma inv_counting:
  assumes inv: "rundown_inv n WaitBlock s" "counting (owner s)" and t: "t < n" "clients s t \<noteq> Signal" "\<And>c. clients s t \<noteq> Acquired c"
  obtains r p where "client_step np WaitBlock (clients s t) (RunRef s) = Some (r, p)"
    "outstanding n (put_client s t r p) < 2 ^ 31 \<Longrightarrow> rundown_inv n WaitBlock (put_client s t r p)"
proof -
  have T: "owed (clients s t) \<le> outstanding n s" "outstanding n s < 2 ^ 31" "place_ok WaitBlock (owner s) (clients s t)"
    and c: "RunRef_Count (RunRef s) = 2 * of_nat (outstanding n s)"
    using outstanding_ge [OF t(1), of s] inv t(1) by (auto simp: rundown_inv_def owner_ok_def)
  obtain r p where *: "client_step np WaitBlock (clients s t) (RunRef s) = Some (r, p)" "Block r = Block (RunRef s)" "p \<noteq> Signal"
    "place_ok WaitBlock (owner s) p"
    "RunRef_Count r + 2 * of_nat (owed (clients s t)) = RunRef_Count (RunRef s) + 2 * of_nat (owed p)"
    by (rule client_step_counting [OF inv(2) T(3) t(2,3) c T(2,1)])
  have "RunRef_Count r = 2 * of_nat (outstanding n (put_client s t r p))"
    using *(5) put_client_sums(2) [OF t(1), of s p r] unfolding c by (rule count_moved)
  moreover have "signals n (put_client s t r p) = signals n s" using put_client_sums(3) [OF t(1), of s p r] t(2) *(3) by simp
  ultimately have "rundown_inv n WaitBlock (put_client s t r p)" if "outstanding n (put_client s t r p) < 2 ^ 31"
    using inv *(2-4) that by (auto simp: rundown_inv_def owner_ok_def split: owner_place.splits)
  then show ?thesis using that *(1) by blast
qed

lemma inv_active:
  assumes inv: "rundown_inv n WaitBlock s" "\<not> counting (owner s)" and b: "WaitBlock AND 1 = 0"
    and t: "t < n" "clients s t \<noteq> Signal" "\<And>c. clients s t \<noteq> Acquired c"
  obtains r p where "client_step np WaitBlock (clients s t) (RunRef s) = Some (r, p)"
    "rundown_inv n WaitBlock (put_client s t r p)" "owed p \<le> owed (clients s t)" "RunRef_Count r = RunRef_Count (RunRef s)"
    "\<forall>c. p \<noteq> Acquired c"
proof -
  have T: "owed (clients s t) \<le> outstanding n s" "outstanding n s < 2 ^ 31" "place_ok WaitBlock (owner s) (clients s t)"
    using outstanding_ge [OF t(1), of s] inv t(1) by (auto simp: rundown_inv_def)
  have ow: "RunRef_Count (RunRef s) AND 1 \<noteq> 0"
    "owner s = WaitEvent \<Longrightarrow> RunRef_Count (RunRef s) = WaitBlock OR 1 \<and> Block_Count (Block (RunRef s)) = of_nat (outstanding n s)"
    "owner s \<noteq> WaitEvent \<Longrightarrow> outstanding n s = 0"
    using inv pointer_active [of WaitBlock] by (auto simp: rundown_inv_def owner_ok_def split: if_splits)
  obtain r p where *: "client_step np WaitBlock (clients s t) (RunRef s) = Some (r, p)" "RunRef_Count r = RunRef_Count (RunRef s)"
    "WakeEvent (Block r) = WakeEvent (Block (RunRef s))" "place_ok WaitBlock (owner s) p" "owed p \<le> owed (clients s t)"
    "\<forall>c. p \<noteq> Acquired c"
    "Block_Count (Block r) + of_nat (owed (clients s t)) = Block_Count (Block (RunRef s)) + of_nat (owed p)"
    "p = Signal \<longleftrightarrow> owed p < owed (clients s t) \<and> outstanding n s = owed (clients s t)"
    by (rule client_step_active [OF ow(1) inv(2) T(3) t(2,3) ow(2,3) T(2,1) b])
  have "Block_Count (Block r) = of_nat (outstanding n (put_client s t r p))" if "owner s = WaitEvent"
    using *(7) [unfolded conjunct2 [OF ow(2) [OF that]]] put_client_sums(2) [OF t(1), of s p r] by (rule same_sum)
  moreover have "outstanding n (put_client s t r p) \<le> outstanding n s"
    "p = Signal \<longleftrightarrow> outstanding n (put_client s t r p) = 0 \<and> 0 < outstanding n s"
    using put_client_sums(1) [OF t(1), of s p r] *(5,8) T(1) by auto
  moreover have "signals n (put_client s t r p) = signals n s + of_bool (p = Signal)"
    using put_client_sums(3) [OF t(1), of s p r] t(2) by simp
  ultimately have "rundown_inv n WaitBlock (put_client s t r p)"
    using inv *(2-4) T(2) unfolding rundown_inv_def owner_ok_def by (auto simp: of_bool_def split: if_splits)
  then show ?thesis using that * by blast
qed

text \<open>The owner.\<close>

lemma half_count: "T < 2 ^ 31 \<Longrightarrow> drop_bit (Suc 0) (2 * of_nat T :: ULONG_PTR) = of_nat T"
proof -
  assume T: "T < 2 ^ 31"
  have "unat (drop_bit (Suc 0) (2 * of_nat T :: ULONG_PTR)) = drop_bit (Suc 0) (unat (2 * of_nat T :: ULONG_PTR))"
    by (rule unat_drop_bit_eq)
  also have "\<dots> = T" unfolding unat_twice [OF T] by (simp add: drop_bit_Suc)
  finally have "unat (drop_bit (Suc 0) (2 * of_nat T :: ULONG_PTR)) = unat (of_nat T :: ULONG_PTR)"
    using T by (simp add: unat_of_nat_32)
  then show ?thesis by (rule word_unat_eq_iff [THEN iffD2])
qed

lemma twice_eq: "T < 2 ^ 31 \<Longrightarrow> (2 * of_nat T = (0 :: ULONG_PTR)) = (T = 0)" "2 * k \<noteq> (1 :: ULONG_PTR)"
  "T < 2 ^ 31 \<Longrightarrow> (of_nat T = (0 :: ULONG_PTR)) = (T = 0)"
proof -
  show "T < 2 ^ 31 \<Longrightarrow> (2 * of_nat T = (0 :: ULONG_PTR)) = (T = 0)" using unat_twice [of T] by (auto simp: word_unat_eq_iff)
  show "2 * k \<noteq> (1 :: ULONG_PTR)" using twice_inactive [of k] by (metis and.idem zero_neq_one)
  show "T < 2 ^ 31 \<Longrightarrow> (of_nat T = (0 :: ULONG_PTR)) = (T = 0)" using unat_of_nat_32 [of T] by (auto simp: word_unat_eq_iff)
qed

text \<open>The owner keeps the invariant when the new place does, since the clients stay where they are.\<close>

lemma inv_owner_moved:
  assumes "rundown_inv n WaitBlock s" "owner_ok WaitBlock p r (outstanding n s) (signals n s)"
    and "owner s = WaitEvent \<Longrightarrow> p = WaitEvent \<or> outstanding n s = 0"
  shows "rundown_inv n WaitBlock (s\<lparr>RunRef := r, owner := p\<rparr>)"
proof -
  have "place_ok WaitBlock p (clients s t)" if "t < n" for t
  proof (rule place_ok_owner)
    show "place_ok WaitBlock (owner s) (clients s t)" using assms(1) that by (simp add: rundown_inv_def)
    show "p = WaitEvent \<or> owed (clients s t) = 0" if "owner s = WaitEvent"
      using assms(3) [OF that] outstanding_ge [OF \<open>t < n\<close>, of s] by auto
  qed
  then show ?thesis using assms(1,2) by (simp add: rundown_inv_def)
qed

lemma owner_step_ok:
  assumes "owner_ok WaitBlock ow r T S" "T < 2 ^ 31"
  shows "\<exists>r' p. owner_step WaitBlock ow r = Some (r', p) \<and> owner_ok WaitBlock p r' T S \<and>
    (ow = WaitEvent \<longrightarrow> p = WaitEvent \<or> T = 0)"
proof (cases ow)
  case InUse
  then show ?thesis using assms by simp
next
  case FastWait
  then show ?thesis using assms by (auto simp: owner_ok_def counting_def ExWaitForRundownProtectionRelease_def ExpChangeRundown_def twice_eq)
next
  case Wait
  then show ?thesis using assms by (auto simp: owner_ok_def counting_def wait_start_def ExpChangeRundown_def twice_eq twice_inactive)
next
  case (WaitLoop e v)
  then show ?thesis using assms
    by (auto simp: owner_ok_def counting_def wait_loop_def ExpChangeRundown_def twice_inactive half_count twice_eq pointer_active Let_def)
next
  case WaitEvent
  then show ?thesis using assms by (auto simp: owner_ok_def counting_def wait_event_def pointer_active)
next
  case RunDown
  then show ?thesis using assms by (auto simp: owner_ok_def counting_def ExfRundownCompleted_def ExpSetRundown_def)
next
  case Completed
  then show ?thesis using assms by (auto simp: owner_ok_def counting_def ExfReInitializeRundownProtection_def ExpSetRundown_def)
qed

lemma inv_owner:
  assumes inv: "rundown_inv n WaitBlock s"
  obtains r p where "owner_step WaitBlock (owner s) (RunRef s) = Some (r, p)" "rundown_inv n WaitBlock (s\<lparr>RunRef := r, owner := p\<rparr>)"
  using owner_step_ok [of WaitBlock "owner s" "RunRef s" "outstanding n s" "signals n s"] inv inv_owner_moved
  by (metis rundown_inv_def)

theorem inv_moves:
  assumes "moves n np WaitBlock a s s'" "rundown_inv n WaitBlock s" "outstanding n s' < 2 ^ 31" "WaitBlock AND 1 = 0"
  shows "rundown_inv n WaitBlock s'"
  using assms
proof (induction rule: moves.induct)
  case (call_acquire t s p)
  have "place_ok WaitBlock (owner s) p" "owed p = 0" using call_acquire(3) by (cases p rule: acquiring.cases; auto simp: value_ok_def)+
  then show ?case using inv_call [OF call_acquire(4,1), of p "refs s t"] call_acquire(2,3) by fastforce
next
  case (call_release t s p)
  have "place_ok WaitBlock (owner s) p" "p \<noteq> Signal" using call_release(3) by (cases p rule: releasing.cases; auto simp: value_ok_def)+
  then show ?case using inv_call [OF call_release(5,1), of p "refs s t - owed p"] call_release(2,4) by fastforce
next
  case (return_acquired t s Count)
  then show ?case using inv_call [of n WaitBlock s t Idle "refs s t + unat Count"] by simp
next
  case (client_goes_on t s r p)
  then have t: "\<And>c. clients s t \<noteq> Acquired c" by blast
  show ?case
  proof (cases "clients s t = Signal")
    case True
    then show ?thesis using inv_signal [of n WaitBlock s t] client_goes_on by simp
  next
    case False
    then show ?thesis
      using inv_counting [OF client_goes_on(5) _ client_goes_on(1) False t, of np] inv_active [OF client_goes_on(5) _ client_goes_on(7,1) False t, of np]
        client_goes_on(4,6) by (metis option.inject prod.inject)
  qed
next
  case (call_wait s p)
  then have "owner_ok WaitBlock p (RunRef s) (outstanding n s) (signals n s)"
    by (auto simp: rundown_inv_def owner_ok_def counting_def)
  with inv_owner_moved [of n WaitBlock s p "RunRef s"] call_wait show ?case by simp
next
  case (owner_goes_on s r p)
  then show ?case using inv_owner [of n WaitBlock s] by (metis option.inject prod.inject)
next
  case (reinitialize s r)
  then have "owner_ok WaitBlock InUse r (outstanding n s) (signals n s)"
    by (auto simp: rundown_inv_def owner_ok_def counting_def ExfReInitializeRundownProtection_def ExpSetRundown_def split: if_splits)
  with inv_owner_moved [of n WaitBlock s InUse r] reinitialize show ?case by simp
qed

lemma reachable_inv: "reachable n np WaitBlock s \<Longrightarrow> WaitBlock AND 1 = 0 \<Longrightarrow> rundown_inv n WaitBlock s"
  by (induction rule: reachable.induct) (auto intro: inv_fresh inv_moves)

lemma active_client_moves:
  assumes inv: "rundown_inv n WaitBlock s" and act: "\<not> counting (owner s)" and b: "WaitBlock AND 1 = 0"
    and m: "moves n np WaitBlock (Client t) s s'"
  shows "RunRef_Count (RunRef s') = RunRef_Count (RunRef s)" "outstanding n s' \<le> outstanding n s" "\<forall>c. clients s' t \<noteq> Acquired c"
proof -
  from m have "RunRef_Count (RunRef s') = RunRef_Count (RunRef s) \<and> outstanding n s' \<le> outstanding n s \<and> (\<forall>c. clients s' t \<noteq> Acquired c)"
  proof (cases rule: moves.cases)
    case (call_acquire p)
    then have "owed p = 0" "\<forall>c. p \<noteq> Acquired c" by (cases p rule: acquiring.cases; simp)+
    then show ?thesis using call_acquire outstanding_client [of t n s' s] by simp
  next
    case (call_release p)
    then have "\<forall>c. p \<noteq> Acquired c" by (cases p rule: releasing.cases; simp)
    then show ?thesis using call_release outstanding_client [of t n s' s] by simp
  next
    case (return_acquired Count)
    then show ?thesis using outstanding_client [of t n s' s] by simp
  next
    case (client_goes_on r p)
    then have t: "\<And>c. clients s t \<noteq> Acquired c" by blast
    show ?thesis
    proof (cases "clients s t = Signal")
      case True
      then show ?thesis using client_goes_on outstanding_client [of t n s' s] by (auto simp: set_wake_event_def)
    next
      case False
      obtain r' p' where "client_step np WaitBlock (clients s t) (RunRef s) = Some (r', p')" "owed p' \<le> owed (clients s t)"
        "RunRef_Count r' = RunRef_Count (RunRef s)" "\<forall>c. p' \<noteq> Acquired c"
        by (rule inv_active [OF inv act b client_goes_on(2) False t])
      then show ?thesis using client_goes_on outstanding_client [of t n s' s] by simp
    qed
  qed
  then show "RunRef_Count (RunRef s') = RunRef_Count (RunRef s)" "outstanding n s' \<le> outstanding n s" "\<forall>c. clients s' t \<noteq> Acquired c"
    by blast+
qed

section \<open>Properties\<close>

text \<open>
  C4. When the wait of the owner has returned, and until the descriptor is initialised again, no client
  holds a reference, and none is inside of a releasing routine or about to get one. In every reachable
  state, in whatever order the threads have run, no client and no owner fails an
  \<^verbatim>\<open>ASSERT\<close> or uses a bad wait block in its next step.
\<close>

theorem rundown_safe:
  assumes "reachable n np WaitBlock s" "WaitBlock AND 1 = 0"
  shows "(owner s = RunDown \<or> owner s = Completed \<longrightarrow> (\<forall>t < n. refs s t = 0 \<and> owed (clients s t) = 0 \<and> clients s t \<noteq> Signal)) \<and>
    (\<forall>t < n. client_step np WaitBlock (clients s t) (RunRef s) \<noteq> None) \<and>
    owner_step WaitBlock (owner s) (RunRef s) \<noteq> None"
proof (intro conjI impI allI)
  note inv = reachable_inv [OF assms]
  show "owner_step WaitBlock (owner s) (RunRef s) \<noteq> None" using inv_owner [OF inv] by fastforce
  fix t assume t: "t < n"
  show "client_step np WaitBlock (clients s t) (RunRef s) \<noteq> None"
  proof (cases "clients s t = Signal \<or> (\<exists>c. clients s t = Acquired c)")
    case True
    then show ?thesis by auto
  next
    case False
    then show ?thesis
      using inv_counting [OF inv _ t, of np] inv_active [OF inv _ assms(2) t, of np] by (metis option.distinct(1))
  qed
  assume "owner s = RunDown \<or> owner s = Completed"
  then have "outstanding n s = 0" "signals n s = 0" using inv by (auto simp: rundown_inv_def owner_ok_def counting_def)
  then show "refs s t = 0" "owed (clients s t) = 0" "clients s t \<noteq> Signal"
    using outstanding_ge [OF t, of s] t by (auto simp: signals_def split: if_splits)
qed

text \<open>
  C19. Once the active bit is set no move of a client sets a count on the descriptor: the number of
  references that are held, are about to be handed out or have still to be given back never grows.
\<close>

theorem rundown_no_new_reference:
  assumes "reachable n np WaitBlock s" "WaitBlock AND 1 = 0" "RunRef_Count (RunRef s) AND 1 \<noteq> 0"
    and "moves n np WaitBlock (Client t) s s'"
  shows "RunRef_Count (RunRef s') = RunRef_Count (RunRef s) \<and> outstanding n s' \<le> outstanding n s \<and>
    (\<forall>c. clients s' t \<noteq> Acquired c)"
proof -
  note inv = reachable_inv [OF assms(1,2)]
  have "\<not> counting (owner s)" using inv assms(3) twice_inactive [of "of_nat (outstanding n s)"] by (auto simp: rundown_inv_def owner_ok_def)
  from active_client_moves [OF inv this assms(2,4)] show ?thesis by blast
qed

end
