(* ===== verification/Ex_Rundown_Live.thy ===== *)
theory Ex_Rundown_Live
  imports Ex_Rundown_Safe
begin

text \<open>
  Liveness of rundown protection: the owner that waits for the event gets on when the clients give their
  references back. (Before the wait block is in place the loop of the owner can lose against clients
  that change the count again and again, so nothing is claimed for this phase.)
\<close>

unbundle bit_operations_syntax

section \<open>Ready actors\<close>

fun ready :: "nat \<Rightarrow> actor \<Rightarrow> rundown_state \<Rightarrow> bool" where
  "ready n (Client t) s \<longleftrightarrow> t < n \<and> clients s t \<noteq> Idle"
| "ready n Owner s \<longleftrightarrow> (case owner s of InUse \<Rightarrow> False | WaitEvent \<Rightarrow> WakeEvent (Block (RunRef s)) | RunDown \<Rightarrow> False
     | Completed \<Rightarrow> False | _ \<Rightarrow> True)"

text \<open>The places of the releasing routines, and how many of its own steps a thread needs from there at most.\<close>

fun giving_back :: "client_place \<Rightarrow> bool" where
  "giving_back (Release v) = True"
| "giving_back (ReleaseEx c v) = True"
| "giving_back (FastRelease v) = True"
| "giving_back p = False"

fun release_rank :: "client_place \<Rightarrow> nat" where
  "release_rank (FastRelease None) = 5"
| "release_rank (FastRelease (Some v)) = 4"
| "release_rank (Release None) = 3"
| "release_rank (ReleaseEx c None) = 3"
| "release_rank (Release (Some v)) = (if v AND 1 = 0 then 2 else 1)"
| "release_rank (ReleaseEx c (Some v)) = (if v AND 1 = 0 then 2 else 1)"
| "release_rank p = 0"

section \<open>The wait for the event\<close>

definition waiting :: "nat \<Rightarrow> ULONG_PTR \<Rightarrow> rundown_state \<Rightarrow> bool" where
  "waiting n WaitBlock s \<longleftrightarrow> rundown_inv n WaitBlock s \<and> WaitBlock AND 1 = 0 \<and> owner s = WaitEvent"

lemma waitingD:
  assumes "waiting n WaitBlock s"
  shows "rundown_inv n WaitBlock s" "WaitBlock AND 1 = 0" "owner s = WaitEvent" "\<not> counting (owner s)"
    "RunRef_Count (RunRef s) = WaitBlock OR 1" "Block_Count (Block (RunRef s)) = of_nat (outstanding n s)"
    "signals n s + of_bool (WakeEvent (Block (RunRef s))) = of_bool (outstanding n s = 0)"
  using assms by (auto simp: waiting_def rundown_inv_def owner_ok_def counting_def)

lemma owner_moves_waiting:
  assumes "waiting n WaitBlock s" "moves n np WaitBlock Owner s s'"
  shows "if WakeEvent (Block (RunRef s)) then owner s' = RunDown else s' = s"
  using assms(2) waitingD(3) [OF assms(1)]
  by (cases rule: moves.cases) (auto simp: wait_event_def split: if_splits)

lemma client_moves_waiting:
  assumes "waiting n WaitBlock s" "moves n np WaitBlock (Client t) s s'"
  shows "waiting n WaitBlock s'" "outstanding n s' \<le> outstanding n s" "\<And>u. u \<noteq> t \<Longrightarrow> clients s' u = clients s u \<and> refs s' u = refs s u"
proof -
  note w = waitingD [OF assms(1)]
  show le: "outstanding n s' \<le> outstanding n s" using active_client_moves(2) [OF w(1,4,2) assms(2)] .
  have "owner s' = owner s" using assms(2) by (cases rule: moves.cases) auto
  moreover have "rundown_inv n WaitBlock s'" using inv_moves [OF assms(2) w(1) _ w(2)] le w(1) by (simp add: rundown_inv_def)
  ultimately show "waiting n WaitBlock s'" using w(2,3) by (simp add: waiting_def)
  show "clients s' u = clients s u \<and> refs s' u = refs s u" if "u \<noteq> t" for u
    using assms(2) that by (cases rule: moves.cases) auto
qed

text \<open>A thread inside of a releasing routine takes its references off the count of the block after a few steps.\<close>

lemma release_step:
  assumes "waiting n WaitBlock s" "giving_back (clients s t)" "moves n np WaitBlock (Client t) s s'"
  shows "outstanding n s' < outstanding n s \<or> giving_back (clients s' t) \<and> release_rank (clients s' t) < release_rank (clients s t)"
  using assms(3)
proof (cases rule: moves.cases)
  case (client_goes_on r p)
  note w = waitingD [OF assms(1)]
  have act: "RunRef_Count (RunRef s) AND 1 \<noteq> 0" unfolding w(5) by (rule pointer_active)
  then have ne: "v AND 1 = 0 \<Longrightarrow> RunRef_Count (RunRef s) \<noteq> v" for v by metis
  have ok: "place_ok WaitBlock WaitEvent (clients s t)" using w(1,3) client_goes_on(2) by (simp add: rundown_inv_def)
  have "owed p < owed (clients s t) \<or> giving_back p \<and> release_rank p < release_rank (clients s t)"
    using assms(2) client_goes_on(5) ok act ne
    by (cases "clients s t" rule: release_rank.cases)
      (auto simp: ExpChangeRundown_def drop_references_def unat_gt_0 split: if_splits)
  moreover have "outstanding n s' + owed (clients s t) = outstanding n s + owed p"
    using put_client_sums(1) [OF client_goes_on(2), of s p r] client_goes_on(1) by simp
  ultimately show ?thesis using client_goes_on(1) by auto
qed (use assms(2) in auto)

lemma not_signaled:
  assumes "waiting n WaitBlock s" "0 < outstanding n s \<or> t < n \<and> clients s t = Signal"
  shows "\<not> WakeEvent (Block (RunRef s))"
proof -
  have "0 < signals n s" if "t < n" "clients s t = Signal"
    unfolding signals_def using that by (intro sum_pos2 [of _ t]) auto
  then show ?thesis using waitingD(7) [OF assms(1)] assms(2) by (auto simp: of_bool_def split: if_splits)
qed

lemma other_moves:
  assumes "waiting n WaitBlock s" "\<not> WakeEvent (Block (RunRef s))" "moves n np WaitBlock a s s'" "a \<noteq> Client t"
  shows "waiting n WaitBlock s' \<and> outstanding n s' \<le> outstanding n s \<and> clients s' t = clients s t \<and> refs s' t = refs s t"
proof (cases a)
  case (Client u)
  then have "moves n np WaitBlock (Client u) s s'" "t \<noteq> u" using assms(3,4) by auto
  then show ?thesis using client_moves_waiting [of n WaitBlock s np u s'] assms(1) by simp
next
  case Owner
  then have "s' = s" using owner_moves_waiting [of n WaitBlock s np s'] assms by simp
  then show ?thesis using assms(1) by simp
qed

lemma client_step_event:
  "client_step np WaitBlock p r = Some (r', p') \<Longrightarrow> WakeEvent (Block r) \<Longrightarrow> WakeEvent (Block r')"
  by (cases "(np, WaitBlock, p, r)" rule: client_step.cases)
    (auto simp: ExpChangeRundown_def drop_references_def set_wake_event_def Let_def split: if_splits
      elim!: ExfAcquireRundownProtection.elims ExfAcquireRundownProtectionEx.elims ExAcquireRundownProtection.elims
        ExfReleaseRundownProtection.elims ExfReleaseRundownProtectionEx.elims ExReleaseRundownProtection.elims)

interpretation release: helpful "moves n np WaitBlock" "ready n" "Client t"
  "\<lambda>s. waiting n WaitBlock s \<and> outstanding n s = k \<and> t < n \<and> 0 < k \<and> giving_back (clients s t)"
  "\<lambda>s. waiting n WaitBlock s \<and> outstanding n s < k" "\<lambda>s. release_rank (clients s t)" for n np WaitBlock t k
proof (unfold_locales, goal_cases)
  case (2 s a s')
  then have w: "waiting n WaitBlock s" "\<not> WakeEvent (Block (RunRef s))" using not_signaled by blast+
  from other_moves [OF this 2(2,3)] show ?case using 2(1) by auto
next
  case (3 s s')
  then have w: "waiting n WaitBlock s" "giving_back (clients s t)" by blast+
  from release_step [OF this 3(2)] client_moves_waiting(1,2) [OF w(1) 3(2)] show ?case using 3(1) by auto
qed auto

interpretation signal: helpful "moves n np WaitBlock" "ready n" "Client t"
  "\<lambda>s. waiting n WaitBlock s \<and> t < n \<and> clients s t = Signal"
  "\<lambda>s. waiting n WaitBlock s \<and> WakeEvent (Block (RunRef s))" "\<lambda>s. 0" for n np WaitBlock t
proof (unfold_locales, goal_cases)
  case (2 s a s')
  then have w: "waiting n WaitBlock s" "\<not> WakeEvent (Block (RunRef s))" using not_signaled by blast+
  from other_moves [OF this 2(2,3)] show ?case using 2(1) by auto
next
  case (3 s s')
  then have "WakeEvent (Block (RunRef s'))" by (auto elim!: moves.cases simp: set_wake_event_def)
  then show ?case using client_moves_waiting(1) [of n WaitBlock s np t s'] 3 by blast
qed auto

interpretation wake: helpful "moves n np WaitBlock" "ready n" Owner
  "\<lambda>s. waiting n WaitBlock s \<and> WakeEvent (Block (RunRef s))" "\<lambda>s. owner s = RunDown" "\<lambda>s. 0" for n np WaitBlock
proof (unfold_locales, goal_cases)
  case (1 s)
  then show ?case using waitingD(3) by auto
next
  case (2 s a s')
  then obtain u where u: "a = Client u" by (cases a) auto
  have "WakeEvent (Block (RunRef s'))" using 2 by (auto simp: u elim!: moves.cases intro: client_step_event)
  then show ?case using client_moves_waiting(1) [of n WaitBlock s np u s'] 2 u by blast
next
  case (3 s s')
  then show ?case using owner_moves_waiting [of n WaitBlock s np s'] by (simp split: if_splits)
qed

interpretation return: helpful "moves n np WaitBlock" "ready n" "Client t"
  "\<lambda>s. waiting n WaitBlock s \<and> outstanding n s = k \<and> t < n \<and> 0 < k \<and> (\<exists>c. c \<noteq> 0 \<and> clients s t = Acquired c)"
  "\<lambda>s. waiting n WaitBlock s \<and> (outstanding n s < k \<or> outstanding n s = k \<and> 0 < refs s t)" "\<lambda>s. 0" for n np WaitBlock t k
proof (unfold_locales, goal_cases)
  case (2 s a s')
  then have w: "waiting n WaitBlock s" "\<not> WakeEvent (Block (RunRef s))" using not_signaled by blast+
  from other_moves [OF this 2(2,3)] show ?case using 2(1) by auto
next
  case (3 s s')
  then have "0 < refs s' t" by (auto elim!: moves.cases simp: unat_gt_0)
  then show ?case using client_moves_waiting(1,2) [of n WaitBlock s np t s'] 3 by auto
qed auto

section \<open>The wait returns\<close>

text \<open>Every client that holds a reference calls a releasing routine at some time.\<close>

definition clients_release :: "nat \<Rightarrow> (nat \<Rightarrow> rundown_state) \<Rightarrow> bool" where
  "clients_release n run \<longleftrightarrow> (\<forall>t < n. \<forall>i. 0 < refs (run i) t \<longrightarrow> (\<exists>j \<ge> i. giving_back (clients (run j) t)))"

lemma signals_pos: "0 < signals n s \<Longrightarrow> \<exists>t < n. clients s t = Signal"
  by (rule ccontr) (simp add: signals_def)

lemma outstanding_pos: "0 < outstanding n s \<Longrightarrow> \<exists>t < n. 0 < refs s t + owed (clients s t)"
  by (rule ccontr) (simp add: outstanding_def)

lemma still_waiting:
  assumes "fair_run (moves n np WaitBlock) (ready n) run sched" "waiting n WaitBlock (run i)" "outstanding n (run i) = k" "0 < k"
  shows "(\<exists>j. i \<le> j \<and> j \<le> i + d \<and> waiting n WaitBlock (run j) \<and> outstanding n (run j) < k) \<or>
    waiting n WaitBlock (run (i + d)) \<and> outstanding n (run (i + d)) = k"
proof (induction d)
  case 0
  then show ?case using assms by simp
next
  case (Suc d)
  then consider "\<exists>j. i \<le> j \<and> j \<le> i + d \<and> waiting n WaitBlock (run j) \<and> outstanding n (run j) < k"
    | "waiting n WaitBlock (run (i + d))" "outstanding n (run (i + d)) = k" by blast
  then show ?case
  proof cases
    case 1
    then show ?thesis by (metis add_Suc_right le_SucI)
  next
    case 2
    have "waiting n WaitBlock (run (Suc (i + d))) \<and> outstanding n (run (Suc (i + d))) \<le> k"
      using assms(1)
    proof (cases rule: fair_run_step [of _ _ run sched "i + d"])
      case 1
      then show ?thesis using 2 by simp
    next
      case (2 a)
      have "\<not> WakeEvent (Block (RunRef (run (i + d))))" using not_signaled [of n WaitBlock "run (i + d)"] \<open>waiting n WaitBlock (run (i + d))\<close>
        \<open>outstanding n (run (i + d)) = k\<close> assms(4) by blast
      moreover obtain t where "a \<noteq> Client t" by (cases a) (metis actor.inject n_not_Suc_n, auto)
      ultimately show ?thesis using other_moves [OF \<open>waiting n WaitBlock (run (i + d))\<close> _ 2(2)] \<open>outstanding n (run (i + d)) = k\<close> by blast
    qed
    then show ?thesis by (metis add_Suc_right le_add1 le_neq_implies_less order_refl)
  qed
qed

lemma fewer_references:
  assumes run: "fair_run (moves n np WaitBlock) (ready n) run sched" "clients_release n run"
    and w: "waiting n WaitBlock (run i)" "outstanding n (run i) = k" "0 < k"
  shows "\<exists>j \<ge> i. waiting n WaitBlock (run j) \<and> outstanding n (run j) < k"
proof -
  have holder: "\<exists>j \<ge> i. waiting n WaitBlock (run j) \<and> outstanding n (run j) < k"
    if h: "waiting n WaitBlock (run i)" "outstanding n (run i) = k" "t < n" "0 < refs (run i) t" for i t
  proof -
    obtain j where j: "i \<le> j" "giving_back (clients (run j) t)" using run(2) h(3,4) unfolding clients_release_def by blast
    then consider "\<exists>j \<ge> i. waiting n WaitBlock (run j) \<and> outstanding n (run j) < k"
      | "waiting n WaitBlock (run j)" "outstanding n (run j) = k"
      using still_waiting [OF run(1) h(1,2) w(3), of "j - i"] by auto
    then show ?thesis
    proof cases
      case 2
      then show ?thesis using release.leads_to [OF run(1), of j k t] j h(3) w(3) by (meson order.trans)
    qed
  qed
  obtain t where t: "t < n" "0 < refs (run i) t + owed (clients (run i) t)"
    using w(2,3) outstanding_pos [of n "run i"] by auto
  then consider "0 < refs (run i) t" | "giving_back (clients (run i) t)" | c where "c \<noteq> 0" "clients (run i) t = Acquired c"
    by (cases "clients (run i) t") (auto simp: unat_gt_0)
  then show ?thesis
  proof cases
    case 1
    then show ?thesis using holder w t by blast
  next
    case 2
    then show ?thesis using release.leads_to [OF run(1), of i k t] w t by blast
  next
    case (3 c)
    then obtain j where "j \<ge> i" "waiting n WaitBlock (run j)" "outstanding n (run j) < k \<or> outstanding n (run j) = k \<and> 0 < refs (run j) t"
      using return.leads_to [OF run(1), of i k t] w t by blast
    then show ?thesis using holder [of j t] t(1) by (meson order.trans)
  qed
qed

text \<open>
  C5. The wait of the owner returns: in every fair run in which the clients release what they hold, an
  owner that waits for the event gets past the wait.
\<close>

theorem rundown_wait_returns:
  assumes run: "fair_run (moves n np WaitBlock) (ready n) run sched" "clients_release n run"
    and "reachable n np WaitBlock (run i)" "WaitBlock AND 1 = 0" "owner (run i) = WaitEvent"
  shows "\<exists>j \<ge> i. owner (run j) = RunDown"
proof -
  have "\<exists>j \<ge> i. owner (run j) = RunDown" if "waiting n WaitBlock (run i)" for i
    using that
  proof (induction "outstanding n (run i)" arbitrary: i rule: less_induct)
    case less
    show ?case
    proof (cases "outstanding n (run i) = 0")
      case False
      then show ?thesis using fewer_references [OF run less.prems refl] less.hyps by (meson not_gr_zero order.trans)
    next
      case True
      have "\<exists>j \<ge> i. waiting n WaitBlock (run j) \<and> WakeEvent (Block (RunRef (run j)))"
      proof (cases "WakeEvent (Block (RunRef (run i)))")
        case False
        then have "signals n (run i) = 1" using waitingD(7) [OF less.prems] True by simp
        then obtain t where "t < n" "clients (run i) t = Signal"
          using signals_pos [of n "run i"] by auto
        then show ?thesis using signal.leads_to [OF run(1), of i t] less.prems by blast
      qed (use less.prems in blast)
      then show ?thesis using wake.leads_to [OF run(1)] by (meson order.trans)
    qed
  qed
  then show ?thesis using assms(3-5) reachable_inv by (simp add: waiting_def)
qed

section \<open>An example run\<close>

text \<open>
  One client takes a reference, the owner runs the descriptor down, and the client gives the reference
  back while the owner waits.
\<close>

definition one_client :: "ULONG_PTR \<Rightarrow> ULONG_PTR \<Rightarrow> bool \<Rightarrow> client_place \<Rightarrow> nat \<Rightarrow> owner_place \<Rightarrow> rundown_state" where
  "one_client c b e p k ow = \<lparr>RunRef = \<lparr>RunRef_Count = c, Block = \<lparr>Block_Count = b, WakeEvent = e\<rparr>\<rparr>,
     clients = (\<lambda>_. Idle)(0 := p), refs = (\<lambda>_. 0)(0 := k), owner = ow\<rparr>"

definition example_states :: "rundown_state list" where
  "example_states =
     [one_client 0 0 False Idle 0 InUse,
      one_client 0 0 False (FastAcquire None) 0 InUse,
      one_client 0 0 False (FastAcquire (Some 0)) 0 InUse,
      one_client 2 0 False (Acquired 1) 0 InUse,
      one_client 2 0 False Idle 1 InUse,
      one_client 2 0 False Idle 1 FastWait,
      one_client 2 0 False Idle 1 Wait,
      one_client 2 0 False Idle 1 (WaitLoop False 2),
      one_client 0x1001 1 False Idle 1 WaitEvent,
      one_client 0x1001 1 False (FastRelease None) 0 WaitEvent,
      one_client 0x1001 1 False (FastRelease (Some 0x1000)) 0 WaitEvent,
      one_client 0x1001 1 False (Release None) 0 WaitEvent,
      one_client 0x1001 1 False (Release (Some 0x1001)) 0 WaitEvent,
      one_client 0x1001 0 False Signal 0 WaitEvent,
      one_client 0x1001 0 True Idle 0 WaitEvent,
      one_client 0x1001 0 False Idle 0 RunDown]"

definition example_actors :: "actor list" where
  "example_actors = map (\<lambda>c. if c then Client 0 else Owner)
     [True, True, True, True, False, False, False, False, True, True, True, True, True, True, False]"

definition example_run :: "nat \<Rightarrow> rundown_state" where
  "example_run i = example_states ! min i 15"

definition example_sched :: "nat \<Rightarrow> actor option" where
  "example_sched i = (if i < 15 then Some (example_actors ! i) else None)"

lemma one_client_step:
  assumes "client_step np WaitBlock p \<lparr>RunRef_Count = c, Block = \<lparr>Block_Count = b, WakeEvent = e\<rparr>\<rparr> =
     Some (\<lparr>RunRef_Count = c', Block = \<lparr>Block_Count = b', WakeEvent = e'\<rparr>\<rparr>, p')" "p \<noteq> Idle" "\<forall>c. p \<noteq> Acquired c"
  shows "moves 1 np WaitBlock (Client 0) (one_client c b e p k ow) (one_client c' b' e' p' k ow)"
  using moves.client_goes_on [of 0 1 "one_client c b e p k ow" np WaitBlock] assms by (simp add: one_client_def)

lemma one_client_call:
  "moves 1 np WaitBlock (Client 0) (one_client c b e Idle k ow) (one_client c b e (FastAcquire None) k ow)"
  "moves 1 np WaitBlock (Client 0) (one_client c b e Idle 1 ow) (one_client c b e (FastRelease None) 0 ow)"
  "moves 1 np WaitBlock (Client 0) (one_client c b e (Acquired 1) 0 ow) (one_client c b e Idle 1 ow)"
  using moves.call_acquire [of 0 1 "one_client c b e Idle k ow" "FastAcquire None" np WaitBlock]
    moves.call_release [of 0 1 "one_client c b e Idle 1 ow" "FastRelease None" np WaitBlock]
    moves.return_acquired [of 0 1 "one_client c b e (Acquired 1) 0 ow" 1 np WaitBlock]
  by (simp_all add: one_client_def)

lemma one_client_owner:
  assumes "owner_step WaitBlock ow \<lparr>RunRef_Count = c, Block = \<lparr>Block_Count = b, WakeEvent = e\<rparr>\<rparr> =
     Some (\<lparr>RunRef_Count = c', Block = \<lparr>Block_Count = b', WakeEvent = e'\<rparr>\<rparr>, ow')" "ow \<noteq> InUse"
  shows "moves 1 np WaitBlock Owner (one_client c b e q k ow) (one_client c' b' e' q k ow')"
  using moves.owner_goes_on [of "one_client c b e q k ow" WaitBlock _ ow' 1 np] assms by (simp add: one_client_def)

lemma one_client_wait: "moves 1 np WaitBlock Owner (one_client c b e q k InUse) (one_client c b e q k FastWait)"
  using moves.call_wait [of "one_client c b e q k InUse" FastWait 1 np WaitBlock] by (simp add: one_client_def)

lemma less_15: "i < 15 \<Longrightarrow> i \<in> {0, 1, 2, 3, 4, 5, 6, 7, 8, 9, 10, 11, 12, 13, 14}" for i :: nat
  unfolding insert_iff empty_iff by presburger

lemma example_moves: "i < 15 \<Longrightarrow> moves 1 1 0x1000 (example_actors ! i) (example_states ! i) (example_states ! Suc i)"
  by (drule less_15, elim insertE emptyE; simp add: example_states_def example_actors_def;
      (((rule one_client_call [unfolded One_nat_def] one_client_wait [unfolded One_nat_def])
         | rule one_client_step [unfolded One_nat_def] one_client_owner [unfolded One_nat_def]);
      simp add: ExpChangeRundown_def drop_references_def set_wake_event_def ExWaitForRundownProtectionRelease_def
        wait_start_def wait_loop_def wait_event_def drop_bit_Suc)?)

lemma example_reachable: "i \<le> 15 \<Longrightarrow> reachable 1 1 0x1000 (example_states ! i)"
proof (induction i)
  case 0
  have "example_states ! 0 = fresh_rundown \<lparr>RunRef_Count = 0, Block = \<lparr>Block_Count = 0, WakeEvent = False\<rparr>\<rparr>"
    by (simp add: example_states_def one_client_def fresh_rundown_def ExfInitializeRundownProtection_def fun_upd_idem)
  then show ?case by (simp add: reach_fresh)
next
  case (Suc i)
  have "outstanding 1 (example_states ! Suc i) < 2 ^ 31"
    using less_15 [of i] Suc.prems by (auto simp: example_states_def outstanding_def one_client_def)
  then show ?case using Suc example_moves [of i] reach_moves [of 1 1 "0x1000" "example_states ! i"] by simp
qed

lemma example_fair: "fair_run (moves 1 1 0x1000) (ready 1) example_run example_sched"
proof -
  have "case example_sched i of None \<Rightarrow> example_run (Suc i) = example_run i
      | Some a \<Rightarrow> moves 1 1 0x1000 a (example_run i) (example_run (Suc i))" for i
    using example_moves [of i] by (auto simp: example_sched_def example_run_def min_def)
  moreover have "\<not> ready 1 a (example_run (max i 15))" for a i
    by (cases a) (auto simp: example_run_def example_states_def one_client_def min_def)
  then have "\<exists>j \<ge> i. example_sched j = Some a \<or> \<not> ready 1 a (example_run j)" for a i by (meson max.cobounded1)
  ultimately show ?thesis unfolding fair_run_def by blast
qed

lemma example_releases: "clients_release 1 example_run"
proof -
  have "\<exists>j \<ge> i. giving_back (clients (example_run j) 0)" if "0 < refs (example_run i) 0" for i
  proof -
    have "i \<le> 9"
    proof (rule ccontr)
      assume "\<not> i \<le> 9"
      then have "min i 15 \<in> {10, 11, 12, 13, 14, 15}" by auto
      then show False using that by (auto simp: example_run_def example_states_def one_client_def)
    qed
    moreover have "giving_back (clients (example_run 9) 0)" by (simp add: example_run_def example_states_def one_client_def)
    ultimately show ?thesis by blast
  qed
  then show ?thesis by (simp add: clients_release_def)
qed

theorem rundown_safe_witness:
  "refs (example_run 15) 0 = 0 \<and> client_step 1 0x1000 (clients (example_run 12) 0) (RunRef (example_run 12)) \<noteq> None"
proof -
  have "reachable 1 1 0x1000 (example_run 15)" "reachable 1 1 0x1000 (example_run 12)" "owner (example_run 15) = RunDown"
    using example_reachable [of 15] example_reachable [of 12] by (simp_all add: example_run_def example_states_def one_client_def)
  then show ?thesis using rundown_safe [of 1 1 "0x1000" "example_run 15"] rundown_safe [of 1 1 "0x1000" "example_run 12"] by simp
qed

theorem rundown_no_new_reference_witness:
  "RunRef_Count (RunRef (example_run 13)) = 0x1001 \<and> outstanding 1 (example_run 13) \<le> 1"
proof -
  have "example_run 12 = example_states ! 12" "example_run 13 = example_states ! 13" by (simp_all add: example_run_def)
  moreover have "example_actors ! 12 = Client 0" by (simp add: example_actors_def)
  moreover have "RunRef_Count (RunRef (example_states ! 12)) = 0x1001" "outstanding 1 (example_states ! 12) = 1"
    by (simp_all add: example_states_def one_client_def outstanding_def)
  ultimately show ?thesis
    using rundown_no_new_reference [of 1 1 "0x1000" "example_run 12" 0 "example_run 13"] example_reachable [of 12] example_moves [of 12]
    by simp
qed

theorem rundown_wait_returns_witness: "\<exists>j \<ge> 8. owner (example_run j) = RunDown"
  using rundown_wait_returns [OF example_fair example_releases, of 8] example_reachable [of 8]
  by (simp add: example_run_def) (simp add: example_states_def one_client_def)

end
