(* ===== verification/Ex_Rundown_Cache.thy ===== *)
theory Ex_Rundown_Cache
  imports Ex_Rundown_Safe
begin

text \<open>
  Cache-aware rundown protection, the second half of \<^verbatim>\<open>ntoskrnl/ex/rundown.c\<close>: one
  count for each processor, in blocks of the size of a cache line. The memory of the counts is a
  function from addresses; structures have their 32-bit sizes.
\<close>

unbundle bit_operations_syntax

section \<open>Descriptor and layout\<close>

record EX_RUNDOWN_REF_CACHE_AWARE =
  RunRefs :: ULONG_PTR
  PoolToFree :: ULONG_PTR
  RunRefSize :: ULONG
  Number :: ULONG

type_synonym runref_memory = "ULONG_PTR \<Rightarrow> ULONG_PTR"

abbreviation (input) sizeof_EX_RUNDOWN_REF :: ULONG where "sizeof_EX_RUNDOWN_REF \<equiv> 4"
abbreviation (input) sizeof_EX_RUNDOWN_REF_CACHE_AWARE :: ULONG where "sizeof_EX_RUNDOWN_REF_CACHE_AWARE \<equiv> 16"

definition ALIGN_UP_BY :: "ULONG_PTR \<Rightarrow> ULONG_PTR \<Rightarrow> ULONG_PTR" where
  "ALIGN_UP_BY a Align = (a + Align - 1) AND NOT (Align - 1)"

definition ExGetRunRefForGivenProcessor :: "EX_RUNDOWN_REF_CACHE_AWARE \<Rightarrow> ULONG \<Rightarrow> ULONG_PTR" where
  "ExGetRunRefForGivenProcessor c ProcNumber = RunRefs c + RunRefSize c * (ProcNumber mod Number c)"

text \<open>The loops over all processors.\<close>

definition all_runrefs :: "EX_RUNDOWN_REF_CACHE_AWARE \<Rightarrow> ULONG_PTR list" where
  "all_runrefs c = map (\<lambda>i. ExGetRunRefForGivenProcessor c (of_nat i)) [0..<unat (Number c)]"

section \<open>Acquiring and releasing\<close>

text \<open>
  The routines act on the count of the processor they run on; the wait block is shared by all counts.
\<close>

definition acquire_at ::
  "(EX_RUNDOWN_REF \<Rightarrow> EX_RUNDOWN_REF \<times> client_place) \<Rightarrow> ULONG_PTR \<Rightarrow> runref_memory \<Rightarrow> EX_RUNDOWN_WAIT_BLOCK \<Rightarrow>
   runref_memory \<times> EX_RUNDOWN_WAIT_BLOCK \<times> client_place" where
  "acquire_at f a m b = (let (r, p) = f \<lparr>RunRef_Count = m a, Block = b\<rparr> in (m(a := RunRef_Count r), Block r, p))"

definition ExfAcquireRundownProtectionCacheAware ::
  "EX_RUNDOWN_REF_CACHE_AWARE \<Rightarrow> ULONG \<Rightarrow> ULONG_PTR option \<Rightarrow> runref_memory \<Rightarrow> EX_RUNDOWN_WAIT_BLOCK \<Rightarrow>
   runref_memory \<times> EX_RUNDOWN_WAIT_BLOCK \<times> client_place" where
  "ExfAcquireRundownProtectionCacheAware c Processor Value =
     acquire_at (ExAcquireRundownProtection Value) (ExGetRunRefForGivenProcessor c Processor)"

definition ExfAcquireRundownProtectionCacheAwareEx ::
  "EX_RUNDOWN_REF_CACHE_AWARE \<Rightarrow> ULONG \<Rightarrow> ULONG \<Rightarrow> ULONG_PTR option \<Rightarrow> runref_memory \<Rightarrow> EX_RUNDOWN_WAIT_BLOCK \<Rightarrow>
   runref_memory \<times> EX_RUNDOWN_WAIT_BLOCK \<times> client_place" where
  "ExfAcquireRundownProtectionCacheAwareEx c Processor Count Value =
     acquire_at (ExfAcquireRundownProtectionEx Count Value) (ExGetRunRefForGivenProcessor c Processor)"

definition release_at ::
  "(EX_RUNDOWN_REF \<Rightarrow> (EX_RUNDOWN_REF \<times> client_place) option) \<Rightarrow> ULONG_PTR \<Rightarrow> runref_memory \<Rightarrow> EX_RUNDOWN_WAIT_BLOCK \<Rightarrow>
   (runref_memory \<times> EX_RUNDOWN_WAIT_BLOCK \<times> client_place) option" where
  "release_at f a m b = map_option (\<lambda>(r, p). (m(a := RunRef_Count r), Block r, p)) (f \<lparr>RunRef_Count = m a, Block = b\<rparr>)"

definition ExfReleaseRundownProtectionCacheAware ::
  "EX_RUNDOWN_REF_CACHE_AWARE \<Rightarrow> nat \<Rightarrow> ULONG \<Rightarrow> ULONG_PTR option \<Rightarrow> runref_memory \<Rightarrow> EX_RUNDOWN_WAIT_BLOCK \<Rightarrow>
   (runref_memory \<times> EX_RUNDOWN_WAIT_BLOCK \<times> client_place) option" where
  "ExfReleaseRundownProtectionCacheAware c KeNumberProcessors Processor Value =
     release_at (ExReleaseRundownProtection KeNumberProcessors Value) (ExGetRunRefForGivenProcessor c Processor)"

definition ExfReleaseRundownProtectionCacheAwareEx ::
  "EX_RUNDOWN_REF_CACHE_AWARE \<Rightarrow> nat \<Rightarrow> ULONG_PTR \<Rightarrow> ULONG \<Rightarrow> ULONG \<Rightarrow> ULONG_PTR option \<Rightarrow> runref_memory \<Rightarrow> EX_RUNDOWN_WAIT_BLOCK \<Rightarrow>
   (runref_memory \<times> EX_RUNDOWN_WAIT_BLOCK \<times> client_place) option" where
  "ExfReleaseRundownProtectionCacheAwareEx c KeNumberProcessors WaitBlock Processor Count Value =
     release_at (ExfReleaseRundownProtectionEx KeNumberProcessors WaitBlock Count Value) (ExGetRunRefForGivenProcessor c Processor)"

section \<open>Waiting\<close>

text \<open>
  The loop that puts the wait block into every count, when no other processor changes a count between
  the read and the exchange; \<open>None\<close> is the failed assertion.
\<close>

fun install_loop :: "ULONG_PTR \<Rightarrow> ULONG_PTR list \<Rightarrow> runref_memory \<Rightarrow> ULONG_PTR \<Rightarrow> (runref_memory \<times> ULONG_PTR) option" where
  "install_loop WaitBlock [] m TotalCount = Some (m, TotalCount)"
| "install_loop WaitBlock (Ref # rest) m TotalCount =
     (let Value = m Ref
      in if Value AND EX_RUNDOWN_ACTIVE \<noteq> 0 then None
         else install_loop WaitBlock rest (m(Ref := WaitBlock OR EX_RUNDOWN_ACTIVE)) (TotalCount + Value))"

text \<open>
  \<open>Released\<close> is the number of references that other processors have given back through the wait
  block before the exchange at the end of the routine; the last result tells whether the routine waits
  for the event, and the block is the one after the exchange.
\<close>

definition ExfWaitForRundownProtectionReleaseCacheAware ::
  "EX_RUNDOWN_REF_CACHE_AWARE \<Rightarrow> ULONG_PTR \<Rightarrow> ULONG_PTR \<Rightarrow> runref_memory \<Rightarrow> (runref_memory \<times> EX_RUNDOWN_WAIT_BLOCK \<times> bool) option" where
  "ExfWaitForRundownProtectionReleaseCacheAware c WaitBlock Released m =
     (if Number c = 0 then Some (m, \<lparr>Block_Count = 0, WakeEvent = False\<rparr>, False)
      else
        case install_loop WaitBlock (all_runrefs c) m 0 of
          None \<Rightarrow> None
        | Some (m, TotalCount) \<Rightarrow>
            if sint TotalCount < 0 then None
            else if TotalCount \<noteq> 0
            then
              let Old = 0 - Released;
                  Added = drop_bit EX_RUNDOWN_COUNT_SHIFT TotalCount
              in Some (m, \<lparr>Block_Count = Old + Added, WakeEvent = False\<rparr>, Old = - Added)
            else Some (m, \<lparr>Block_Count = 0 - Released, WakeEvent = False\<rparr>, False))"

fun set_active_loop :: "ULONG_PTR \<Rightarrow> ULONG_PTR list \<Rightarrow> runref_memory \<Rightarrow> runref_memory option" where
  "set_active_loop New [] m = Some m"
| "set_active_loop New (Ref # rest) m =
     (if m Ref AND EX_RUNDOWN_ACTIVE \<noteq> 0 then set_active_loop New rest (m(Ref := New)) else None)"

definition ExfRundownCompletedCacheAware :: "EX_RUNDOWN_REF_CACHE_AWARE \<Rightarrow> runref_memory \<Rightarrow> runref_memory option" where
  "ExfRundownCompletedCacheAware c m = (if Number c = 0 then Some m else set_active_loop EX_RUNDOWN_ACTIVE (all_runrefs c) m)"

definition ExfReInitializeRundownProtectionCacheAware :: "EX_RUNDOWN_REF_CACHE_AWARE \<Rightarrow> runref_memory \<Rightarrow> runref_memory option" where
  "ExfReInitializeRundownProtectionCacheAware c m = (if Number c = 0 then Some m else set_active_loop 0 (all_runrefs c) m)"

section \<open>Allocation and initialisation\<close>

definition init_runrefs :: "EX_RUNDOWN_REF_CACHE_AWARE \<Rightarrow> runref_memory \<Rightarrow> runref_memory" where
  "init_runrefs c m = foldl (\<lambda>m a. m(a := 0)) m (all_runrefs c)"

text \<open>
  \<open>pool k size\<close> is the result of the \<open>k\<close>-th allocation; \<open>Align\<close> is the recommended alignment, of
  which the routine asserts that it is a power of two that holds a count (\<open>None\<close>: the assertion fails).
  The result has the new structure, or nothing, and the blocks that were freed.
\<close>

definition ExAllocateCacheAwareRundownProtection ::
  "(nat \<Rightarrow> ULONG \<Rightarrow> ULONG_PTR option) \<Rightarrow> ULONG \<Rightarrow> ULONG \<Rightarrow> runref_memory \<Rightarrow>
   (runref_memory \<times> (ULONG_PTR \<times> EX_RUNDOWN_REF_CACHE_AWARE) option \<times> ULONG_PTR list) option" where
  "ExAllocateCacheAwareRundownProtection pool KeNumberProcessors Alignment m =
     (case pool 0 sizeof_EX_RUNDOWN_REF_CACHE_AWARE of
        None \<Rightarrow> Some (m, None, [])
      | Some Master \<Rightarrow>
          let Size = (if KeNumberProcessors \<le> 1 then sizeof_EX_RUNDOWN_REF else Alignment);
              Align = (if KeNumberProcessors \<le> 1 then 4 else Alignment)
          in if KeNumberProcessors > 1 \<and> Size AND (Size - 1) \<noteq> 0 \<or> \<not> sizeof_EX_RUNDOWN_REF \<le> Size then None
             else
               case pool 1 (Size * KeNumberProcessors) of
                 None \<Rightarrow> Some (m, None, [Master])
               | Some Pool \<Rightarrow>
                   if KeNumberProcessors > 1 \<and> Pool AND (Align - 1) \<noteq> 0
                   then
                     case pool 2 (Size * (KeNumberProcessors + 1)) of
                       None \<Rightarrow> Some (m, None, [Pool, Master])
                     | Some Pool' \<Rightarrow>
                         let c = \<lparr>RunRefs = ALIGN_UP_BY Pool' Align, PoolToFree = Pool', RunRefSize = Size, Number = KeNumberProcessors\<rparr>
                         in Some (init_runrefs c m, Some (Master, c), [Pool])
                   else
                     let c = \<lparr>RunRefs = Pool, PoolToFree = Pool, RunRefSize = Size, Number = KeNumberProcessors\<rparr>
                     in Some (init_runrefs c m, Some (Master, c), []))"

text \<open>The blocks that are freed.\<close>

definition ExFreeCacheAwareRundownProtection :: "ULONG_PTR \<times> EX_RUNDOWN_REF_CACHE_AWARE \<Rightarrow> ULONG_PTR list option" where
  "ExFreeCacheAwareRundownProtection c =
     (if PoolToFree (snd c) = 0xBADCA11 then None else Some [PoolToFree (snd c), fst c])"

definition ExInitializeRundownProtectionCacheAware ::
  "ULONG_PTR \<Rightarrow> ULONG \<Rightarrow> ULONG \<Rightarrow> runref_memory \<Rightarrow> runref_memory \<times> EX_RUNDOWN_REF_CACHE_AWARE" where
  "ExInitializeRundownProtectionCacheAware Address Size Align m =
     (let Pool = Address + sizeof_EX_RUNDOWN_REF_CACHE_AWARE;
          (Pool, RunRefSize, Count) =
            (if Size = sizeof_EX_RUNDOWN_REF_CACHE_AWARE + sizeof_EX_RUNDOWN_REF then (Pool, sizeof_EX_RUNDOWN_REF, 1)
             else (ALIGN_UP_BY Pool Align, Align, (Size - sizeof_EX_RUNDOWN_REF_CACHE_AWARE) div Align - 1));
          c = \<lparr>RunRefs = Pool, PoolToFree = 0xBADCA11, RunRefSize = RunRefSize, Number = Count\<rparr>
      in (init_runrefs c m, c))"

definition ExSizeOfRundownProtectionCacheAware :: "ULONG \<Rightarrow> ULONG \<Rightarrow> ULONG" where
  "ExSizeOfRundownProtectionCacheAware KeNumberProcessors Alignment =
     (if KeNumberProcessors \<le> 1 then sizeof_EX_RUNDOWN_REF else (KeNumberProcessors + 1) * Alignment) +
     sizeof_EX_RUNDOWN_REF_CACHE_AWARE"

section \<open>Layout of the counts\<close>

text \<open>The counts lie apart from each other between two addresses.\<close>

definition runrefs_between :: "EX_RUNDOWN_REF_CACHE_AWARE \<Rightarrow> nat \<Rightarrow> nat \<Rightarrow> bool" where
  "runrefs_between c lo hi \<longleftrightarrow> distinct (all_runrefs c) \<and>
     (\<forall>a \<in> set (all_runrefs c). lo \<le> unat a \<and> unat a + 4 \<le> hi \<and> (1 < unat (Number c) \<longrightarrow> unat a mod unat (RunRefSize c) = 0)) \<and>
     (\<forall>a \<in> set (all_runrefs c). \<forall>b \<in> set (all_runrefs c). a \<noteq> b \<longrightarrow> unat a + unat (RunRefSize c) \<le> unat b \<or> unat b + unat (RunRefSize c) \<le> unat a)"

lemma unat_runref:
  assumes "unat (RunRefs c) + unat (RunRefSize c) * unat (Number c) \<le> 2 ^ 32" "i < unat (Number c)" "0 < unat (RunRefSize c)"
  shows "unat (ExGetRunRefForGivenProcessor c (of_nat i)) = unat (RunRefs c) + unat (RunRefSize c) * i"
proof -
  have i: "unat (of_nat i mod Number c) = i"
    using assms(2) unat_32_less [of "Number c"] by (simp add: unat_mod unat_of_nat_32)
  have lt: "unat (RunRefSize c) * i < unat (RunRefSize c) * unat (Number c)" using assms(2,3) by simp
  have fits: "unat (RunRefs c) + unat (RunRefSize c) * i < 2 ^ 32" using lt assms(1) by linarith
  then have "unat (RunRefSize c * (of_nat i mod Number c)) = unat (RunRefSize c) * i"
    using i by (subst unat_mult_lem [THEN iffD1]) (simp_all only: i len_of_numeral_defs, simp)
  then show ?thesis unfolding ExGetRunRefForGivenProcessor_def using fits by (subst unat_add_lem [THEN iffD1]) simp_all
qed

lemma runrefs_between_intro:
  assumes "lo \<le> unat (RunRefs c)" "unat (RunRefs c) + unat (RunRefSize c) * unat (Number c) \<le> hi" "hi \<le> 2 ^ 32" "4 \<le> unat (RunRefSize c)"
    and "1 < unat (Number c) \<Longrightarrow> unat (RunRefs c) mod unat (RunRefSize c) = 0"
  shows "runrefs_between c lo hi"
proof -
  have eq: "unat (ExGetRunRefForGivenProcessor c (of_nat i)) = unat (RunRefs c) + unat (RunRefSize c) * i" if "i < unat (Number c)" for i
    using unat_runref [of c i] assms that by simp
  have room: "unat (RunRefs c) + unat (RunRefSize c) * i + unat (RunRefSize c) \<le> hi" if "i < unat (Number c)" for i
  proof -
    have "unat (RunRefSize c) * Suc i \<le> unat (RunRefSize c) * unat (Number c)" using that by (intro mult_le_mono2) simp
    then show ?thesis using assms(2) by simp
  qed
  have apart: "unat (RunRefSize c) * i + unat (RunRefSize c) \<le> unat (RunRefSize c) * j" if "i < j" for i j
    using mult_le_mono2 [of "Suc i" j "unat (RunRefSize c)"] that by simp
  have "distinct (all_runrefs c)"
    unfolding all_runrefs_def distinct_map
  proof (intro conjI inj_onI)
    fix i j assume ij: "i \<in> set [0..<unat (Number c)]" "j \<in> set [0..<unat (Number c)]"
      "ExGetRunRefForGivenProcessor c (of_nat i) = ExGetRunRefForGivenProcessor c (of_nat j)"
    then have "unat (RunRefs c) + unat (RunRefSize c) * i = unat (RunRefs c) + unat (RunRefSize c) * j"
      using eq [of i] eq [of j] by (simp only: set_upt atLeastLessThan_iff)
    then show "i = j" using assms(4) by auto
  qed simp
  moreover have mem: "\<exists>i < unat (Number c). unat a = unat (RunRefs c) + unat (RunRefSize c) * i" if "a \<in> set (all_runrefs c)" for a
    using that eq by (auto simp: all_runrefs_def)
  have "lo \<le> unat a \<and> unat a + 4 \<le> hi \<and> (1 < unat (Number c) \<longrightarrow> unat a mod unat (RunRefSize c) = 0)" if h: "a \<in> set (all_runrefs c)" for a
  proof -
    obtain i where i: "i < unat (Number c)" "unat a = unat (RunRefs c) + unat (RunRefSize c) * i" using mem [OF h] by blast
    then show ?thesis using room [OF i(1)] assms(1,4,5) by auto
  qed
  moreover have "unat a + unat (RunRefSize c) \<le> unat b \<or> unat b + unat (RunRefSize c) \<le> unat a"
    if h: "a \<in> set (all_runrefs c)" "b \<in> set (all_runrefs c)" "a \<noteq> b" for a b
  proof -
    obtain i j where ij: "unat a = unat (RunRefs c) + unat (RunRefSize c) * i" "unat b = unat (RunRefs c) + unat (RunRefSize c) * j"
      using mem [OF h(1)] mem [OF h(2)] by blast
    then have "i \<noteq> j" using h(3) by (metis word_unat_eq_iff)
    then show ?thesis using apart [of i j] apart [of j i] ij by (cases "i < j") auto
  qed
  ultimately show ?thesis unfolding runrefs_between_def by blast
qed

lemma init_runrefs_apply: "init_runrefs c m a = (if a \<in> set (all_runrefs c) then 0 else m a)"
proof -
  have "foldl (\<lambda>m a. m(a := 0)) m as a = (if a \<in> set as then 0 else m a)" for as and m :: runref_memory
    by (induction as arbitrary: m) auto
  then show ?thesis by (simp add: init_runrefs_def)
qed

lemma unat_power_32: "k < 32 \<Longrightarrow> unat (2 ^ k :: ULONG) = 2 ^ k"
proof -
  assume "k < 32"
  then have "(2 :: nat) ^ k < 2 ^ 32" by (intro power_strict_increasing) simp_all
  then have "unat (of_nat (2 ^ k) :: ULONG) = 2 ^ k" by (rule unat_of_nat_32)
  then show ?thesis by simp
qed

lemma unat_scaled:
  assumes "k < 32" "(unat n + 1) * 2 ^ k < 2 ^ 32" "2 \<le> k"
  shows "unat ((n + 1) * 2 ^ k :: ULONG) = (unat n + 1) * 2 ^ k" "unat (n + 1) = unat n + 1" "unat n * 2 ^ k < 2 ^ 32"
proof -
  have "1 * (unat n + 1) \<le> 2 ^ k * (unat n + 1)" by (intro mult_le_mono1) simp
  then show 1: "unat (n + 1) = unat n + 1" using assms(2) by (subst unat_add_lem [THEN iffD1]) (auto simp: mult.commute)
  show "unat ((n + 1) * 2 ^ k) = (unat n + 1) * 2 ^ k"
    using assms 1 by (subst unat_mult_lem [THEN iffD1]) (simp_all add: unat_power_32)
  show "unat n * 2 ^ k < 2 ^ 32" using assms(2) by simp
qed

lemma unat_ALIGN_UP:
  assumes "k < 32" "unat a + 2 ^ k \<le> 2 ^ 32"
  shows "unat a \<le> unat (ALIGN_UP_BY a (2 ^ k))" "unat (ALIGN_UP_BY a (2 ^ k)) < unat a + 2 ^ k" "unat (ALIGN_UP_BY a (2 ^ k)) mod 2 ^ k = 0"
proof -
  have "ALIGN_UP_BY a (2 ^ k) = ROUND_DOWN (a + (2 ^ k - 1)) (2 ^ k)" by (simp add: ALIGN_UP_BY_def ROUND_DOWN_def algebra_simps)
  moreover have "unat (2 ^ k - 1 :: ULONG_PTR) = 2 ^ k - 1"
    using unat_power_32 [OF assms(1)] by (subst unat_sub) (simp_all add: word_le_nat_alt)
  then have "unat (a + (2 ^ k - 1)) = unat a + (2 ^ k - 1)" using assms(2) by (subst unat_add_lem [THEN iffD1]) auto
  ultimately have eq: "unat (ALIGN_UP_BY a (2 ^ k)) = (unat a + (2 ^ k - 1)) - (unat a + (2 ^ k - 1)) mod 2 ^ k"
    using unat_ROUND_DOWN [OF assms(1)] by simp
  define r where "r = (unat a + (2 ^ k - 1)) mod 2 ^ k"
  have "r < 2 ^ k" "(0 :: nat) < 2 ^ k" by (simp_all add: r_def)
  then show "unat a \<le> unat (ALIGN_UP_BY a (2 ^ k))" "unat (ALIGN_UP_BY a (2 ^ k)) < unat a + 2 ^ k"
    unfolding eq r_def [symmetric] by linarith+
  show "unat (ALIGN_UP_BY a (2 ^ k)) mod 2 ^ k = 0" unfolding eq by (simp add: minus_mod_eq_mult_div)
qed

section \<open>Properties\<close>

text \<open>
  C22. A buffer of the size that \<^verbatim>\<open>ExSizeOfRundownProtectionCacheAware\<close> reports is exactly
  large enough for \<^verbatim>\<open>ExInitializeRundownProtectionCacheAware\<close>: it finds the number of
  processors again, all counts lie apart inside of the buffer behind the structure, aligned on a machine
  with several processors, they are 0, and no other count is written.
\<close>

theorem ExInitializeRundownProtectionCacheAware_fits:
  assumes "1 \<le> unat n" "2 \<le> k" "k < 32" "unat Address + (unat n + 1) * 2 ^ k + 16 < 2 ^ 32"
    and init: "ExInitializeRundownProtectionCacheAware Address (ExSizeOfRundownProtectionCacheAware n (2 ^ k)) (2 ^ k) m = (m', c)"
  shows "Number c = n \<and>
    runrefs_between c (unat Address + 16) (unat Address + unat (ExSizeOfRundownProtectionCacheAware n (2 ^ k))) \<and>
    (\<forall>a. m' a = (if a \<in> set (all_runrefs c) then 0 else m a))"
proof (cases "unat n = 1")
  case True
  then have "n = 1" by (simp add: word_unat_eq_iff)
  then have c: "c = \<lparr>RunRefs = Address + 16, PoolToFree = 0xBADCA11, RunRefSize = 4, Number = 1\<rparr>" "m' = init_runrefs c m"
    using init by (auto simp: ExInitializeRundownProtectionCacheAware_def ExSizeOfRundownProtectionCacheAware_def Let_def)
  have "unat (Address + 16) = unat Address + 16"
    using assms(4) power_increasing [OF assms(2), of "2 :: nat"] by (subst unat_add_lem [THEN iffD1]) auto
  then have "runrefs_between c (unat Address + 16) (unat Address + 20)"
    using assms(4) True power_increasing [OF assms(2), of "2 :: nat"] by (intro runrefs_between_intro) (auto simp: c)
  then show ?thesis using c \<open>n = 1\<close> by (simp add: ExSizeOfRundownProtectionCacheAware_def init_runrefs_apply)
next
  case False
  then have n: "2 \<le> unat n" using assms(1) by simp
  have k: "4 \<le> (2 :: nat) ^ k" using power_increasing [OF assms(2), of "2 :: nat"] by simp
  have lt: "(unat n + 1) * 2 ^ k < 2 ^ 32" using assms(4) by linarith
  note sc = unat_scaled [OF assms(3) lt assms(2)]
  have big: "ExSizeOfRundownProtectionCacheAware n (2 ^ k) = (n + 1) * 2 ^ k + 16"
    using n by (simp add: ExSizeOfRundownProtectionCacheAware_def word_le_nat_alt)
  have size: "unat (ExSizeOfRundownProtectionCacheAware n (2 ^ k)) = (unat n + 1) * 2 ^ k + 16"
    unfolding big using sc(1) assms(4) by (subst unat_add_lem [THEN iffD1]) simp_all
  have count: "(ExSizeOfRundownProtectionCacheAware n (2 ^ k) - 16) div 2 ^ k - 1 = n"
  proof -
    have "unat ((n + 1) * 2 ^ k div 2 ^ k) = unat (n + 1)" unfolding unat_div sc(1,2) unat_power_32 [OF assms(3)] by simp
    then have "(n + 1) * 2 ^ k div 2 ^ k = n + 1" by (simp only: word_unat_eq_iff)
    then show ?thesis unfolding big by simp
  qed
  have "ExSizeOfRundownProtectionCacheAware n (2 ^ k) \<noteq> 20"
  proof
    assume "ExSizeOfRundownProtectionCacheAware n (2 ^ k) = 20"
    then have "(unat n + 1) * 2 ^ k = 4" using size by simp
    moreover have "3 * 4 \<le> (unat n + 1) * 2 ^ k" using n k by (intro mult_le_mono) simp_all
    ultimately show False by simp
  qed
  then have c: "c = \<lparr>RunRefs = ALIGN_UP_BY (Address + 16) (2 ^ k), PoolToFree = 0xBADCA11, RunRefSize = 2 ^ k, Number = n\<rparr>" "m' = init_runrefs c m"
    using init count by (auto simp: ExInitializeRundownProtectionCacheAware_def Let_def)
  have "unat (Address + 16) = unat Address + 16" using assms(4) by (subst unat_add_lem [THEN iffD1]) simp_all
  then have up: "unat Address + 16 \<le> unat (ALIGN_UP_BY (Address + 16) (2 ^ k))"
    "unat (ALIGN_UP_BY (Address + 16) (2 ^ k)) < unat Address + 16 + 2 ^ k" "unat (ALIGN_UP_BY (Address + 16) (2 ^ k)) mod 2 ^ k = 0"
    using unat_ALIGN_UP [OF assms(3), of "Address + 16"] assms(4) by auto
  have "runrefs_between c (unat Address + 16) (unat Address + ((unat n + 1) * 2 ^ k + 16))"
    using up k assms(4) unat_power_32 [OF assms(3)] by (intro runrefs_between_intro) (auto simp: c algebra_simps)
  then show ?thesis unfolding size using c by (simp add: init_runrefs_apply)
qed

lemma power_aligned:
  assumes "k < 32"
  shows "(a :: ULONG_PTR) AND (2 ^ k - 1) = 0 \<longleftrightarrow> unat a mod 2 ^ k = 0"
proof -
  have "a AND (2 ^ k - 1) = take_bit k a" by (simp add: take_bit_eq_mask mask_eq_exp_minus_1)
  moreover have "unat (take_bit k a) = unat a mod 2 ^ k" by (simp only: unsigned_take_bit_eq) (simp add: take_bit_eq_mod)
  ultimately show ?thesis by (simp add: word_unat_eq_iff)
qed

lemma ExAllocateCacheAwareRundownProtection_eq:
  assumes "pool 0 16 = Some Master" "\<not> (1 < n \<and> Size AND (Size - 1) \<noteq> 0 \<or> \<not> 4 \<le> Size)" "Size = (if n \<le> 1 then 4 else A)"
  shows "ExAllocateCacheAwareRundownProtection pool n A m =
     (case pool 1 (Size * n) of None \<Rightarrow> Some (m, None, [Master])
      | Some Pool \<Rightarrow>
          if 1 < n \<and> Pool AND (Size - 1) \<noteq> 0
          then case pool 2 (Size * (n + 1)) of None \<Rightarrow> Some (m, None, [Pool, Master])
               | Some Pool' \<Rightarrow> let c = \<lparr>RunRefs = ALIGN_UP_BY Pool' Size, PoolToFree = Pool', RunRefSize = Size, Number = n\<rparr>
                   in Some (init_runrefs c m, Some (Master, c), [Pool])
          else let c = \<lparr>RunRefs = Pool, PoolToFree = Pool, RunRefSize = Size, Number = n\<rparr>
               in Some (init_runrefs c m, Some (Master, c), []))"
  unfolding ExAllocateCacheAwareRundownProtection_def assms(1) option.case assms(3) [symmetric] Let_def if_not_P [OF assms(2)] ..

lemma scaled_room:
  fixes n Size :: ULONG
  assumes "k < 32" "(unat n + 1) * 2 ^ k < 2 ^ 32" "2 \<le> k" "unat Size = (if unat n = 1 then 4 else 2 ^ k)"
  shows "unat (Size * n) = unat Size * unat n" "unat (Size * (n + 1)) = unat Size * (unat n + 1)"
proof -
  note sc = unat_scaled [OF assms(1,2,3)]
  have "4 \<le> (2 :: nat) ^ k" using power_increasing [OF assms(3), of "2 :: nat"] by simp
  then show "unat (Size * n) = unat Size * unat n" "unat (Size * (n + 1)) = unat Size * (unat n + 1)"
    using sc assms(2,4) unat_mult_lem [of Size n] unat_mult_lem [of Size "n + 1"] by (auto simp: mult.commute)
qed

text \<open>The result of a successful allocation, whichever of the two blocks holds the counts.\<close>

lemma allocated:
  assumes "Number c = n" "4 \<le> unat (RunRefSize c)" "unat (RunRefs c) mod unat (RunRefSize c) = 0 \<or> unat n = 1"
    and "unat (PoolToFree c) \<le> unat (RunRefs c)" "unat (RunRefs c) + unat (RunRefSize c) * unat n \<le> unat (PoolToFree c) + L"
    and "unat (PoolToFree c) + L \<le> 2 ^ 32"
  shows "runrefs_between c (unat (PoolToFree c)) (unat (PoolToFree c) + L)"
    "\<forall>a. init_runrefs c m a = (if a \<in> set (all_runrefs c) then 0 else m a)"
  using assms by (auto intro!: runrefs_between_intro simp: init_runrefs_apply)

text \<open>
  C23. \<^verbatim>\<open>ExAllocateCacheAwareRundownProtection\<close> either makes a structure whose counts
  lie apart inside of the block that is freed later, aligned on a machine with several processors, and
  are 0, and has freed every other block; or it fails, writes nothing and has freed everything.
\<close>

theorem ExAllocateCacheAwareRundownProtection_correct:
  assumes "1 \<le> unat n" "2 \<le> k" "k < 32" "(unat n + 1) * 2 ^ k < 2 ^ 32"
    and pool: "\<forall>i size a. pool i size = Some a \<longrightarrow> unat a + unat size \<le> 2 ^ 32"
  shows "\<exists>m' r freed. ExAllocateCacheAwareRundownProtection pool n (2 ^ k) m = Some (m', r, freed) \<and>
    (case r of
       None \<Rightarrow> m' = m \<and> (pool 0 16 = None \<and> freed = [] \<or>
         (\<exists>a. pool 0 16 = Some a \<and> (freed = [a] \<or> (\<exists>b size. pool 1 size = Some b \<and> freed = [b, a]))))
     | Some (Master, c) \<Rightarrow> pool 0 16 = Some Master \<and> Number c = n \<and> (\<forall>a. m' a = (if a \<in> set (all_runrefs c) then 0 else m a)) \<and>
         (\<exists>i size. pool i size = Some (PoolToFree c) \<and> runrefs_between c (unat (PoolToFree c)) (unat (PoolToFree c) + unat size) \<and>
           (i = 1 \<and> freed = [] \<or> i = 2 \<and> (\<exists>b s. pool 1 s = Some b \<and> freed = [b]))))"
proof (cases "pool 0 16")
  case None
  then show ?thesis by (simp add: ExAllocateCacheAwareRundownProtection_def)
next
  case (Some Master)
  note master = Some
  have pw: "unat (2 ^ k :: ULONG) = 2 ^ k" by (rule unat_power_32 [OF assms(3)])
  have k: "4 \<le> (2 :: nat) ^ k" using power_increasing [OF assms(2), of "2 :: nat"] by simp
  define Size :: ULONG where "Size = (if n \<le> 1 then 4 else 2 ^ k)"
  have n1: "n \<le> 1 \<longleftrightarrow> unat n = 1" "1 < n \<longleftrightarrow> unat n \<noteq> 1" using assms(1) by (auto simp: word_le_nat_alt word_less_nat_alt)
  have "(2 ^ k :: ULONG) AND (2 ^ k - 1) = 0" using power_aligned [OF assms(3), of "2 ^ k"] pw by simp
  then have S: "unat Size = (if unat n = 1 then 4 else 2 ^ k)" "\<not> (1 < n \<and> Size AND (Size - 1) \<noteq> 0 \<or> \<not> 4 \<le> Size)" "4 \<le> unat Size"
    using pw k n1 by (auto simp: Size_def word_le_nat_alt)
  note room = scaled_room [OF assms(3,4,2) S(1)]
  note def = ExAllocateCacheAwareRundownProtection_eq [where pool = pool and m = m, OF master S(2) Size_def]
  show ?thesis
  proof (cases "pool 1 (Size * n)")
    case None
    then show ?thesis using master def by simp
  next
    case (Some Pool)
    note first = Some
    show ?thesis
    proof (cases "1 < n \<and> Pool AND (Size - 1) \<noteq> 0")
      case False
      define c where "c = \<lparr>RunRefs = Pool, PoolToFree = Pool, RunRefSize = Size, Number = n\<rparr>"
      have "unat Pool mod unat Size = 0 \<or> unat n = 1" using False power_aligned [OF assms(3), of Pool] S(1) n1 pw by (auto simp: Size_def)
      moreover have "unat Pool + unat (Size * n) \<le> 2 ^ 32" using pool first by blast
      ultimately have "runrefs_between c (unat Pool) (unat Pool + unat (Size * n))"
        using allocated(1) [of c n "unat (Size * n)"] S(3) room(1) by (auto simp: c_def)
      moreover have "ExAllocateCacheAwareRundownProtection pool n (2 ^ k) m = Some (init_runrefs c m, Some (Master, c), [])"
        unfolding def first option.case if_not_P [OF False] by (simp add: c_def Let_def)
      moreover have "Number c = n" "PoolToFree c = Pool" by (simp_all add: c_def)
      ultimately show ?thesis using master first by (auto simp: init_runrefs_apply)
    next
      case True
      show ?thesis
      proof (cases "pool 2 (Size * (n + 1))")
        case None
        then show ?thesis using master first def True by auto
      next
        case (Some Pool')
        define c where "c = \<lparr>RunRefs = ALIGN_UP_BY Pool' Size, PoolToFree = Pool', RunRefSize = Size, Number = n\<rparr>"
        have sz: "Size = 2 ^ k" "unat Size = 2 ^ k" using True n1 S(1) by (auto simp: Size_def)
        have fits: "unat Pool' + 2 ^ k * (unat n + 1) \<le> 2 ^ 32" using pool Some room(2) sz(2) by fastforce
        then have up: "unat Pool' \<le> unat (ALIGN_UP_BY Pool' Size)" "unat (ALIGN_UP_BY Pool' Size) < unat Pool' + 2 ^ k"
          "unat (ALIGN_UP_BY Pool' Size) mod 2 ^ k = 0" using unat_ALIGN_UP [OF assms(3), of Pool'] sz(1) by auto
        then have "runrefs_between c (unat Pool') (unat Pool' + unat (Size * (n + 1)))"
          using allocated(1) [of c n "unat (Size * (n + 1))"] S(3) room(2) fits sz(2) by (auto simp: c_def)
        moreover have "ExAllocateCacheAwareRundownProtection pool n (2 ^ k) m = Some (init_runrefs c m, Some (Master, c), [Pool])"
          unfolding def first option.case if_P [OF True] Some by (simp add: c_def Let_def)
        moreover have "Number c = n" "PoolToFree c = Pool'" by (simp_all add: c_def)
        ultimately show ?thesis using master first Some by (auto simp: init_runrefs_apply)
      qed
    qed
  qed
qed

text \<open>
  C24. \<^verbatim>\<open>ExfWaitForRundownProtectionReleaseCacheAware\<close> tests the wrong way round. With
  \<open>T\<close> references on the counts, of which \<open>Released\<close> have come back through the wait block, it waits
  exactly when all of them have come back; nobody is then left to signal the event. As long as a
  reference is out it returns at once.
\<close>

theorem ExfWaitForRundownProtectionReleaseCacheAware_inverted:
  assumes "Number c \<noteq> 0" "distinct (all_runrefs c)" "\<forall>a \<in> set (all_runrefs c). m a = 2 * of_nat (held a)"
    and "(\<Sum>a \<leftarrow> all_runrefs c. held a) = T" "T < 2 ^ 30" "Released \<le> T"
  shows "\<exists>m' b. ExfWaitForRundownProtectionReleaseCacheAware c WaitBlock (of_nat Released) m =
      Some (m', b, T \<noteq> 0 \<and> Released = T) \<and> Block_Count b = of_nat (T - Released) \<and> \<not> WakeEvent b \<and>
      (\<forall>a \<in> set (all_runrefs c). m' a = WaitBlock OR 1)"
proof -
  have loop: "install_loop WaitBlock as m X =
      Some (\<lambda>a. if a \<in> set as then WaitBlock OR 1 else m a, X + 2 * of_nat (\<Sum>a \<leftarrow> as. held a))"
    if "distinct as" "\<forall>a \<in> set as. m a = 2 * of_nat (held a)" for as X m
    using that
  proof (induction as arbitrary: m X)
    case (Cons a as)
    define m' where "m' = m(a := WaitBlock OR 1)"
    have "\<forall>b \<in> set as. m' b = 2 * of_nat (held b)" using Cons.prems by (auto simp: m'_def)
    moreover have "(\<lambda>b. if b \<in> set as then WaitBlock OR 1 else m' b) =
        (\<lambda>b. if b = a \<or> b \<in> set as then WaitBlock OR 1 else m b)" by (auto simp: m'_def)
    ultimately show ?case using Cons.IH [of m' "X + 2 * of_nat (held a)"] Cons.prems
      by (simp add: twice_inactive distrib_left add.assoc m'_def [symmetric])
  qed simp
  have sum: "install_loop WaitBlock (all_runrefs c) m 0 =
      Some (\<lambda>a. if a \<in> set (all_runrefs c) then WaitBlock OR 1 else m a, 2 * of_nat T)"
    using loop [OF assms(2,3), of 0] assms(4) by simp
  have "sint (2 * of_nat T :: ULONG_PTR) = int (2 * T)"
  proof -
    have "sint (of_nat (2 * T) :: ULONG_PTR) = int (2 * T)"
      using assms(5) by (subst signed_of_nat) (simp add: signed_take_bit_int_eq_self)
    then show ?thesis by simp
  qed
  moreover have "drop_bit 1 (2 * of_nat T :: ULONG_PTR) = of_nat T" using half_count [of T] assms(5) by simp
  moreover have "(0 - of_nat Released = - (of_nat T :: ULONG_PTR)) = (Released = T)"
    using assms(5,6) unfolding diff_0 neg_equal_iff_equal by (simp add: word_unat_eq_iff unat_of_nat_32)
  moreover have "0 - of_nat Released + of_nat T = (of_nat (T - Released) :: ULONG_PTR)" using assms(6) by (simp add: of_nat_diff)
  ultimately show ?thesis using assms(1,5,6) sum twice_eq(1) [of T]
    by (auto simp: ExfWaitForRundownProtectionReleaseCacheAware_def Let_def)
qed

section \<open>Examples\<close>

theorem ExInitializeRundownProtectionCacheAware_fits_witness:
  "Number (snd (ExInitializeRundownProtectionCacheAware 0x80001004 (ExSizeOfRundownProtectionCacheAware 4 64) 64 (\<lambda>_. 7))) = 4"
proof -
  obtain m' c where "ExInitializeRundownProtectionCacheAware 0x80001004 (ExSizeOfRundownProtectionCacheAware 4 (2 ^ 6)) (2 ^ 6) (\<lambda>_. 7) = (m', c)"
    by (rule prod.exhaust)
  from ExInitializeRundownProtectionCacheAware_fits [OF _ _ _ _ this] this show ?thesis by simp
qed

definition small_pool :: "nat \<Rightarrow> ULONG \<Rightarrow> ULONG_PTR option" where
  "small_pool i s = (if i \<le> 2 \<and> s \<le> 4096 then Some (of_nat (4096 * (i + 1) + 8)) else None)"

theorem ExAllocateCacheAwareRundownProtection_correct_witness:
  "\<exists>m' r freed. ExAllocateCacheAwareRundownProtection small_pool 2 64 (\<lambda>_. 7) = Some (m', r, freed) \<and>
     (\<exists>c. r = Some (4104, c) \<and> Number c = 2 \<and> freed = [8200])"
proof -
  have "\<forall>i sz a. small_pool i sz = Some a \<longrightarrow> unat a + unat sz \<le> 2 ^ 32"
  proof (intro allI impI)
    fix i sz a assume "small_pool i sz = Some a"
    then have "i = 0 \<or> i = 1 \<or> i = 2" "unat sz \<le> 4096" "a = of_nat (4096 * (i + 1) + 8)"
      by (auto simp: small_pool_def word_le_nat_alt split: if_splits)
    then show "unat a + unat sz \<le> 2 ^ 32" by auto
  qed
  from ExAllocateCacheAwareRundownProtection_correct [of 2 6, OF _ _ _ _ this, of "\<lambda>_. 7"]
  obtain m' r freed where *: "ExAllocateCacheAwareRundownProtection small_pool 2 64 (\<lambda>_. 7) = Some (m', r, freed)"
    "case r of None \<Rightarrow> True | Some (Master, c) \<Rightarrow> small_pool 0 16 = Some Master \<and> Number c = 2"
    by (auto split: option.splits)
  have "small_pool 0 16 = Some 4104" "small_pool 1 128 = Some 8200" "small_pool 2 192 = Some 12296"
    "\<not> (2 :: ULONG) \<le> 1" by (simp_all add: small_pool_def word_le_nat_alt)
  then have "freed = [8200]" "r \<noteq> None"
    using *(1) ExAllocateCacheAwareRundownProtection_eq [of small_pool 4104 2 64 64 "\<lambda>_. 7"] by (auto simp: Let_def)
  then show ?thesis using * by (auto simp: small_pool_def split: option.splits)
qed

theorem ExfWaitForRundownProtectionReleaseCacheAware_inverted_witness:
  "\<exists>m' b. ExfWaitForRundownProtectionReleaseCacheAware \<lparr>RunRefs = 64, PoolToFree = 64, RunRefSize = 64, Number = 2\<rparr> 0x1000 0
      (\<lambda>a. if a = 64 then 2 else 0) = Some (m', b, False) \<and> Block_Count b = 1"
proof -
  let ?c = "\<lparr>RunRefs = 64, PoolToFree = 64, RunRefSize = 64, Number = 2\<rparr>"
  have refs: "all_runrefs ?c = [64, 128]"
    by (simp add: all_runrefs_def ExGetRunRefForGivenProcessor_def upt_rec)
  then have "\<exists>m' b. ExfWaitForRundownProtectionReleaseCacheAware ?c 0x1000 (of_nat 0) (\<lambda>a. if a = 64 then 2 else 0) =
      Some (m', b, (1 :: nat) \<noteq> 0 \<and> 0 = (1 :: nat)) \<and> Block_Count b = of_nat (1 - 0) \<and> \<not> WakeEvent b \<and>
      (\<forall>a \<in> set (all_runrefs ?c). m' a = 0x1000 OR 1)"
    by (intro ExfWaitForRundownProtectionReleaseCacheAware_inverted [where held = "\<lambda>a. if a = 64 then 1 else 0"]) simp_all
  then show ?thesis by auto
qed

end
