(* ===== verification/Io_RemLock.thy ===== *)
theory Io_RemLock
  imports Ros_Prelude "HOL-Library.Multiset"
begin

text \<open>
  Remove locks, \<^verbatim>\<open>ntoskrnl/io/iomgr/remlock.c\<close>. The count and the flag of the lock are
  shared by all threads that use a device; each routine is split at its accesses to them, as for rundown
  protection. The lists of tracking blocks of a debug lock, which a spin lock guards, are modelled as
  functions of their own. \<open>None\<close> is a failed \<^verbatim>\<open>ASSERT\<close>.
\<close>

section \<open>The lock\<close>

type_synonym LONG = "32 word"

record IO_REMOVE_LOCK_COMMON_BLOCK =
  Removed :: bool
  IoCount :: LONG
  RemoveEvent :: bool

record IO_REMOVE_LOCK_TRACKING_BLOCK =
  Block_Tag :: nat
  LockMoment :: "64 word"
  Block_File :: nat
  Block_Line :: ULONG

record IO_REMOVE_LOCK_DBG_BLOCK =
  Signature :: ULONG
  HighWatermark :: LONG
  MaxLockedTicks :: "64 word"
  AllocateTag :: ULONG
  LowMemoryCount :: LONG
  Blocks :: "IO_REMOVE_LOCK_TRACKING_BLOCK list"

text \<open>
  The two sizes of a lock select the common block alone or with the debug block; for another size nothing
  is initialised. The product of the time increment and the minutes is computed in 32 bits.
\<close>

abbreviation (input) COMMON_SIZE :: ULONG where "COMMON_SIZE \<equiv> 24"
abbreviation (input) DBG_SIZE :: ULONG where "DBG_SIZE \<equiv> 88"

definition IoInitializeRemoveLockEx ::
  "ULONG \<Rightarrow> ULONG \<Rightarrow> ULONG \<Rightarrow> ULONG \<Rightarrow> ULONG \<Rightarrow> IO_REMOVE_LOCK_COMMON_BLOCK \<times> IO_REMOVE_LOCK_DBG_BLOCK \<Rightarrow>
   (IO_REMOVE_LOCK_COMMON_BLOCK \<times> IO_REMOVE_LOCK_DBG_BLOCK) option" where
  "IoInitializeRemoveLockEx KeQueryTimeIncrement Tag MaxLockedMinutes Watermark RemlockSize Lock =
     (if \<not> Watermark < 0x7FFFFFFF then None
      else
        let common = \<lparr>Removed = False, IoCount = 1, RemoveEvent = False\<rparr>
        in if RemlockSize = DBG_SIZE
           then Some (common,
             \<lparr>Signature = 0x434F4C52, HighWatermark = Watermark,
              MaxLockedTicks = ucast (KeQueryTimeIncrement * MaxLockedMinutes * 600000000),
              AllocateTag = Tag, LowMemoryCount = 0, Blocks = []\<rparr>)
           else if RemlockSize = COMMON_SIZE then Some (common, snd Lock)
           else Some Lock)"

section \<open>Tracking blocks\<close>

text \<open>The block that a successful acquire of a debug lock adds, or the count of failures.\<close>

definition track_acquire :: "bool \<Rightarrow> LONG \<Rightarrow> nat \<Rightarrow> nat \<Rightarrow> ULONG \<Rightarrow> 64 word \<Rightarrow> IO_REMOVE_LOCK_DBG_BLOCK \<Rightarrow> IO_REMOVE_LOCK_DBG_BLOCK option" where
  "track_acquire pool LockValue Tag File Line Now Dbg =
     (if \<not> (HighWatermark Dbg = 0 \<or> sint LockValue \<le> sint (HighWatermark Dbg)) then None
      else if \<not> pool then Some (Dbg\<lparr>LowMemoryCount := LowMemoryCount Dbg + 1\<rparr>)
      else Some (Dbg\<lparr>Blocks := \<lparr>Block_Tag = Tag, LockMoment = Now, Block_File = File, Block_Line = Line\<rparr> # Blocks Dbg\<rparr>))"

text \<open>
  The loop of a release: it asserts that no block is older than the limit, and unlinks the first block
  with the tag.
\<close>

fun track_loop :: "64 word \<Rightarrow> 64 word \<Rightarrow> nat \<Rightarrow> bool \<Rightarrow> IO_REMOVE_LOCK_TRACKING_BLOCK list \<Rightarrow> (bool \<times> IO_REMOVE_LOCK_TRACKING_BLOCK list) option" where
  "track_loop Limit Now Tag TagFound [] = Some (TagFound, [])"
| "track_loop Limit Now Tag TagFound (b # bs) =
     (if Limit \<noteq> 0 \<and> sint (Now - LockMoment b) > sint Limit then None
      else if \<not> TagFound \<and> Block_Tag b = Tag then track_loop Limit Now Tag True bs
      else map_option (\<lambda>(f, bs). (f, b # bs)) (track_loop Limit Now Tag TagFound bs))"

definition track_release :: "nat \<Rightarrow> 64 word \<Rightarrow> IO_REMOVE_LOCK_DBG_BLOCK \<Rightarrow> IO_REMOVE_LOCK_DBG_BLOCK option" where
  "track_release Tag Now Dbg =
     (case track_loop (MaxLockedTicks Dbg) Now Tag False (Blocks Dbg) of
        None \<Rightarrow> None
      | Some (TagFound, bs) \<Rightarrow>
          if TagFound then Some (Dbg\<lparr>Blocks := bs\<rparr>)
          else if sint (LowMemoryCount Dbg - 1) < 0 then None
          else Some (Dbg\<lparr>Blocks := bs, LowMemoryCount := LowMemoryCount Dbg - 1\<rparr>))"

text \<open>
  The end of \<^verbatim>\<open>IoReleaseRemoveLockAndWaitEx\<close> for a debug lock: a block must be left, and
  its memory is freed. The second assertion of the code repeats the test it stands under and never fails.
\<close>

definition track_last :: "nat \<Rightarrow> IO_REMOVE_LOCK_DBG_BLOCK \<Rightarrow> IO_REMOVE_LOCK_TRACKING_BLOCK option" where
  "track_last Tag Dbg = (case Blocks Dbg of [] \<Rightarrow> None | b # bs \<Rightarrow> Some b)"

section \<open>Acquire and release\<close>

text \<open>
  Where a client is: between calls; at the increment, the test of the flag, the decrement of a refused
  acquire; at the return of an acquire; at the decrement of a release; about to set the event (after a
  refused acquire or after a release).
\<close>

datatype lock_place = LIdle | AcqIncrement | AcqTest | AcqBack | AcqSignal | LAcquired | LRefused | RelDecrement | RelSignal

definition set_remove_event :: "IO_REMOVE_LOCK_COMMON_BLOCK \<Rightarrow> IO_REMOVE_LOCK_COMMON_BLOCK" where
  "set_remove_event Lock = Lock\<lparr>RemoveEvent := True\<rparr>"

fun IoAcquireRemoveLockEx :: "lock_place \<Rightarrow> IO_REMOVE_LOCK_COMMON_BLOCK \<Rightarrow> (IO_REMOVE_LOCK_COMMON_BLOCK \<times> lock_place) option" where
  "IoAcquireRemoveLockEx AcqIncrement Lock =
     (let LockValue = IoCount Lock + 1
      in if \<not> sint LockValue > 0 then None else Some (Lock\<lparr>IoCount := LockValue\<rparr>, AcqTest))"
| "IoAcquireRemoveLockEx AcqTest Lock = Some (Lock, if \<not> Removed Lock then LAcquired else AcqBack)"
| "IoAcquireRemoveLockEx AcqBack Lock =
     Some (Lock\<lparr>IoCount := IoCount Lock - 1\<rparr>, if IoCount Lock - 1 = 0 then AcqSignal else LRefused)"
| "IoAcquireRemoveLockEx AcqSignal Lock = Some (set_remove_event Lock, LRefused)"
| "IoAcquireRemoveLockEx p Lock = Some (Lock, p)"

fun IoReleaseRemoveLockEx :: "lock_place \<Rightarrow> IO_REMOVE_LOCK_COMMON_BLOCK \<Rightarrow> (IO_REMOVE_LOCK_COMMON_BLOCK \<times> lock_place) option" where
  "IoReleaseRemoveLockEx RelDecrement Lock =
     (let LockValue = IoCount Lock - 1
      in if \<not> sint LockValue \<ge> 0 then None
         else Some (Lock\<lparr>IoCount := LockValue\<rparr>, if LockValue = 0 then RelSignal else LIdle))"
| "IoReleaseRemoveLockEx RelSignal Lock = (if \<not> Removed Lock then None else Some (set_remove_event Lock, LIdle))"
| "IoReleaseRemoveLockEx p Lock = Some (Lock, p)"

text \<open>Where the thread that removes the device is.\<close>

datatype remover_place = Present | SetRemoved | FirstDecrement | SecondDecrement | RemoveWait | Gone

fun IoReleaseRemoveLockAndWaitEx :: "remover_place \<Rightarrow> IO_REMOVE_LOCK_COMMON_BLOCK \<Rightarrow> (IO_REMOVE_LOCK_COMMON_BLOCK \<times> remover_place) option" where
  "IoReleaseRemoveLockAndWaitEx SetRemoved Lock = Some (Lock\<lparr>Removed := True\<rparr>, FirstDecrement)"
| "IoReleaseRemoveLockAndWaitEx FirstDecrement Lock =
     (let LockValue = IoCount Lock - 1
      in if \<not> sint LockValue > 0 then None else Some (Lock\<lparr>IoCount := LockValue\<rparr>, SecondDecrement))"
| "IoReleaseRemoveLockAndWaitEx SecondDecrement Lock =
     (let LockValue = IoCount Lock - 1
      in Some (Lock\<lparr>IoCount := LockValue\<rparr>, if sint LockValue > 0 then RemoveWait else Gone))"
| "IoReleaseRemoveLockAndWaitEx RemoveWait Lock =
     (if RemoveEvent Lock then Some (Lock\<lparr>RemoveEvent := False\<rparr>, Gone) else Some (Lock, RemoveWait))"
| "IoReleaseRemoveLockAndWaitEx p Lock = Some (Lock, p)"

section \<open>The whole system\<close>

text \<open>
  As for rundown protection \<open>held\<close> counts the references a client may use. A client that has one hands
  it to the thread that removes the device.
\<close>

record lock_state =
  Lock :: IO_REMOVE_LOCK_COMMON_BLOCK
  places :: "nat \<Rightarrow> lock_place"
  held :: "nat \<Rightarrow> nat"
  remover :: remover_place

fun lock_step :: "lock_place \<Rightarrow> IO_REMOVE_LOCK_COMMON_BLOCK \<Rightarrow> (IO_REMOVE_LOCK_COMMON_BLOCK \<times> lock_place) option" where
  "lock_step RelDecrement = IoReleaseRemoveLockEx RelDecrement"
| "lock_step RelSignal = IoReleaseRemoveLockEx RelSignal"
| "lock_step p = IoAcquireRemoveLockEx p"

datatype lock_actor = User nat | Remover

inductive lock_moves :: "bool \<Rightarrow> nat \<Rightarrow> lock_actor \<Rightarrow> lock_state \<Rightarrow> lock_state \<Rightarrow> bool" for new_calls n where
  call_acquire_lock: "new_calls \<Longrightarrow> t < n \<Longrightarrow> places s t = LIdle \<Longrightarrow>
    lock_moves new_calls n (User t) s (s\<lparr>places := (places s)(t := AcqIncrement)\<rparr>)"
| call_release_lock: "t < n \<Longrightarrow> places s t = LIdle \<Longrightarrow> 0 < held s t \<Longrightarrow>
    lock_moves new_calls n (User t) s (s\<lparr>places := (places s)(t := RelDecrement), held := (held s)(t := held s t - 1)\<rparr>)"
| acquire_returns: "t < n \<Longrightarrow> places s t = LAcquired \<Longrightarrow>
    lock_moves new_calls n (User t) s (s\<lparr>places := (places s)(t := LIdle), held := (held s)(t := held s t + 1)\<rparr>)"
| refusal_returns: "t < n \<Longrightarrow> places s t = LRefused \<Longrightarrow>
    lock_moves new_calls n (User t) s (s\<lparr>places := (places s)(t := LIdle)\<rparr>)"
| user_goes_on: "t < n \<Longrightarrow> places s t \<notin> {LIdle, LAcquired, LRefused} \<Longrightarrow> lock_step (places s t) (Lock s) = Some (l, p) \<Longrightarrow>
    lock_moves new_calls n (User t) s (s\<lparr>Lock := l, places := (places s)(t := p)\<rparr>)"
| call_remove: "new_calls \<Longrightarrow> t < n \<Longrightarrow> remover s = Present \<Longrightarrow> 0 < held s t \<Longrightarrow>
    lock_moves new_calls n Remover s (s\<lparr>remover := SetRemoved, held := (held s)(t := held s t - 1)\<rparr>)"
| remover_goes_on: "remover s \<notin> {Present, Gone} \<Longrightarrow> IoReleaseRemoveLockAndWaitEx (remover s) (Lock s) = Some (l, p) \<Longrightarrow>
    lock_moves new_calls n Remover s (s\<lparr>Lock := l, remover := p\<rparr>)"

text \<open>The references in use, and those a routine holds on the count for a while.\<close>

fun in_use :: "lock_place \<Rightarrow> nat" where
  "in_use LAcquired = 1"
| "in_use RelDecrement = 1"
| "in_use p = 0"

fun on_count :: "lock_place \<Rightarrow> nat" where
  "on_count AcqTest = 1"
| "on_count AcqBack = 1"
| "on_count p = in_use p"

definition users :: "nat \<Rightarrow> lock_state \<Rightarrow> nat" where
  "users n s = (\<Sum>t < n. held s t + in_use (places s t))"

definition counted :: "nat \<Rightarrow> lock_state \<Rightarrow> nat" where
  "counted n s = (\<Sum>t < n. held s t + on_count (places s t))"

definition fresh_lock :: "lock_state" where
  "fresh_lock = \<lparr>Lock = \<lparr>Removed = False, IoCount = 1, RemoveEvent = False\<rparr>, places = (\<lambda>_. LIdle), held = (\<lambda>_. 0), remover = Present\<rparr>"

inductive lock_reachable :: "nat \<Rightarrow> lock_state \<Rightarrow> bool" for n where
  reach_fresh_lock: "lock_reachable n fresh_lock"
| reach_lock_moves: "lock_reachable n s \<Longrightarrow> lock_moves b n a s s' \<Longrightarrow> counted n s' < 2 ^ 30 \<Longrightarrow> lock_reachable n s'"

end
