(* ===== verification/Io_RemLock_Safe.thy ===== *)
theory Io_RemLock_Safe
  imports Io_RemLock Ros_Fair
begin

text \<open>
  The safety of remove locks: the invariant of the count, that no user is left when the wait returns and
  that no wake-up is lost.
\<close>

section \<open>The count\<close>

lemma count_word:
  assumes "m < 2 ^ 31"
  shows "sint (of_nat m :: LONG) = int m" "(of_nat m = (0 :: LONG)) = (m = 0)"
    "0 < m \<Longrightarrow> of_nat m - (1 :: LONG) = of_nat (m - 1)" "of_nat m + (1 :: LONG) = of_nat (m + 1)"
proof -
  show "sint (of_nat m :: LONG) = int m" using assms by (subst signed_of_nat) (simp add: signed_take_bit_int_eq_self)
  show "(of_nat m = (0 :: LONG)) = (m = 0)" using assms by (auto simp: word_unat_eq_iff unat_of_nat_32)
  show "0 < m \<Longrightarrow> of_nat m - (1 :: LONG) = of_nat (m - 1)" by (simp add: of_nat_diff)
  show "of_nat m + (1 :: LONG) = of_nat (m + 1)" by simp
qed

section \<open>The invariant\<close>

definition wakers :: "nat \<Rightarrow> lock_state \<Rightarrow> nat" where
  "wakers n s = (\<Sum>t < n. of_bool (places s t = AcqSignal \<or> places s t = RelSignal))"

text \<open>The part of the count that belongs to the lock itself and to the remover.\<close>

fun own_count :: "remover_place \<Rightarrow> nat" where
  "own_count Present = 1"
| "own_count SetRemoved = 2"
| "own_count FirstDecrement = 2"
| "own_count SecondDecrement = 1"
| "own_count p = 0"

text \<open>
  \<open>T\<close> references are on the count, \<open>U\<close> of them in use, and \<open>W\<close> threads are about to set the event.
\<close>

definition lock_ok :: "remover_place \<Rightarrow> IO_REMOVE_LOCK_COMMON_BLOCK \<Rightarrow> nat \<Rightarrow> nat \<Rightarrow> nat \<Rightarrow> bool" where
  "lock_ok r l T U W \<longleftrightarrow> T < 2 ^ 30 \<and> U \<le> T \<and> IoCount l = of_nat (T + own_count r) \<and>
     Removed l = (r \<noteq> Present \<and> r \<noteq> SetRemoved) \<and>
     (case r of RemoveWait \<Rightarrow> (RemoveEvent l \<or> 0 < W \<longrightarrow> U = 0) \<and> (T = 0 \<longrightarrow> RemoveEvent l \<or> 0 < W)
      | Gone \<Rightarrow> U = 0
      | _ \<Rightarrow> \<not> RemoveEvent l \<and> W = 0)"

definition lock_inv :: "nat \<Rightarrow> lock_state \<Rightarrow> bool" where
  "lock_inv n s \<longleftrightarrow> lock_ok (remover s) (Lock s) (counted n s) (users n s) (wakers n s)"

lemma user_sums:
  assumes "t < n" "\<And>u. u \<noteq> t \<Longrightarrow> places s' u = places s u \<and> held s' u = held s u"
  shows "counted n s' + (held s t + on_count (places s t)) = counted n s + (held s' t + on_count (places s' t))"
    "users n s' + (held s t + in_use (places s t)) = users n s + (held s' t + in_use (places s' t))"
    "wakers n s' + of_bool (places s t = AcqSignal \<or> places s t = RelSignal) = wakers n s + of_bool (places s' t = AcqSignal \<or> places s' t = RelSignal)"
  unfolding counted_def users_def wakers_def using assms
  by (intro sum_upd [of t n "\<lambda>u. held s' u + on_count (places s' u)" "\<lambda>u. held s u + on_count (places s u)"]
      sum_upd [of t n "\<lambda>u. held s' u + in_use (places s' u)" "\<lambda>u. held s u + in_use (places s u)"]
      sum_upd [of t n "\<lambda>u. of_bool (places s' u = AcqSignal \<or> places s' u = RelSignal)"
        "\<lambda>u. of_bool (places s u = AcqSignal \<or> places s u = RelSignal)"]; simp)+

lemma in_use_le: "in_use p \<le> on_count p"
  by (cases p) auto

lemma users_counted: "users n s \<le> counted n s"
  unfolding users_def counted_def by (intro sum_mono add_left_mono in_use_le)

lemma counted_ge: "t < n \<Longrightarrow> held s t + on_count (places s t) \<le> counted n s"
  unfolding counted_def by (rule member_le_sum) auto

lemma users_ge: "t < n \<Longrightarrow> held s t + in_use (places s t) \<le> users n s"
  unfolding users_def by (rule member_le_sum) auto

lemma wakers_ge: "t < n \<Longrightarrow> places s t = AcqSignal \<or> places s t = RelSignal \<Longrightarrow> 0 < wakers n s"
  unfolding wakers_def by (rule sum_pos2 [of _ t]) auto

lemma wakers_pos: "0 < wakers n s \<Longrightarrow> \<exists>t < n. places s t = AcqSignal \<or> places s t = RelSignal"
  by (rule ccontr) (auto simp: wakers_def)

section \<open>Steps\<close>

lemma lock_step_count:
  assumes "IoCount l = of_nat M" "M + 1 < 2 ^ 31"
  shows "lock_step AcqIncrement l = Some (l\<lparr>IoCount := of_nat (M + 1)\<rparr>, AcqTest)"
    "0 < M \<Longrightarrow> lock_step AcqBack l = Some (l\<lparr>IoCount := of_nat (M - 1)\<rparr>, if M = 1 then AcqSignal else LRefused)"
    "0 < M \<Longrightarrow> lock_step RelDecrement l = Some (l\<lparr>IoCount := of_nat (M - 1)\<rparr>, if M = 1 then RelSignal else LIdle)"
proof -
  have up: "IoCount l + 1 = of_nat (M + 1)" "sint (of_nat (M + 1) :: LONG) = int (M + 1)"
    using count_word(4) [of M] count_word(1) [of "M + 1"] assms by simp_all
  show "lock_step AcqIncrement l = Some (l\<lparr>IoCount := of_nat (M + 1)\<rparr>, AcqTest)"
    unfolding lock_step.simps IoAcquireRemoveLockEx.simps up Let_def by simp
  have down: "IoCount l - 1 = of_nat (M - 1)" "sint (of_nat (M - 1) :: LONG) = int (M - 1)" "(of_nat (M - 1) = (0 :: LONG)) = (M = 1)" if "0 < M"
    using count_word(3) [of M] count_word(1,2) [of "M - 1"] assms that by auto
  show "lock_step AcqBack l = Some (l\<lparr>IoCount := of_nat (M - 1)\<rparr>, if M = 1 then AcqSignal else LRefused)" if "0 < M"
    unfolding lock_step.simps IoAcquireRemoveLockEx.simps down [OF that] ..
  show "lock_step RelDecrement l = Some (l\<lparr>IoCount := of_nat (M - 1)\<rparr>, if M = 1 then RelSignal else LIdle)" if "0 < M"
    unfolding lock_step.simps IoReleaseRemoveLockEx.simps down [OF that] Let_def by simp
qed

text \<open>One step of a user on the values of the invariant: the new place and the sums that it gives.\<close>

lemma lock_step_ok:
  assumes "lock_ok r l T U W" "p \<notin> {LIdle, LAcquired, LRefused}" "on_count p \<le> T" "in_use p \<le> U"
    "p = AcqSignal \<or> p = RelSignal \<Longrightarrow> 0 < W"
  obtains l' p' where "lock_step p l = Some (l', p')"
    "\<And>T' U' W'. T' + on_count p = T + on_count p' \<Longrightarrow> U' + in_use p = U + in_use p' \<Longrightarrow>
       W' + of_bool (p = AcqSignal \<or> p = RelSignal) = W + of_bool (p' = AcqSignal \<or> p' = RelSignal) \<Longrightarrow> T' < 2 ^ 30 \<Longrightarrow> U' \<le> T' \<Longrightarrow>
       lock_ok r l' T' U' W'"
    "Removed l \<Longrightarrow> p' \<noteq> LAcquired" "Removed l' = Removed l" "RemoveEvent l \<Longrightarrow> RemoveEvent l'"
proof -
  define M where "M = T + own_count r"
  have M: "M + 1 < 2 ^ 31" "IoCount l = of_nat M" using assms(1) by (cases r; simp add: lock_ok_def M_def)+
  note step = lock_step_count [OF M(2,1)]
  show thesis
  proof (cases p)
    case AcqIncrement
    then show thesis using that [of "l\<lparr>IoCount := of_nat (M + 1)\<rparr>" AcqTest] assms(1) step(1)
      by (auto simp: lock_ok_def M_def split: remover_place.splits)
  next
    case AcqTest
    then show thesis using that [of l "if \<not> Removed l then LAcquired else AcqBack"] assms(1,3)
      by (auto simp: lock_ok_def split: remover_place.splits)
  next
    case AcqBack
    then obtain K where K: "T = Suc K" using assms(3) by (cases T) auto
    have M': "M - 1 = K + own_count r" "0 < M" "M = 1 \<longleftrightarrow> K = 0 \<and> own_count r = 0" by (auto simp: M_def K)
    show thesis
    proof (rule that [OF step(2) [OF M'(2), folded AcqBack, unfolded M'(1)]], goal_cases)
      case (1 T' U' W')
      then have "T' = K" "W' = W + of_bool (M = 1)" using K AcqBack by (auto split: if_splits)
      then show ?case using 1 assms(1,4) M'(3) K AcqBack by (cases r) (auto simp: lock_ok_def)
    qed auto
  next
    case AcqSignal
    then show thesis using that [of "set_remove_event l" LRefused] assms
      by (auto simp: lock_ok_def set_remove_event_def split: remover_place.splits)
  next
    case RelDecrement
    then obtain K where K: "T = Suc K" using assms(3) by (cases T) auto
    have M': "M - 1 = K + own_count r" "0 < M" "M = 1 \<longleftrightarrow> K = 0 \<and> own_count r = 0" by (auto simp: M_def K)
    show thesis
    proof (rule that [OF step(3) [OF M'(2), folded RelDecrement, unfolded M'(1)]], goal_cases)
      case (1 T' U' W')
      then have "T' = K" "W' = W + of_bool (M = 1)" using K RelDecrement by (auto split: if_splits)
      then show ?case using 1 assms(1,4) M'(3) K RelDecrement by (cases r) (auto simp: lock_ok_def)
    qed auto
  next
    case RelSignal
    then show thesis using that [of "set_remove_event l" LIdle] assms
      by (auto simp: lock_ok_def set_remove_event_def split: remover_place.splits)
  qed (use assms(2) in auto)
qed

text \<open>One step of the remover; the users stay where they are.\<close>

lemma remover_step_ok:
  assumes "lock_ok r l T U W" "r \<notin> {Present, Gone}"
  obtains l' r' where "IoReleaseRemoveLockAndWaitEx r l = Some (l', r')" "lock_ok r' l' T U W"
proof -
  have small: "T + 2 < 2 ^ 31" using assms(1) by (simp add: lock_ok_def)
  have "\<exists>l' r'. IoReleaseRemoveLockAndWaitEx r l = Some (l', r') \<and> lock_ok r' l' T U W"
  proof (cases r)
    case SetRemoved
    then show ?thesis using assms by (auto simp: lock_ok_def)
  next
    case FirstDecrement
    then have "IoCount l - 1 = of_nat (T + 1)" "sint (of_nat (T + 1) :: LONG) = int (T + 1)"
      using assms count_word(3) [of "T + 2"] count_word(1) [of "T + 1"] small by (auto simp: lock_ok_def)
    then show ?thesis using assms FirstDecrement by (auto simp: lock_ok_def)
  next
    case SecondDecrement
    then have "IoCount l - 1 = of_nat T" "sint (of_nat T :: LONG) = int T"
      using assms count_word(1) [of T] small by (auto simp: lock_ok_def)
    then show ?thesis using assms SecondDecrement by (auto simp: lock_ok_def)
  next
    case RemoveWait
    then show ?thesis using assms by (auto simp: lock_ok_def)
  qed (use assms(2) in auto)
  then show thesis using that by blast
qed

lemma lock_inv_fresh: "lock_inv n fresh_lock"
  by (simp add: lock_inv_def lock_ok_def fresh_lock_def counted_def users_def wakers_def)

text \<open>A call or a return changes no sum but that of the references in use.\<close>

lemma lock_inv_call:
  assumes "lock_inv n s" "t < n" "places s t \<in> {LIdle, LAcquired, LRefused}" "p \<in> {LIdle, AcqIncrement, RelDecrement}"
    "k + on_count p = held s t + on_count (places s t)"
  shows "lock_inv n (s\<lparr>places := (places s)(t := p), held := (held s)(t := k)\<rparr>)"
proof -
  let ?s = "s\<lparr>places := (places s)(t := p), held := (held s)(t := k)\<rparr>"
  have "counted n ?s = counted n s" "users n ?s = users n s" "wakers n ?s = wakers n s"
    using user_sums [OF assms(2), of ?s s] assms(3-5) by auto
  then show ?thesis using assms(1) by (simp add: lock_inv_def)
qed

lemma lock_inv_user:
  assumes "lock_inv n s" "t < n" "places s t \<notin> {LIdle, LAcquired, LRefused}"
  obtains l p where "lock_step (places s t) (Lock s) = Some (l, p)"
    "counted n (s\<lparr>Lock := l, places := (places s)(t := p)\<rparr>) < 2 ^ 30 \<Longrightarrow> lock_inv n (s\<lparr>Lock := l, places := (places s)(t := p)\<rparr>)"
    "Removed (Lock s) \<Longrightarrow> p \<noteq> LAcquired" "RemoveEvent (Lock s) \<Longrightarrow> RemoveEvent l"
proof -
  have "on_count (places s t) \<le> counted n s" "in_use (places s t) \<le> users n s" "places s t = AcqSignal \<or> places s t = RelSignal \<Longrightarrow> 0 < wakers n s"
    using counted_ge [OF assms(2), of s] users_ge [OF assms(2), of s] wakers_ge [OF assms(2), of s] by auto
  from lock_step_ok [OF assms(1) [unfolded lock_inv_def] assms(3) this]
  obtain l p where *: "lock_step (places s t) (Lock s) = Some (l, p)"
    "\<And>T' U' W'. T' + on_count (places s t) = counted n s + on_count p \<Longrightarrow> U' + in_use (places s t) = users n s + in_use p \<Longrightarrow>
       W' + of_bool (places s t = AcqSignal \<or> places s t = RelSignal) = wakers n s + of_bool (p = AcqSignal \<or> p = RelSignal) \<Longrightarrow>
       T' < 2 ^ 30 \<Longrightarrow> U' \<le> T' \<Longrightarrow> lock_ok (remover s) l T' U' W'"
    "Removed (Lock s) \<Longrightarrow> p \<noteq> LAcquired" "RemoveEvent (Lock s) \<Longrightarrow> RemoveEvent l" by metis
  let ?s = "s\<lparr>Lock := l, places := (places s)(t := p)\<rparr>"
  have "lock_inv n ?s" if "counted n ?s < 2 ^ 30"
    unfolding lock_inv_def using *(2) [of "counted n ?s" "users n ?s" "wakers n ?s"] user_sums [OF assms(2), of ?s s] users_counted [of n ?s] that by simp
  then show thesis using that * by blast
qed

lemma lock_inv_moves:
  assumes "lock_moves b n a s s'" "lock_inv n s" "counted n s' < 2 ^ 30"
  shows "lock_inv n s'"
  using assms
proof (induction rule: lock_moves.induct)
  case (call_acquire_lock t s)
  then show ?case using lock_inv_call [of n s t AcqIncrement "held s t"] by simp
next
  case (call_release_lock t s)
  then show ?case using lock_inv_call [of n s t RelDecrement "held s t - 1"] by simp
next
  case (acquire_returns t s)
  then show ?case using lock_inv_call [of n s t LIdle "held s t + 1"] by simp
next
  case (refusal_returns t s)
  then show ?case using lock_inv_call [of n s t LIdle "held s t"] by simp
next
  case (user_goes_on t s l p)
  then show ?case using lock_inv_user [of n s t] by (metis option.inject prod.inject)
next
  case (call_remove t s)
  let ?s = "s\<lparr>remover := SetRemoved, held := (held s)(t := held s t - 1)\<rparr>"
  have "counted n ?s + 1 = counted n s" "users n ?s + 1 = users n s" "wakers n ?s = wakers n s"
    using user_sums [OF call_remove(2), of ?s s] call_remove(4) by auto
  then show ?case using call_remove by (auto simp: lock_inv_def lock_ok_def)
next
  case (remover_goes_on s l p)
  have "counted n (s\<lparr>Lock := l, remover := p\<rparr>) = counted n s" "users n (s\<lparr>Lock := l, remover := p\<rparr>) = users n s"
    "wakers n (s\<lparr>Lock := l, remover := p\<rparr>) = wakers n s" by (simp_all add: counted_def users_def wakers_def)
  then show ?case using remover_goes_on remover_step_ok [of "remover s" "Lock s" "counted n s" "users n s" "wakers n s"]
    by (simp add: lock_inv_def) (metis option.inject prod.inject)
qed

lemma lock_reachable_inv: "lock_reachable n s \<Longrightarrow> lock_inv n s"
  by (induction rule: lock_reachable.induct) (auto intro: lock_inv_fresh lock_inv_moves)

section \<open>Safety\<close>

text \<open>
  C6. When \<^verbatim>\<open>IoReleaseRemoveLockAndWaitEx\<close> is past its wait no user has a reference to
  the device or is about to get one; while it waits and nothing is left on the count the event is set or
  a thread is about to set it, so no wake-up is lost; and no \<^verbatim>\<open>ASSERT\<close> on the count or the
  flag fails, in whatever order the threads have run.
\<close>

theorem remove_lock_safe:
  assumes "lock_reachable n s"
  shows "(remover s = Gone \<longrightarrow> (\<forall>t < n. held s t = 0 \<and> in_use (places s t) = 0)) \<and>
    (remover s = RemoveWait \<and> (\<forall>t < n. held s t = 0 \<and> on_count (places s t) = 0) \<longrightarrow>
       RemoveEvent (Lock s) \<or> (\<exists>t < n. places s t = AcqSignal \<or> places s t = RelSignal)) \<and>
    (\<forall>t < n. lock_step (places s t) (Lock s) \<noteq> None) \<and> IoReleaseRemoveLockAndWaitEx (remover s) (Lock s) \<noteq> None"
proof (intro conjI impI allI)
  note inv = lock_reachable_inv [OF assms]
  show "IoReleaseRemoveLockAndWaitEx (remover s) (Lock s) \<noteq> None"
  proof (cases "remover s \<in> {Present, Gone}")
    case False
    then show ?thesis by (rule remover_step_ok [OF inv [unfolded lock_inv_def]]) simp
  qed auto
  show "lock_step (places s t) (Lock s) \<noteq> None" if "t < n" for t
  proof (cases "places s t \<in> {LIdle, LAcquired, LRefused}")
    case False
    then show ?thesis by (rule lock_inv_user [OF inv that]) simp
  qed auto
  show "held s t = 0" "in_use (places s t) = 0" if "remover s = Gone" "t < n" for t
    using inv users_ge [OF that(2), of s] that(1) by (auto simp: lock_inv_def lock_ok_def)
  assume "remover s = RemoveWait \<and> (\<forall>t < n. held s t = 0 \<and> on_count (places s t) = 0)"
  then have "RemoveEvent (Lock s) \<or> 0 < wakers n s" using inv by (simp add: lock_inv_def lock_ok_def counted_def)
  then show "RemoveEvent (Lock s) \<or> (\<exists>t < n. places s t = AcqSignal \<or> places s t = RelSignal)"
    using wakers_pos by blast
qed

end
