(* ===== verification/Io_RemLock_Live.thy ===== *)
theory Io_RemLock_Live
  imports Io_RemLock_Safe
begin

text \<open>
  Remove locks again: the wait returns when the device is left alone, the bookkeeping of a debug lock, and
  example runs. (While threads keep entering the acquiring routine each of them holds the count up for a
  moment before it is refused, so nothing is claimed for runs with such calls.)
\<close>

section \<open>Liveness\<close>

text \<open>
  Once the flag is set and no thread enters the acquiring routine any more, every move of a user brings
  the lock nearer to the end: \<open>work\<close> counts the moves that are left.
\<close>

fun place_work :: "lock_place \<Rightarrow> nat" where
  "place_work LIdle = 0"
| "place_work AcqIncrement = 5"
| "place_work AcqTest = 4"
| "place_work AcqBack = 3"
| "place_work AcqSignal = 2"
| "place_work LAcquired = 5"
| "place_work LRefused = 1"
| "place_work RelDecrement = 2"
| "place_work RelSignal = 1"

definition work :: "nat \<Rightarrow> lock_state \<Rightarrow> nat" where
  "work n s = (\<Sum>t < n. 3 * held s t + place_work (places s t))"

fun lock_ready :: "nat \<Rightarrow> lock_actor \<Rightarrow> lock_state \<Rightarrow> bool" where
  "lock_ready n (User t) s \<longleftrightarrow> t < n \<and> places s t \<noteq> LIdle"
| "lock_ready n Remover s \<longleftrightarrow> (case remover s of Present \<Rightarrow> False | RemoveWait \<Rightarrow> RemoveEvent (Lock s) | Gone \<Rightarrow> False | _ \<Rightarrow> True)"

text \<open>The moves without new calls of the acquiring routine, under the same bound as for the reachable states.\<close>

definition quiet_moves :: "nat \<Rightarrow> lock_actor \<Rightarrow> lock_state \<Rightarrow> lock_state \<Rightarrow> bool" where
  "quiet_moves n a s s' \<longleftrightarrow> lock_moves False n a s s' \<and> counted n s' < 2 ^ 30"

definition remove_waits :: "nat \<Rightarrow> lock_state \<Rightarrow> bool" where
  "remove_waits n s \<longleftrightarrow> lock_inv n s \<and> remover s = RemoveWait"

lemma work_user:
  assumes "t < n" "\<And>u. u \<noteq> t \<Longrightarrow> places s' u = places s u \<and> held s' u = held s u"
  shows "work n s' + (3 * held s t + place_work (places s t)) = work n s + (3 * held s' t + place_work (places s' t))"
  unfolding work_def using assms
  by (intro sum_upd [of t n "\<lambda>u. 3 * held s' u + place_work (places s' u)" "\<lambda>u. 3 * held s u + place_work (places s u)"]) simp_all

lemma lock_step_work:
  assumes "lock_step p l = Some (l', p')" "p \<notin> {LIdle, LAcquired, LRefused}" "Removed l"
  shows "place_work p' < place_work p"
  using assms by (cases p) (auto simp: Let_def split: if_splits)

lemma quiet_user_moves:
  assumes "remove_waits n s" "quiet_moves n (User t) s s'"
  shows "remove_waits n s' \<and> work n s' < work n s \<and> (RemoveEvent (Lock s) \<longrightarrow> RemoveEvent (Lock s'))"
proof -
  have w: "lock_inv n s" "remover s = RemoveWait" "Removed (Lock s)"
    using assms(1) by (auto simp: remove_waits_def lock_inv_def lock_ok_def)
  have m: "lock_moves False n (User t) s s'" "counted n s' < 2 ^ 30" using assms(2) by (auto simp: quiet_moves_def)
  from m(1) have "t < n" "\<And>u. u \<noteq> t \<Longrightarrow> places s' u = places s u \<and> held s' u = held s u" by (cases rule: lock_moves.cases; auto)+
  note work_user [OF this]
  moreover from m(1) have "3 * held s' t + place_work (places s' t) < 3 * held s t + place_work (places s t) \<and>
      (RemoveEvent (Lock s) \<longrightarrow> RemoveEvent (Lock s')) \<and> remover s' = RemoveWait"
  proof (cases rule: lock_moves.cases)
    case (user_goes_on l p)
    then show ?thesis using lock_step_work [OF user_goes_on(4,3) w(3)] lock_inv_user [OF w(1) user_goes_on(2,3)] w(2)
      by simp (metis option.inject prod.inject)
  qed (use w(2) in auto)
  moreover have "lock_inv n s'" by (rule lock_inv_moves [OF m(1) w(1) m(2)])
  ultimately show ?thesis by (auto simp: remove_waits_def)
qed

lemma quiet_remover_moves:
  assumes "remove_waits n s" "quiet_moves n Remover s s'"
  shows "if RemoveEvent (Lock s) then remover s' = Gone else s' = s"
proof -
  from assms(2) have "lock_moves False n Remover s s'" by (simp add: quiet_moves_def)
  then show ?thesis using assms(1) by (cases rule: lock_moves.cases) (auto simp: remove_waits_def split: if_splits)
qed

interpretation lock_user: helpful "quiet_moves n" "lock_ready n" "User t"
  "\<lambda>s. remove_waits n s \<and> work n s = k \<and> t < n \<and> places s t \<noteq> LIdle"
  "\<lambda>s. remover s = Gone \<or> remove_waits n s \<and> work n s < k" "\<lambda>s. 0" for n t k
proof (unfold_locales, goal_cases)
  case (2 s a s')
  then show ?case
  proof (cases a)
    case (User u)
    then show ?thesis using quiet_user_moves [of n s u s'] 2 by blast
  next
    case Remover
    then show ?thesis using quiet_remover_moves [of n s s'] 2 by (auto split: if_splits)
  qed
next
  case (3 s s')
  then show ?case using quiet_user_moves [of n s t s'] by blast
qed auto

interpretation lock_remover: helpful "quiet_moves n" "lock_ready n" Remover
  "\<lambda>s. remove_waits n s \<and> RemoveEvent (Lock s)" "\<lambda>s. remover s = Gone" "\<lambda>s. 0" for n
proof (unfold_locales, goal_cases)
  case (1 s)
  then show ?case by (simp add: remove_waits_def)
next
  case (2 s a s')
  then obtain u where "a = User u" by (cases a) auto
  then show ?case using quiet_user_moves [of n s u s'] 2 by blast
next
  case (3 s s')
  then show ?case using quiet_remover_moves [of n s s'] by simp
qed

definition users_release :: "nat \<Rightarrow> (nat \<Rightarrow> lock_state) \<Rightarrow> bool" where
  "users_release n run \<longleftrightarrow> (\<forall>t < n. \<forall>i. 0 < held (run i) t \<longrightarrow> (\<exists>j \<ge> i. places (run j) t \<noteq> LIdle))"

lemma work_pos: "0 < work n s \<Longrightarrow> \<exists>t < n. 0 < 3 * held s t + place_work (places s t)"
  by (rule ccontr) (simp add: work_def)

lemma less_work:
  assumes run: "fair_run (quiet_moves n) (lock_ready n) run sched" "users_release n run"
    and w: "remove_waits n (run i)" "work n (run i) = k" "0 < k"
  shows "\<exists>j \<ge> i. remover (run j) = Gone \<or> remove_waits n (run j) \<and> work n (run j) < k"
proof -
  have step: "\<exists>j \<ge> i. remover (run j) = Gone \<or> remove_waits n (run j) \<and> work n (run j) < k"
    if h: "remove_waits n (run i)" "work n (run i) = k" "t < n" "places (run i) t \<noteq> LIdle" for i t
    using lock_user.leads_to [OF run(1), of i k t] h by blast
  have later: "(\<exists>j \<ge> i. remover (run j) = Gone \<or> remove_waits n (run j) \<and> work n (run j) < k) \<or>
      remove_waits n (run (i + d)) \<and> work n (run (i + d)) = k" for d
  proof (induction d)
    case (Suc d)
    then consider "\<exists>j \<ge> i. remover (run j) = Gone \<or> remove_waits n (run j) \<and> work n (run j) < k"
      | "remove_waits n (run (i + d))" "work n (run (i + d)) = k" by blast
    then show ?case
    proof cases
      case now: 2
      have "remover (run (Suc (i + d))) = Gone \<or> remove_waits n (run (Suc (i + d))) \<and> work n (run (Suc (i + d))) \<le> k"
        using run(1)
      proof (cases rule: fair_run_step [of _ _ run sched "i + d"])
        case 1
        then show ?thesis using now by simp
      next
        case (2 a)
        then show ?thesis using now quiet_user_moves [of n "run (i + d)" _ "run (Suc (i + d))"] quiet_remover_moves [of n "run (i + d)" "run (Suc (i + d))"]
          by (cases a) (fastforce split: if_splits)+
      qed
      then show ?thesis by (metis add_Suc_right le_add1 le_neq_implies_less)
    qed blast
  qed (use w in simp)
  obtain t where t: "t < n" "0 < 3 * held (run i) t + place_work (places (run i) t)"
    using w(2,3) work_pos [of n "run i"] by auto
  show ?thesis
  proof (cases "places (run i) t = LIdle")
    case True
    then have "0 < held (run i) t" using t(2) by simp
    then obtain j where j: "i \<le> j" "places (run j) t \<noteq> LIdle" using run(2) t(1) unfolding users_release_def by blast
    then show ?thesis using later [of "j - i"] step [of j t] t(1) by (auto intro: order.trans)
  qed (use step [OF w(1,2) t(1)] in blast)
qed

text \<open>
  C20. The wait for the removal returns: in every fair run in which no thread enters the acquiring
  routine any more and the users release what they have, a remover that waits gets past the wait.
\<close>

theorem remove_lock_wait_returns:
  assumes run: "fair_run (quiet_moves n) (lock_ready n) run sched" "users_release n run"
    and "lock_reachable n (run i)" "remover (run i) = RemoveWait"
  shows "\<exists>j \<ge> i. remover (run j) = Gone"
proof -
  have "\<exists>j \<ge> i. remover (run j) = Gone" if "remove_waits n (run i)" for i
    using that
  proof (induction "work n (run i)" arbitrary: i rule: less_induct)
    case less
    show ?case
    proof (cases "work n (run i) = 0")
      case False
      then show ?thesis using less_work [OF run less.prems refl] less.hyps by (meson not_gr_zero order.trans)
    next
      case True
      then have "held (run i) t = 0" "places (run i) t = LIdle" if "t < n" for t
        using that by (auto simp: work_def) (cases "places (run i) t"; force)
      then have "counted n (run i) = 0" "wakers n (run i) = 0" by (simp_all add: counted_def wakers_def)
      then have "RemoveEvent (Lock (run i))" using less.prems by (auto simp: remove_waits_def lock_inv_def lock_ok_def)
      then show ?thesis using lock_remover.leads_to [OF run(1), of i] less.prems by blast
    qed
  qed
  then show ?thesis using assms(3,4) lock_reachable_inv by (simp add: remove_waits_def)
qed

section \<open>Tracking\<close>

text \<open>
  The runs of a debug lock without a limit on the number and the age of its references: \<open>H\<close> has the
  tags of the references that are out, and a release names one of them.
\<close>

inductive track_run :: "nat multiset \<Rightarrow> IO_REMOVE_LOCK_DBG_BLOCK \<Rightarrow> bool" where
  track_start: "HighWatermark d = 0 \<Longrightarrow> MaxLockedTicks d = 0 \<Longrightarrow> LowMemoryCount d = 0 \<Longrightarrow> Blocks d = [] \<Longrightarrow> track_run {#} d"
| track_more: "track_run H d \<Longrightarrow> track_acquire pool LockValue Tag File Line Now d = Some d' \<Longrightarrow> size H + 1 < 2 ^ 31 \<Longrightarrow>
    track_run (add_mset Tag H) d'"
| track_less: "track_run H d \<Longrightarrow> Tag \<in># H \<Longrightarrow> track_release Tag Now d = Some d' \<Longrightarrow> track_run (H - {#Tag#}) d'"

definition tags :: "IO_REMOVE_LOCK_DBG_BLOCK \<Rightarrow> nat multiset" where
  "tags d = mset (map Block_Tag (Blocks d))"

lemma track_loop_True: "track_loop 0 Now Tag True bs = Some (True, bs)"
  by (induction bs) auto

lemma track_loop_False:
  "\<exists>bs'. track_loop 0 Now Tag False bs = Some (Tag \<in># mset (map Block_Tag bs), bs') \<and> mset (map Block_Tag bs') = mset (map Block_Tag bs) - {#Tag#}"
proof (induction bs)
  case (Cons b bs)
  then show ?case by (cases "Block_Tag b = Tag") (auto simp: track_loop_True)
qed simp

definition track_inv :: "nat multiset \<Rightarrow> IO_REMOVE_LOCK_DBG_BLOCK \<Rightarrow> nat \<Rightarrow> bool" where
  "track_inv H d k \<longleftrightarrow> HighWatermark d = 0 \<and> MaxLockedTicks d = 0 \<and> tags d \<subseteq># H \<and> size H = size (tags d) + k \<and> size H < 2 ^ 31 \<and>
     LowMemoryCount d = of_nat k"

lemma track_release_inv:
  assumes "track_inv (add_mset Tag H) d k"
  shows "\<exists>d' k'. track_release Tag Now d = Some d' \<and> track_inv H d' k'"
proof (cases "Tag \<in># tags d")
  case True
  then obtain A where A: "tags d = add_mset Tag A" by (metis insert_DiffM)
  then obtain bs where "track_loop (MaxLockedTicks d) Now Tag False (Blocks d) = Some (True, bs)" "mset (map Block_Tag bs) = A"
    using track_loop_False [of Now Tag "Blocks d"] assms(1) by (auto simp: tags_def track_inv_def)
  moreover from this(2) have "tags (d\<lparr>Blocks := bs\<rparr>) = A" by (simp add: tags_def)
  then have "track_inv H (d\<lparr>Blocks := bs\<rparr>) k" using assms A by (auto simp: track_inv_def)
  ultimately show ?thesis by (auto simp: track_release_def)
next
  case False
  then obtain bs where bs: "track_loop (MaxLockedTicks d) Now Tag False (Blocks d) = Some (False, bs)" "mset (map Block_Tag bs) = tags d"
    using track_loop_False [of Now Tag "Blocks d"] assms(1) by (auto simp: tags_def track_inv_def diff_single_trivial)
  have sub: "tags d \<subseteq># H"
  proof (rule mset_subset_eqI)
    fix x show "count (tags d) x \<le> count H x"
      using assms False mset_subset_eq_count [of "tags d" "add_mset Tag H" x] by (cases "x = Tag") (auto simp: track_inv_def not_in_iff)
  qed
  then obtain k' where k': "k = Suc k'" using assms size_mset_mono [OF sub] by (cases k) (auto simp: track_inv_def)
  then have "LowMemoryCount d - 1 = of_nat k'" "sint (of_nat k' :: LONG) = int k'"
    using assms count_word(1) [of k'] by (auto simp: track_inv_def)
  then have "track_release Tag Now d = Some (d\<lparr>Blocks := bs, LowMemoryCount := of_nat k'\<rparr>)" using bs(1) by (simp add: track_release_def)
  moreover have "tags (d\<lparr>Blocks := bs, LowMemoryCount := of_nat k'\<rparr>) = tags d" using bs(2) by (simp add: tags_def)
  then have "track_inv H (d\<lparr>Blocks := bs, LowMemoryCount := of_nat k'\<rparr>) k'" using assms sub k' by (auto simp: track_inv_def)
  ultimately show ?thesis by blast
qed

lemma track_acquire_inv:
  assumes "track_inv H d k" "size H + 1 < 2 ^ 31"
  shows "\<exists>d' k'. track_acquire pool LockValue Tag File Line Now d = Some d' \<and> track_inv (add_mset Tag H) d' k'"
proof (cases pool)
  case True
  then show ?thesis using assms by (auto simp: track_acquire_def track_inv_def tags_def)
next
  case False
  then have "track_acquire pool LockValue Tag File Line Now d = Some (d\<lparr>LowMemoryCount := LowMemoryCount d + 1\<rparr>)"
    using assms by (simp add: track_acquire_def track_inv_def)
  moreover have "track_inv (add_mset Tag H) (d\<lparr>LowMemoryCount := LowMemoryCount d + 1\<rparr>) (k + 1)"
    using assms by (auto simp: track_inv_def tags_def subset_mset.trans)
  ultimately show ?thesis by blast
qed

lemma track_run_inv: "track_run H d \<Longrightarrow> \<exists>k. track_inv H d k"
proof (induction rule: track_run.induct)
  case (track_start d)
  then show ?case by (intro exI [of _ 0]) (simp add: track_inv_def tags_def)
next
  case (track_more H d pool LockValue Tag File Line Now d')
  then show ?case using track_acquire_inv [of H d _ pool LockValue Tag File Line Now] by fastforce
next
  case (track_less H d Tag Now d')
  then obtain H' where "H = add_mset Tag H'" by (metis insert_DiffM)
  then show ?case using track_less track_release_inv [of Tag H' d _ Now] by fastforce
qed

text \<open>
  C21. The bookkeeping of a debug lock is right: over every run the tracking blocks together with the
  count of failed allocations make up the references that are out, a release of a reference that is out
  never fails an \<^verbatim>\<open>ASSERT\<close>. But the final release asserts that a block is left, which
  fails exactly when the block of the last reference could not be allocated.
\<close>

theorem remove_lock_tracking:
  assumes "track_run H d"
  shows "tags d \<subseteq># H \<and> size H = size (tags d) + unat (LowMemoryCount d) \<and>
    (\<forall>Tag \<in># H. \<forall>Now. track_release Tag Now d \<noteq> None) \<and>
    (size H = 1 \<longrightarrow> (track_last Tag d = None \<longleftrightarrow> LowMemoryCount d = 1))"
proof -
  obtain k where k: "track_inv H d k" using track_run_inv [OF assms] ..
  then have u: "unat (LowMemoryCount d) = k" "size H = size (tags d) + k" by (auto simp: track_inv_def unat_of_nat_32)
  have "track_release Tag Now d \<noteq> None" if "Tag \<in># H" for Tag Now
    using track_release_inv [of Tag "H - {#Tag#}" d k Now] k that by auto
  moreover have "size H = 1 \<longrightarrow> (track_last Tag d = None \<longleftrightarrow> LowMemoryCount d = 1)"
    using u by (cases "Blocks d") (auto simp: track_last_def tags_def word_unat_eq_iff)
  ultimately show ?thesis using k u by (auto simp: track_inv_def)
qed

text \<open>
  The limit on the age of a reference is computed in 32 bits: at the usual clock increment one minute
  gives a limit of 156250 times 600000000, cut to 32 bits.
\<close>

lemma max_locked_ticks_wraps:
  "map_option (\<lambda>l. unat (MaxLockedTicks (snd l))) (IoInitializeRemoveLockEx 156250 Tag 1 0 DBG_SIZE l) =
     Some (156250 * 600000000 mod 2 ^ 32)"
  by (simp add: IoInitializeRemoveLockEx_def)

section \<open>Examples\<close>

text \<open>One user takes a reference, and a second one that it hands to the remover; the first is given back during the wait.\<close>

definition one_user :: "bool \<Rightarrow> LONG \<Rightarrow> bool \<Rightarrow> lock_place \<Rightarrow> nat \<Rightarrow> remover_place \<Rightarrow> lock_state" where
  "one_user f c e p k r = \<lparr>Lock = \<lparr>Removed = f, IoCount = c, RemoveEvent = e\<rparr>, places = (\<lambda>_. LIdle)(0 := p), held = (\<lambda>_. 0)(0 := k), remover = r\<rparr>"

definition lock_states :: "lock_state list" where
  "lock_states =
     [one_user False 1 False LIdle 0 Present,
      one_user False 1 False AcqIncrement 0 Present,
      one_user False 2 False AcqTest 0 Present,
      one_user False 2 False LAcquired 0 Present,
      one_user False 2 False LIdle 1 Present,
      one_user False 2 False AcqIncrement 1 Present,
      one_user False 3 False AcqTest 1 Present,
      one_user False 3 False LAcquired 1 Present,
      one_user False 3 False LIdle 2 Present,
      one_user False 3 False LIdle 1 SetRemoved,
      one_user True 3 False LIdle 1 FirstDecrement,
      one_user True 2 False LIdle 1 SecondDecrement,
      one_user True 1 False LIdle 1 RemoveWait,
      one_user True 1 False RelDecrement 0 RemoveWait,
      one_user True 0 False RelSignal 0 RemoveWait,
      one_user True 0 True LIdle 0 RemoveWait,
      one_user True 0 False LIdle 0 Gone]"

definition lock_actors :: "lock_actor list" where
  "lock_actors = map (\<lambda>u. if u then User 0 else Remover)
     [True, True, True, True, True, True, True, True, False, False, False, False, True, True, True, False]"

lemma one_user_step:
  assumes "lock_step p \<lparr>Removed = f, IoCount = c, RemoveEvent = e\<rparr> = Some (\<lparr>Removed = f', IoCount = c', RemoveEvent = e'\<rparr>, p')"
    "p \<notin> {LIdle, LAcquired, LRefused}"
  shows "lock_moves b (Suc 0) (User 0) (one_user f c e p k r) (one_user f' c' e' p' k r)"
  using lock_moves.user_goes_on [of 0 "Suc 0" "one_user f c e p k r" _ p' b] assms by (simp add: one_user_def)

lemma one_user_call:
  "lock_moves True (Suc 0) (User 0) (one_user f c e LIdle k r) (one_user f c e AcqIncrement k r)"
  "lock_moves b (Suc 0) (User 0) (one_user f c e LIdle (Suc k) r) (one_user f c e RelDecrement k r)"
  "lock_moves b (Suc 0) (User 0) (one_user f c e LAcquired k r) (one_user f c e LIdle (Suc k) r)"
  "lock_moves True (Suc 0) Remover (one_user f c e p (Suc k) Present) (one_user f c e p k SetRemoved)"
  using lock_moves.call_acquire_lock [of True 0 "Suc 0" "one_user f c e LIdle k r"]
    lock_moves.call_release_lock [of 0 "Suc 0" "one_user f c e LIdle (Suc k) r" b]
    lock_moves.acquire_returns [of 0 "Suc 0" "one_user f c e LAcquired k r" b]
    lock_moves.call_remove [of True 0 "Suc 0" "one_user f c e p (Suc k) Present"]
  by (simp_all add: one_user_def)

lemma one_user_remover:
  assumes "IoReleaseRemoveLockAndWaitEx r \<lparr>Removed = f, IoCount = c, RemoveEvent = e\<rparr> = Some (\<lparr>Removed = f', IoCount = c', RemoveEvent = e'\<rparr>, r')"
    "r \<notin> {Present, Gone}"
  shows "lock_moves b n Remover (one_user f c e p k r) (one_user f' c' e' p k r')"
  using lock_moves.remover_goes_on [of "one_user f c e p k r" _ r' b n] assms by (simp add: one_user_def)

lemma less_16: "i < 16 \<Longrightarrow> i \<in> {0, 1, 2, 3, 4, 5, 6, 7, 8, 9, 10, 11, 12, 13, 14, 15}" for i :: nat
  unfolding insert_iff empty_iff by presburger

lemma two_Suc: "(2 :: nat) = Suc (Suc 0)" by simp

lemma lock_states_move: "i < 16 \<Longrightarrow> lock_moves (i < 12) 1 (lock_actors ! i) (lock_states ! i) (lock_states ! Suc i)"
  by (drule less_16, elim insertE emptyE; simp add: lock_states_def lock_actors_def two_Suc;
      ((rule one_user_call | rule one_user_step one_user_remover); simp add: set_remove_event_def)?)

lemma lock_states_counted: "i \<le> 16 \<Longrightarrow> counted 1 (lock_states ! i) < 2 ^ 30"
  using less_16 [of i] by (cases "i = 16") (auto simp: lock_states_def counted_def one_user_def)

lemma lock_states_reachable: "i \<le> 16 \<Longrightarrow> lock_reachable 1 (lock_states ! i)"
proof (induction i)
  case 0
  have "lock_states ! 0 = fresh_lock" by (simp add: lock_states_def one_user_def fresh_lock_def fun_upd_idem)
  then show ?case by (simp add: reach_fresh_lock)
next
  case (Suc i)
  then show ?case using lock_states_move [of i] lock_states_counted [of "Suc i"] reach_lock_moves [of 1 "lock_states ! i"] by simp
qed

text \<open>The end of the run, from the wait on.\<close>

definition lock_run :: "nat \<Rightarrow> lock_state" where
  "lock_run i = lock_states ! (12 + min i 4)"

definition lock_sched :: "nat \<Rightarrow> lock_actor option" where
  "lock_sched i = (if i < 4 then Some (lock_actors ! (12 + i)) else None)"

lemma lock_run_fair: "fair_run (quiet_moves 1) (lock_ready 1) lock_run lock_sched"
proof -
  have "case lock_sched i of None \<Rightarrow> lock_run (Suc i) = lock_run i | Some a \<Rightarrow> quiet_moves 1 a (lock_run i) (lock_run (Suc i))" for i
    using lock_states_move [of "12 + i"] lock_states_counted [of "Suc (12 + i)"]
    by (auto simp: lock_sched_def lock_run_def quiet_moves_def min_def)
  moreover have "\<not> lock_ready 1 a (lock_run (max i 4))" for a i
    by (cases a) (auto simp: lock_run_def lock_states_def one_user_def min_def)
  then have "\<exists>j \<ge> i. lock_sched j = Some a \<or> \<not> lock_ready 1 a (lock_run j)" for a i by (meson max.cobounded1)
  ultimately show ?thesis unfolding fair_run_def by blast
qed

lemma lock_run_releases: "users_release 1 lock_run"
proof -
  have "\<exists>j \<ge> i. places (lock_run j) 0 \<noteq> LIdle" if "0 < held (lock_run i) 0" for i
  proof -
    have "i \<le> 1"
    proof (rule ccontr)
      assume "\<not> i \<le> 1"
      then have "min i 4 \<in> {2, 3, 4}" by auto
      then show False using that by (auto simp: lock_run_def lock_states_def one_user_def)
    qed
    moreover have "places (lock_run 1) 0 \<noteq> LIdle" by (simp add: lock_run_def lock_states_def one_user_def)
    ultimately show ?thesis by blast
  qed
  then show ?thesis by (simp add: users_release_def)
qed

theorem remove_lock_safe_witness:
  "held (lock_states ! 16) 0 = 0 \<and> lock_step (places (lock_states ! 14) 0) (Lock (lock_states ! 14)) \<noteq> None"
proof -
  have "remover (lock_states ! 16) = Gone" by (simp add: lock_states_def one_user_def)
  then show ?thesis
    using remove_lock_safe [OF lock_states_reachable [of 16]] remove_lock_safe [OF lock_states_reachable [of 14]] by simp
qed

theorem remove_lock_wait_returns_witness: "\<exists>j \<ge> 0. remover (lock_run j) = Gone"
  using remove_lock_wait_returns [OF lock_run_fair lock_run_releases, of 0] lock_states_reachable [of 12]
  by (simp add: lock_run_def) (simp add: lock_states_def one_user_def)

definition empty_dbg :: IO_REMOVE_LOCK_DBG_BLOCK where
  "empty_dbg = \<lparr>Signature = 0, HighWatermark = 0, MaxLockedTicks = 0, AllocateTag = 0, LowMemoryCount = 0, Blocks = []\<rparr>"

theorem remove_lock_tracking_witness:
  "track_last 7 (empty_dbg\<lparr>LowMemoryCount := 1\<rparr>) = None \<and> track_release 7 0 (empty_dbg\<lparr>LowMemoryCount := 1\<rparr>) \<noteq> None"
proof -
  have "track_run {#7#} (empty_dbg\<lparr>LowMemoryCount := 1\<rparr>)"
    by (rule track_more [of "{#}" empty_dbg False 2 _ 0 0 0]) (simp_all add: track_start empty_dbg_def track_acquire_def)
  from remove_lock_tracking [OF this, of 7] show ?thesis by (simp add: empty_dbg_def)
qed

end
