(* ===== verification/Fs_Name.thy ===== *)
theory Fs_Name
  imports Ros_Prelude
begin

text \<open>
  The name support of file systems (\<^verbatim>\<open>ntoskrnl/fsrtl/name.c\<close>): comparison and dissection of names and the
  matching of a name against an expression with wild cards. A string has its \<^verbatim>\<open>Length\<close> in bytes, which is
  even, and \<open>Buffer\<close> is what lies in memory from the pointer on.
\<close>

section \<open>Strings and characters\<close>

type_synonym WCHAR = "16 word"

record UNICODE_STRING =
  Length :: USHORT
  MaximumLength :: USHORT
  Buffer :: "WCHAR list"

abbreviation (input) STAR :: WCHAR where "STAR \<equiv> 0x2A"
abbreviation (input) QM :: WCHAR where "QM \<equiv> 0x3F"
abbreviation (input) DOT :: WCHAR where "DOT \<equiv> 0x2E"
abbreviation (input) BACKSLASH :: WCHAR where "BACKSLASH \<equiv> 0x5C"
abbreviation (input) DOS_STAR :: WCHAR where "DOS_STAR \<equiv> 0x3C"
abbreviation (input) DOS_QM :: WCHAR where "DOS_QM \<equiv> 0x3E"
abbreviation (input) DOS_DOT :: WCHAR where "DOS_DOT \<equiv> 0x22"
abbreviation (input) FSRTL_WILD_CHARACTER :: UCHAR where "FSRTL_WILD_CHARACTER \<equiv> 8"

text \<open>The number of characters, and the characters of a string.\<close>

definition count :: "UNICODE_STRING \<Rightarrow> nat" where
  "count s = unat (Length s) div 2"

definition chars :: "UNICODE_STRING \<Rightarrow> WCHAR list" where
  "chars s = take (count s) (Buffer s)"

definition wf_string :: "UNICODE_STRING \<Rightarrow> bool" where
  "wf_string s \<longleftrightarrow> even (unat (Length s)) \<and> count s \<le> length (Buffer s)"

definition LegalAnsiCharacterArray :: "UCHAR list" where
  "LegalAnsiCharacterArray =
     [0, 16, 16, 16, 16, 16, 16, 16, 16, 16, 16, 16, 16, 16, 16, 16,
      16, 16, 16, 16, 16, 16, 16, 16, 16, 16, 16, 16, 16, 16, 16, 16,
      23, 7, 24, 23, 23, 23, 23, 23, 23, 23, 24, 22, 22, 23, 7, 0,
      23, 23, 23, 23, 23, 23, 23, 23, 23, 23, 4, 22, 24, 22, 24, 24,
      23, 23, 23, 23, 23, 23, 23, 23, 23, 23, 23, 23, 23, 23, 23, 23,
      23, 23, 23, 23, 23, 23, 23, 23, 23, 23, 23, 22, 0, 22, 23, 23,
      23, 23, 23, 23, 23, 23, 23, 23, 23, 23, 23, 23, 23, 23, 23, 23,
      23, 23, 23, 23, 23, 23, 23, 23, 23, 23, 23, 23, 16, 23, 23, 23]"

definition FsRtlIsUnicodeCharacterWild :: "WCHAR \<Rightarrow> bool" where
  "FsRtlIsUnicodeCharacterWild C =
     (if C \<ge> 0x40 then False else LegalAnsiCharacterArray ! unat C AND FSRTL_WILD_CHARACTER \<noteq> 0)"

text \<open>The loop runs from the last character down, and ends at a backslash.\<close>

fun wild_loop :: "WCHAR list \<Rightarrow> bool" where
  "wild_loop [] = False"
| "wild_loop (c # cs) =
     (if c = BACKSLASH then False else if FsRtlIsUnicodeCharacterWild c then True else wild_loop cs)"

definition FsRtlDoesNameContainWildCards :: "UNICODE_STRING \<Rightarrow> bool" where
  "FsRtlDoesNameContainWildCards Name = wild_loop (rev (chars Name))"

section \<open>Comparing and dissecting names\<close>

text \<open>
  What a routine does: it returns, raises a status, or \<open>Fails\<close> an assertion (or runs over a buffer).
  \<open>Alloc\<close> says whether the string memory is available, and \<open>Upcase\<close> is the upper case table of the
  system, which is read from a file.
\<close>

datatype 'a outcome = Returns 'a | Raises NTSTATUS | Fails

text \<open>
  The destination of \<^verbatim>\<open>RtlUpcaseUnicodeString\<close> gets a buffer of its own or has one already; a destination that
  is a local variable without a value is \<open>unset_string\<close>.
\<close>

abbreviation (input) STATUS_BUFFER_OVERFLOW :: NTSTATUS where "STATUS_BUFFER_OVERFLOW \<equiv> 0x80000005"

abbreviation unset_string :: UNICODE_STRING where
  "unset_string \<equiv> \<lparr>Length = 0, MaximumLength = 0, Buffer = []\<rparr>"

definition RtlUpcaseUnicodeString ::
  "bool \<Rightarrow> (WCHAR \<Rightarrow> WCHAR) \<Rightarrow> UNICODE_STRING \<Rightarrow> UNICODE_STRING \<Rightarrow> bool \<Rightarrow> NTSTATUS \<times> UNICODE_STRING" where
  "RtlUpcaseUnicodeString Alloc Upcase UniDest UniSource AllocateDestinationString =
     (if AllocateDestinationString \<and> \<not> Alloc
      then (STATUS_NO_MEMORY, UniDest\<lparr>MaximumLength := Length UniSource, Buffer := []\<rparr>)
      else if \<not> AllocateDestinationString \<and> Length UniSource > MaximumLength UniDest
      then (STATUS_BUFFER_OVERFLOW, UniDest)
      else
        let UniDest = (if AllocateDestinationString
              then UniDest\<lparr>MaximumLength := Length UniSource, Buffer := replicate (count UniSource) 0\<rparr> else UniDest);
            j = count UniSource
        in (STATUS_SUCCESS,
            UniDest\<lparr>Buffer := map (\<lambda>i. Upcase (Buffer UniSource ! i)) [0..<j] @ drop j (Buffer UniDest),
                    Length := Length UniSource\<rparr>))"

fun names_equal_loop :: "(WCHAR \<Rightarrow> WCHAR) \<Rightarrow> WCHAR list \<Rightarrow> WCHAR list \<Rightarrow> bool" where
  "names_equal_loop UpcaseTable (c # cs) (d # ds) =
     (if UpcaseTable c \<noteq> UpcaseTable d then False else names_equal_loop UpcaseTable cs ds)"
| "names_equal_loop UpcaseTable _ _ = True"

definition RtlEqualMemory :: "WCHAR list \<Rightarrow> WCHAR list \<Rightarrow> nat \<Rightarrow> bool" where
  "RtlEqualMemory a b n = (take (n div 2) a = take (n div 2) b)"

definition FsRtlAreNamesEqual ::
  "bool \<Rightarrow> bool \<Rightarrow> (WCHAR \<Rightarrow> WCHAR) \<Rightarrow> UNICODE_STRING \<Rightarrow> UNICODE_STRING \<Rightarrow> bool \<Rightarrow> (WCHAR \<Rightarrow> WCHAR) option \<Rightarrow> bool outcome" where
  "FsRtlAreNamesEqual Alloc1 Alloc2 Upcase Name1 Name2 IgnoreCase UpcaseTable =
     (if Length Name1 \<noteq> Length Name2 then Returns False
      else case (IgnoreCase, UpcaseTable) of
        (True, None) \<Rightarrow>
          (case RtlUpcaseUnicodeString Alloc1 Upcase unset_string Name1 True of (Status, UpcaseName1) \<Rightarrow>
           if Status \<noteq> STATUS_SUCCESS then Raises Status
           else case RtlUpcaseUnicodeString Alloc2 Upcase unset_string Name2 True of (Status, UpcaseName2) \<Rightarrow>
           if Status \<noteq> STATUS_SUCCESS then Raises Status
           else Returns (RtlEqualMemory (Buffer UpcaseName1) (Buffer UpcaseName2) (unat (Length UpcaseName1))))
      | (False, _) \<Rightarrow> Returns (RtlEqualMemory (Buffer Name1) (Buffer Name2) (unat (Length Name1)))
      | (True, Some T) \<Rightarrow> Returns (names_equal_loop T (chars Name1) (chars Name2)))"

text \<open>The first backslash that is not the first character, and whether there is one at the start.\<close>

fun dissect_loop :: "WCHAR list \<Rightarrow> nat \<Rightarrow> nat \<Rightarrow> nat \<times> nat" where
  "dissect_loop [] i SkipFirstSlash = (i, SkipFirstSlash)"
| "dissect_loop (c # cs) i SkipFirstSlash =
     (if c = BACKSLASH then
        if i = 0 then dissect_loop cs (i + 1) 1 else (i, SkipFirstSlash)
      else dissect_loop cs (i + 1) SkipFirstSlash)"

definition FsRtlDissectName :: "UNICODE_STRING \<Rightarrow> UNICODE_STRING \<times> UNICODE_STRING" where
  "FsRtlDissectName Name =
     (let zero = \<lparr>Length = 0, MaximumLength = 0, Buffer = []\<rparr>
      in if Length Name = 0 then (zero, zero)
      else
        let (FirstPosition, SkipFirstSlash) = dissect_loop (chars Name) 0 0;
            FirstLength = of_nat ((FirstPosition - SkipFirstSlash) * 2);
            FirstPart = \<lparr>Length = FirstLength, MaximumLength = FirstLength, Buffer = drop SkipFirstSlash (Buffer Name)\<rparr>;
            RemainingLength = Length Name - of_nat ((FirstPosition + 1) * 2);
            RemainingPart =
              (if FirstPosition < count Name
               then \<lparr>Length = RemainingLength, MaximumLength = RemainingLength, Buffer = drop (FirstPosition + 1) (Buffer Name)\<rparr>
               else zero)
        in (FirstPart, RemainingPart))"

section \<open>Matching\<close>

text \<open>
  The expression is an automaton whose states are numbers, four for each character: the state four times
  \<open>i\<close> is before character \<open>i\<close>, and three more is after the character, which is a star. The states that
  the name leads to are kept in two arrays of 16 \<^verbatim>\<open>USHORT\<close>s, which are moved to the pool when they get
  too small. \<open>BackTracking\<close> is the part of the array that is in use.
\<close>

record backtracking =
  BackTracking :: "nat list"
  BackTrackingBufferSize :: nat
  AllocatedBuffer :: bool

datatype 'a flow = Goes 'a | Exit bool | Stuck

fun push :: "nat \<Rightarrow> backtracking \<Rightarrow> backtracking flow" where
  "push v b =
     (if length (BackTracking b) < BackTrackingBufferSize b
      then Goes (b\<lparr>BackTracking := BackTracking b @ [v mod 65536]\<rparr>) else Stuck)"

text \<open>
  The arrays grow once. The copy of 16 entries into each half of the new buffer must fit.
\<close>

definition grow :: "bool \<Rightarrow> UNICODE_STRING \<Rightarrow> backtracking \<Rightarrow> backtracking flow" where
  "grow Pool Expression b =
     (if length (BackTracking b) > BackTrackingBufferSize b - 3 then
        if AllocatedBuffer b then Stuck
        else if \<not> Pool then Exit False
        else
          let Size = unat (Length Expression) div 2 * 2 + 1
          in if Size < 16 then Stuck else Goes (b\<lparr>BackTrackingBufferSize := Size, AllocatedBuffer := True\<rparr>)
      else Goes b)"

text \<open>
  One character of the expression: the states that are pushed, and whether the loop over the expression
  goes on with the next character (\<^verbatim>\<open>continue\<close>) or ends (\<^verbatim>\<open>break\<close>).
\<close>

definition match_char ::
  "UNICODE_STRING \<Rightarrow> UNICODE_STRING \<Rightarrow> (WCHAR \<Rightarrow> WCHAR) option \<Rightarrow> bool \<Rightarrow> nat \<Rightarrow> nat \<Rightarrow> nat list \<times> bool" where
  "match_char Expression Name UpcaseTable EndOfName NamePosition ExpressionPosition =
     (let ExpressionChar = Buffer Expression ! (ExpressionPosition div 2);
          NameChar = Buffer Name ! NamePosition;
          CompareChar = (if NamePosition \<ge> count Name then 0
                         else case UpcaseTable of None \<Rightarrow> NameChar | Some T \<Rightarrow> T NameChar)
      in if ExpressionChar = CompareChar \<and> \<not> EndOfName then ([(ExpressionPosition + 2) * 2], False)
      else if ExpressionChar = QM \<and> \<not> EndOfName then ([(ExpressionPosition + 2) * 2], False)
      else if ExpressionChar = STAR then ([ExpressionPosition * 2, ExpressionPosition * 2 + 3], True)
      else if ExpressionChar = DOS_STAR then
        let DontSkipDot = \<not> (\<not> EndOfName \<and> NameChar = DOT \<and> DOT \<in> set (drop (NamePosition + 1) (chars Name)))
        in ((if EndOfName \<or> NameChar \<noteq> DOT \<or> \<not> DontSkipDot then [ExpressionPosition * 2] else []) @
            [ExpressionPosition * 2 + 3], True)
      else if ExpressionChar = DOS_DOT then
        if EndOfName then ([], True)
        else ((if NameChar = DOT then [(ExpressionPosition + 2) * 2] else []), False)
      else if ExpressionChar = DOS_QM then
        if EndOfName \<or> NameChar = DOT then ([], True)
        else ([(ExpressionPosition + 2) * 2], False)
      else ([], False))"

fun push_all :: "nat list \<Rightarrow> backtracking \<Rightarrow> backtracking flow" where
  "push_all [] b = Goes b"
| "push_all (v # vs) b = (case push v b of Goes b \<Rightarrow> push_all vs b | r \<Rightarrow> r)"

function expression_loop ::
  "bool \<Rightarrow> UNICODE_STRING \<Rightarrow> UNICODE_STRING \<Rightarrow> (WCHAR \<Rightarrow> WCHAR) option \<Rightarrow> bool \<Rightarrow> nat \<Rightarrow> nat \<Rightarrow> nat \<Rightarrow> backtracking \<Rightarrow> backtracking flow" where
  "expression_loop Pool Expression Name UpcaseTable EndOfName NamePosition Offset ExpressionPosition b =
     (if \<not> ExpressionPosition < unat (Length Expression) then Goes b
      else
        let ExpressionPosition = ExpressionPosition + Offset
        in if ExpressionPosition = unat (Length Expression) then push (unat (Length Expression) * 2) b
        else case grow Pool Expression b of
          Goes b \<Rightarrow>
            (case match_char Expression Name UpcaseTable EndOfName NamePosition ExpressionPosition of (vs, goes_on) \<Rightarrow>
             case push_all vs b of
               Goes b \<Rightarrow>
                 if goes_on then expression_loop Pool Expression Name UpcaseTable EndOfName NamePosition 2 ExpressionPosition b
                 else Goes b
             | r \<Rightarrow> r)
        | r \<Rightarrow> r)"
  by pat_completeness auto
termination
  by (relation "measures [\<lambda>(_, e, _, _, _, _, _, p, _). unat (Length e) - p, \<lambda>(_, _, _, _, _, _, Offset, _). if Offset = 0 then 1 else 0]")
    auto

text \<open>The old states that are less than a new one are skipped.\<close>

definition skip_olds :: "nat list \<Rightarrow> nat list \<Rightarrow> nat list" where
  "skip_olds news olds = fold (\<lambda>v. dropWhile (\<lambda>old. v > old)) news olds"

lemma skip_olds_length: "length (skip_olds news olds) \<le> length olds"
  unfolding skip_olds_def
  by (induction news arbitrary: olds) (auto intro: order_trans [OF _ length_dropWhile_le])

function states_loop ::
  "bool \<Rightarrow> UNICODE_STRING \<Rightarrow> UNICODE_STRING \<Rightarrow> (WCHAR \<Rightarrow> WCHAR) option \<Rightarrow> bool \<Rightarrow> nat \<Rightarrow> nat list \<Rightarrow> backtracking \<Rightarrow> backtracking flow" where
  "states_loop Pool Expression Name UpcaseTable EndOfName NamePosition [] b = Goes b"
| "states_loop Pool Expression Name UpcaseTable EndOfName NamePosition (v # vs) b =
     (case expression_loop Pool Expression Name UpcaseTable EndOfName NamePosition 0 ((v + 1) div 2) b of
        Goes b \<Rightarrow> states_loop Pool Expression Name UpcaseTable EndOfName NamePosition (skip_olds (BackTracking b) vs) b
      | r \<Rightarrow> r)"
  by pat_completeness auto
termination
  by (relation "measure (\<lambda>(_, _, _, _, _, _, vs, _). length vs)") (auto intro: le_imp_less_Suc skip_olds_length)

function name_loop ::
  "bool \<Rightarrow> UNICODE_STRING \<Rightarrow> UNICODE_STRING \<Rightarrow> (WCHAR \<Rightarrow> WCHAR) option \<Rightarrow> nat \<Rightarrow> nat list \<Rightarrow> backtracking \<Rightarrow> nat list flow" where
  "name_loop Pool Expression Name UpcaseTable NamePosition OldBackTracking b =
     (if NamePosition \<ge> count Name then
        if OldBackTracking \<noteq> [] \<and> last OldBackTracking = unat (Length Expression) * 2 then Goes OldBackTracking
        else case states_loop Pool Expression Name UpcaseTable True NamePosition OldBackTracking b of
            Goes b \<Rightarrow> Goes (BackTracking b) | Exit r \<Rightarrow> Exit r | Stuck \<Rightarrow> Stuck
      else case states_loop Pool Expression Name UpcaseTable False NamePosition OldBackTracking b of
          Goes b \<Rightarrow> name_loop Pool Expression Name UpcaseTable (NamePosition + 1) (BackTracking b) (b\<lparr>BackTracking := []\<rparr>)
        | Exit r \<Rightarrow> Exit r | Stuck \<Rightarrow> Stuck)"
  by pat_completeness auto
termination
  by (relation "measure (\<lambda>(_, _, n, _, p, _). count n - p)") auto

declare expression_loop.simps [simp del] name_loop.simps [simp del]

text \<open>The comparison of the tail after a single star, with the assertion that the expression is in upper case.\<close>

fun tail_loop :: "(WCHAR \<Rightarrow> WCHAR) \<Rightarrow> WCHAR list \<Rightarrow> WCHAR list \<Rightarrow> bool outcome" where
  "tail_loop UpcaseTable (c # cs) (d # ds) =
     (if c \<noteq> UpcaseTable c then Fails
      else if UpcaseTable d \<noteq> c then Returns False
      else tail_loop UpcaseTable cs ds)"
| "tail_loop UpcaseTable _ _ = Returns True"

definition FsRtlIsNameInExpressionPrivate ::
  "bool \<Rightarrow> UNICODE_STRING \<Rightarrow> UNICODE_STRING \<Rightarrow> bool \<Rightarrow> (WCHAR \<Rightarrow> WCHAR) option \<Rightarrow> bool outcome" where
  "FsRtlIsNameInExpressionPrivate Pool Expression Name IgnoreCase UpcaseTable =
     (if Length Name = 0 \<or> Length Expression = 0 then Returns (Length Name = 0 \<and> Length Expression = 0)
      else if Length Expression = 2 \<and> Buffer Expression ! 0 = STAR then Returns True
      else if IgnoreCase \<and> UpcaseTable = None then Fails
      else
        let IntExpression = Expression\<lparr>Buffer := tl (Buffer Expression), Length := Length Expression - 2\<rparr>
        in if Buffer Expression ! 0 = STAR \<and> \<not> FsRtlDoesNameContainWildCards IntExpression then
          if unat (Length Name) < unat (Length Expression) - 2 then Returns False
          else
            let NamePosition = (unat (Length Name) - unat (Length IntExpression)) div 2
            in case (IgnoreCase, UpcaseTable) of
                (True, Some T) \<Rightarrow> tail_loop T (chars IntExpression) (drop NamePosition (Buffer Name))
              | _ \<Rightarrow> Returns (RtlEqualMemory (Buffer IntExpression) (drop NamePosition (Buffer Name)) (unat (Length IntExpression)))
        else case name_loop Pool Expression Name (if IgnoreCase then UpcaseTable else None) 0 [0]
              \<lparr>BackTracking = [], BackTrackingBufferSize = 16, AllocatedBuffer = False\<rparr> of
            Goes OldBackTracking \<Rightarrow>
              Returns (OldBackTracking \<noteq> [] \<and> last OldBackTracking = unat (Length Expression) * 2)
          | Exit r \<Rightarrow> Returns r
          | Stuck \<Rightarrow> Fails)"

definition FsRtlIsNameInExpression ::
  "bool \<Rightarrow> bool \<Rightarrow> (WCHAR \<Rightarrow> WCHAR) \<Rightarrow> UNICODE_STRING \<Rightarrow> UNICODE_STRING \<Rightarrow> bool \<Rightarrow> (WCHAR \<Rightarrow> WCHAR) option \<Rightarrow> bool outcome" where
  "FsRtlIsNameInExpression Alloc Pool Upcase Expression Name IgnoreCase UpcaseTable =
     (if IgnoreCase \<and> UpcaseTable = None then
        case RtlUpcaseUnicodeString Alloc Upcase unset_string Name True of (Status, IntName) \<Rightarrow>
          if Status \<noteq> STATUS_SUCCESS then Raises Status
          else FsRtlIsNameInExpressionPrivate Pool Expression IntName False UpcaseTable
      else FsRtlIsNameInExpressionPrivate Pool Expression Name IgnoreCase UpcaseTable)"

end
