(* ===== verification/Fs_Match.thy ===== *)
theory Fs_Match
  imports Fs_Name
begin

text \<open>
  Wild card matching: a reference matcher by recursion over expression and name, and the states
  that one pass of \<^verbatim>\<open>FsRtlIsNameInExpressionPrivate\<close> over the expression reaches: they are in order, there
  are not too many of them, and they stand for the same matches.
\<close>

section \<open>The reference\<close>

text \<open>
  \<^item> A star matches any string.
  \<^item> A DOS star matches any string in which the last dot of the name may only come at the end.
  \<^item> A question mark matches one character.
  \<^item> A DOS question mark matches one character, or nothing at a dot and at the end of the name (and at the
  end of the expression it takes a last dot with it).
  \<^item> A DOS dot matches a dot, or nothing at the end of the name.
\<close>

definition star :: "WCHAR \<Rightarrow> bool" where
  "star x \<longleftrightarrow> x = STAR \<or> x = DOS_STAR"

definition wild :: "WCHAR \<Rightarrow> bool" where
  "wild x \<longleftrightarrow> x = STAR \<or> x = DOS_STAR \<or> x = QM \<or> x = DOS_QM \<or> x = DOS_DOT"

function wild_match :: "(WCHAR \<Rightarrow> WCHAR) \<Rightarrow> WCHAR list \<Rightarrow> WCHAR list \<Rightarrow> bool" where
  "wild_match up [] s = (s = [])"
| "wild_match up (x # xs) [] = (wild x \<and> x \<noteq> QM \<and> wild_match up xs [])"
| "wild_match up (x # xs) (c # cs) =
     (if x = STAR then wild_match up xs (c # cs) \<or> wild_match up (x # xs) cs
      else if x = DOS_STAR then
        wild_match up xs (c # cs) \<or> wild_match up xs cs \<or> (c \<noteq> DOT \<or> DOT \<in> set cs) \<and> wild_match up (x # xs) cs
      else if x = DOS_QM then
        if c = DOT then if xs = [] then cs = [] else wild_match up xs (c # cs) else wild_match up xs cs
      else if x = QM then wild_match up xs cs
      else if x = DOS_DOT then c = DOT \<and> wild_match up xs cs
      else x = up c \<and> wild_match up xs cs)"
  by pat_completeness auto
termination
  by (relation "measure (\<lambda>(_, xs, s). length xs + length s)") auto

lemma wild_match_star:
  "wild_match up (STAR # xs) s \<longleftrightarrow> (\<exists>k \<le> length s. wild_match up xs (drop k s))"
proof (induction s)
  case Nil
  then show ?case by (simp add: wild_def)
next
  case (Cons c cs)
  have "(\<exists>k \<le> length (c # cs). wild_match up xs (drop k (c # cs))) \<longleftrightarrow>
      wild_match up xs (c # cs) \<or> (\<exists>k \<le> length cs. wild_match up xs (drop k cs))"
    by (metis (no_types, lifting) Suc_le_mono bot_nat_0.extremum drop0 drop_Suc_Cons length_Cons not0_implies_Suc)
  with Cons show ?case by simp
qed

lemma wild_match_literal:
  "\<forall>x \<in> set xs. \<not> wild x \<Longrightarrow> wild_match up xs s \<longleftrightarrow> xs = map up s"
proof (induction xs arbitrary: s)
  case (Cons x xs)
  then have x: "x \<noteq> STAR" "x \<noteq> DOS_STAR" "x \<noteq> QM" "x \<noteq> DOS_QM" "x \<noteq> DOS_DOT" by (auto simp: wild_def)
  show ?case
  proof (cases s)
    case Nil
    then show ?thesis using Cons.prems by simp
  next
    case (Cons c cs)
    with Cons.IH [of cs] Cons.prems x show ?thesis by simp
  qed
qed auto

section \<open>The pushes of one pass over the expression\<close>

fun char_step :: "(WCHAR \<Rightarrow> WCHAR) \<Rightarrow> WCHAR \<Rightarrow> WCHAR list \<Rightarrow> WCHAR \<Rightarrow> nat list \<times> bool" where
  "char_step up c cs x =
     (if x = up c \<or> x = QM then ([4], False)
      else if x = STAR then ([0, 3], True)
      else if x = DOS_STAR then ((if c \<noteq> DOT \<or> DOT \<in> set cs then [0] else []) @ [3], True)
      else if x = DOS_DOT then (if c = DOT then [4] else [], False)
      else if x = DOS_QM then if c = DOT then ([], True) else ([4], False)
      else ([], False))"

fun end_step :: "WCHAR \<Rightarrow> nat list \<times> bool" where
  "end_step x =
     (if star x then ([0, 3], True) else if x = DOS_DOT \<or> x = DOS_QM then ([], True) else ([], False))"

fun chain :: "(WCHAR \<Rightarrow> nat list \<times> bool) \<Rightarrow> nat \<Rightarrow> WCHAR list \<Rightarrow> nat list" where
  "chain f p [] = [4 * p]"
| "chain f p (x # xs) = map ((+) (4 * p)) (fst (f x)) @ (if snd (f x) then chain f (p + 1) xs else [])"

definition good_step :: "(WCHAR \<Rightarrow> nat list \<times> bool) \<Rightarrow> bool" where
  "good_step f \<longleftrightarrow>
     (\<forall>x. f x \<in> {([4], False), ([], False), ([], True), ([3], True), ([0, 3], True)} \<and>
          (star x \<longrightarrow> snd (f x)) \<and> (3 \<in> set (fst (f x)) \<longrightarrow> star x))"

lemma good_end_step: "good_step end_step"
  by (auto simp: good_step_def star_def)

lemma good_char_step: "\<not> wild (up c) \<Longrightarrow> good_step (char_step up c cs)"
  by (auto simp: good_step_def star_def wild_def)

declare char_step.simps [simp del] end_step.simps [simp del]

text \<open>The character that a state is before of.\<close>

definition state_pos :: "nat \<Rightarrow> nat" where
  "state_pos v = (v + 1) div 4"

lemma state_pos_simps [simp]:
  "state_pos (4 * p) = p" "state_pos (4 * p + 3) = p + 1" "state_pos (4 * p + 4) = p + 1"
  by (simp_all add: state_pos_def)

lemma state_pos_mono: "v \<le> w \<Longrightarrow> state_pos v \<le> state_pos w"
  by (simp add: state_pos_def div_le_mono)

definition valid_state :: "WCHAR list \<Rightarrow> nat \<Rightarrow> bool" where
  "valid_state e v \<longleftrightarrow>
     (\<exists>i \<le> length e. v = 4 * i) \<or> (\<exists>i < length e. v = 4 * i + 3 \<and> star (e ! i))"

lemma valid_state_pos: "valid_state e v \<Longrightarrow> v \<le> 4 * state_pos v \<and> state_pos v \<le> length e \<and> v \<le> 4 * length e"
  by (auto simp: valid_state_def)

lemma good_step_cases:
  assumes "good_step f"
  obtains "f x = ([4], False)" "\<not> star x" | "f x = ([], False)" "\<not> star x" | "f x = ([], True)"
  | "f x = ([3], True)" "star x" | "f x = ([0, 3], True)" "star x"
  using assms unfolding good_step_def by (metis (no_types, lifting) fst_conv insertE list.set_intros(1) list.set_intros(2) singletonD snd_conv)

lemma chain_ge: "good_step f \<Longrightarrow> v \<in> set (chain f p xs) \<Longrightarrow> 4 * p \<le> v"
proof (induction xs arbitrary: p)
  case (Cons x xs)
  then show ?case using Cons.IH [of "Suc p"] by (auto split: if_splits)
qed simp

lemma chain_sorted: "good_step f \<Longrightarrow> sorted (chain f p xs)"
proof (induction xs arbitrary: p)
  case (Cons x xs)
  have ge: "4 * p + 4 \<le> v" if "v \<in> set (chain f (Suc p) xs)" for v
    using chain_ge [OF Cons.prems that] by simp
  from Cons.prems show ?case
    by (rule good_step_cases [of f x]) (use Cons.IH [OF Cons.prems, of "Suc p"] ge in \<open>force simp: sorted_append\<close>)+
qed simp

lemma chain_le: "good_step f \<Longrightarrow> v \<in> set (chain f p xs) \<Longrightarrow> v \<le> 4 * (p + length xs)"
proof (induction xs arbitrary: p)
  case (Cons x xs)
  from Cons.prems(1) show ?case
    by (rule good_step_cases [of f x]) (use Cons.prems(2) Cons.IH [OF Cons.prems(1), of "Suc p"] in auto)
qed simp

lemma chain_valid:
  assumes f: "good_step f" and v: "v \<in> set (chain f (length pre) xs)"
  shows "valid_state (pre @ xs) v"
  using v
proof (induction xs arbitrary: pre)
  case (Cons x xs)
  have "(pre @ x # xs) ! length pre = x" by simp
  then have here: "valid_state (pre @ x # xs) (4 * length pre)" "valid_state (pre @ x # xs) (4 * length pre + 4)"
    "star x \<Longrightarrow> valid_state (pre @ x # xs) (4 * length pre + 3)"
    by (auto simp: valid_state_def intro: exI [of _ "Suc (length pre)"])
  have rest: "v \<in> set (chain f (Suc (length pre)) xs) \<Longrightarrow> valid_state (pre @ x # xs) v"
    using Cons.IH [of "pre @ [x]"] by simp
  from f show ?case
    by (rule good_step_cases [of f x]) (use Cons.prems here rest in auto)
qed (auto simp: valid_state_def)

lemma chain_length:
  assumes f: "good_step f" and ne: "chain f p xs \<noteq> []"
  shows "length (chain f p xs) + 2 * p \<le> 2 * state_pos (last (chain f p xs)) \<or>
    last (chain f p xs) = 4 * (p + length xs) \<and> length (chain f p xs) \<le> 2 * length xs + 1"
  using ne
proof (induction xs arbitrary: p)
  case (Cons x xs)
  show ?case
  proof (cases "snd (f x) \<and> chain f (Suc p) xs \<noteq> []")
    case True
    have "length (fst (f x)) \<le> 2" by (rule good_step_cases [OF f, of x]) auto
    with True Cons.IH [of "Suc p"] show ?thesis by auto
  next
    case False
    from f show ?thesis
      by (rule good_step_cases [of f x]) (use Cons.prems False in auto)
  qed
qed simp

lemma chain_end:
  assumes f: "good_step f" and xs: "xs \<noteq> []" and v: "4 * (p + length xs) - 1 \<in> set (chain f p xs)"
  shows "4 * (p + length xs) \<in> set (chain f p xs)"
  using xs v
proof (induction xs arbitrary: p)
  case (Cons x xs)
  show ?case
  proof (cases "xs = []")
    case True
    from f show ?thesis
      by (rule good_step_cases [of f x]) (use Cons.prems True in auto)
  next
    case False
    then have "4 * (p + length (x # xs)) - 1 \<ge> 4 * p + 7" by (cases xs) auto
    then have "4 * (p + length (x # xs)) - 1 \<notin> set (map ((+) (4 * p)) (fst (f x)))"
      by (cases rule: good_step_cases [OF f, of x, case_names a b c d e]) auto
    with Cons.prems Cons.IH [of "Suc p"] False show ?thesis by (auto split: if_splits)
  qed
qed simp

lemma chain_covers:
  assumes f: "good_step f" and w: "valid_state (pre @ xs) w" "length pre \<le> state_pos w"
    "chain f (length pre) xs \<noteq> []" "w < last (chain f (length pre) xs)" "state_pos w < length pre + length xs"
  shows "set (chain f (state_pos w) (drop (state_pos w) (pre @ xs))) \<subseteq> set (chain f (length pre) xs)"
  using w
proof (induction xs arbitrary: pre)
  case (Cons x xs)
  show ?case
  proof (cases "state_pos w = length pre")
    case False
    with Cons.prems have pos: "Suc (length pre) \<le> state_pos w" by simp
    have ge: "4 * length pre + 3 \<le> w" using pos by (simp add: state_pos_def)
    have nostar: "w \<noteq> 4 * length pre + 3" if "\<not> star x"
    proof
      assume "w = 4 * length pre + 3"
      with Cons.prems(1) that show False
        by (auto simp: valid_state_def nth_append) presburger
    qed
    have on: "snd (f x)" "chain f (Suc (length pre)) xs \<noteq> []"
      by (rule good_step_cases [OF f, of x]; use Cons.prems(3,4) ge nostar in \<open>auto split: if_splits\<close>)+
    then show ?thesis using Cons.IH [of "pre @ [x]"] Cons.prems pos by auto
  qed (use Cons.prems in simp)
qed simp

section \<open>One pass, semantically\<close>

lemma wild_match_skip_star: "star x \<Longrightarrow> wild_match up xs s \<Longrightarrow> wild_match up (x # xs) s"
  by (cases s) (auto simp: star_def wild_def)

lemma chain_match:
  assumes c: "\<not> wild (up c)" and xs: "xs \<noteq> []"
  shows "wild_match up xs (c # cs) \<longleftrightarrow>
    (\<exists>v \<in> set (chain (char_step up c cs) p xs). wild_match up (drop (state_pos v - p) xs) cs)"
  using xs
proof (induction xs arbitrary: p)
  case (Cons x xs)
  let ?f = "char_step up c cs"
  have rest: "(\<exists>v \<in> set (chain ?f (Suc p) xs). wild_match up (drop (state_pos v - p) (x # xs)) cs) \<longleftrightarrow>
      (if xs = [] then cs = [] else wild_match up xs (c # cs))"
  proof -
    have "state_pos v - p = Suc (state_pos v - Suc p)" if "v \<in> set (chain ?f (Suc p) xs)" for v
      using state_pos_mono [OF chain_ge [OF good_char_step [of up c cs, OF c] that]]
      unfolding state_pos_simps by simp
    then have "(\<exists>v \<in> set (chain ?f (Suc p) xs). wild_match up (drop (state_pos v - p) (x # xs)) cs) \<longleftrightarrow>
        (\<exists>v \<in> set (chain ?f (Suc p) xs). wild_match up (drop (state_pos v - Suc p) xs) cs)" by simp
    with Cons.IH [of "Suc p"] show ?thesis by (cases "xs = []") auto
  qed
  have pos: "state_pos (4 * p) - p = 0" "state_pos (4 * p + 3) - p = 1" "state_pos (4 * p + 4) - p = 1" by simp_all
  have "(\<exists>v \<in> set (chain ?f p (x # xs)). P v) \<longleftrightarrow>
      (\<exists>k \<in> set (fst (?f x)). P (4 * p + k)) \<or> snd (?f x) \<and> (\<exists>v \<in> set (chain ?f (Suc p) xs). P v)" for P
    by auto
  note split = this [of "\<lambda>v. wild_match up (drop (state_pos v - p) (x # xs)) cs", unfolded rest]
  note simps = char_step.simps pos
  have "wild_match up (x # xs) (c # cs) \<longleftrightarrow>
      (\<exists>k \<in> set (fst (?f x)). wild_match up (drop (state_pos (4 * p + k) - p) (x # xs)) cs) \<or>
      snd (?f x) \<and> (if xs = [] then cs = [] else wild_match up xs (c # cs))"
  proof (cases "wild x")
    case False
    then have "x \<noteq> STAR" "x \<noteq> DOS_STAR" "x \<noteq> QM" "x \<noteq> DOS_QM" "x \<noteq> DOS_DOT" by (auto simp: wild_def)
    then show ?thesis by (simp add: simps del: state_pos_simps)
  next
    case True
    with c have up: "x \<noteq> up c" by blast
    from True consider "x = STAR" | "x = DOS_STAR" | "x = QM" | "x = DOS_QM" | "x = DOS_DOT" by (auto simp: wild_def)
    then show ?thesis
    proof cases
      case 1
      with up wild_match_skip_star [of x up xs cs] show ?thesis
        by (auto simp add: simps star_def simp del: state_pos_simps)
    next
      case 2
      with up wild_match_skip_star [of x up xs cs] show ?thesis
        by (auto simp add: simps star_def simp del: state_pos_simps)
    qed (use up in \<open>simp_all add: simps del: state_pos_simps\<close>)
  qed
  then show ?case unfolding split .
qed simp

lemma chain_match_end:
  "xs \<noteq> [] \<Longrightarrow> 4 * (p + length xs) \<in> set (chain end_step p xs) \<longleftrightarrow> wild_match up xs []"
proof (induction xs arbitrary: p)
  case (Cons x xs)
  then show ?case using Cons.IH [of "Suc p"] by (cases "xs = []") (auto simp: end_step.simps wild_def star_def)
qed simp

end
