(* ===== verification/Fs_Name_Correct.thy ===== *)
theory Fs_Name_Correct
  imports Fs_Match
begin

text \<open>
  The loops of the matching routine: one pass over the expression, over the old states, and over the name.
\<close>

section \<open>The loop over the expression\<close>

definition room :: "nat \<Rightarrow> backtracking \<Rightarrow> bool" where
  "room n b \<longleftrightarrow> BackTrackingBufferSize b = (if AllocatedBuffer b then 2 * n + 1 else 16)"

lemma grow_room:
  assumes "room n b" "unat (Length Expression) = 2 * n" "p < n" "length (BackTracking b) \<le> 2 * p"
  obtains b' where "grow True Expression b = Goes b'" "BackTracking b' = BackTracking b" "room n b'"
    "length (BackTracking b) + 3 \<le> BackTrackingBufferSize b'"
proof (cases "length (BackTracking b) + 3 \<le> BackTrackingBufferSize b")
  case True
  then have "grow True Expression b = Goes b" by (simp add: grow_def)
  with True assms(1) show thesis by (intro that [of b]) auto
next
  case False
  with assms have "\<not> AllocatedBuffer b" "length (BackTracking b) > BackTrackingBufferSize b - 3" "8 \<le> n"
    by (auto simp: room_def split: if_splits)
  with assms(2) have "grow True Expression b = Goes (b\<lparr>BackTrackingBufferSize := 2 * n + 1, AllocatedBuffer := True\<rparr>)"
    by (simp add: grow_def Let_def)
  with assms(3,4) show thesis by (elim that) (auto simp: room_def)
qed

lemma push_all_room:
  "length (BackTracking b) + length vs \<le> BackTrackingBufferSize b \<Longrightarrow> \<forall>v \<in> set vs. v < 65536 \<Longrightarrow>
   push_all vs b = Goes (b\<lparr>BackTracking := BackTracking b @ vs\<rparr>)"
  by (induction vs arbitrary: b) auto

text \<open>\<open>f\<close> gives the pushes of each character of the expression.\<close>

definition steps_of ::
  "UNICODE_STRING \<Rightarrow> UNICODE_STRING \<Rightarrow> (WCHAR \<Rightarrow> WCHAR) option \<Rightarrow> bool \<Rightarrow> nat \<Rightarrow> (WCHAR \<Rightarrow> nat list \<times> bool) \<Rightarrow> bool" where
  "steps_of Expression Name T EndOfName NamePosition f \<longleftrightarrow>
     good_step f \<and> wf_string Expression \<and> unat (Length Expression) < 32768 \<and>
     (\<forall>i < count Expression. match_char Expression Name T EndOfName NamePosition (2 * i) =
        (map ((+) (4 * i)) (fst (f (chars Expression ! i))), snd (f (chars Expression ! i))))"

lemma wf_string_Length:
  "wf_string s \<Longrightarrow> unat (Length s) = 2 * count s" "wf_string s \<Longrightarrow> length (chars s) = count s"
  by (auto simp: wf_string_def count_def chars_def)

lemma expression_loop_chain:
  assumes steps: "steps_of Expression Name T EndOfName NamePosition f"
    and p: "p \<le> count Expression" "q < 2 * count Expression" "q + Offset = 2 * p"
    and b: "room (count Expression) b" "length (BackTracking b) \<le> 2 * p"
      "p = count Expression \<Longrightarrow> length (BackTracking b) < BackTrackingBufferSize b"
  shows "\<exists>b'. expression_loop True Expression Name T EndOfName NamePosition Offset q b = Goes b' \<and>
    BackTracking b' = BackTracking b @ chain f p (drop p (chars Expression)) \<and> room (count Expression) b'"
  using p b
proof (induction "count Expression - p" arbitrary: p q Offset b)
  case 0
  note Len = wf_string_Length [of Expression]
  have "count Expression < 16384" "4 * count Expression < 65536" "drop p (chars Expression) = []" "p = count Expression"
    using steps Len 0 by (auto simp: steps_of_def)
  with 0 steps Len show ?case
    by (auto simp: steps_of_def room_def expression_loop.simps [of _ _ _ _ _ _ _ q])
next
  case (Suc k)
  let ?x = "chars Expression ! p"
  have wf: "wf_string Expression" and f: "good_step f" and len: "unat (Length Expression) < 32768"
    and mc: "match_char Expression Name T EndOfName NamePosition (2 * p) = (map ((+) (4 * p)) (fst (f ?x)), snd (f ?x))"
    using steps Suc.hyps(2) by (auto simp: steps_of_def)
  note Len = wf_string_Length [OF wf]
  have p: "p < count Expression" using Suc.hyps(2) by simp
  have drop: "drop p (chars Expression) = ?x # drop (Suc p) (chars Expression)"
    using p Len by (simp add: Cons_nth_drop_Suc)
  obtain b1 where g: "grow True Expression b = Goes b1" "BackTracking b1 = BackTracking b" "room (count Expression) b1"
    "length (BackTracking b) + 3 \<le> BackTrackingBufferSize b1"
    by (rule grow_room [OF Suc.prems(4) Len(1) p Suc.prems(5)])
  have fx: "length (fst (f ?x)) \<le> 2" "\<forall>v \<in> set (fst (f ?x)). v \<le> 4"
    by (rule good_step_cases [OF f, of ?x]; simp)+
  define b2 where "b2 = b1\<lparr>BackTracking := BackTracking b @ map ((+) (4 * p)) (fst (f ?x))\<rparr>"
  have "\<forall>v \<in> set (fst (f ?x)). 4 * p + v < 65536" using fx(2) p len Len(1) by fastforce
  then have push: "push_all (map ((+) (4 * p)) (fst (f ?x))) b1 = Goes b2"
    using push_all_room [of b1 "map ((+) (4 * p)) (fst (f ?x))"] g fx(1) by (simp add: b2_def)
  have eq: "expression_loop True Expression Name T EndOfName NamePosition Offset q b =
      (if snd (f ?x) then expression_loop True Expression Name T EndOfName NamePosition 2 (2 * p) b2 else Goes b2)"
    using Suc.prems(2,3) p Len(1) g(1) mc push by (subst expression_loop.simps) simp
  have b2: "room (count Expression) b2" "length (BackTracking b2) \<le> 2 * Suc p"
    "length (BackTracking b2) < BackTrackingBufferSize b2"
    using g fx(1) Suc.prems(5) by (auto simp: b2_def room_def)
  have BT: "BackTracking b2 = BackTracking b @ map ((+) (4 * p)) (fst (f ?x))" by (simp add: b2_def)
  show ?case
  proof (cases "snd (f ?x)")
    case True
    have "\<exists>b'. expression_loop True Expression Name T EndOfName NamePosition 2 (2 * p) b2 = Goes b' \<and>
        BackTracking b' = BackTracking b2 @ chain f (Suc p) (drop (Suc p) (chars Expression)) \<and> room (count Expression) b'"
      using Suc.hyps(2) p b2 by (intro Suc.hyps(1)) auto
    with True eq BT drop show ?thesis by auto
  next
    case False
    with eq BT drop b2 show ?thesis by auto
  qed
qed

section \<open>The loop over the old states\<close>

lemma dropWhile_less_less:
  "(v :: nat) \<le> w \<Longrightarrow> dropWhile (\<lambda>x. w > x) (dropWhile (\<lambda>x. v > x) xs) = dropWhile (\<lambda>x. w > x) xs"
  by (induction xs) auto

lemma skip_olds_sorted:
  "sorted news \<Longrightarrow> skip_olds news olds = (if news = [] then olds else dropWhile (\<lambda>old. last news > old) olds)"
proof (induction news arbitrary: olds)
  case (Cons v news)
  have "skip_olds (v # news) olds = skip_olds news (dropWhile (\<lambda>old. v > old) olds)" by (simp add: skip_olds_def)
  with Cons show ?case by (auto simp: dropWhile_less_less)
qed (simp add: skip_olds_def)

definition states_ok :: "WCHAR list \<Rightarrow> nat list \<Rightarrow> bool" where
  "states_ok e vs \<longleftrightarrow>
     sorted vs \<and> (\<forall>v \<in> set vs. valid_state e v) \<and> (4 * length e - 1 \<in> set vs \<longrightarrow> 4 * length e \<in> set vs)"

text \<open>The bound on the number of entries that keeps the arrays from overflowing.\<close>

definition few_states :: "nat \<Rightarrow> nat list \<Rightarrow> bool" where
  "few_states n vs \<longleftrightarrow>
     vs = [] \<or> length vs \<le> 2 * state_pos (last vs) \<or> last vs = 4 * n \<and> length vs \<le> 2 * n + 1"

lemma few_states_before:
  assumes "few_states n vs" "vs = [] \<or> last vs \<le> v" "state_pos v < n"
  shows "length vs \<le> 2 * state_pos v"
proof (cases "vs = []")
  case False
  with assms(2) have "state_pos (last vs) \<le> state_pos v" using state_pos_mono by blast
  with assms False show ?thesis by (auto simp: few_states_def)
qed simp

lemma states_append_chain:
  assumes f: "good_step f" and vs: "states_ok e vs" "few_states (length e) vs" "vs = [] \<or> last vs \<le> v"
    and v: "valid_state e v" "state_pos v < length e"
  defines "C \<equiv> chain f (state_pos v) (drop (state_pos v) e)"
  shows "states_ok e (vs @ C)" "few_states (length e) (vs @ C)"
proof -
  let ?p = "state_pos v"
  have e: "take ?p e @ drop ?p e = e" "length (take ?p e) = ?p" "drop ?p e \<noteq> []" "?p + length (drop ?p e) = length e"
    using v(2) by auto
  have valid: "\<forall>w \<in> set C. valid_state e w"
    using chain_valid [OF f, of _ "take ?p e" "drop ?p e"] e by (simp add: C_def)
  have "x \<le> y" if "x \<in> set vs" "y \<in> set C" for x y
  proof -
    have "x \<le> last vs" using that(1) vs(1) by (cases vs rule: rev_cases) (auto simp: states_ok_def sorted_append)
    also have "\<dots> \<le> v" using vs(3) that(1) by auto
    also have "\<dots> \<le> 4 * ?p" using valid_state_pos [OF v(1)] by simp
    also have "\<dots> \<le> y" using chain_ge [OF f that(2) [unfolded C_def]] .
    finally show ?thesis .
  qed
  then have "sorted (vs @ C)" using vs(1) chain_sorted [OF f] by (simp add: states_ok_def sorted_append C_def)
  moreover have "4 * length e - 1 \<in> set C \<longrightarrow> 4 * length e \<in> set C"
    using chain_end [OF f e(3), of ?p] unfolding e(4) C_def by blast
  ultimately show "states_ok e (vs @ C)" using vs(1) valid by (auto simp: states_ok_def)
  have len: "length vs \<le> 2 * ?p" by (rule few_states_before [OF vs(2,3) v(2)])
  show "few_states (length e) (vs @ C)"
  proof (cases "C = []")
    case False
    with chain_length [OF f, of ?p "drop ?p e"] len e(4) show ?thesis unfolding few_states_def C_def by auto
  qed (use vs(2) in simp)
qed

lemma state_pos_bytes: "valid_state e v \<Longrightarrow> (v + 1) div 2 = 2 * state_pos v"
  by (auto simp: valid_state_def)

abbreviation (input) chain_at :: "(WCHAR \<Rightarrow> nat list \<times> bool) \<Rightarrow> WCHAR list \<Rightarrow> nat \<Rightarrow> nat set" where
  "chain_at f e v \<equiv> if state_pos v < length e then set (chain f (state_pos v) (drop (state_pos v) e)) else {}"

lemma skipped_covered:
  assumes f: "good_step f" and v: "valid_state e v" "state_pos v < length e"
    and w: "valid_state e w" "v \<le> w" "chain f (state_pos v) (drop (state_pos v) e) \<noteq> []"
      "w < last (chain f (state_pos v) (drop (state_pos v) e))"
  shows "chain_at f e w \<subseteq> chain_at f e v"
  using chain_covers [OF f, of "take (state_pos v) e" "drop (state_pos v) e" w] v w state_pos_mono [OF w(2)] by auto

lemma sorted_above: "sorted vs \<Longrightarrow> w \<in> set (dropWhile (\<lambda>old. m > old) vs) \<Longrightarrow> m \<le> (w :: nat)"
  by (induction vs) (auto split: if_splits)

lemma skipped_below: "w \<in> set vs \<Longrightarrow> w \<notin> set (dropWhile (\<lambda>old. m > old) vs) \<Longrightarrow> (w :: nat) < m"
  by (induction vs) (auto split: if_splits)

lemma union_covered:
  "S' \<subseteq> S \<Longrightarrow> (\<And>w. w \<in> S \<Longrightarrow> w \<notin> S' \<Longrightarrow> A w \<subseteq> C) \<Longrightarrow> (\<Union>w \<in> S'. A w) \<union> C = (\<Union>w \<in> S. A w) \<union> C"
  by blast

lemma expression_loop_at:
  assumes steps: "steps_of Expression Name T EndOfName NamePosition f"
    and b: "room (count Expression) b" "few_states (count Expression) (BackTracking b)"
      "BackTracking b = [] \<or> last (BackTracking b) \<le> v"
    and v: "valid_state (chars Expression) v"
  obtains b' where "expression_loop True Expression Name T EndOfName NamePosition 0 ((v + 1) div 2) b = Goes b'"
    "BackTracking b' = BackTracking b @ (if state_pos v < count Expression
       then chain f (state_pos v) (drop (state_pos v) (chars Expression)) else [])"
    "room (count Expression) b'"
proof (cases "state_pos v < count Expression")
  case True
  with expression_loop_chain [OF steps, of "state_pos v" "2 * state_pos v" 0 b] b few_states_before [OF b(2,3) True]
  obtain b' where "expression_loop True Expression Name T EndOfName NamePosition 0 (2 * state_pos v) b = Goes b'"
    "BackTracking b' = BackTracking b @ chain f (state_pos v) (drop (state_pos v) (chars Expression))"
    "room (count Expression) b'" by auto
  with True show thesis using that unfolding state_pos_bytes [OF v] by auto
next
  case False
  have "unat (Length Expression) = 2 * count Expression" using steps by (simp add: steps_of_def wf_string_Length)
  with False have "expression_loop True Expression Name T EndOfName NamePosition 0 ((v + 1) div 2) b = Goes b"
    unfolding state_pos_bytes [OF v] by (subst expression_loop.simps) simp
  with False b show thesis by (intro that) auto
qed

lemma states_loop_chain:
  assumes steps: "steps_of Expression Name T EndOfName NamePosition f"
    and b: "room (count Expression) b" "few_states (count Expression) (BackTracking b)"
      "states_ok (chars Expression) (BackTracking b)"
    and olds: "sorted olds" "\<forall>v \<in> set olds. valid_state (chars Expression) v"
      "BackTracking b = [] \<or> (\<forall>v \<in> set olds. last (BackTracking b) \<le> v)"
  shows "\<exists>b'. states_loop True Expression Name T EndOfName NamePosition olds b = Goes b' \<and>
    room (count Expression) b' \<and> states_ok (chars Expression) (BackTracking b') \<and>
    set (BackTracking b') = set (BackTracking b) \<union> (\<Union>v \<in> set olds. chain_at f (chars Expression) v)"
  using b olds
proof (induction "length olds" arbitrary: olds b rule: less_induct)
  case less
  let ?e = "chars Expression"
  have f: "good_step f" and n: "length ?e = count Expression"
    using steps by (auto simp: steps_of_def wf_string_Length)
  show ?case
  proof (cases olds)
    case Nil
    with less.prems show ?thesis by auto
  next
    case (Cons v vs)
    let ?C = "if state_pos v < count Expression then chain f (state_pos v) (drop (state_pos v) ?e) else []"
    have v: "valid_state ?e v" "BackTracking b = [] \<or> last (BackTracking b) \<le> v" using less.prems Cons by auto
    obtain b1 where b1: "expression_loop True Expression Name T EndOfName NamePosition 0 ((v + 1) div 2) b = Goes b1"
      "BackTracking b1 = BackTracking b @ ?C" "room (count Expression) b1"
      by (rule expression_loop_at [OF steps less.prems(1,2) v(2,1)])
    have ok1: "states_ok ?e (BackTracking b1)" "few_states (count Expression) (BackTracking b1)"
      using states_append_chain [OF f less.prems(3) _ v(2,1)] less.prems(2,3) b1(2) n by (auto split: if_splits)
    let ?vs = "skip_olds (BackTracking b1) vs"
    have vs: "?vs = (if BackTracking b1 = [] then vs else dropWhile (\<lambda>old. last (BackTracking b1) > old) vs)"
      using ok1(1) by (simp add: skip_olds_sorted states_ok_def)
    have sub: "set ?vs \<subseteq> set vs" using vs set_dropWhileD by (auto split: if_splits)
    have sorted: "sorted ?vs" using less.prems(4) Cons vs sorted_dropWhile by (auto split: if_splits)
    have above: "BackTracking b1 = [] \<or> (\<forall>w \<in> set ?vs. last (BackTracking b1) \<le> w)"
      using sorted_above [of vs _ "last (BackTracking b1)"] less.prems(4) Cons vs by auto
    have skipped: "chain_at f ?e w \<subseteq> set ?C" if w: "w \<in> set vs" "w \<notin> set ?vs" for w
    proof -
      from w vs have "BackTracking b1 \<noteq> []" "w < last (BackTracking b1)"
        using skipped_below [of w vs "last (BackTracking b1)"] by (auto split: if_splits)
      moreover have "BackTracking b = [] \<or> last (BackTracking b) \<le> w" using less.prems(6) Cons w by auto
      ultimately have C: "?C \<noteq> []" "w < last ?C" unfolding b1(2) by (cases "?C = []"; simp)+
      then have lt: "state_pos v < length ?e" unfolding n by (auto split: if_splits)
      have "v \<le> w" "valid_state ?e w" using less.prems(4,5) Cons w by auto
      then show ?thesis using skipped_covered [OF f v(1) lt, of w] C lt by (simp add: n)
    qed
    have "length ?vs < length olds" using skip_olds_length [of "BackTracking b1" vs] Cons by simp
    then obtain b' where b': "states_loop True Expression Name T EndOfName NamePosition ?vs b1 = Goes b'"
      "room (count Expression) b'" "states_ok ?e (BackTracking b')"
      "set (BackTracking b') = set (BackTracking b1) \<union> (\<Union>v \<in> set ?vs. chain_at f ?e v)"
      using less.hyps [of ?vs b1] b1(3) ok1 sorted above sub less.prems(5) Cons by auto
    have "(\<Union>w \<in> set ?vs. chain_at f ?e w) \<union> set ?C = (\<Union>w \<in> set vs. chain_at f ?e w) \<union> set ?C"
      by (rule union_covered [OF sub skipped])
    moreover have "set (BackTracking b1) = set (BackTracking b) \<union> set ?C" by (simp add: b1(2))
    moreover have "set ?C = chain_at f ?e v" by (simp add: n)
    ultimately have "set (BackTracking b') = set (BackTracking b) \<union> (\<Union>v \<in> set olds. chain_at f ?e v)"
      unfolding b'(4) Cons by auto
    with b' b1(1) Cons show ?thesis by auto
  qed
qed

section \<open>The loop over the name\<close>

definition upcase_of :: "(WCHAR \<Rightarrow> WCHAR) option \<Rightarrow> WCHAR \<Rightarrow> WCHAR" where
  "upcase_of T = (case T of None \<Rightarrow> (\<lambda>c. c) | Some f \<Rightarrow> f)"

definition expression_ok :: "UNICODE_STRING \<Rightarrow> bool" where
  "expression_ok Expression \<longleftrightarrow> wf_string Expression \<and> unat (Length Expression) < 32768"

definition name_ok :: "(WCHAR \<Rightarrow> WCHAR) \<Rightarrow> UNICODE_STRING \<Rightarrow> bool" where
  "name_ok up Name \<longleftrightarrow> wf_string Name \<and> (\<forall>c \<in> set (chars Name). \<not> wild (up c))"

lemma chars_nth: "wf_string s \<Longrightarrow> i < count s \<Longrightarrow> Buffer s ! i = chars s ! i"
  by (simp add: wf_string_def chars_def)

lemma steps_of_char:
  assumes "expression_ok Expression" "name_ok (upcase_of T) Name" "NamePosition < count Name"
  shows "steps_of Expression Name T False NamePosition
    (char_step (upcase_of T) (chars Name ! NamePosition) (drop (NamePosition + 1) (chars Name)))"
proof -
  have "chars Name ! NamePosition \<in> set (chars Name)"
    using assms(2,3) by (auto simp: name_ok_def wf_string_Length)
  then have "good_step (char_step (upcase_of T) (chars Name ! NamePosition) (drop (NamePosition + 1) (chars Name)))"
    using assms(2) by (intro good_char_step) (auto simp: name_ok_def)
  moreover have "match_char Expression Name T False NamePosition (2 * i) =
      (map ((+) (4 * i)) (fst (char_step (upcase_of T) c cs x)), snd (char_step (upcase_of T) c cs x))"
    if "i < count Expression" and "x = chars Expression ! i" and "c = chars Name ! NamePosition"
      and "cs = drop (NamePosition + 1) (chars Name)" for i x c cs
  proof -
    have "Buffer Expression ! i = x" "Buffer Name ! NamePosition = c" "\<not> count Name \<le> NamePosition"
      using assms that by (auto simp: expression_ok_def name_ok_def chars_nth)
    moreover have "(case T of None \<Rightarrow> c | Some f \<Rightarrow> f c) = upcase_of T c" by (simp add: upcase_of_def split: option.split)
    ultimately show ?thesis unfolding match_char_def char_step.simps that(4) [symmetric] by simp
  qed
  ultimately show ?thesis using assms by (simp add: steps_of_def expression_ok_def)
qed

lemma steps_of_end: "expression_ok Expression \<Longrightarrow> steps_of Expression Name T True NamePosition end_step"
  by (auto simp: steps_of_def expression_ok_def good_end_step match_char_def chars_nth end_step.simps star_def Let_def)

lemma last_state: "states_ok e vs \<Longrightarrow> vs \<noteq> [] \<and> last vs = 4 * length e \<longleftrightarrow> 4 * length e \<in> set vs"
proof (cases vs rule: rev_cases)
  case (snoc us v)
  assume ok: "states_ok e vs"
  then have "v \<le> 4 * length e" using valid_state_pos snoc by (auto simp: states_ok_def)
  with ok snoc show ?thesis by (auto simp: states_ok_def sorted_append)
qed simp

definition accepts :: "(WCHAR \<Rightarrow> WCHAR) \<Rightarrow> WCHAR list \<Rightarrow> nat list \<Rightarrow> WCHAR list \<Rightarrow> bool" where
  "accepts up e vs s \<longleftrightarrow> (\<exists>v \<in> set vs. wild_match up (drop (state_pos v) e) s)"

lemma accepts_step:
  assumes c: "\<not> wild (up c)" and ok: "states_ok e olds"
    and news: "set news = (\<Union>v \<in> set olds. chain_at (char_step up c cs) e v)"
  shows "accepts up e olds (c # cs) \<longleftrightarrow> accepts up e news cs"
proof -
  have "wild_match up (drop (state_pos v) e) (c # cs) \<longleftrightarrow>
      (\<exists>w \<in> chain_at (char_step up c cs) e v. wild_match up (drop (state_pos w) e) cs)" for v
  proof (cases "state_pos v < length e")
    case True
    have "drop (state_pos w - state_pos v) (drop (state_pos v) e) = drop (state_pos w) e"
      if "w \<in> set (chain (char_step up c cs) (state_pos v) (drop (state_pos v) e))" for w
      using state_pos_mono [OF chain_ge [OF good_char_step [of up c cs, OF c] that]] unfolding state_pos_simps by simp
    with True chain_match [of up c "drop (state_pos v) e" cs "state_pos v", OF c] show ?thesis by auto
  qed simp
  then show ?thesis unfolding accepts_def news by auto
qed

lemma accepts_end:
  assumes ok: "states_ok e olds" "4 * length e \<notin> set olds"
    and news: "set news = (\<Union>v \<in> set olds. chain_at end_step e v)"
  shows "accepts up e olds [] \<longleftrightarrow> 4 * length e \<in> set news"
proof -
  have "wild_match up (drop (state_pos v) e) [] \<longleftrightarrow> 4 * length e \<in> chain_at end_step e v" if v: "v \<in> set olds" for v
  proof -
    have "state_pos v < length e"
    proof (rule ccontr)
      assume "\<not> state_pos v < length e"
      then have "v = 4 * length e \<or> v = 4 * length e - 1"
        using v ok(1) by (auto simp: states_ok_def valid_state_def)
      with v ok show False by (auto simp: states_ok_def)
    qed
    with chain_match_end [of "drop (state_pos v) e" "state_pos v" up] show ?thesis by auto
  qed
  then show ?thesis unfolding accepts_def news by blast
qed

lemma name_loop_accepts:
  assumes E: "expression_ok Expression" and N: "name_ok (upcase_of T) Name"
    and b: "room (count Expression) b" "BackTracking b = []" and olds: "states_ok (chars Expression) olds"
    and le: "NamePosition \<le> count Name"
  shows "\<exists>out. name_loop True Expression Name T NamePosition olds b = Goes out \<and>
    (out \<noteq> [] \<and> last out = unat (Length Expression) * 2 \<longleftrightarrow>
     accepts (upcase_of T) (chars Expression) olds (drop NamePosition (chars Name)))"
  using b olds le
proof (induction "count Name - NamePosition" arbitrary: NamePosition olds b)
  let ?e = "chars Expression" and ?up = "upcase_of T"
  have len: "unat (Length Expression) * 2 = 4 * length ?e" "length ?e = count Expression" "length (chars Name) = count Name"
    using E N by (auto simp: expression_ok_def name_ok_def wf_string_Length)
  {
    case (0 NamePosition olds b)
    have s: "drop NamePosition (chars Name) = []" using 0 len by simp
    show ?case
    proof (cases "4 * length ?e \<in> set olds")
      case True
      then have "accepts ?up ?e olds []" by (auto simp: accepts_def intro!: bexI [of _ "4 * length ?e"])
      with True last_state [OF 0(4)] 0 s show ?thesis by (auto simp: name_loop.simps [of _ _ _ _ NamePosition] len(1))
    next
      case False
      obtain b' where b': "states_loop True Expression Name T True NamePosition olds b = Goes b'"
        "states_ok ?e (BackTracking b')" "set (BackTracking b') = (\<Union>v \<in> set olds. chain_at end_step ?e v)"
        using states_loop_chain [OF steps_of_end [OF E], of b olds Name T NamePosition] 0
        by (auto simp: states_ok_def few_states_def)
      have "\<not> (olds \<noteq> [] \<and> last olds = 4 * length ?e)" using last_state [OF 0(4)] False by blast
      with b'(1) 0 have "name_loop True Expression Name T NamePosition olds b = Goes (BackTracking b')"
        by (auto simp: name_loop.simps [of _ _ _ _ NamePosition] len(1))
      with last_state [OF b'(2)] accepts_end [OF 0(4) False b'(3), of ?up] s len(1) show ?thesis by auto
    qed
  next
    case (Suc k NamePosition olds b)
    let ?c = "chars Name ! NamePosition" and ?cs = "drop (NamePosition + 1) (chars Name)"
    have lt: "NamePosition < count Name" using Suc(2) by simp
    have s: "drop NamePosition (chars Name) = ?c # ?cs" using lt len by (simp add: Cons_nth_drop_Suc)
    have c: "\<not> wild (?up ?c)" using N lt len by (auto simp: name_ok_def)
    obtain b' where b': "states_loop True Expression Name T False NamePosition olds b = Goes b'"
      "room (count Expression) b'" "states_ok ?e (BackTracking b')"
      "set (BackTracking b') = (\<Union>v \<in> set olds. chain_at (char_step ?up ?c ?cs) ?e v)"
      using states_loop_chain [OF steps_of_char [OF E N lt], of b olds] Suc.prems by (auto simp: states_ok_def few_states_def)
    have "name_loop True Expression Name T NamePosition olds b =
        name_loop True Expression Name T (NamePosition + 1) (BackTracking b') (b'\<lparr>BackTracking := []\<rparr>)"
      using b'(1) lt by (subst name_loop.simps) simp
    with Suc(1) [of "NamePosition + 1" "b'\<lparr>BackTracking := []\<rparr>" "BackTracking b'"] Suc(2) lt b'(2,3)
      accepts_step [of ?up ?c ?e olds "BackTracking b'" ?cs, OF c Suc.prems(3) b'(4)] s
    show ?case by (auto simp: room_def)
  }
qed

section \<open>The shortcuts\<close>

lemma wild_table:
  "i < 64 \<Longrightarrow> LegalAnsiCharacterArray ! i AND FSRTL_WILD_CHARACTER \<noteq> 0 \<longleftrightarrow> i \<in> {34, 42, 60, 62, 63}"
proof -
  have "\<forall>i \<in> set [0..<64]. LegalAnsiCharacterArray ! i AND FSRTL_WILD_CHARACTER \<noteq> 0 \<longleftrightarrow> i \<in> {34, 42, 60, 62, 63}"
    by code_simp
  then show "i < 64 \<Longrightarrow> ?thesis" by simp
qed

lemma FsRtlIsUnicodeCharacterWild_iff: "FsRtlIsUnicodeCharacterWild c \<longleftrightarrow> wild c"
proof (cases "c \<ge> 0x40")
  case True
  then show ?thesis by (auto simp: FsRtlIsUnicodeCharacterWild_def wild_def)
next
  case False
  then have "unat c < 64" by (simp add: word_le_nat_alt)
  with False wild_table show ?thesis
    by (simp add: FsRtlIsUnicodeCharacterWild_def wild_def word_unat_eq_iff) blast
qed

lemma wild_loop_iff: "BACKSLASH \<notin> set cs \<Longrightarrow> wild_loop cs \<longleftrightarrow> (\<exists>c \<in> set cs. wild c)"
  by (induction cs) (auto simp: FsRtlIsUnicodeCharacterWild_iff)

lemma tail_loop_iff:
  "\<forall>c \<in> set cs. T c = c \<Longrightarrow> length cs \<le> length ds \<Longrightarrow> tail_loop T cs ds = Returns (cs = map T (take (length cs) ds))"
proof (induction cs arbitrary: ds)
  case (Cons c cs)
  then show ?case by (cases ds) auto
qed simp

lemma wild_match_tail:
  assumes "\<forall>x \<in> set xs. \<not> wild x"
  shows "wild_match up (STAR # xs) s \<longleftrightarrow> length xs \<le> length s \<and> xs = map up (drop (length s - length xs) s)"
proof -
  have "xs = map up (drop k s) \<Longrightarrow> k \<le> length s \<Longrightarrow> k = length s - length xs \<and> length xs \<le> length s" for k by auto
  then have "(\<exists>k \<le> length s. xs = map up (drop k s)) \<longleftrightarrow> length xs \<le> length s \<and> xs = map up (drop (length s - length xs) s)"
    by (metis diff_le_self)
  then show ?thesis unfolding wild_match_star using wild_match_literal [OF assms, of up] by auto
qed

end
