(* ===== verification/Fs_Name_Props.thy ===== *)
theory Fs_Name_Props
  imports Fs_Name_Correct
begin

text \<open>
  The properties of the routines on file names: matching is the reference matcher, expressions that are too
  long match nothing, and the dissection and the comparison of names.
\<close>

section \<open>Matching\<close>

lemma wf_string_empty: "wf_string s \<Longrightarrow> Length s = 0 \<longleftrightarrow> chars s = []"
  by (auto simp: wf_string_def chars_def count_def unat_eq_zero)

lemma wf_string_tail:
  assumes wf: "wf_string s" and ne: "chars s \<noteq> []"
  defines "t \<equiv> s\<lparr>Buffer := tl (Buffer s), Length := Length s - 2\<rparr>"
  shows "wf_string t" "unat (Length t) = unat (Length s) - 2" "chars s = Buffer s ! 0 # chars t"
proof -
  from wf have L: "unat (Length s) = 2 * count s" by (rule wf_string_Length)
  with ne have n: "0 < count s" by (auto simp: chars_def)
  have "(2 :: USHORT) \<le> Length s" using L n by (simp add: word_le_nat_alt)
  then show l: "unat (Length t) = unat (Length s) - 2" by (simp add: t_def unat_sub)
  then have c: "count t = count s - 1" unfolding count_def [of t] L by simp
  show "wf_string t" using wf l L c by (auto simp: wf_string_def t_def)
  show "chars s = Buffer s ! 0 # chars t"
  proof (cases "Buffer s")
    case (Cons x xs)
    have "count s = Suc (count t)" using c n by simp
    with Cons show ?thesis by (simp add: chars_def t_def)
  qed (use n wf in \<open>simp add: wf_string_def\<close>)
qed

lemma tail_shortcut:
  assumes wf: "wf_string IntE" "wf_string Name" and lit: "\<forall>x \<in> set (chars IntE). \<not> wild x"
    and up: "IgnoreCase \<Longrightarrow> UpcaseTable \<noteq> None \<and> (\<forall>c \<in> set (chars IntE). upcase_of UpcaseTable c = c)"
  defines "NamePosition \<equiv> (unat (Length Name) - unat (Length IntE)) div 2"
  shows "(if unat (Length Name) < unat (Length IntE) then Returns False
     else case (IgnoreCase, UpcaseTable) of
         (True, Some T) \<Rightarrow> tail_loop T (chars IntE) (drop NamePosition (Buffer Name))
       | _ \<Rightarrow> Returns (RtlEqualMemory (Buffer IntE) (drop NamePosition (Buffer Name)) (unat (Length IntE)))) =
    Returns (wild_match (upcase_of (if IgnoreCase then UpcaseTable else None)) (STAR # chars IntE) (chars Name))"
proof (cases "count IntE \<le> count Name")
  case True
  note Len = wf_string_Length [OF wf(1)] wf_string_Length [OF wf(2)]
  have pos: "NamePosition = count Name - count IntE" using Len by (simp add: NamePosition_def)
  have tail: "take (count IntE) (drop NamePosition (Buffer Name)) = drop (count Name - count IntE) (chars Name)"
    using True by (simp add: pos chars_def drop_take)
  have room: "length (chars IntE) \<le> length (drop NamePosition (Buffer Name))"
    using wf(2) True Len by (simp add: pos wf_string_def)
  have m: "wild_match f (STAR # chars IntE) (chars Name) \<longleftrightarrow>
      chars IntE = map f (take (count IntE) (drop NamePosition (Buffer Name)))" for f
    using wild_match_tail [OF lit, of f "chars Name"] True Len unfolding tail by simp
  have "\<not> unat (Length Name) < unat (Length IntE)" using True Len by simp
  moreover have "RtlEqualMemory (Buffer IntE) (drop NamePosition (Buffer Name)) (unat (Length IntE)) \<longleftrightarrow>
      wild_match (upcase_of None) (STAR # chars IntE) (chars Name)"
    unfolding m by (simp add: RtlEqualMemory_def upcase_of_def chars_def count_def)
  moreover have "tail_loop T (chars IntE) (drop NamePosition (Buffer Name)) =
      Returns (wild_match (upcase_of (Some T)) (STAR # chars IntE) (chars Name))"
    if "IgnoreCase" "UpcaseTable = Some T" for T
    unfolding m using tail_loop_iff [of "chars IntE" T, OF _ room] up that Len by (simp add: upcase_of_def)
  ultimately show ?thesis using up by (cases IgnoreCase; cases UpcaseTable) auto
next
  case False
  with wild_match_tail [OF lit] show ?thesis by (simp add: wf_string_Length wf)
qed

lemma match_loop_correct:
  assumes "expression_ok Expression" "name_ok (upcase_of T) Name"
  shows "(case name_loop True Expression Name T 0 [0]
      \<lparr>BackTracking = [], BackTrackingBufferSize = 16, AllocatedBuffer = False\<rparr> of
        Goes OldBackTracking \<Rightarrow> Returns (OldBackTracking \<noteq> [] \<and> last OldBackTracking = unat (Length Expression) * 2)
      | Exit r \<Rightarrow> Returns r
      | Stuck \<Rightarrow> Fails) = Returns (wild_match (upcase_of T) (chars Expression) (chars Name))"
proof -
  have "states_ok (chars Expression) [0]" by (cases "chars Expression") (auto simp: states_ok_def valid_state_def)
  with name_loop_accepts [OF assms, of "\<lparr>BackTracking = [], BackTrackingBufferSize = 16, AllocatedBuffer = False\<rparr>" "[0]" 0]
  show ?thesis by (auto simp: room_def accepts_def state_pos_def)
qed

lemma private_correct:
  assumes E: "expression_ok Expression" "BACKSLASH \<notin> set (chars Expression)"
    and N: "name_ok (upcase_of (if IgnoreCase then UpcaseTable else None)) Name"
    and up: "IgnoreCase \<Longrightarrow> UpcaseTable \<noteq> None \<and> (\<forall>c \<in> set (chars Expression). upcase_of UpcaseTable c = c)"
  shows "FsRtlIsNameInExpressionPrivate True Expression Name IgnoreCase UpcaseTable =
    Returns (if chars Name = [] then chars Expression = []
             else wild_match (upcase_of (if IgnoreCase then UpcaseTable else None)) (chars Expression) (chars Name))"
proof (cases "chars Name = [] \<or> chars Expression = []")
  case True
  have "wild_match f [] (chars Name) \<longleftrightarrow> chars Name = []" for f by simp
  with True wf_string_empty [of Name] wf_string_empty [of Expression] E N show ?thesis
    by (auto simp: FsRtlIsNameInExpressionPrivate_def expression_ok_def name_ok_def)
next
  case False
  define I where "I = Expression\<lparr>Buffer := tl (Buffer Expression), Length := Length Expression - 2\<rparr>"
  let ?up = "upcase_of (if IgnoreCase then UpcaseTable else None)"
  have wf: "wf_string Expression" "wf_string Name" using E N by (auto simp: expression_ok_def name_ok_def)
  have I: "wf_string I" "unat (Length I) = unat (Length Expression) - 2"
    and tl: "chars Expression = Buffer Expression ! 0 # chars I"
    using False wf_string_tail [OF wf(1)] unfolding I_def by auto
  have ne: "Length Name \<noteq> 0" "Length Expression \<noteq> 0" using False wf wf_string_empty by auto
  have table: "\<not> (IgnoreCase \<and> UpcaseTable = None)" using up by auto
  note def = FsRtlIsNameInExpressionPrivate_def [of True Expression Name IgnoreCase UpcaseTable, unfolded Let_def, folded I_def]
  consider "Length Expression = 2" "Buffer Expression ! 0 = STAR"
    | "\<not> (Length Expression = 2 \<and> Buffer Expression ! 0 = STAR)" "Buffer Expression ! 0 = STAR"
      "\<not> FsRtlDoesNameContainWildCards I"
    | "\<not> (Length Expression = 2 \<and> Buffer Expression ! 0 = STAR)"
      "\<not> (Buffer Expression ! 0 = STAR \<and> \<not> FsRtlDoesNameContainWildCards I)"
    by blast
  then show ?thesis
  proof cases
    case 1
    then have "chars I = []" by (simp add: chars_def count_def I_def)
    with 1 tl have "wild_match ?up (chars Expression) (chars Name)" by (auto simp: wild_match_star)
    with 1 False ne show ?thesis by (simp add: def)
  next
    case 2
    have lit: "\<forall>x \<in> set (chars I). \<not> wild x"
      using 2(3) E(2) tl by (simp add: FsRtlDoesNameContainWildCards_def wild_loop_iff)
    have upI: "IgnoreCase \<Longrightarrow> UpcaseTable \<noteq> None \<and> (\<forall>c \<in> set (chars I). upcase_of UpcaseTable c = c)"
      using up tl by auto
    have "FsRtlIsNameInExpressionPrivate True Expression Name IgnoreCase UpcaseTable =
        Returns (wild_match ?up (STAR # chars I) (chars Name))"
      using tail_shortcut [of I Name IgnoreCase UpcaseTable, OF I(1) wf(2) lit upI] 2 ne table
      unfolding def I(2) by (simp only: if_True if_False simp_thms)
    with 2 False tl show ?thesis by simp
  next
    case 3
    then show ?thesis
      using match_loop_correct [OF E(1) N] False ne table unfolding def by (simp only: if_False simp_thms de_Morgan_disj)
  qed
qed

text \<open>The name that is compared, and how its characters are turned to upper case.\<close>

definition compared_name :: "(WCHAR \<Rightarrow> WCHAR) \<Rightarrow> UNICODE_STRING \<Rightarrow> bool \<Rightarrow> (WCHAR \<Rightarrow> WCHAR) option \<Rightarrow> WCHAR list" where
  "compared_name Upcase Name IgnoreCase UpcaseTable =
     (if IgnoreCase \<and> UpcaseTable = None then map Upcase (chars Name) else chars Name)"

definition compared_case :: "bool \<Rightarrow> (WCHAR \<Rightarrow> WCHAR) option \<Rightarrow> WCHAR \<Rightarrow> WCHAR" where
  "compared_case IgnoreCase UpcaseTable = upcase_of (if IgnoreCase then UpcaseTable else None)"

lemma upcased_name:
  fixes Upcase :: "WCHAR \<Rightarrow> WCHAR"
  assumes "wf_string Name"
  defines "u \<equiv> snd (RtlUpcaseUnicodeString True Upcase unset_string Name True)"
  shows "wf_string u" "chars u = map Upcase (chars Name)"
proof -
  have "map (\<lambda>i. Upcase (Buffer Name ! i)) [0..<count Name] = map Upcase (chars Name)"
    using assms(1) by (intro nth_equalityI) (auto simp: wf_string_Length chars_nth)
  then have u: "u = \<lparr>Length = Length Name, MaximumLength = Length Name, Buffer = map Upcase (chars Name)\<rparr>"
    by (simp add: u_def RtlUpcaseUnicodeString_def)
  show "wf_string u" "chars u = map Upcase (chars Name)"
    using assms(1) by (auto simp: u wf_string_def chars_def count_def)
qed

text \<open>
  Into a buffer that the caller has: refused when the source is longer than the buffer, and otherwise the
  destination is the source in upper case, in the same buffer.
\<close>

lemma RtlUpcaseUnicodeString_in_place:
  assumes "wf_string Name" "unat (MaximumLength Dest) \<le> 2 * length (Buffer Dest)"
  shows "\<exists>Dest'. RtlUpcaseUnicodeString Alloc Upcase Dest Name False =
      (if unat (MaximumLength Dest) < unat (Length Name) then (STATUS_BUFFER_OVERFLOW, Dest) else (STATUS_SUCCESS, Dest')) \<and>
    wf_string Dest' \<and> chars Dest' = map Upcase (chars Name) \<and> MaximumLength Dest' = MaximumLength Dest \<and>
    (unat (Length Name) \<le> unat (MaximumLength Dest) \<longrightarrow> length (Buffer Dest') = length (Buffer Dest))"
proof -
  define Dest' where "Dest' = Dest\<lparr>Buffer := map Upcase (chars Name) @ drop (count Name) (Buffer Dest), Length := Length Name\<rparr>"
  have "map (\<lambda>i. Upcase (Buffer Name ! i)) [0..<count Name] = map Upcase (chars Name)"
    using assms(1) by (intro nth_equalityI) (auto simp: wf_string_Length chars_nth)
  then have "RtlUpcaseUnicodeString Alloc Upcase Dest Name False =
      (if unat (MaximumLength Dest) < unat (Length Name) then (STATUS_BUFFER_OVERFLOW, Dest) else (STATUS_SUCCESS, Dest'))"
    by (simp add: RtlUpcaseUnicodeString_def Dest'_def word_less_nat_alt)
  moreover have len: "length (chars Name) = count Name" using assms(1) by (simp add: wf_string_def chars_def)
  moreover have "wf_string Dest'" "chars Dest' = map Upcase (chars Name)" "MaximumLength Dest' = MaximumLength Dest"
    using assms(1) len by (auto simp: Dest'_def wf_string_def chars_def count_def)
  moreover have "length (Buffer Dest') = length (Buffer Dest)" if "unat (Length Name) \<le> unat (MaximumLength Dest)"
    using that assms(2) len by (simp add: Dest'_def count_def)
  ultimately show ?thesis by blast
qed

text \<open>
  C7. \<^verbatim>\<open>FsRtlIsNameInExpression\<close> is the reference matcher: for an expression of less than 16384 characters
  without backslashes (in upper case when a table for this is given) and a name without wild cards it
  returns whether the name matches; only an empty name matches nothing but the empty expression. The
  automaton never fails one of its assertions and never runs over its arrays.
\<close>

theorem FsRtlIsNameInExpression_correct:
  assumes "expression_ok Expression" and "BACKSLASH \<notin> set (chars Expression)" and "wf_string Name"
    and "\<forall>c \<in> set (compared_name Upcase Name IgnoreCase UpcaseTable). \<not> wild (compared_case IgnoreCase UpcaseTable c)"
    and "\<forall>c \<in> set (chars Expression). compared_case IgnoreCase UpcaseTable c = c"
  shows "FsRtlIsNameInExpression True True Upcase Expression Name IgnoreCase UpcaseTable =
    Returns (if chars Name = [] then chars Expression = []
             else wild_match (compared_case IgnoreCase UpcaseTable) (chars Expression)
                    (compared_name Upcase Name IgnoreCase UpcaseTable))"
proof (cases "IgnoreCase \<and> UpcaseTable = None")
  case True
  let ?u = "snd (RtlUpcaseUnicodeString True Upcase unset_string Name True)"
  have "FsRtlIsNameInExpression True True Upcase Expression Name IgnoreCase UpcaseTable =
      FsRtlIsNameInExpressionPrivate True Expression ?u False UpcaseTable"
    using True by (simp add: FsRtlIsNameInExpression_def RtlUpcaseUnicodeString_def)
  also have "\<dots> = Returns (if chars ?u = [] then chars Expression = [] else wild_match (upcase_of None) (chars Expression) (chars ?u))"
    using private_correct [of Expression False UpcaseTable ?u] assms True upcased_name [OF assms(3), of Upcase]
    by (simp add: name_ok_def compared_name_def compared_case_def)
  finally show ?thesis
    using True by (simp add: upcased_name [OF assms(3)] compared_name_def compared_case_def)
next
  case False
  have name: "compared_name Upcase Name IgnoreCase UpcaseTable = chars Name"
    unfolding compared_name_def if_not_P [OF False] ..
  have "FsRtlIsNameInExpression True True Upcase Expression Name IgnoreCase UpcaseTable =
      FsRtlIsNameInExpressionPrivate True Expression Name IgnoreCase UpcaseTable"
    unfolding FsRtlIsNameInExpression_def if_not_P [OF False] ..
  also have "\<dots> = Returns (if chars Name = [] then chars Expression = []
      else wild_match (compared_case IgnoreCase UpcaseTable) (chars Expression) (chars Name))"
    unfolding compared_case_def
  proof (rule private_correct [OF assms(1,2)])
    show "name_ok (upcase_of (if IgnoreCase then UpcaseTable else None)) Name"
      using assms(3,4) unfolding name name_ok_def compared_case_def by blast
    show "UpcaseTable \<noteq> None \<and> (\<forall>c \<in> set (chars Expression). upcase_of UpcaseTable c = c)" if IgnoreCase
      using assms(5) False that unfolding compared_case_def by simp
  qed
  finally show ?thesis unfolding name .
qed

section \<open>Expressions that are too long\<close>

definition bounded :: "backtracking \<Rightarrow> bool" where
  "bounded b \<longleftrightarrow> (\<forall>v \<in> set (BackTracking b). v < 65536)"

definition fine :: "('a \<Rightarrow> bool) \<Rightarrow> 'a flow \<Rightarrow> bool" where
  "fine P r \<longleftrightarrow> (case r of Goes b \<Rightarrow> P b | Exit x \<Rightarrow> \<not> x | Stuck \<Rightarrow> True)"

lemma fine_simps [simp]: "fine P (Goes b) = P b" "fine P (Exit x) = (\<not> x)" "fine P Stuck"
  by (simp_all add: fine_def)

lemma push_fine: "bounded b \<Longrightarrow> fine bounded (push v b)"
  by (auto simp: bounded_def)

lemma push_all_fine: "bounded b \<Longrightarrow> fine bounded (push_all vs b)"
proof (induction vs arbitrary: b)
  case (Cons v vs)
  then show ?case using push_fine [of b v] by (cases "push v b") (simp_all del: push.simps)
qed simp

lemma grow_fine: "bounded b \<Longrightarrow> fine bounded (grow Pool Expression b)"
  by (simp add: grow_def Let_def bounded_def)

lemma expression_loop_fine:
  "bounded b \<Longrightarrow> fine bounded (expression_loop Pool Expression Name T EndOfName NamePosition Offset q b)"
proof (induction Pool Expression Name T EndOfName NamePosition Offset q b rule: expression_loop.induct)
  case (1 Pool Expression Name T EndOfName NamePosition Offset q b)
  obtain vs goes_on where m: "match_char Expression Name T EndOfName NamePosition (q + Offset) = (vs, goes_on)"
    by fastforce
  have g: "fine bounded (grow Pool Expression b)" by (rule grow_fine [OF "1.prems"])
  have p: "fine bounded (push_all vs b1)" if "grow Pool Expression b = Goes b1" for b1
    using push_all_fine g that by simp
  have g2: "\<not> x" if "grow Pool Expression b = Exit x" for x using g that by simp
  have p2: "push_all vs b1 = Goes b2 \<Longrightarrow> bounded b2" "push_all vs b1 \<noteq> Exit True"
    if "grow Pool Expression b = Goes b1" for b1 b2
    using p [OF that] by auto
  have IH: "fine bounded (expression_loop Pool Expression Name T EndOfName NamePosition 2 (q + Offset) b2)"
    if "q < unat (Length Expression)" "q + Offset \<noteq> unat (Length Expression)" "grow Pool Expression b = Goes b1"
      "push_all vs b1 = Goes b2" goes_on for b1 b2
    by (rule "1.IH") (use that m p [OF that(3)] in auto)
  show ?case
    unfolding expression_loop.simps [of Pool Expression Name T EndOfName NamePosition Offset q b] Let_def m
    using g2 p2 IH push_fine [OF "1.prems"] "1.prems" by (auto simp del: push.simps split: flow.split)
qed

lemma states_loop_fine:
  "bounded b \<Longrightarrow> fine bounded (states_loop Pool Expression Name T EndOfName NamePosition olds b)"
proof (induction Pool Expression Name T EndOfName NamePosition olds b rule: states_loop.induct)
  case (2 Pool Expression Name T EndOfName NamePosition v vs b)
  then show ?case using expression_loop_fine [of b Pool Expression Name T EndOfName NamePosition 0 "(v + 1) div 2"]
    by (cases "expression_loop Pool Expression Name T EndOfName NamePosition 0 ((v + 1) div 2) b") auto
qed simp

lemma name_loop_fine:
  "\<forall>v \<in> set olds. v < 65536 \<Longrightarrow> bounded b \<Longrightarrow>
   fine (\<lambda>out. \<forall>v \<in> set out. v < 65536) (name_loop Pool Expression Name T NamePosition olds b)"
proof (induction Pool Expression Name T NamePosition olds b rule: name_loop.induct)
  case (1 Pool Expression Name T NamePosition olds b)
  have s: "fine bounded (states_loop Pool Expression Name T EndOfName NamePosition olds b)" for EndOfName
    by (rule states_loop_fine [OF "1.prems"(2)])
  show ?case
  proof (cases "NamePosition \<ge> count Name")
    case True
    then show ?thesis unfolding name_loop.simps [of Pool Expression Name T NamePosition olds b]
      using s [of True] "1.prems"(1) by (auto simp: bounded_def split: flow.split)
  next
    case False
    have "bounded (b'\<lparr>BackTracking := []\<rparr>)" for b' by (simp add: bounded_def)
    with False "1.IH" [OF False] s [of False] show ?thesis
      unfolding name_loop.simps [of Pool Expression Name T NamePosition olds b] by (cases "states_loop Pool Expression Name T False NamePosition olds b") (simp_all add: bounded_def)
  qed
qed

text \<open>
  C33. The states are kept in 16 bits, and the last one is twice the length of the expression in bytes: an expression of
  16384 characters or more that does not start with a star matches no name, not even when it has no wild
  cards and the name is the same string.
\<close>

theorem FsRtlIsNameInExpressionPrivate_long:
  assumes "32768 \<le> unat (Length Expression)" and "Buffer Expression ! 0 \<noteq> STAR"
  shows "FsRtlIsNameInExpressionPrivate Pool Expression Name IgnoreCase UpcaseTable \<noteq> Returns True"
proof -
  let ?loop = "name_loop Pool Expression Name (if IgnoreCase then UpcaseTable else None) 0 [0]
    \<lparr>BackTracking = [], BackTrackingBufferSize = 16, AllocatedBuffer = False\<rparr>"
  have loop: "fine (\<lambda>out. \<forall>v \<in> set out. v < 65536) ?loop" by (rule name_loop_fine) (simp_all add: bounded_def)
  then have "last out \<noteq> unat (Length Expression) * 2" if "?loop = Goes out" "out \<noteq> []" for out
    using last_in_set [OF that(2)] assms(1) that(1) by fastforce
  moreover have "\<not> x" if "?loop = Exit x" for x using loop that by simp
  moreover have "Length Expression \<noteq> 0" using assms(1) by auto
  ultimately show ?thesis using assms(2)
    unfolding FsRtlIsNameInExpressionPrivate_def by (auto simp: Let_def split: flow.split)
qed

section \<open>Dissecting and comparing names\<close>

lemma dissect_loop_rest:
  "0 < i \<Longrightarrow> dissect_loop cs i k = (i + length (takeWhile (\<lambda>c. c \<noteq> BACKSLASH) cs), k)"
  by (induction cs arbitrary: i) auto

lemma dissect_loop_start:
  assumes "cs \<noteq> []"
  defines "k \<equiv> if hd cs = BACKSLASH then 1 else (0 :: nat)"
  shows "dissect_loop cs 0 0 = (k + length (takeWhile (\<lambda>c. c \<noteq> BACKSLASH) (drop k cs)), k)"
  using assms by (cases cs) (auto simp: dissect_loop_rest)

text \<open>The name without the backslash that it may start with.\<close>

definition relative_name :: "WCHAR list \<Rightarrow> WCHAR list" where
  "relative_name cs = (if cs \<noteq> [] \<and> hd cs = BACKSLASH then tl cs else cs)"

lemma substring:
  assumes wf: "wf_string s" and le: "k \<le> p" "p \<le> count s" and L: "unat L = 2 * (p - k)"
  shows "wf_string \<lparr>Length = L, MaximumLength = M, Buffer = drop k (Buffer s)\<rparr>"
    "chars \<lparr>Length = L, MaximumLength = M, Buffer = drop k (Buffer s)\<rparr> = take (p - k) (drop k (chars s))"
  using assms by (auto simp: wf_string_def chars_def count_def drop_take min_def)

text \<open>
  C32. \<^verbatim>\<open>FsRtlDissectName\<close> cuts a path after its first component: leaving out a backslash at the start, the first
  part is everything before the next backslash and the remaining part everything after it, both strings
  inside of the given one.
\<close>

theorem FsRtlDissectName_correct:
  assumes "wf_string Name" and "FsRtlDissectName Name = (FirstPart, RemainingPart)"
  shows "wf_string FirstPart \<and> wf_string RemainingPart \<and>
    chars FirstPart = takeWhile (\<lambda>c. c \<noteq> BACKSLASH) (relative_name (chars Name)) \<and>
    chars RemainingPart = drop 1 (dropWhile (\<lambda>c. c \<noteq> BACKSLASH) (relative_name (chars Name)))"
proof (cases "chars Name = []")
  case True
  with assms wf_string_empty [OF assms(1)] show ?thesis
    by (auto simp: FsRtlDissectName_def Let_def relative_name_def wf_string_def chars_def count_def)
next
  case False
  define k where "k = (if hd (chars Name) = BACKSLASH then 1 else (0 :: nat))"
  let ?s = "drop k (chars Name)"
  let ?n = "length (takeWhile (\<lambda>c. c \<noteq> BACKSLASH) ?s)"
  have n: "length (chars Name) = count Name" "unat (Length Name) = 2 * count Name"
    using assms(1) by (simp_all add: wf_string_Length)
  have rel: "relative_name (chars Name) = ?s" using False by (simp add: relative_name_def k_def drop_Suc)
  have "?n \<le> length ?s" by (rule length_takeWhile_le)
  moreover have "k \<le> count Name" using False n by (cases "chars Name") (auto simp: k_def)
  ultimately have le: "k + ?n \<le> count Name" using n(1) by simp
  have small: "2 * count Name < 65536" using n(2) unat_less_8_16(2) [of "Length Name"] by simp
  have loop: "dissect_loop (chars Name) 0 0 = (k + ?n, k)" unfolding k_def by (rule dissect_loop_start [OF False])
  have ne: "Length Name \<noteq> 0" using False wf_string_empty [OF assms(1)] by simp
  define L1 :: USHORT where "L1 = of_nat ((k + ?n - k) * 2)"
  define L2 :: USHORT where "L2 = of_nat ((k + ?n + 1) * 2)"
  note parts = assms(2) [unfolded FsRtlDissectName_def Let_def if_not_P [OF ne] loop prod.case, folded L1_def L2_def]
  have L1: "unat L1 = 2 * (k + ?n - k)" unfolding L1_def using le small by (subst unat_of_nat_16) auto
  have F: "wf_string FirstPart" "chars FirstPart = take ?n ?s"
    using parts substring [OF assms(1) _ le L1, of L1] by auto
  have R: "wf_string RemainingPart \<and> chars RemainingPart = drop (Suc ?n) ?s"
  proof (cases "k + ?n < count Name")
    case True
    then have L2: "unat L2 = 2 * (k + ?n + 1)" unfolding L2_def using small by (subst unat_of_nat_16) auto
    then have "L2 \<le> Length Name" using True n(2) unfolding word_le_nat_alt by simp
    then have "unat (Length Name - L2) = 2 * (count Name - (k + ?n + 1))" using n(2) L2 by (simp add: unat_sub)
    from substring [OF assms(1) _ _ this, of "Length Name - L2"] parts True n(1)
    show ?thesis by (auto simp: add.commute)
  next
    case False
    then have "RemainingPart = \<lparr>Length = 0, MaximumLength = 0, Buffer = []\<rparr>" using parts by simp
    then have "wf_string RemainingPart" "chars RemainingPart = []" by (simp_all add: wf_string_def chars_def count_def)
    moreover have "drop (Suc ?n) ?s = []" using False le n(1) by simp
    ultimately show ?thesis by simp
  qed
  have "drop (Suc ?n) ?s = drop 1 (dropWhile (\<lambda>c. c \<noteq> BACKSLASH) ?s)"
    unfolding dropWhile_eq_drop drop_drop by simp
  with F R show ?thesis unfolding rel takeWhile_eq_take [symmetric] by simp
qed

lemma names_equal_loop_iff:
  "length cs = length ds \<Longrightarrow> names_equal_loop T cs ds \<longleftrightarrow> map T cs = map T ds"
  by (induction T cs ds rule: names_equal_loop.induct) auto

lemma RtlEqualMemory_chars:
  "wf_string s \<Longrightarrow> Length s = Length t \<Longrightarrow> RtlEqualMemory (Buffer s) (Buffer t) (unat (Length s)) \<longleftrightarrow> chars s = chars t"
  by (simp add: RtlEqualMemory_def chars_def count_def)

lemma upcased_Length: "Length (snd (RtlUpcaseUnicodeString True Upcase unset_string Name True)) = Length Name"
  by (simp add: RtlUpcaseUnicodeString_def)

text \<open>
  \<^verbatim>\<open>FsRtlAreNamesEqual\<close> compares the names as they are, after the given table or after the system table;
  in the last case it raises a status when there is no memory, which depends on the lengths: names of different
  lengths are told apart before.
\<close>

theorem FsRtlAreNamesEqual_iff:
  assumes "wf_string Name1" "wf_string Name2"
  shows "FsRtlAreNamesEqual True True Upcase Name1 Name2 IgnoreCase UpcaseTable =
      Returns (let up = if \<not> IgnoreCase then (\<lambda>c. c) else case UpcaseTable of None \<Rightarrow> Upcase | Some T \<Rightarrow> T
               in map up (chars Name1) = map up (chars Name2))"
    and "\<not> (Alloc1 \<and> Alloc2) \<Longrightarrow> FsRtlAreNamesEqual Alloc1 Alloc2 Upcase Name1 Name2 True None =
      (if Length Name1 = Length Name2 then Raises STATUS_NO_MEMORY else Returns False)"
proof -
  have len: "Length Name1 = Length Name2 \<longleftrightarrow> length (chars Name1) = length (chars Name2)"
    using assms by (auto simp: wf_string_Length word_unat_eq_iff)
  show "FsRtlAreNamesEqual True True Upcase Name1 Name2 IgnoreCase UpcaseTable =
      Returns (let up = if \<not> IgnoreCase then (\<lambda>c. c) else case UpcaseTable of None \<Rightarrow> Upcase | Some T \<Rightarrow> T
               in map up (chars Name1) = map up (chars Name2))"
  proof (cases "Length Name1 = Length Name2")
    case True
    let ?u1 = "snd (RtlUpcaseUnicodeString True Upcase unset_string Name1 True)" and ?u2 = "snd (RtlUpcaseUnicodeString True Upcase unset_string Name2 True)"
    have "RtlEqualMemory (Buffer ?u1) (Buffer ?u2) (unat (Length ?u1)) \<longleftrightarrow> map Upcase (chars Name1) = map Upcase (chars Name2)"
      using RtlEqualMemory_chars [of ?u1 ?u2] upcased_name assms True by (simp add: upcased_Length)
    with True len show ?thesis
      using names_equal_loop_iff [of "chars Name1" "chars Name2"] RtlEqualMemory_chars [OF assms(1) True]
      by (cases IgnoreCase; cases UpcaseTable) (simp_all add: FsRtlAreNamesEqual_def RtlUpcaseUnicodeString_def)
  next
    case False
    with len show ?thesis by (auto simp: FsRtlAreNamesEqual_def Let_def dest: map_eq_imp_length_eq)
  qed
  show "\<not> (Alloc1 \<and> Alloc2) \<Longrightarrow> FsRtlAreNamesEqual Alloc1 Alloc2 Upcase Name1 Name2 True None =
      (if Length Name1 = Length Name2 then Raises STATUS_NO_MEMORY else Returns False)"
    by (auto simp: FsRtlAreNamesEqual_def RtlUpcaseUnicodeString_def)
qed

section \<open>Examples\<close>

definition unicode :: "WCHAR list \<Rightarrow> UNICODE_STRING" where
  "unicode cs = \<lparr>Length = of_nat (2 * length cs), MaximumLength = of_nat (2 * length cs), Buffer = cs\<rparr>"

definition ascii_upcase :: "WCHAR \<Rightarrow> WCHAR" where
  "ascii_upcase c = (if 0x61 \<le> c \<and> c \<le> 0x7A then c - 0x20 else c)"

text \<open>The expression \<^verbatim>\<open><.T?T\<close> and the name \<^verbatim>\<open>a.b.txt\<close>.\<close>

lemma FsRtlIsNameInExpression_correct_witness:
  "FsRtlIsNameInExpression True True (\<lambda>c. c) (unicode [0x3C, 0x2E, 0x54, 0x3F, 0x54])
     (unicode [0x61, 0x2E, 0x62, 0x2E, 0x74, 0x78, 0x74]) True (Some ascii_upcase) = Returns True"
proof -
  have m: "wild_match ascii_upcase [0x3C, 0x2E, 0x54, 0x3F, 0x54] [0x61, 0x2E, 0x62, 0x2E, 0x74, 0x78, 0x74]"
    by (simp add: ascii_upcase_def wild_def)
  show ?thesis
    using FsRtlIsNameInExpression_correct [of "unicode [0x3C, 0x2E, 0x54, 0x3F, 0x54]"
        "unicode [0x61, 0x2E, 0x62, 0x2E, 0x74, 0x78, 0x74]" "\<lambda>c. c" True "Some ascii_upcase"] m
    by (simp add: unicode_def expression_ok_def wf_string_def chars_def count_def compared_name_def compared_case_def
        upcase_of_def ascii_upcase_def wild_def)
qed

text \<open>A name of 16384 characters is not found by itself as the expression.\<close>

lemma FsRtlIsNameInExpressionPrivate_long_witness:
  "FsRtlIsNameInExpressionPrivate True (unicode (replicate 16384 0x41)) (unicode (replicate 16384 0x41)) False None \<noteq> Returns True \<and>
   wild_match (\<lambda>c. c) (replicate 16384 0x41) (replicate 16384 0x41)"
  using FsRtlIsNameInExpressionPrivate_long [of "unicode (replicate 16384 0x41)" True "unicode (replicate 16384 0x41)" False None]
  by (simp add: unicode_def wild_match_literal wild_def)

text \<open>The example of the documentation, with shorter names.\<close>

lemma FsRtlDissectName_correct_witness:
  "(case FsRtlDissectName (unicode [0x5C, 0x74, 0x31, 0x5C, 0x74, 0x32, 0x5C, 0x74, 0x33]) of (FirstPart, RemainingPart) \<Rightarrow>
     chars FirstPart = [0x74, 0x31] \<and> chars RemainingPart = [0x74, 0x32, 0x5C, 0x74, 0x33])"
  using FsRtlDissectName_correct [of "unicode [0x5C, 0x74, 0x31, 0x5C, 0x74, 0x32, 0x5C, 0x74, 0x33]"]
  by (auto simp: unicode_def wf_string_def chars_def count_def relative_name_def split: prod.split)

end
