(* ===== verification/Rtl_Compress.thy ===== *)
theory Rtl_Compress
  imports Ros_Prelude
begin

text \<open>
  Compression, \<^verbatim>\<open>sdk/lib/rtl/compress.c\<close>: the LZNT1 format. A buffer is a list of bytes with positions in it for the
  pointers into it. The output buffer is the list of the bytes that have been written so far, from its
  start on, with its size. \<open>None\<close> is a read outside of the source buffer or of the bytes already written,
  \<^verbatim>\<open>NULL\<close> results and error statuses are values.
\<close>

abbreviation (input) STATUS_ACCESS_VIOLATION :: NTSTATUS where "STATUS_ACCESS_VIOLATION \<equiv> 0xC0000005"
abbreviation (input) STATUS_NOT_SUPPORTED :: NTSTATUS where "STATUS_NOT_SUPPORTED \<equiv> 0xC00000BB"
abbreviation (input) STATUS_BAD_COMPRESSION_BUFFER :: NTSTATUS where "STATUS_BAD_COMPRESSION_BUFFER \<equiv> 0xC0000242"
abbreviation (input) STATUS_UNSUPPORTED_COMPRESSION :: NTSTATUS where "STATUS_UNSUPPORTED_COMPRESSION \<equiv> 0xC000025F"
abbreviation (input) COMPRESSION_FORMAT_NONE :: USHORT where "COMPRESSION_FORMAT_NONE \<equiv> 0"
abbreviation (input) COMPRESSION_FORMAT_DEFAULT :: USHORT where "COMPRESSION_FORMAT_DEFAULT \<equiv> 1"
abbreviation (input) COMPRESSION_FORMAT_LZNT1 :: USHORT where "COMPRESSION_FORMAT_LZNT1 \<equiv> 2"
abbreviation (input) COMPRESSION_ENGINE_STANDARD :: USHORT where "COMPRESSION_ENGINE_STANDARD \<equiv> 0"
abbreviation (input) COMPRESSION_ENGINE_MAXIMUM :: USHORT where "COMPRESSION_ENGINE_MAXIMUM \<equiv> 0x100"
abbreviation (input) COMPRESSION_FORMAT_MASK :: USHORT where "COMPRESSION_FORMAT_MASK \<equiv> 0xFF"
abbreviation (input) COMPRESSION_ENGINE_MASK :: USHORT where "COMPRESSION_ENGINE_MASK \<equiv> 0xFF00"

section \<open>Reading\<close>

definition byte_at :: "UCHAR list \<Rightarrow> nat \<Rightarrow> UCHAR option" where
  "byte_at b i = (if i < length b then Some (b ! i) else None)"

definition word_at :: "UCHAR list \<Rightarrow> nat \<Rightarrow> USHORT option" where
  "word_at b i = (if i + 1 < length b then Some (push_bit 8 (ucast (b ! (i + 1))) OR ucast (b ! i)) else None)"

definition bytes_at :: "UCHAR list \<Rightarrow> nat \<Rightarrow> nat \<Rightarrow> UCHAR list option" where
  "bytes_at b i n = (if i + n \<le> length b then Some (take n (drop i b)) else None)"

section \<open>One chunk\<close>

text \<open>How many bits of a code are the displacement, from the number of bytes that the chunk has so far.\<close>

fun bits_loop :: "nat \<Rightarrow> nat \<Rightarrow> nat" where
  "bits_loop written displacement_bits =
     (if displacement_bits > 4 \<and> \<not> 2 ^ (displacement_bits - 1) < written
      then bits_loop written (displacement_bits - 1) else displacement_bits)"

declare bits_loop.simps [simp del]

text \<open>Copies bytes of the chunk; the flag says that the output is full, where the function returns.\<close>

fun copy_loop :: "nat \<Rightarrow> nat \<Rightarrow> nat \<Rightarrow> UCHAR list \<Rightarrow> (bool \<times> UCHAR list) option" where
  "copy_loop dst_size code_displacement 0 dst = Some (False, dst)"
| "copy_loop dst_size code_displacement (Suc code_length) dst =
     (if length dst \<ge> dst_size then Some (True, dst)
      else if code_displacement = 0 \<or> length dst < code_displacement then None
      else copy_loop dst_size code_displacement code_length (dst @ [dst ! (length dst - code_displacement)]))"

text \<open>
  One entity, a reference or a byte: the loop goes on behind it, or the function returns its position in
  the output, or \<^verbatim>\<open>NULL\<close>. In each case the list has the bytes that have been written.
\<close>

datatype entities = Behind nat "UCHAR list" | Full "UCHAR list" | Null "UCHAR list"

definition reference :: "nat \<Rightarrow> UCHAR list \<Rightarrow> nat \<Rightarrow> nat \<Rightarrow> UCHAR list \<Rightarrow> entities option" where
  "reference dst_size src src_end src_cur dst =
     (if src_cur + 2 > src_end then Some (Null dst)
      else case word_at src src_cur of None \<Rightarrow> None | Some code \<Rightarrow>
        let displacement_bits = bits_loop (length dst) 12;
            length_bits = 16 - displacement_bits;
            code_length = unat (code AND (2 ^ length_bits - 1)) + 3;
            code_displacement = unat (drop_bit length_bits code) + 1
        in if length dst < code_displacement then Some (Null dst)
        else case copy_loop dst_size code_displacement code_length dst of
            None \<Rightarrow> None
          | Some (full, dst) \<Rightarrow> Some (if full then Full dst else Behind (src_cur + 2) dst))"

definition literal :: "nat \<Rightarrow> UCHAR list \<Rightarrow> nat \<Rightarrow> UCHAR list \<Rightarrow> entities option" where
  "literal dst_size src src_cur dst =
     (if length dst \<ge> dst_size then Some (Full dst)
      else case byte_at src src_cur of None \<Rightarrow> None | Some byte \<Rightarrow> Some (Behind (src_cur + 1) (dst @ [byte])))"

definition entity :: "nat \<Rightarrow> UCHAR list \<Rightarrow> nat \<Rightarrow> USHORT \<Rightarrow> nat \<Rightarrow> UCHAR list \<Rightarrow> entities option" where
  "entity dst_size src src_end flags src_cur dst =
     (if flags AND 1 \<noteq> 0 then reference dst_size src src_end src_cur dst else literal dst_size src src_cur dst)"

lemma entity_forward: "entity dst_size src src_end flags src_cur dst = Some (Behind c dst') \<Longrightarrow> src_cur < c"
  by (auto simp: entity_def reference_def literal_def Let_def split: if_splits option.splits)

function entity_loop :: "nat \<Rightarrow> UCHAR list \<Rightarrow> nat \<Rightarrow> USHORT \<Rightarrow> nat \<Rightarrow> UCHAR list \<Rightarrow> entities option" where
  "entity_loop dst_size src src_end flags src_cur dst =
     (if flags AND 0xFF00 \<noteq> 0 \<and> src_cur < src_end then
        case entity dst_size src src_end flags src_cur dst of
          Some (Behind src_cur dst) \<Rightarrow> entity_loop dst_size src src_end (drop_bit 1 flags) src_cur dst
        | r \<Rightarrow> r
      else Some (Behind src_cur dst))"
  by pat_completeness auto
termination
  by (relation "measure (\<lambda>(_, _, src_end, _, src_cur, _). src_end - src_cur)") (auto dest: entity_forward)

declare entity_loop.simps [simp del]

lemma entity_loop_forward:
  "entity_loop dst_size src src_end flags src_cur dst = Some (Behind c dst') \<Longrightarrow> src_cur \<le> c"
proof (induction dst_size src src_end flags src_cur dst rule: entity_loop.induct)
  case (1 dst_size src src_end flags src_cur dst)
  note eq = "1.prems" [unfolded entity_loop.simps [of dst_size src src_end flags src_cur dst]]
  show ?case
  proof (cases "flags AND 0xFF00 \<noteq> 0 \<and> src_cur < src_end")
    case True
    then obtain c1 d1 where e: "entity dst_size src src_end flags src_cur dst = Some (Behind c1 d1)"
      and l: "entity_loop dst_size src src_end (drop_bit 1 flags) c1 d1 = Some (Behind c dst')"
      using eq by (auto split: option.splits entities.splits)
    from "1.IH" [OF True e refl l] entity_forward [OF e] show ?thesis by simp
  qed (use eq in auto)
qed

text \<open>The flag of the result says whether the function returns a position, or \<^verbatim>\<open>NULL\<close>.\<close>

function chunk_loop :: "nat \<Rightarrow> UCHAR list \<Rightarrow> nat \<Rightarrow> nat \<Rightarrow> UCHAR list \<Rightarrow> (bool \<times> UCHAR list) option" where
  "chunk_loop dst_size src src_end src_cur dst =
     (if src_cur < src_end \<and> length dst < dst_size then
        case byte_at src src_cur of None \<Rightarrow> None | Some byte \<Rightarrow>
        case entity_loop dst_size src src_end (0x8000 OR ucast byte) (src_cur + 1) dst of
          None \<Rightarrow> None
        | Some (Behind src_cur dst) \<Rightarrow> chunk_loop dst_size src src_end src_cur dst
        | Some (Full dst) \<Rightarrow> Some (True, dst)
        | Some (Null dst) \<Rightarrow> Some (False, dst)
      else Some (True, dst))"
  by pat_completeness auto
termination
  by (relation "measure (\<lambda>(_, _, src_end, src_cur, _). src_end - src_cur)") (auto dest: entity_loop_forward)

declare chunk_loop.simps [simp del]

definition lznt1_decompress_chunk :: "nat \<Rightarrow> UCHAR list \<Rightarrow> nat \<Rightarrow> nat \<Rightarrow> (bool \<times> UCHAR list) option" where
  "lznt1_decompress_chunk dst_size src src_cur src_size = chunk_loop dst_size src (src_cur + src_size) src_cur []"

section \<open>A buffer of chunks\<close>

text \<open>
  A part of the function goes on at a position with the output so far, reaches the label \<^verbatim>\<open>out\<close>, or returns
  an error.
\<close>

datatype stage = At nat nat "UCHAR list" | Out "UCHAR list" | Error NTSTATUS "UCHAR list"

function skip_loop :: "UCHAR list \<Rightarrow> nat \<Rightarrow> nat \<Rightarrow> stage option" where
  "skip_loop src offset src_cur =
     (if offset \<ge> 0x1000 \<and> src_cur + 2 \<le> length src then
        case word_at src src_cur of None \<Rightarrow> None | Some chunk_header \<Rightarrow>
        let chunk_size = unat (chunk_header AND 0xFFF) + 1
        in if chunk_header = 0 then Some (Out [])
        else if src_cur + 2 + chunk_size > length src then Some (Error STATUS_BAD_COMPRESSION_BUFFER [])
        else skip_loop src (offset - 0x1000) (src_cur + 2 + chunk_size)
      else Some (At offset src_cur []))"
  by pat_completeness auto
termination
  by (relation "measure (\<lambda>(_, offset, _). offset)") auto

declare skip_loop.simps [simp del]

definition partial_chunk :: "nat \<Rightarrow> UCHAR list \<Rightarrow> bool \<Rightarrow> nat \<Rightarrow> nat \<Rightarrow> stage option" where
  "partial_chunk dst_size src workspace offset src_cur =
     (if offset \<noteq> 0 \<and> src_cur + 2 \<le> length src then
        case word_at src src_cur of None \<Rightarrow> None | Some chunk_header \<Rightarrow>
        let src_cur = src_cur + 2; chunk_size = unat (chunk_header AND 0xFFF) + 1
        in if chunk_header = 0 then Some (Out [])
        else if src_cur + chunk_size > length src then Some (Error STATUS_BAD_COMPRESSION_BUFFER [])
        else if dst_size = 0 then Some (Out [])
        else if chunk_header AND 0x8000 \<noteq> 0 then
          if \<not> workspace then Some (Error STATUS_ACCESS_VIOLATION [])
          else case lznt1_decompress_chunk 0x1000 src src_cur chunk_size of
              None \<Rightarrow> None
            | Some (False, _) \<Rightarrow> Some (Error STATUS_BAD_COMPRESSION_BUFFER [])
            | Some (True, work) \<Rightarrow>
                if length work > offset
                then map_option (At offset (src_cur + chunk_size)) (bytes_at work offset (min (length work - offset) dst_size))
                else Some (At offset (src_cur + chunk_size) [])
        else if chunk_size > offset
          then map_option (At offset (src_cur + chunk_size)) (bytes_at src (src_cur + offset) (min (chunk_size - offset) dst_size))
          else Some (At offset (src_cur + chunk_size) [])
      else Some (At offset src_cur []))"

text \<open>The data of a chunk, as far as there is room for it.\<close>

definition chunk_data :: "nat \<Rightarrow> UCHAR list \<Rightarrow> USHORT \<Rightarrow> nat \<Rightarrow> nat \<Rightarrow> (bool \<times> UCHAR list) option" where
  "chunk_data room src chunk_header src_cur chunk_size =
     (if chunk_header AND 0x8000 \<noteq> 0 then lznt1_decompress_chunk room src src_cur chunk_size
      else map_option (Pair True) (bytes_at src src_cur (min chunk_size room)))"

definition rest_chunk :: "nat \<Rightarrow> UCHAR list \<Rightarrow> nat \<Rightarrow> nat \<Rightarrow> UCHAR list \<Rightarrow> stage option" where
  "rest_chunk dst_size src offset src_cur dst =
     (case word_at src src_cur of None \<Rightarrow> None | Some chunk_header \<Rightarrow>
      let src_cur = src_cur + 2; chunk_size = unat (chunk_header AND 0xFFF) + 1;
          block_size = (length dst + offset) mod 0x1000;
          padding = (if block_size \<noteq> 0 then 0x1000 - block_size else 0)
      in if chunk_header = 0 then Some (Out dst)
      else if src_cur + chunk_size > length src then Some (Error STATUS_BAD_COMPRESSION_BUFFER dst)
      else if block_size \<noteq> 0 \<and> length dst + padding \<ge> dst_size then Some (Out dst)
      else if length dst + padding \<ge> dst_size then Some (Out (dst @ replicate padding 0))
      else case chunk_data (dst_size - (length dst + padding)) src chunk_header src_cur chunk_size of
          None \<Rightarrow> None
        | Some (ok, block) \<Rightarrow>
            Some (if ok then At offset (src_cur + chunk_size) (dst @ replicate padding 0 @ block)
                  else Error STATUS_BAD_COMPRESSION_BUFFER (dst @ replicate padding 0 @ block)))"

lemma rest_chunk_forward: "rest_chunk dst_size src offset src_cur dst = Some (At o1 c1 d1) \<Longrightarrow> src_cur < c1"
  by (auto simp: rest_chunk_def Let_def split: option.splits if_splits)

function rest_loop :: "nat \<Rightarrow> UCHAR list \<Rightarrow> nat \<Rightarrow> nat \<Rightarrow> UCHAR list \<Rightarrow> stage option" where
  "rest_loop dst_size src offset src_cur dst =
     (if src_cur + 2 \<le> length src then
        case rest_chunk dst_size src offset src_cur dst of
          Some (At _ src_cur dst) \<Rightarrow> rest_loop dst_size src offset src_cur dst
        | r \<Rightarrow> r
      else Some (Out dst))"
  by pat_completeness auto
termination
  by (relation "measure (\<lambda>(_, src, _, src_cur, _). length src - src_cur)") (auto dest: rest_chunk_forward)

declare rest_loop.simps [simp del]

text \<open>The status, the bytes that have been written, and the final size where it is set.\<close>

definition finish :: "stage \<Rightarrow> NTSTATUS \<times> UCHAR list \<times> nat option" where
  "finish s = (case s of Error Status dst \<Rightarrow> (Status, dst, None)
     | Out dst \<Rightarrow> (STATUS_SUCCESS, dst, Some (length dst))
     | At _ _ dst \<Rightarrow> (STATUS_SUCCESS, dst, Some (length dst)))"

definition lznt1_decompress :: "nat \<Rightarrow> UCHAR list \<Rightarrow> nat \<Rightarrow> bool \<Rightarrow> (NTSTATUS \<times> UCHAR list \<times> nat option) option" where
  "lznt1_decompress dst_size src offset workspace =
     (if 2 > length src then Some (STATUS_BAD_COMPRESSION_BUFFER, [], None)
      else case skip_loop src offset 0 of
        Some (At offset src_cur _) \<Rightarrow>
          (case partial_chunk dst_size src workspace offset src_cur of
             Some (At offset src_cur dst) \<Rightarrow> map_option finish (rest_loop dst_size src offset src_cur dst)
           | s \<Rightarrow> map_option finish s)
      | s \<Rightarrow> map_option finish s)"

definition RtlDecompressFragment ::
  "USHORT \<Rightarrow> nat \<Rightarrow> UCHAR list \<Rightarrow> nat \<Rightarrow> bool \<Rightarrow> (NTSTATUS \<times> UCHAR list \<times> nat option) option" where
  "RtlDecompressFragment format uncompressed_size compressed offset workspace =
     (let f = format AND NOT COMPRESSION_ENGINE_MAXIMUM
      in if f = COMPRESSION_FORMAT_LZNT1 then lznt1_decompress uncompressed_size compressed offset workspace
      else if f = COMPRESSION_FORMAT_NONE \<or> f = COMPRESSION_FORMAT_DEFAULT then Some (STATUS_INVALID_PARAMETER, [], None)
      else Some (STATUS_UNSUPPORTED_COMPRESSION, [], None))"

definition RtlDecompressBuffer :: "USHORT \<Rightarrow> nat \<Rightarrow> UCHAR list \<Rightarrow> (NTSTATUS \<times> UCHAR list \<times> nat option) option" where
  "RtlDecompressBuffer CompressionFormat UncompressedBufferSize CompressedBuffer =
     RtlDecompressFragment CompressionFormat UncompressedBufferSize CompressedBuffer 0 False"

section \<open>Compression\<close>

definition word_bytes :: "USHORT \<Rightarrow> UCHAR list" where
  "word_bytes w = [ucast w, ucast (drop_bit 8 w)]"

function compress_loop :: "UCHAR list \<Rightarrow> nat \<Rightarrow> UCHAR list \<Rightarrow> NTSTATUS \<times> UCHAR list \<times> nat option" where
  "compress_loop src dst_size dst =
     (if src = [] then (STATUS_SUCCESS, dst, Some (length dst))
      else
        let block_size = min 0x1000 (length src)
        in if length dst + 2 + block_size > dst_size then (STATUS_BUFFER_TOO_SMALL, dst, None)
        else compress_loop (drop block_size src) dst_size
               (dst @ word_bytes (0x3000 OR of_nat (block_size - 1)) @ take block_size src))"
  by pat_completeness auto
termination
  by (relation "measure (\<lambda>(src, _). length src)") auto

declare compress_loop.simps [simp del]

definition RtlpCompressBufferLZNT1 :: "UCHAR list \<Rightarrow> nat \<Rightarrow> NTSTATUS \<times> UCHAR list \<times> nat option" where
  "RtlpCompressBufferLZNT1 src dst_size = compress_loop src dst_size []"

definition RtlCompressBuffer :: "USHORT \<Rightarrow> UCHAR list \<Rightarrow> nat \<Rightarrow> NTSTATUS \<times> UCHAR list \<times> nat option" where
  "RtlCompressBuffer CompressionFormatAndEngine UncompressedBuffer CompressedBufferSize =
     (let Format = CompressionFormatAndEngine AND COMPRESSION_FORMAT_MASK
      in if Format = COMPRESSION_FORMAT_NONE \<or> Format = COMPRESSION_FORMAT_DEFAULT then (STATUS_INVALID_PARAMETER, [], None)
      else if Format = COMPRESSION_FORMAT_LZNT1 then RtlpCompressBufferLZNT1 UncompressedBuffer CompressedBufferSize
      else (STATUS_UNSUPPORTED_COMPRESSION, [], None))"

definition RtlpWorkSpaceSizeLZNT1 :: "USHORT \<Rightarrow> NTSTATUS \<times> (ULONG \<times> ULONG) option" where
  "RtlpWorkSpaceSizeLZNT1 Engine =
     (if Engine = COMPRESSION_ENGINE_STANDARD then (STATUS_SUCCESS, Some (0x8010, 0x1000))
      else if Engine = COMPRESSION_ENGINE_MAXIMUM then (STATUS_SUCCESS, Some (0x10, 0x1000))
      else (STATUS_NOT_SUPPORTED, None))"

definition RtlGetCompressionWorkSpaceSize :: "USHORT \<Rightarrow> NTSTATUS \<times> (ULONG \<times> ULONG) option" where
  "RtlGetCompressionWorkSpaceSize CompressionFormatAndEngine =
     (let Format = CompressionFormatAndEngine AND COMPRESSION_FORMAT_MASK;
          Engine = CompressionFormatAndEngine AND COMPRESSION_ENGINE_MASK
      in if Format = COMPRESSION_FORMAT_NONE \<or> Format = COMPRESSION_FORMAT_DEFAULT then (STATUS_INVALID_PARAMETER, None)
      else if Format = COMPRESSION_FORMAT_LZNT1 then RtlpWorkSpaceSizeLZNT1 Engine
      else (STATUS_UNSUPPORTED_COMPRESSION, None))"

end
