(* ===== verification/Rtl_Compress_Safe.thy ===== *)
theory Rtl_Compress_Safe
  imports Rtl_Compress
begin

text \<open>
  Decompression of arbitrary data: whatever the buffer holds, nothing is read outside of it or of the bytes
  already written, and no more is written than fits the output.
\<close>

lemma word_at_Some: "i + 2 \<le> length b \<Longrightarrow> \<exists>w. word_at b i = Some w"
  by (simp add: word_at_def)

lemma copy_loop_Some:
  "0 < d \<Longrightarrow> d \<le> length dst \<Longrightarrow> length dst \<le> dst_size \<Longrightarrow>
   \<exists>full out. copy_loop dst_size d n dst = Some (full, out) \<and> length out \<le> dst_size"
  by (induction n arbitrary: dst) auto

fun entities_written :: "entities \<Rightarrow> UCHAR list" where
  "entities_written (Behind c dst) = dst"
| "entities_written (Full dst) = dst"
| "entities_written (Null dst) = dst"

lemma entity_Some:
  assumes "src_cur < src_end" "src_end \<le> length src" "length dst \<le> dst_size"
  shows "\<exists>r. entity dst_size src src_end flags src_cur dst = Some r \<and> length (entities_written r) \<le> dst_size"
proof (cases "flags AND 1 \<noteq> 0 \<and> \<not> src_cur + 2 > src_end")
  case True
  then obtain code where "word_at src src_cur = Some code" using word_at_Some assms(2) by (metis le_trans not_less)
  note code = this
  let ?lb = "16 - bits_loop (length dst) 12"
  let ?d = "unat (drop_bit ?lb code) + 1" and ?n = "unat (code AND (2 ^ ?lb - 1)) + 3"
  show ?thesis
  proof (cases "length dst < ?d")
    case False
    then obtain full out where "copy_loop dst_size ?d ?n dst = Some (full, out)" "length out \<le> dst_size"
      using copy_loop_Some [of ?d dst dst_size ?n] assms(3) by auto
    with True False code show ?thesis
      by (intro exI [of _ "if full then Full out else Behind (src_cur + 2) out"]) (simp add: entity_def reference_def Let_def)
  qed (use True code assms(3) in \<open>simp add: entity_def reference_def Let_def\<close>)
next
  case False
  with assms show ?thesis by (auto simp: entity_def reference_def literal_def byte_at_def)
qed

lemma entity_loop_Some:
  "src_end \<le> length src \<Longrightarrow> length dst \<le> dst_size \<Longrightarrow>
   \<exists>r. entity_loop dst_size src src_end flags src_cur dst = Some r \<and> length (entities_written r) \<le> dst_size"
proof (induction dst_size src src_end flags src_cur dst rule: entity_loop.induct)
  case (1 dst_size src src_end flags src_cur dst)
  note eq = entity_loop.simps [of dst_size src src_end flags src_cur dst]
  show ?case
  proof (cases "flags AND 0xFF00 \<noteq> 0 \<and> src_cur < src_end")
    case True
    with entity_Some "1.prems" obtain r where r: "entity dst_size src src_end flags src_cur dst = Some r"
      "length (entities_written r) \<le> dst_size" by blast
    show ?thesis
    proof (cases r)
      case (Behind c d)
      with "1.IH" [OF True r(1) Behind "1.prems"(1)] r True show ?thesis by (simp add: eq)
    qed (use eq True r in auto)
  qed (use eq "1.prems" in auto)
qed

lemma chunk_loop_Some:
  "src_end \<le> length src \<Longrightarrow> length dst \<le> dst_size \<Longrightarrow>
   \<exists>ok out. chunk_loop dst_size src src_end src_cur dst = Some (ok, out) \<and> length out \<le> dst_size"
proof (induction dst_size src src_end src_cur dst rule: chunk_loop.induct)
  case (1 dst_size src src_end src_cur dst)
  note eq = chunk_loop.simps [of dst_size src src_end src_cur dst]
  show ?case
  proof (cases "src_cur < src_end \<and> length dst < dst_size")
    case True
    then have b: "byte_at src src_cur = Some (src ! src_cur)" using "1.prems" by (simp add: byte_at_def)
    from entity_loop_Some "1.prems" obtain r where
      r: "entity_loop dst_size src src_end (0x8000 OR ucast (src ! src_cur)) (src_cur + 1) dst = Some r"
      "length (entities_written r) \<le> dst_size" by blast
    show ?thesis
    proof (cases r)
      case (Behind c d)
      with "1.IH" [OF True b r(1) Behind "1.prems"(1)] r True b show ?thesis by (simp add: eq)
    qed (use eq True r b in auto)
  qed (use eq "1.prems" in auto)
qed

lemma decompress_chunk_Some:
  assumes "src_cur + src_size \<le> length src"
  obtains ok out where "lznt1_decompress_chunk dst_size src src_cur src_size = Some (ok, out)" "length out \<le> dst_size"
  using chunk_loop_Some [OF assms, of "[]" dst_size src_cur] by (auto simp: lznt1_decompress_chunk_def)

fun stage_written :: "stage \<Rightarrow> UCHAR list" where
  "stage_written (At offset src_cur dst) = dst"
| "stage_written (Out dst) = dst"
| "stage_written (Error Status dst) = dst"

fun stage_ok :: "stage \<Rightarrow> bool" where
  "stage_ok (Error Status dst) = (Status \<noteq> STATUS_SUCCESS)"
| "stage_ok _ = True"

lemma skip_loop_Some: "\<exists>s. skip_loop src offset src_cur = Some s \<and> stage_written s = [] \<and> stage_ok s"
proof (induction src offset src_cur rule: skip_loop.induct)
  case (1 src offset src_cur)
  note eq = skip_loop.simps [of src offset src_cur]
  show ?case
  proof (cases "offset \<ge> 0x1000 \<and> src_cur + 2 \<le> length src")
    case True
    then obtain w where w: "word_at src src_cur = Some w" using word_at_Some by blast
    with "1.IH" [OF True w] True show ?thesis by (auto simp: eq Let_def)
  qed (use eq in auto)
qed

lemma partial_chunk_Some:
  "\<exists>s. partial_chunk dst_size src workspace offset src_cur = Some s \<and> length (stage_written s) \<le> dst_size \<and> stage_ok s"
proof (cases "offset \<noteq> 0 \<and> src_cur + 2 \<le> length src")
  case True
  then obtain w where w: "word_at src src_cur = Some w" using word_at_Some by blast
  let ?size = "unat (w AND 0xFFF) + 1"
  show ?thesis
  proof (cases "src_cur + 2 + ?size \<le> length src")
    case fits: True
    obtain ok out where out: "lznt1_decompress_chunk 0x1000 src (src_cur + 2) ?size = Some (ok, out)"
      by (rule decompress_chunk_Some [OF fits])
    have "length out > offset \<Longrightarrow> \<exists>b. bytes_at out offset (min (length out - offset) dst_size) = Some b \<and> length b \<le> dst_size"
      by (auto simp: bytes_at_def min_def)
    moreover have "?size > offset \<Longrightarrow> \<exists>b. bytes_at src (src_cur + 2 + offset) (min (?size - offset) dst_size) = Some b \<and> length b \<le> dst_size"
      using fits by (auto simp: bytes_at_def min_def)
    ultimately show ?thesis
      using True w out unfolding partial_chunk_def Let_def by (cases ok) (auto split: if_splits)
  qed (use True w in \<open>auto simp: partial_chunk_def Let_def\<close>)
qed (auto simp: partial_chunk_def)

lemma bytes_at_min: "i + a \<le> length b \<Longrightarrow> bytes_at b i (min a k) = Some (take (min a k) (drop i b))"
  by (simp add: bytes_at_def min_def)

lemma chunk_data_Some:
  assumes "src_cur + chunk_size \<le> length src"
  obtains ok block where "chunk_data room src chunk_header src_cur chunk_size = Some (ok, block)" "length block \<le> room"
proof (cases "chunk_header AND 0x8000 \<noteq> 0")
  case True
  obtain ok out where "lznt1_decompress_chunk room src src_cur chunk_size = Some (ok, out)" "length out \<le> room"
    by (rule decompress_chunk_Some [OF assms])
  with True show thesis by (intro that [of ok out]) (simp_all add: chunk_data_def)
next
  case False
  with assms show thesis
    by (intro that [of True "take (min chunk_size room) (drop src_cur src)"]) (simp_all add: chunk_data_def bytes_at_min)
qed

lemma rest_chunk_Some:
  assumes "src_cur + 2 \<le> length src" "length dst \<le> dst_size"
  shows "\<exists>s. rest_chunk dst_size src offset src_cur dst = Some s \<and> length (stage_written s) \<le> dst_size \<and> stage_ok s"
proof -
  obtain w where w: "word_at src src_cur = Some w" using word_at_Some assms(1) by blast
  define block_size where "block_size = (length dst + offset) mod 0x1000"
  define padding where "padding = (if block_size \<noteq> 0 then 0x1000 - block_size else 0)"
  define chunk_size where "chunk_size = unat (w AND 0xFFF) + 1"
  note eq = rest_chunk_def [of dst_size src offset src_cur dst, unfolded w option.case Let_def, folded block_size_def,
      folded padding_def chunk_size_def]
  show ?thesis
  proof (cases "src_cur + 2 + chunk_size > length src")
    case True
    with assms(2) show ?thesis unfolding eq by auto
  next
    case False
    then have "src_cur + 2 + chunk_size \<le> length src" by simp
    then obtain ok block where b: "chunk_data (dst_size - (length dst + padding)) src w (src_cur + 2) chunk_size = Some (ok, block)"
      "length block \<le> dst_size - (length dst + padding)"
      by (rule chunk_data_Some)
    have "block_size = 0 \<Longrightarrow> padding = 0" by (simp add: padding_def)
    with False assms(2) b show ?thesis unfolding eq by auto
  qed
qed

lemma rest_loop_Some:
  "length dst \<le> dst_size \<Longrightarrow>
   \<exists>s. rest_loop dst_size src offset src_cur dst = Some s \<and> length (stage_written s) \<le> dst_size \<and> stage_ok s"
proof (induction dst_size src offset src_cur dst rule: rest_loop.induct)
  case (1 dst_size src offset src_cur dst)
  note eq = rest_loop.simps [of dst_size src offset src_cur dst]
  show ?case
  proof (cases "src_cur + 2 \<le> length src")
    case True
    then obtain s where s: "rest_chunk dst_size src offset src_cur dst = Some s" "length (stage_written s) \<le> dst_size" "stage_ok s"
      using rest_chunk_Some "1.prems" by blast
    show ?thesis
    proof (cases s)
      case (At o1 c1 d1)
      with "1.IH" [OF True s(1) At] s True show ?thesis by (simp add: eq)
    qed (use eq True s in auto)
  qed (use eq "1.prems" in auto)
qed

lemma finish_ok:
  "length (stage_written s) \<le> n \<Longrightarrow> stage_ok s \<Longrightarrow>
   case finish s of (Status, dst, final_size) \<Rightarrow>
     length dst \<le> n \<and> final_size = (if Status = STATUS_SUCCESS then Some (length dst) else None)"
  by (cases s) (auto simp: finish_def)

lemma lznt1_decompress_Some:
  "\<exists>s. lznt1_decompress dst_size src offset workspace = Some (finish s) \<and> length (stage_written s) \<le> dst_size \<and> stage_ok s"
proof (cases "2 > length src")
  case True
  then show ?thesis
    by (intro exI [of _ "Error STATUS_BAD_COMPRESSION_BUFFER []"]) (simp add: lznt1_decompress_def finish_def)
next
  case False
  obtain s1 where s1: "skip_loop src offset 0 = Some s1" "stage_written s1 = []" "stage_ok s1"
    using skip_loop_Some by blast
  show ?thesis
  proof (cases s1)
    case (At o1 c1 d1)
    obtain s2 where s2: "partial_chunk dst_size src workspace o1 c1 = Some s2" "length (stage_written s2) \<le> dst_size" "stage_ok s2"
      using partial_chunk_Some by blast
    show ?thesis
    proof (cases s2)
      case (At o2 c2 d2)
      with s2(2) rest_loop_Some [of d2 dst_size src o2 c2] s1(1) \<open>s1 = At o1 c1 d1\<close> s2(1) False show ?thesis
        by (auto simp: lznt1_decompress_def)
    qed (use s1(1) \<open>s1 = At o1 c1 d1\<close> s2 False in \<open>auto simp: lznt1_decompress_def\<close>)
  qed (use s1 False in \<open>auto simp: lznt1_decompress_def\<close>)
qed

text \<open>
  C9. \<^verbatim>\<open>RtlDecompressFragment\<close> is safe on every input: it returns, reads only from the buffer it is given and from what
  it has written, writes at most as many bytes as the output holds, and sets the final size, to the number
  of bytes written, exactly when it succeeds.
\<close>

theorem RtlDecompressFragment_safe:
  "\<exists>Status dst. RtlDecompressFragment format uncompressed_size compressed offset workspace =
     Some (Status, dst, if Status = STATUS_SUCCESS then Some (length dst) else None) \<and> length dst \<le> uncompressed_size"
proof -
  obtain s where s: "lznt1_decompress uncompressed_size compressed offset workspace = Some (finish s)"
    "length (stage_written s) \<le> uncompressed_size" "stage_ok s"
    using lznt1_decompress_Some by blast
  with finish_ok [OF s(2,3)] show ?thesis
    by (cases "finish s") (auto simp: RtlDecompressFragment_def Let_def)
qed

end
