(* ===== verification/Rtl_Lznt1.thy ===== *)
theory Rtl_Lznt1
  imports Rtl_Compress_Safe
begin

text \<open>
  The LZNT1 format. A compressed chunk is a sequence of literal bytes and of references to earlier data,
  written in groups of eight behind a byte of flags. Decompression of such a chunk is the expansion of the
  sequence, cut to the size of the output.
\<close>

section \<open>Tokens\<close>

datatype token = Literal UCHAR | Reference nat nat

fun expand_copy :: "nat \<Rightarrow> nat \<Rightarrow> UCHAR list \<Rightarrow> UCHAR list" where
  "expand_copy d 0 out = out"
| "expand_copy d (Suc n) out = expand_copy d n (out @ [out ! (length out - d)])"

fun expand_token :: "UCHAR list \<Rightarrow> token \<Rightarrow> UCHAR list" where
  "expand_token out (Literal b) = out @ [b]"
| "expand_token out (Reference d l) = expand_copy d l out"

definition expand :: "UCHAR list \<Rightarrow> token list \<Rightarrow> UCHAR list" where
  "expand = foldl expand_token"

lemma expand_simps [simp]: "expand out [] = out" "expand out (t # ts) = expand (expand_token out t) ts"
  by (simp_all add: expand_def)

lemma expand_append [simp]: "expand out (ts @ us) = expand (expand out ts) us"
  by (simp add: expand_def)

lemma expand_copy_prefix: "\<exists>xs. expand_copy d n out = out @ xs \<and> length xs = n"
proof (induction n arbitrary: out)
  case (Suc n)
  from Suc [of "out @ [out ! (length out - d)]"] show ?case by auto
qed simp

lemma length_expand_copy [simp]: "length (expand_copy d n out) = length out + n"
  using expand_copy_prefix [of d n out] by auto

lemma expand_token_prefix: "\<exists>xs. expand_token out t = out @ xs"
proof (cases t)
  case (Reference d l)
  then show ?thesis using expand_copy_prefix [of d l out] by auto
qed simp

lemma expand_prefix: "\<exists>xs. expand out ts = out @ xs"
proof (induction ts arbitrary: out)
  case (Cons t ts)
  then show ?case using expand_token_prefix [of out t] by (metis append.assoc expand_simps(2))
qed simp

lemma take_expand: "n \<le> length out \<Longrightarrow> take n (expand out ts) = take n out"
  using expand_prefix [of out ts] by auto

section \<open>Codes\<close>

text \<open>
  A code has 16 bits. How many of them are for the displacement depends on the number of bytes that the chunk
  stands for so far: enough for every byte that can be referred to, and from 4 to 12.
\<close>

definition bits :: "nat \<Rightarrow> nat" where
  "bits written =
     (if written \<le> 16 then 4 else if written \<le> 32 then 5 else if written \<le> 64 then 6 else if written \<le> 128 then 7
      else if written \<le> 256 then 8 else if written \<le> 512 then 9 else if written \<le> 1024 then 10
      else if written \<le> 2048 then 11 else 12)"

lemma bits_range: "4 \<le> bits n" "bits n \<le> 12"
  by (simp_all add: bits_def)

lemma bits_enough: "n \<le> 4096 \<Longrightarrow> n \<le> 2 ^ bits n"
  by (simp add: bits_def)

text \<open>The loop of the code finds this number.\<close>

lemma bits_loop_Suc: "4 \<le> b \<Longrightarrow> bits_loop n (Suc b) = (if 2 ^ b < n then Suc b else bits_loop n b)"
  by (subst bits_loop.simps) simp

lemma bits_loop_bits: "bits_loop n 12 = bits n"
proof -
  have "bits_loop n 4 = 4" by (subst bits_loop.simps) simp
  with bits_loop_Suc [of 4 n] bits_loop_Suc [of 5 n] bits_loop_Suc [of 6 n] bits_loop_Suc [of 7 n] bits_loop_Suc [of 8 n]
    bits_loop_Suc [of 9 n] bits_loop_Suc [of 10 n] bits_loop_Suc [of 11 n]
  show ?thesis by (simp add: bits_def)
qed

definition code :: "nat \<Rightarrow> nat \<Rightarrow> nat \<Rightarrow> USHORT" where
  "code written d l = of_nat ((d - 1) * 2 ^ (16 - bits written) + (l - 3))"

lemma code_parts:
  assumes "0 < d" "d \<le> 2 ^ bits n" "3 \<le> l" "l < 2 ^ (16 - bits n) + 3"
  shows "unat (code n d l AND (2 ^ (16 - bits n) - 1)) + 3 = l" "unat (drop_bit (16 - bits n) (code n d l)) + 1 = d"
proof -
  let ?lb = "16 - bits n" and ?m = "(d - 1) * 2 ^ (16 - bits n) + (l - 3)"
  have "?m < (d - 1) * 2 ^ ?lb + 2 ^ ?lb" using assms(3,4) by simp
  also have "\<dots> = d * 2 ^ ?lb" using assms(1) by (cases d) simp_all
  also have "\<dots> \<le> 2 ^ bits n * 2 ^ ?lb" using assms(2) by simp
  also have "\<dots> = 65536" using bits_range(2) [of n] by (simp flip: power_add)
  finally have lt: "?m < 65536" .
  then have m: "unat (code n d l) = ?m" by (simp only: code_def unat_of_nat_16)
  have low: "code n d l AND (2 ^ ?lb - 1) = take_bit ?lb (code n d l)" by (simp add: take_bit_eq_mask mask_eq_exp_minus_1)
  have "unat (code n d l AND (2 ^ ?lb - 1)) = ?m mod 2 ^ ?lb"
    unfolding low unsigned_take_bit_eq m by (rule take_bit_eq_mod)
  moreover have small: "l - 3 < 2 ^ ?lb" using assms(3,4) by simp
  ultimately show "unat (code n d l AND (2 ^ ?lb - 1)) + 3 = l" using assms(3) by (simp only: mod_mult_self3 mod_less)
  have "unat (drop_bit ?lb (code n d l)) = ?m div 2 ^ ?lb" 
    unfolding unsigned_drop_bit_eq m using take_bit_nat_eq_self [of ?m 16] lt by (simp only: len_num0 len_bit0 len_bit1 len_num1)
      (simp add: drop_bit_eq_div)
  also have "\<dots> = (d - 1) + (l - 3) div 2 ^ ?lb" by (rule div_mult_self3) simp
  finally show "unat (drop_bit ?lb (code n d l)) + 1 = d" using assms(1) small by simp
qed

lemma word_bytes_join:
  "push_bit 8 (ucast (ucast (drop_bit 8 w :: USHORT) :: UCHAR)) OR ucast (ucast w :: UCHAR) = w"
  by (rule bit_word_eqI) (auto simp: bit_simps)

lemma word_at_word_bytes: "word_at (pre @ word_bytes w @ post) (length pre) = Some w"
  using word_bytes_join [of w] by (simp add: word_at_def word_bytes_def nth_append)

fun token_ok :: "nat \<Rightarrow> token \<Rightarrow> bool" where
  "token_ok written (Literal b) = True"
| "token_ok written (Reference d l) =
     (0 < d \<and> d \<le> written \<and> d \<le> 2 ^ bits written \<and> 3 \<le> l \<and> l < 2 ^ (16 - bits written) + 3)"

fun token_bytes :: "nat \<Rightarrow> token \<Rightarrow> UCHAR list" where
  "token_bytes written (Literal b) = [b]"
| "token_bytes written (Reference d l) = word_bytes (code written d l)"

fun is_reference :: "token \<Rightarrow> bool" where
  "is_reference (Literal b) = False"
| "is_reference (Reference d l) = True"

lemma copy_loop_expand:
  "0 < d \<Longrightarrow> d \<le> length out \<Longrightarrow> length out \<le> n \<Longrightarrow>
   copy_loop n d l out = Some (length out + l > n, take n (expand_copy d l out))"
proof (induction l arbitrary: out)
  case (Suc l)
  show ?case
  proof (cases "n \<le> length out")
    case True
    with Suc.prems show ?thesis using expand_copy_prefix [of d "Suc l" out] by auto
  next
    case False
    then show ?thesis using Suc.IH [of "out @ [out ! (length out - d)]"] Suc.prems by simp
  qed
qed simp

lemma entity_token:
  assumes ok: "token_ok (length dst) t" and len: "length dst \<le> n"
    and flag: "flags AND 1 \<noteq> 0 \<longleftrightarrow> is_reference t"
    and src: "src = pre @ token_bytes (length dst) t @ post" and e: "length pre + length (token_bytes (length dst) t) \<le> src_end"
  shows "entity n src src_end flags (length pre) dst =
    Some (if length (expand_token dst t) \<le> n then Behind (length pre + length (token_bytes (length dst) t)) (expand_token dst t)
          else Full (take n (expand_token dst t)))"
proof (cases t)
  case (Literal b)
  with assms show ?thesis by (auto simp: entity_def literal_def byte_at_def)
next
  case (Reference d l)
  let ?c = "code (length dst) d l"
  note parts = code_parts [of d "length dst" l]
  have w: "word_at src (length pre) = Some ?c" unfolding src Reference by (simp add: word_at_word_bytes)
  have "length (word_bytes ?c) = 2" by (simp add: word_bytes_def)
  with assms Reference w parts copy_loop_expand [of d dst n l] show ?thesis
    by (simp add: entity_def reference_def Let_def bits_loop_bits)
qed

section \<open>Groups of eight\<close>

lemma flags_constants: "(0x8000 :: USHORT) = push_bit 15 1" "(0xFF00 :: USHORT) = push_bit 8 (mask 8)"
  by (simp_all add: mask_eq_exp_minus_1)

lemma bit_8000: "bit (0x8000 :: USHORT) k \<longleftrightarrow> k = 15"
  by (simp only: flags_constants(1) bit_push_bit_iff bit_1_iff) auto

lemma flag_bit: "k < 8 \<Longrightarrow> drop_bit k (0x8000 OR ucast b :: USHORT) AND 1 \<noteq> 0 \<longleftrightarrow> bit (b :: UCHAR) k"
proof -
  have low: "x AND 1 \<noteq> 0 \<longleftrightarrow> bit x 0" for x :: USHORT by (simp add: and_one_eq bit_0 odd_iff_mod_2_eq_one)
  show "k < 8 \<Longrightarrow> ?thesis" unfolding low using bit_8000 [of k] by (auto simp: bit_drop_bit_eq bit_or_iff bit_ucast_iff)
qed

lemma flags_left: "drop_bit k (0x8000 OR ucast (b :: UCHAR) :: USHORT) AND 0xFF00 \<noteq> 0 \<longleftrightarrow> k < 8"
proof
  assume k: "k < 8"
  then have "bit (drop_bit k (0x8000 OR ucast b :: USHORT) AND 0xFF00) (15 - k)"
    unfolding flags_constants by (auto simp: bit_simps)
  then show "drop_bit k (0x8000 OR ucast b :: USHORT) AND 0xFF00 \<noteq> 0" by auto
next
  assume ne: "drop_bit k (0x8000 OR ucast b :: USHORT) AND 0xFF00 \<noteq> 0"
  show "k < 8"
  proof (rule ccontr)
    assume "\<not> k < 8"
    then have "drop_bit k (0x8000 OR ucast b :: USHORT) AND 0xFF00 = 0"
      unfolding flags_constants by (intro bit_word_eqI) (auto simp: bit_simps)
    with ne show False by simp
  qed
qed

fun bodies :: "UCHAR list \<Rightarrow> token list \<Rightarrow> UCHAR list" where
  "bodies out [] = []"
| "bodies out (t # ts) = token_bytes (length out) t @ bodies (expand_token out t) ts"

fun tokens_ok :: "UCHAR list \<Rightarrow> token list \<Rightarrow> bool" where
  "tokens_ok out [] = True"
| "tokens_ok out (t # ts) = (token_ok (length out) t \<and> tokens_ok (expand_token out t) ts)"

lemma tokens_ok_append [simp]: "tokens_ok out (ts @ us) \<longleftrightarrow> tokens_ok out ts \<and> tokens_ok (expand out ts) us"
  by (induction ts arbitrary: out) auto

definition flag_byte :: "token list \<Rightarrow> UCHAR" where
  "flag_byte ts = horner_sum of_bool 2 (map is_reference ts)"

lemma bit_flag_byte: "length ts \<le> 8 \<Longrightarrow> i < length ts \<Longrightarrow> bit (flag_byte ts) i \<longleftrightarrow> is_reference (ts ! i)"
  by (simp add: flag_byte_def bit_horner_sum_bit_word_iff)

lemma token_grows: "token_ok (length out) t \<Longrightarrow> length out < length (expand_token out t)"
  by (cases t) auto

lemma token_bytes_ne: "token_bytes n t \<noteq> []"
  by (cases t) (auto simp: word_bytes_def)

text \<open>\<open>k\<close> entities of the group have been read already.\<close>

lemma entity_loop_group:
  assumes "tokens_ok dst ts" "length dst \<le> n" "k + length ts \<le> 8"
    and "\<forall>i < length ts. bit b (k + i) \<longleftrightarrow> is_reference (ts ! i)"
    and "src = pre @ bodies dst ts @ post" "length pre + length (bodies dst ts) \<le> src_end"
    and "k + length ts = 8 \<or> src_end = length pre + length (bodies dst ts)"
  shows "entity_loop n src src_end (drop_bit k (0x8000 OR ucast (b :: UCHAR))) (length pre) dst =
    Some (if length (expand dst ts) \<le> n then Behind (length pre + length (bodies dst ts)) (expand dst ts)
          else Full (take n (expand dst ts)))"
  using assms
proof (induction ts arbitrary: k pre dst)
  case Nil
  then have "\<not> (drop_bit k (0x8000 OR ucast b :: USHORT) AND 0xFF00 \<noteq> 0 \<and> length pre < src_end)"
    unfolding flags_left by auto
  with Nil show ?case unfolding entity_loop.simps [of n src src_end _ "length pre"] by (simp only: if_False) simp
next
  case (Cons t ts)
  let ?tb = "token_bytes (length dst) t" and ?dst = "expand_token dst t"
  have k: "k < 8" using Cons.prems(3) by simp
  have more: "drop_bit k (0x8000 OR ucast b :: USHORT) AND 0xFF00 \<noteq> 0 \<and> length pre < src_end"
  proof
    show "drop_bit k (0x8000 OR ucast b :: USHORT) AND 0xFF00 \<noteq> 0" unfolding flags_left by (rule k)
    have "0 < length ?tb" using token_bytes_ne [of "length dst" t] by simp
    with Cons.prems(6) show "length pre < src_end" by (simp only: bodies.simps length_append)
  qed
  have flag: "drop_bit k (0x8000 OR ucast b :: USHORT) AND 1 \<noteq> 0 \<longleftrightarrow> is_reference t"
    using flag_bit [OF k, of b] Cons.prems(4) by force
  have ent: "entity n src src_end (drop_bit k (0x8000 OR ucast b)) (length pre) dst =
      Some (if length ?dst \<le> n then Behind (length pre + length ?tb) ?dst else Full (take n ?dst))"
    by (rule entity_token [OF _ Cons.prems(2) flag]) (use Cons.prems in auto)
  show ?case
  proof (cases "length ?dst \<le> n")
    case True
    have "entity_loop n src src_end (drop_bit k (0x8000 OR ucast b)) (length pre) dst =
        entity_loop n src src_end (drop_bit (Suc k) (0x8000 OR ucast b)) (length (pre @ ?tb)) ?dst"
      using more ent True by (subst entity_loop.simps) (simp add: drop_bit_drop_bit)
    also have "\<dots> = Some (if length (expand ?dst ts) \<le> n then Behind (length (pre @ ?tb) + length (bodies ?dst ts)) (expand ?dst ts)
          else Full (take n (expand ?dst ts)))"
      by (rule Cons.IH) (use Cons.prems True in auto)
    finally show ?thesis by simp
  next
    case False
    then have "entity_loop n src src_end (drop_bit k (0x8000 OR ucast b)) (length pre) dst = Some (Full (take n ?dst))"
      using more ent by (subst entity_loop.simps) simp
    moreover have "\<not> length (expand ?dst ts) \<le> n" using False expand_prefix [of ?dst ts] by auto
    ultimately show ?thesis using take_expand [of n ?dst ts] False by simp
  qed
qed

section \<open>A chunk\<close>

function encode :: "UCHAR list \<Rightarrow> token list \<Rightarrow> UCHAR list" where
  "encode out ts =
     (if ts = [] then []
      else flag_byte (take 8 ts) # bodies out (take 8 ts) @ encode (expand out (take 8 ts)) (drop 8 ts))"
  by pat_completeness auto
termination
  by (relation "measure (\<lambda>(_, ts). length ts)") auto

declare encode.simps [simp del]

lemma chunk_loop_encode:
  assumes "tokens_ok dst ts" "length dst \<le> n" "src = pre @ encode dst ts @ post"
  shows "chunk_loop n src (length pre + length (encode dst ts)) (length pre) dst = Some (True, take n (expand dst ts))"
  using assms
proof (induction dst ts arbitrary: pre rule: encode.induct)
  case (1 dst ts)
  show ?case
  proof (cases "ts = [] \<or> length dst = n")
    case True
    then have "\<not> (length pre < length pre + length (encode dst ts) \<and> length dst < n)"
      by (auto simp: encode.simps [of dst "[]"])
    with True "1.prems"(2) take_expand [of n dst ts] show ?thesis by (subst chunk_loop.simps) auto
  next
    case False
    let ?g = "take 8 ts" and ?r = "drop 8 ts"
    let ?body = "bodies dst ?g" and ?rest = "encode (expand dst ?g) ?r"
    have enc: "encode dst ts = flag_byte ?g # ?body @ ?rest" using False by (subst encode.simps) simp
    let ?stop = "length pre + length (encode dst ts)"
    have stop_eq: "?stop = length ((pre @ [flag_byte ?g]) @ ?body) + length ?rest" using enc by simp
    have byte: "byte_at src (length pre) = Some (flag_byte ?g)"
      using "1.prems"(3) enc by (simp add: byte_at_def nth_append)
    have oks: "tokens_ok dst ?g" "tokens_ok (expand dst ?g) ?r"
      using "1.prems"(1) tokens_ok_append [of dst ?g ?r] by simp_all
    have src: "src = (pre @ [flag_byte ?g]) @ ?body @ (?rest @ post)" using "1.prems"(3) enc by simp
    have last: "0 + length ?g = 8 \<or> ?stop = length (pre @ [flag_byte ?g]) + length ?body"
      using enc by (auto simp: encode.simps [of _ "[]"] min_def)
    have loop: "entity_loop n src ?stop (drop_bit 0 (0x8000 OR ucast (flag_byte ?g))) (length (pre @ [flag_byte ?g])) dst =
        Some (if length (expand dst ?g) \<le> n then Behind (length (pre @ [flag_byte ?g]) + length ?body) (expand dst ?g)
              else Full (take n (expand dst ?g)))"
      by (rule entity_loop_group [OF oks(1) "1.prems"(2) _ _ src _ last]) (use enc bit_flag_byte [of ?g] in auto)
    have whole: "expand dst ts = expand (expand dst ?g) ?r" using expand_append [of dst ?g ?r] by simp
    show ?thesis
    proof (cases "length (expand dst ?g) \<le> n")
      case True
      have "chunk_loop n src ?stop (length pre) dst =
          chunk_loop n src ?stop (length ((pre @ [flag_byte ?g]) @ ?body)) (expand dst ?g)"
        using False "1.prems"(2) enc byte loop True by (subst chunk_loop.simps) simp
      also have "\<dots> = chunk_loop n src (length ((pre @ [flag_byte ?g]) @ ?body) + length ?rest)
          (length ((pre @ [flag_byte ?g]) @ ?body)) (expand dst ?g)" unfolding stop_eq ..
      also have "\<dots> = Some (True, take n (expand (expand dst ?g) ?r))"
        by (rule "1.IH") (use False oks(2) True src in auto)
      finally show ?thesis unfolding whole .
    next
      case big: False
      then show ?thesis
        using False "1.prems"(2) enc byte loop take_expand [of n "expand dst ?g" ?r] whole
        by (subst chunk_loop.simps) simp
    qed
  qed
qed

theorem lznt1_decompress_chunk_encode:
  assumes "tokens_ok [] ts" "src = pre @ encode [] ts @ post"
  shows "lznt1_decompress_chunk n src (length pre) (length (encode [] ts)) = Some (True, take n (expand [] ts))"
  unfolding lznt1_decompress_chunk_def using chunk_loop_encode [OF assms(1) _ assms(2)] by simp

end
