(* ===== verification/Rtl_Compress_Props.thy ===== *)
theory Rtl_Compress_Props
  imports Rtl_Lznt1
begin

text \<open>
  Streams of LZNT1 chunks: decompression of a fragment of a stream gives this fragment of the data, and
  decompression undoes compression.
\<close>

section \<open>Chunks\<close>

datatype chunk = Raw "UCHAR list" | Packed "token list"

fun payload :: "chunk \<Rightarrow> UCHAR list" where
  "payload (Raw bs) = bs"
| "payload (Packed ts) = encode [] ts"

fun plain :: "chunk \<Rightarrow> UCHAR list" where
  "plain (Raw bs) = bs"
| "plain (Packed ts) = expand [] ts"

fun is_packed :: "chunk \<Rightarrow> bool" where
  "is_packed (Raw bs) = False"
| "is_packed (Packed ts) = True"

definition header :: "chunk \<Rightarrow> USHORT" where
  "header c = (if is_packed c then 0xB000 else 0x3000) OR of_nat (length (payload c) - 1)"

definition chunk_bytes :: "chunk \<Rightarrow> UCHAR list" where
  "chunk_bytes c = word_bytes (header c) @ payload c"

fun chunk_ok :: "chunk \<Rightarrow> bool" where
  "chunk_ok (Raw bs) = (0 < length bs \<and> length bs \<le> 0x1000)"
| "chunk_ok (Packed ts) =
     (tokens_ok [] ts \<and> ts \<noteq> [] \<and> length (encode [] ts) \<le> 0x1000 \<and> length (expand [] ts) \<le> 0x1000)"

text \<open>Every chunk but the last one stands for 4096 bytes.\<close>

fun stream_ok :: "chunk list \<Rightarrow> bool" where
  "stream_ok [] = True"
| "stream_ok (c # cs) = (chunk_ok c \<and> (cs \<noteq> [] \<longrightarrow> length (plain c) = 0x1000) \<and> stream_ok cs)"

abbreviation stream_bytes :: "chunk list \<Rightarrow> UCHAR list" where
  "stream_bytes cs \<equiv> concat (map chunk_bytes cs)"

abbreviation stream_data :: "chunk list \<Rightarrow> UCHAR list" where
  "stream_data cs \<equiv> concat (map plain cs)"

lemma chunk_ok_payload: "chunk_ok c \<Longrightarrow> 0 < length (payload c) \<and> length (payload c) \<le> 0x1000"
  by (cases c) (auto simp: encode.simps [of "[]"])

lemma chunk_ok_plain: "chunk_ok c \<Longrightarrow> length (plain c) \<le> 0x1000"
  by (cases c) auto

lemma length_chunk_bytes [simp]: "length (chunk_bytes c) = 2 + length (payload c)"
  by (simp add: chunk_bytes_def word_bytes_def)

lemma small_word_bits: "k < 0x1000 \<Longrightarrow> take_bit 12 (of_nat k :: USHORT) = of_nat k"
  by (simp add: take_bit_of_nat take_bit_nat_eq_self)

lemma header_parts:
  assumes "chunk_ok c"
  shows "unat (header c AND 0xFFF) + 1 = length (payload c)" "header c AND 0x8000 \<noteq> 0 \<longleftrightarrow> is_packed c" "header c \<noteq> 0"
proof -
  let ?k = "length (payload c) - 1"
  have k: "?k < 0x1000" "?k + 1 = length (payload c)" using chunk_ok_payload [OF assms] by auto
  have mask: "(0xFFF :: USHORT) = mask 12" "(0x8000 :: USHORT) = 2 ^ 15" by (simp_all add: mask_eq_exp_minus_1)
  have "header c AND 0xFFF = take_bit 12 (header c)" unfolding mask(1) take_bit_eq_mask ..
  also have "\<dots> = of_nat ?k" using small_word_bits [OF k(1)] by (simp add: header_def take_bit_or)
  finally have low: "header c AND 0xFFF = of_nat ?k" .
  show "unat (header c AND 0xFFF) + 1 = length (payload c)"
    unfolding low by (subst unat_of_nat_16) (use k in simp_all)
  have "bit (of_nat ?k :: USHORT) i \<Longrightarrow> i < 12" for i
    using small_word_bits [OF k(1)] by (metis bit_take_bit_iff)
  then have no: "\<not> bit (of_nat ?k :: USHORT) 15" "\<not> bit (of_nat ?k :: USHORT) 12" by fastforce+
  show "header c AND 0x8000 \<noteq> 0 \<longleftrightarrow> is_packed c"
    unfolding mask(2) and_exp_eq_0_iff_not_bit header_def bit_or_iff using no by simp
  have "bit (header c) 12" by (simp add: header_def bit_or_iff)
  then show "header c \<noteq> 0" by auto
qed

lemma chunk_data_chunk:
  assumes "chunk_ok c" "src = pre @ chunk_bytes c @ post"
  shows "chunk_data room src (header c) (length pre + 2) (length (payload c)) = Some (True, take room (plain c))"
proof -
  have src: "src = (pre @ word_bytes (header c)) @ payload c @ post" "length (pre @ word_bytes (header c)) = length pre + 2"
    using assms(2) by (auto simp: chunk_bytes_def word_bytes_def)
  show ?thesis
  proof (cases c)
    case (Raw bs)
    then show ?thesis using assms header_parts(2) [OF assms(1)]
      by (auto simp: chunk_data_def bytes_at_def chunk_bytes_def word_bytes_def min_def)
  next
    case (Packed ts)
    then show ?thesis
      using header_parts(2) [OF assms(1)] assms(1) lznt1_decompress_chunk_encode [of ts src "pre @ word_bytes (header c)" post room] src
      by (simp add: chunk_data_def)
  qed
qed

section \<open>The remaining chunks\<close>

lemma word_at_chunk: "src = pre @ chunk_bytes c @ post \<Longrightarrow> word_at src (length pre) = Some (header c)"
  using word_at_word_bytes [of pre "header c" "payload c @ post"] by (simp add: chunk_bytes_def)

lemma rest_chunk_full:
  assumes "chunk_ok c" "src = pre @ chunk_bytes c @ post"
  shows "rest_chunk (length dst) src offset (length pre) dst = Some (Out dst)"
  using header_parts [OF assms(1)] assms(2) unfolding rest_chunk_def word_at_chunk [OF assms(2)] Let_def by auto

lemma rest_chunk_next:
  assumes "chunk_ok c" "src = pre @ chunk_bytes c @ post" "(length dst + offset) mod 0x1000 = 0" "length dst < n"
  shows "rest_chunk n src offset (length pre) dst =
    Some (At offset (length (pre @ chunk_bytes c)) (dst @ take (n - length dst) (plain c)))"
  using header_parts [OF assms(1)] assms(2-4) chunk_data_chunk [OF assms(1,2)]
  unfolding rest_chunk_def word_at_chunk [OF assms(2)] Let_def by auto

lemma rest_loop_stream:
  assumes "stream_ok cs" "src = pre @ stream_bytes cs" "length dst \<le> n"
    and "cs = [] \<or> (length dst + offset) mod 0x1000 = 0 \<or> length dst = n"
  shows "rest_loop n src offset (length pre) dst = Some (Out (dst @ take (n - length dst) (stream_data cs)))"
  using assms
proof (induction cs arbitrary: pre dst)
  case Nil
  then show ?case by (subst rest_loop.simps) simp
next
  case (Cons c cs)
  then have c: "chunk_ok c" "src = pre @ chunk_bytes c @ stream_bytes cs" by simp_all
  have here: "length pre + 2 \<le> length src" using c(2) by simp
  show ?case
  proof (cases "length dst = n")
    case True
    with rest_chunk_full [OF c, of dst] here show ?thesis by (subst rest_loop.simps) simp
  next
    case False
    with Cons.prems have lt: "length dst < n" "(length dst + offset) mod 0x1000 = 0" by auto
    let ?dst = "dst @ take (n - length dst) (plain c)"
    have "rest_loop n src offset (length pre) dst = rest_loop n src offset (length (pre @ chunk_bytes c)) ?dst"
      using rest_chunk_next [OF c lt(2,1)] here by (subst rest_loop.simps) simp
    also have "\<dots> = Some (Out (?dst @ take (n - length ?dst) (stream_data cs)))"
    proof (rule Cons.IH)
      show "cs = [] \<or> (length ?dst + offset) mod 0x1000 = 0 \<or> length ?dst = n"
      proof -
        have "(length dst + 0x1000 + offset) mod 0x1000 = 0"
          using lt(2) mod_add_self2 [of "length dst + offset" "0x1000"] by (simp only: ac_simps)
        then show ?thesis using Cons.prems(1) lt by (cases "0x1000 \<le> n - length dst") auto
      qed
    qed (use Cons.prems lt in auto)
    also have "?dst @ take (n - length ?dst) (stream_data cs) = dst @ take (n - length dst) (stream_data (c # cs))"
      using lt by (simp add: min_def)
    finally show ?thesis .
  qed
qed

section \<open>Fragments\<close>

lemma skip_loop_stream:
  assumes "stream_ok cs" "src = pre @ stream_bytes cs"
  shows "\<exists>cs' pre' offset'. skip_loop src offset (length pre) = Some (At offset' (length pre') []) \<and>
    src = pre' @ stream_bytes cs' \<and> stream_ok cs' \<and> (cs' = [] \<or> offset' < 0x1000) \<and> (offset = 0 \<longrightarrow> offset' = 0) \<and>
    drop offset' (stream_data cs') = drop offset (stream_data cs)"
  using assms
proof (induction cs arbitrary: pre offset)
  case Nil
  then have "skip_loop src offset (length pre) = Some (At offset (length pre) [])" by (subst skip_loop.simps) simp
  with Nil show ?case by (intro exI [of _ "[] :: chunk list"] exI [of _ pre] exI [of _ offset]) simp
next
  case (Cons c cs)
  show ?case
  proof (cases "offset \<ge> 0x1000")
    case True
    from Cons.prems have c: "chunk_ok c" "src = pre @ chunk_bytes c @ stream_bytes cs" by simp_all
    have "skip_loop src offset (length pre) = skip_loop src (offset - 0x1000) (length (pre @ chunk_bytes c))"
      using True header_parts [OF c(1)] c(2) word_at_chunk [OF c(2)] by (subst skip_loop.simps) (simp add: Let_def)
    moreover have "drop (offset - 0x1000) (stream_data cs) = drop offset (stream_data (c # cs))"
      using True Cons.prems(1) chunk_ok_plain [OF c(1)] by (cases "cs = []") auto
    moreover note Cons.IH [of "pre @ chunk_bytes c" "offset - 0x1000"]
    ultimately show ?thesis using Cons.prems True by auto
  next
    case False
    then have "skip_loop src offset (length pre) = Some (At offset (length pre) [])" by (subst skip_loop.simps) simp
    with False Cons.prems show ?thesis by (intro exI [of _ "c # cs"] exI [of _ pre] exI [of _ offset]) simp
  qed
qed

lemma partial_chunk_stream:
  assumes c: "chunk_ok c" "src = pre @ chunk_bytes c @ post" and offset: "0 < offset" "n \<noteq> 0"
  shows "partial_chunk n src True offset (length pre) =
    Some (At offset (length (pre @ chunk_bytes c)) (take n (drop offset (plain c))))"
proof -
  have src: "src = (pre @ word_bytes (header c)) @ payload c @ post" "length (pre @ word_bytes (header c)) = length pre + 2"
    using c(2) by (auto simp: chunk_bytes_def word_bytes_def)
  note H = header_parts [OF c(1)] word_at_chunk [OF c(2)]
  show ?thesis
  proof (cases c)
    case (Raw bs)
    then have "bytes_at src (length pre + 2 + offset) (min (length bs - offset) n) = Some (take n (drop offset bs))"
      if "offset < length bs" using that src by (auto simp: bytes_at_def min_def)
    with H Raw c(2) offset show ?thesis by (auto simp: partial_chunk_def Let_def)
  next
    case (Packed ts)
    then have "lznt1_decompress_chunk 0x1000 src (length pre + 2) (length (payload c)) = Some (True, plain c)"
      using lznt1_decompress_chunk_encode [of ts src "pre @ word_bytes (header c)" post "0x1000"] c(1) src by simp
    moreover have "bytes_at (plain c) offset (min (length (plain c) - offset) n) = Some (take n (drop offset (plain c)))"
      if "offset < length (plain c)" using that by (auto simp: bytes_at_def min_def)
    ultimately show ?thesis using H Packed c(2) offset by (auto simp: partial_chunk_def Let_def)
  qed
qed

lemma lznt1_decompress_stream:
  fixes n :: nat
  assumes cs: "stream_ok cs" "cs \<noteq> []" and w: "workspace \<or> offset = 0"
  defines "out \<equiv> take n (drop offset (stream_data cs))"
  shows "lznt1_decompress n (stream_bytes cs) offset workspace = Some (STATUS_SUCCESS, out, Some (length out))"
proof -
  let ?src = "stream_bytes cs"
  have long: "\<not> 2 > length ?src" using cs(2) by (cases cs) auto
  obtain cs' pre o1 where s: "skip_loop ?src offset 0 = Some (At o1 (length pre) [])" "?src = pre @ stream_bytes cs'"
    "stream_ok cs'" "cs' = [] \<or> o1 < 0x1000" "offset = 0 \<longrightarrow> o1 = 0" "drop o1 (stream_data cs') = drop offset (stream_data cs)"
    using skip_loop_stream [OF cs(1), of ?src "[]" offset, unfolded append_Nil list.size(3), OF refl] by blast
  have "(case partial_chunk n ?src workspace o1 (length pre) of
        Some (At offset src_cur dst) \<Rightarrow> map_option finish (rest_loop n ?src offset src_cur dst)
      | st \<Rightarrow> map_option finish st) = Some (finish (Out (take n (drop o1 (stream_data cs')))))"
  proof (cases "o1 = 0 \<or> cs' = []")
    case True
    then have "partial_chunk n ?src workspace o1 (length pre) = Some (At o1 (length pre) [])"
      using s(2) by (auto simp: partial_chunk_def)
    moreover have "rest_loop n ?src o1 (length pre) [] = Some (Out (take n (stream_data cs')))"
      using rest_loop_stream [OF s(3,2), of "[]" n o1] True by auto
    ultimately show ?thesis using True by auto
  next
    case False
    then obtain c cs2 where cs': "cs' = c # cs2" by (cases cs') auto
    have o1: "0 < o1" "o1 < 0x1000" workspace using False s(4,5) w by auto
    have c: "chunk_ok c" "?src = pre @ chunk_bytes c @ stream_bytes cs2" using s(2,3) cs' by simp_all
    show ?thesis
    proof (cases "n = 0")
      case True
      then have "partial_chunk n ?src workspace o1 (length pre) = Some (Out [])"
        using header_parts [OF c(1)] word_at_chunk [OF c(2)] c(2) o1(1) by (auto simp: partial_chunk_def Let_def)
      with True show ?thesis by simp
    next
      case n: False
      let ?dst = "take n (drop o1 (plain c))"
      have "cs2 = [] \<or> (length ?dst + o1) mod 0x1000 = 0 \<or> length ?dst = n"
        using s(3) cs' o1(2) by (auto simp: min_def)
      then have "rest_loop n ?src o1 (length (pre @ chunk_bytes c)) ?dst =
          Some (Out (?dst @ take (n - length ?dst) (stream_data cs2)))"
        using s(3) cs' c(2) by (intro rest_loop_stream) auto
      moreover have "?dst @ take (n - length ?dst) (stream_data cs2) = take n (drop o1 (stream_data cs'))"
        using s(3) cs' o1(2) by (cases "cs2 = []") (auto simp: min_def)
      ultimately show ?thesis
        using partial_chunk_stream [OF c o1(1) n] o1(3) by simp
    qed
  qed
  with long s(1,6) show ?thesis by (simp add: lznt1_decompress_def finish_def out_def)
qed

text \<open>
  C8. On every well-formed stream of chunks, each stored plainly or as literals and references,
  \<^verbatim>\<open>RtlDecompressFragment\<close> succeeds and returns the data of the stream from the offset on, as far as the output
  reaches. (The workspace is needed only when the offset is not 0.) Every chunk but the last one stands for
  4096 bytes. This is what the code does; the tests of \<^verbatim>\<open>modules/rostests/winetests/ntdll/rtl.c\<close> have
  expectations that they mark as not met: a failure for plain chunks in a fragment and for a reference
  that the output cuts off, and one byte of padding for an offset behind the data of the chunk.
\<close>

theorem RtlDecompressFragment_correct:
  assumes "stream_ok cs" and "cs \<noteq> []" and "workspace \<or> offset = 0"
    and "format AND NOT COMPRESSION_ENGINE_MAXIMUM = COMPRESSION_FORMAT_LZNT1"
  shows "RtlDecompressFragment format n (stream_bytes cs) offset workspace =
    Some (STATUS_SUCCESS, take n (drop offset (stream_data cs)), Some (length (take n (drop offset (stream_data cs)))))"
  using lznt1_decompress_stream [OF assms(1-3)] assms(4) by (simp add: RtlDecompressFragment_def)

section \<open>Compression\<close>

function raw_chunks :: "UCHAR list \<Rightarrow> chunk list" where
  "raw_chunks src = (if src = [] then [] else Raw (take 0x1000 src) # raw_chunks (drop 0x1000 src))"
  by pat_completeness auto
termination
  by (relation "measure length") auto

declare raw_chunks.simps [simp del]

lemma raw_chunks_ok: "stream_ok (raw_chunks src) \<and> stream_data (raw_chunks src) = src \<and> (raw_chunks src = [] \<longleftrightarrow> src = [])"
proof (induction src rule: raw_chunks.induct)
  case (1 src)
  show ?case
  proof (cases "src = []")
    case True
    then show ?thesis by (simp add: raw_chunks.simps)
  next
    case False
    have "raw_chunks src = Raw (take 0x1000 src) # raw_chunks (drop 0x1000 src)" using False by (subst raw_chunks.simps) simp
    with 1 [OF False] False show ?thesis by (auto simp: min_def)
  qed
qed

lemma raw_chunks_length:
  "length (stream_bytes (raw_chunks src)) = length src + 2 * ((length src + 0xFFF) div 0x1000)"
proof (induction src rule: raw_chunks.induct)
  case (1 src)
  show ?case
  proof (cases "src = []")
    case True
    then show ?thesis by (simp add: raw_chunks.simps)
  next
    case False
    have eq: "raw_chunks src = Raw (take 0x1000 src) # raw_chunks (drop 0x1000 src)" using False by (subst raw_chunks.simps) simp
    have "(length src + 0xFFF) div 0x1000 = 1 + (length (drop 0x1000 src) + 0xFFF) div 0x1000"
      using False by (cases "length src \<le> 0x1000") (auto simp: le_div_geq Suc_le_eq)
    with 1 [OF False] show ?thesis unfolding eq by (simp add: min_def)
  qed
qed

lemma compress_loop_raw:
  assumes "length dst \<le> n"
  shows "if length dst + length (stream_bytes (raw_chunks src)) \<le> n
    then compress_loop src n dst = (STATUS_SUCCESS, dst @ stream_bytes (raw_chunks src), Some (length dst + length (stream_bytes (raw_chunks src))))
    else fst (compress_loop src n dst) = STATUS_BUFFER_TOO_SMALL"
  using assms
proof (induction src n dst rule: compress_loop.induct)
  case (1 src n dst)
  show ?case
  proof (cases "src = []")
    case True
    then show ?thesis using "1.prems" by (simp add: compress_loop.simps raw_chunks.simps)
  next
    case False
    let ?k = "min 0x1000 (length src)"
    let ?c = "Raw (take 0x1000 src)"
    have eq: "raw_chunks src = ?c # raw_chunks (drop 0x1000 src)" using False by (subst raw_chunks.simps) simp
    have c: "chunk_bytes ?c = word_bytes (0x3000 OR of_nat (?k - 1)) @ take ?k src" "length (chunk_bytes ?c) = 2 + ?k"
      by (simp_all add: chunk_bytes_def header_def word_bytes_def min_def)
    have drop: "drop ?k src = drop 0x1000 src" by (simp add: min_def)
    note step = compress_loop.simps [of src n dst, unfolded Let_def if_not_P [OF False], folded c(1), unfolded drop]
    show ?thesis
    proof (cases "length dst + 2 + ?k > n")
      case True
      then have "compress_loop src n dst = (STATUS_BUFFER_TOO_SMALL, dst, None)" unfolding step by simp
      with True c(2) show ?thesis unfolding eq by simp
    next
      case fits: False
      then have loop: "compress_loop src n dst = compress_loop (drop 0x1000 src) n (dst @ chunk_bytes ?c)"
        unfolding step by simp
      have "length (dst @ chunk_bytes ?c) \<le> n" using fits c(2) by simp
      from "1.IH" [OF False refl fits, folded c(1), unfolded drop, OF this] show ?thesis
        unfolding eq loop by (simp add: add.assoc)
    qed
  qed
qed

text \<open>
  C10. For data that is not empty \<^verbatim>\<open>RtlCompressBuffer\<close> succeeds exactly when the output has room for the data and a
  header of two bytes for every 4096 bytes of it, and \<^verbatim>\<open>RtlDecompressBuffer\<close> gives the data back. So the
  output is larger than the data: chunks are stored plainly, where a test of
  \<^verbatim>\<open>modules/rostests/winetests/ntdll/rtl.c\<close>, marked as not met, expects them to be smaller.
\<close>

theorem RtlCompressBuffer_roundtrip:
  assumes "UncompressedBuffer \<noteq> []" and "length UncompressedBuffer \<le> n"
  defines "needed \<equiv> length UncompressedBuffer + 2 * ((length UncompressedBuffer + 0xFFF) div 0x1000)"
  shows "if needed \<le> CompressedBufferSize
    then \<exists>compressed. RtlCompressBuffer COMPRESSION_FORMAT_LZNT1 UncompressedBuffer CompressedBufferSize =
           (STATUS_SUCCESS, compressed, Some needed) \<and> length compressed = needed \<and>
         RtlDecompressBuffer COMPRESSION_FORMAT_LZNT1 n compressed =
           Some (STATUS_SUCCESS, UncompressedBuffer, Some (length UncompressedBuffer))
    else fst (RtlCompressBuffer COMPRESSION_FORMAT_LZNT1 UncompressedBuffer CompressedBufferSize) = STATUS_BUFFER_TOO_SMALL"
proof -
  let ?cs = "raw_chunks UncompressedBuffer"
  have len: "length (stream_bytes ?cs) = needed" unfolding needed_def by (rule raw_chunks_length)
  have cs: "stream_ok ?cs" "stream_data ?cs = UncompressedBuffer" "?cs \<noteq> []" using raw_chunks_ok assms(1) by auto
  have "lznt1_decompress n (stream_bytes ?cs) 0 False =
      Some (STATUS_SUCCESS, UncompressedBuffer, Some (length UncompressedBuffer))"
    using lznt1_decompress_stream [OF cs(1,3), of False 0 n] cs(2) assms(2) by simp
  then have "RtlDecompressBuffer COMPRESSION_FORMAT_LZNT1 n (stream_bytes ?cs) =
      Some (STATUS_SUCCESS, UncompressedBuffer, Some (length UncompressedBuffer))"
    by (simp add: RtlDecompressBuffer_def RtlDecompressFragment_def)
  with compress_loop_raw [of "[]" CompressedBufferSize UncompressedBuffer] len show ?thesis
    by (auto simp: RtlCompressBuffer_def RtlpCompressBufferLZNT1_def)
qed

section \<open>Examples\<close>

text \<open>Two letters and a reference, seven bytes for the seven letters \<^verbatim>\<open>abababa\<close>.\<close>

lemma example_stream:
  "stream_bytes [Packed [Literal 0x61, Literal 0x62, Reference 2 5]] = [0x04, 0xB0, 0x04, 0x61, 0x62, 0x02, 0x10]"
  by code_simp

lemma RtlDecompressFragment_correct_witness:
  "RtlDecompressFragment 0x102 4 [0x04, 0xB0, 0x04, 0x61, 0x62, 0x02, 0x10] 1 True =
     Some (STATUS_SUCCESS, [0x62, 0x61, 0x62, 0x61], Some 4)"
proof -
  have ok: "stream_ok [Packed [Literal 0x61, Literal 0x62, Reference 2 5]]" by code_simp
  have data: "stream_data [Packed [Literal 0x61, Literal 0x62, Reference 2 5]] = [0x61, 0x62, 0x61, 0x62, 0x61, 0x62, 0x61]"
    by code_simp
  show ?thesis using RtlDecompressFragment_correct [OF ok, of True 1 "0x102" 4] unfolding example_stream data by simp
qed

lemma RtlCompressBuffer_roundtrip_witness:
  "\<exists>compressed. RtlCompressBuffer COMPRESSION_FORMAT_LZNT1 [1, 2, 3] 5 = (STATUS_SUCCESS, compressed, Some 5) \<and>
     length compressed = 5 \<and>
     RtlDecompressBuffer COMPRESSION_FORMAT_LZNT1 10 compressed = Some (STATUS_SUCCESS, [1, 2, 3], Some 3)"
proof -
  have "length [1, 2, 3 :: UCHAR] = 3" "3 + 2 * ((3 + 0xFFF) div 0x1000) = (5 :: nat)" by simp_all
  with RtlCompressBuffer_roundtrip [of "[1, 2, 3]" 10 5] show ?thesis by (simp del: list.size)
qed

end
