(* ===== verification/Spec2Isabelle.thy ===== *)
theory Spec2Isabelle
  imports Rtl_Bitmap_Runs Rtl_Bitmap_Count Rtl_Acl_Edit Rtl_Sd_Valid Se_Traverse
    Rtl_Calendar Rtl_Range_Merge Ex_Rundown_Live Ex_Rundown_Cache Io_RemLock_Live Fs_Name_Props
    Rtl_Compress_Props
begin

text \<open>
  A verification development for a part of ReactOS, an operating system kernel with its run-time library,
  written in C. Paths below are relative to \<^verbatim>\<open>src/\<close>.

  The parts that are modelled, and how they work together. The run-time library (\<^verbatim>\<open>sdk/lib/rtl\<close>) has the
  plain data structures: bitmaps, security identifiers (SIDs), access control lists (ACLs), security
  descriptors, time, range lists and compressed buffers. The security reference monitor (\<^verbatim>\<open>ntoskrnl/se\<close>) builds on the second
  group: an access check reads the ACL of a security descriptor, compares its SIDs with those of a token and
  decides which rights are granted. The executive and the I/O manager have two synchronisation primitives,
  rundown protection (\<^verbatim>\<open>ntoskrnl/ex/rundown.c\<close>) and remove locks (\<^verbatim>\<open>ntoskrnl/io/iomgr/remlock.c\<close>), by which
  an object is kept while it is in use. The file system library (\<^verbatim>\<open>ntoskrnl/fsrtl\<close>) matches file names
  against expressions with wild cards.

  How the code is modelled. Every C integer is a word of its width, so that arithmetic wraps around as in C;
  lengths and positions that the code never lets overflow are natural numbers. Structures are records with
  the field names of the source. Code on variable-length structures works on a byte memory
  (theory \<^verbatim>\<open>Ros_Memory\<close>), other arrays and linked lists are lists. What a function takes from its environment
  (success of an allocation, the tokens of the thread, exceptions of user-mode probes, the clock) is an
  argument. The layout is the one of a 32-bit build. \<^verbatim>\<open>None\<close> stands for a failed assertion or undefined
  behaviour, so that a theorem with \<^verbatim>\<open>Some\<close> in its conclusion also says that neither happens. Loops are
  recursive functions with a termination proof; where a loop of the source need not end it is a
  \<^verbatim>\<open>partial_function\<close> in the option type and \<^verbatim>\<open>None\<close> is that it does not end. No fuel is used.

  Shared theories.
  \<^item> \<^verbatim>\<open>Ros_Prelude\<close>: C types, status codes, lemmas on words and lists.
  \<^item> \<^verbatim>\<open>Ros_Memory\<close>: byte memory with little-endian fields, copying and zeroing.
  \<^item> \<^verbatim>\<open>Ros_Fair\<close>: infinite runs under weak fairness, and the locale \<^verbatim>\<open>helpful\<close>: when some actor's move always
  brings a rank down, what is waited for is reached.

  Bitmaps, \<^verbatim>\<open>sdk/lib/rtl/bitmap.c\<close>. \<^verbatim>\<open>Rtl_Bitmap\<close> has every function of the file and the contract of the two
  run scanners (locale \<^verbatim>\<open>run_scanner\<close>). \<^verbatim>\<open>Rtl_Bitmap_Write\<close> shows that range writes change exactly their
  range (locale \<^verbatim>\<open>bit_writer\<close>), \<^verbatim>\<open>Rtl_Bitmap_Search\<close> that a search finds the first run from the hint on
  (locales \<^verbatim>\<open>run_search\<close> and \<^verbatim>\<open>run_taker\<close>), \<^verbatim>\<open>Rtl_Bitmap_Runs\<close> treats the enumeration of runs and
  \<^verbatim>\<open>Rtl_Bitmap_Count\<close> counting and single bits. Each locale is interpreted for clear and for set bits.

  SIDs, ACLs and security descriptors, \<^verbatim>\<open>sid.c\<close>, \<^verbatim>\<open>acl.c\<close>, \<^verbatim>\<open>sd.c\<close> and \<^verbatim>\<open>access.c\<close> of
  \<^verbatim>\<open>sdk/lib/rtl\<close>. \<^verbatim>\<open>Rtl_Sid\<close>, \<^verbatim>\<open>Rtl_Acl\<close>, \<^verbatim>\<open>Rtl_Sd\<close> and \<^verbatim>\<open>Rtl_Access\<close> have the functions. In
  \<^verbatim>\<open>Rtl_Acl_Lists\<close> and \<^verbatim>\<open>Rtl_Acl_Edit\<close> an ACL in memory is read as a list of byte strings: appending,
  inserting and deleting on memory refine the operations on the list; appending and deleting keep the ACL valid.
  \<^verbatim>\<open>Rtl_Sd_Convert\<close> and \<^verbatim>\<open>Rtl_Sd_Valid\<close> show that the conversions between the absolute and the
  self-relative form keep the contents, and what a validated buffer is safe for.

  Access checks, \<^verbatim>\<open>ntoskrnl/se\<close>. \<^verbatim>\<open>Se_Token\<close>: the fields of a token and membership of SIDs.
  \<^verbatim>\<open>Se_Priv\<close>: privilege checks, with their assertions. \<^verbatim>\<open>Se_AccessState\<close>: the privileges that an access state
  records, as a set in byte memory that moves to a block of the pool when it grows, and what deleting the
  state frees.
  \<^verbatim>\<open>Se_ObjType\<close> and \<^verbatim>\<open>Se_ObjTree\<close>: object type lists as trees in preorder (locale \<^verbatim>\<open>object_update\<close>).
  \<^verbatim>\<open>Se_AccessCheck\<close>: the analysis of a DACL and the system calls; their assertions (an owner in the
  descriptor, a DACL, some right asked for) are hypotheses of the theorems. \<^verbatim>\<open>Se_Decision\<close> reads a DACL as an ordered
  list of rules and shows that both analyses follow the first rule that applies; \<^verbatim>\<open>Se_Grant\<close> states what
  \<^verbatim>\<open>SeAccessCheck\<close> grants, for requests of specific rights and of the maximum; \<^verbatim>\<open>Se_Traverse\<close> compares the
  shortcut for traversal with the full check.

  Time, \<^verbatim>\<open>sdk/lib/rtl/time.c\<close>: functions in \<^verbatim>\<open>Rtl_Time\<close>; \<^verbatim>\<open>Rtl_Calendar\<close> shows that the conversions are
  inverse to each other and which day a recurring cutover date is.

  Range lists, \<^verbatim>\<open>sdk/lib/rtl/rangelist.c\<close>: functions in \<^verbatim>\<open>Rtl_Range\<close>; \<^verbatim>\<open>Rtl_Range_Spec\<close> follows the set
  of numbers that a list covers over runs of operations, \<^verbatim>\<open>Rtl_Range_Find\<close> has the searches and
  \<^verbatim>\<open>Rtl_Range_Merge\<close> merging and inversion.

  Rundown protection, \<^verbatim>\<open>ntoskrnl/ex/rundown.c\<close> and inline functions of
  \<^verbatim>\<open>ntoskrnl/include/internal/ex.h\<close>. In \<^verbatim>\<open>Ex_Rundown\<close> each routine makes one access to the shared count at a
  time; an inductive relation interleaves any number of client threads with the owner, and ghost counters say
  which references a thread has. \<^verbatim>\<open>Ex_Rundown_Safe\<close> proves the invariant: after the wait no reference is out,
  no assertion fails, no reference is given out during the rundown. \<^verbatim>\<open>Ex_Rundown_Live\<close> shows that no wake-up
  is lost: the wait returns. Before the wait block is in place the loop of the owner may lose the race
  against clients again and again, so the claim starts after that. \<^verbatim>\<open>Ex_Rundown_Cache\<close> has the cache-aware
  variant; it shows where its counts lie, and that the condition of its wait is the wrong way round.

  Remove locks, \<^verbatim>\<open>ntoskrnl/io/iomgr/remlock.c\<close>: \<^verbatim>\<open>Io_RemLock\<close>, \<^verbatim>\<open>Io_RemLock_Safe\<close> and
  \<^verbatim>\<open>Io_RemLock_Live\<close> treat them in the same way: no user is left when the wait returns, the wait returns when
  the device is left alone, and the tracking blocks of a debug lock account for its users.

  File names, \<^verbatim>\<open>ntoskrnl/fsrtl/name.c\<close>: functions in \<^verbatim>\<open>Fs_Name\<close>. \<^verbatim>\<open>Fs_Match\<close> has a reference matcher for
  wild cards and the states that one pass of the automaton reaches; \<^verbatim>\<open>Fs_Name_Correct\<close> proves the three
  nested loops correct, with the bound on the arrays; \<^verbatim>\<open>Fs_Name_Props\<close> has the properties of the routines.

  Compression, \<^verbatim>\<open>sdk/lib/rtl/compress.c\<close>: functions in \<^verbatim>\<open>Rtl_Compress\<close>. \<^verbatim>\<open>Rtl_Compress_Safe\<close> shows that
  decompression reads and writes inside its buffers on every input. \<^verbatim>\<open>Rtl_Lznt1\<close> defines what a sequence of
  literals and references stands for and how it is encoded, with the table of the widths of a reference written out, \<^verbatim>\<open>Rtl_Compress_Props\<close> adds chunks with their
  headers: decompression of an encoded stream gives its data from the offset on, and compression is undone.
  The pointer to the final size is taken to be given, and no buffer reaches the end of the address space.

  Not modelled. Auditing, token creation and queries, impersonation and the ports of the security reference
  monitor work on kernel objects, threads and ports whose behaviour is spread over the whole kernel. The heap,
  code page conversion and the balanced trees of the run-time library, the scheduler, memory manager, object,
  process, I/O and configuration managers, the hardware abstraction layer, the boot loader, drivers, the
  graphics subsystem and all user-mode code are left out: they need a model of the processor, of devices, of
  page tables or of data files that are not part of the sources. In the modelled parts, locks that are held
  over a whole function are left out (the function is one step), guarded reads of user memory are modelled
  for readable memory or take their exception as an argument, and debug output is dropped.

  Deviations. Where the code does not do what it is meant to do the theorems state what it does: they are about
  the code, and the conditions under which it is right are their hypotheses.
\<close>

end
